(* ===== verification/Prelude.thy ===== *)
theory Prelude
  imports Complex_Main "HOL-Library.Word" "HOL-Library.Char_ord" "HOL-Library.List_Lexorder"
begin

text \<open>
  Shared base of the development: results with errors, programs that carry a mutable state and may
  raise, the string functions of Python the code uses, and the generic lemmas on digits and on
  lexicographic order that the components share.

  \<^item> \<open>'e + 'a\<close> is the result of a call: \<open>Inl e\<close> an exception, \<open>Inr x\<close> a value.
  \<^item> \<open>('s, 'e, 'a) prog\<close> is a piece of code that reads and writes a state and may raise.
    As in Python, raising does not undo the writes made before it.
  \<^item> \<open>prog_simps\<close> evaluates such programs step by step.
\<close>

named_theorems prog_simps "evaluation of programs"
named_theorems value_simps "evaluation of value objects"

section \<open>Results\<close>

definition bindR :: "'e + 'a \<Rightarrow> ('a \<Rightarrow> 'e + 'b) \<Rightarrow> 'e + 'b" where
  "bindR r f = (case r of Inl e \<Rightarrow> Inl e | Inr x \<Rightarrow> f x)"

lemma bindR_simps [simp]:
  "bindR (Inl e) f = Inl e"
  "bindR (Inr x) f = f x"
  by (simp_all add: bindR_def)

lemma bindR_Inr_iff: "bindR r f = Inr y \<longleftrightarrow> (\<exists>x. r = Inr x \<and> f x = Inr y)"
  by (cases r) auto

lemma bindR_Inl_iff: "bindR r f = Inl e \<longleftrightarrow> r = Inl e \<or> (\<exists>x. r = Inr x \<and> f x = Inl e)"
  by (cases r) auto

text \<open>Running a list of operations one after the other; the first exception ends the run.\<close>

fun runR :: "('op \<Rightarrow> 'a \<Rightarrow> 'e + 'a) \<Rightarrow> 'op list \<Rightarrow> 'a \<Rightarrow> 'e + 'a" where
  "runR f [] a = Inr a"
| "runR f (x # xs) a = bindR (f x a) (runR f xs)"

lemma runR_append: "runR f (xs @ ys) a = bindR (runR f xs a) (runR f ys)"
  by (induction xs arbitrary: a) (auto simp: bindR_def split: sum.splits)

section \<open>Programs\<close>

type_synonym ('s, 'e, 'a) prog = "'s \<Rightarrow> ('e + 'a) \<times> 's"

definition returnP :: "'a \<Rightarrow> ('s, 'e, 'a) prog" where
  "returnP x = (\<lambda>s. (Inr x, s))"

definition raiseP :: "'e \<Rightarrow> ('s, 'e, 'a) prog" where
  "raiseP e = (\<lambda>s. (Inl e, s))"

definition bindP :: "('s, 'e, 'a) prog \<Rightarrow> ('a \<Rightarrow> ('s, 'e, 'b) prog) \<Rightarrow> ('s, 'e, 'b) prog" where
  "bindP m f = (\<lambda>s. case m s of (Inl e, t) \<Rightarrow> (Inl e, t) | (Inr x, t) \<Rightarrow> f x t)"

definition thenP :: "('s, 'e, 'a) prog \<Rightarrow> ('s, 'e, 'b) prog \<Rightarrow> ('s, 'e, 'b) prog" where
  "thenP m k = bindP m (\<lambda>_. k)"

text \<open>\<open>try: m; except Exception as e: h(e)\<close>.\<close>

definition tryP :: "('s, 'e, 'a) prog \<Rightarrow> ('e \<Rightarrow> ('s, 'e, 'a) prog) \<Rightarrow> ('s, 'e, 'a) prog" where
  "tryP m h = (\<lambda>s. case m s of (Inl e, t) \<Rightarrow> h e t | (Inr x, t) \<Rightarrow> (Inr x, t))"

definition liftP :: "'e + 'a \<Rightarrow> ('s, 'e, 'a) prog" where
  "liftP r = (\<lambda>s. (r, s))"

definition getP :: "('s \<Rightarrow> 'a) \<Rightarrow> ('s, 'e, 'a) prog" where
  "getP f = (\<lambda>s. (Inr (f s), s))"

definition modifyP :: "('s \<Rightarrow> 's) \<Rightarrow> ('s, 'e, unit) prog" where
  "modifyP f = (\<lambda>s. (Inr (), f s))"

text \<open>
  \<open>async with cm: body\<close>: \<open>enter\<close> runs first; \<open>leave\<close> runs after the body and is told the
  exception, if there was one. The managers of this program never suppress an exception, so the
  body's exception is raised again unless \<open>leave\<close> raises one of its own.
\<close>

definition withP ::
  "('s, 'e, 'c) prog \<Rightarrow> ('c \<Rightarrow> 'e option \<Rightarrow> ('s, 'e, unit) prog) \<Rightarrow> ('c \<Rightarrow> ('s, 'e, 'a) prog)
   \<Rightarrow> ('s, 'e, 'a) prog" where
  "withP enter leave body = bindP enter (\<lambda>c s.
     case body c s of
       (Inr x, t) \<Rightarrow> thenP (leave c None) (returnP x) t
     | (Inl e, t) \<Rightarrow> thenP (leave c (Some e)) (raiseP e) t)"

lemma returnP_apply [prog_simps]: "returnP x s = (Inr x, s)"
  by (simp add: returnP_def)

lemma raiseP_apply [prog_simps]: "raiseP e s = (Inl e, s)"
  by (simp add: raiseP_def)

lemma liftP_apply [prog_simps]: "liftP r s = (r, s)"
  by (simp add: liftP_def)

lemma getP_apply [prog_simps]: "getP f s = (Inr (f s), s)"
  by (simp add: getP_def)

lemma modifyP_apply [prog_simps]: "modifyP f s = (Inr (), f s)"
  by (simp add: modifyP_def)

lemma bindP_apply [prog_simps]:
  "bindP m f s = (case m s of (Inl e, t) \<Rightarrow> (Inl e, t) | (Inr x, t) \<Rightarrow> f x t)"
  by (simp add: bindP_def)

lemma thenP_apply [prog_simps]:
  "thenP m k s = (case m s of (Inl e, t) \<Rightarrow> (Inl e, t) | (Inr x, t) \<Rightarrow> k t)"
  by (simp add: thenP_def bindP_def)

lemma tryP_apply [prog_simps]:
  "tryP m h s = (case m s of (Inl e, t) \<Rightarrow> h e t | (Inr x, t) \<Rightarrow> (Inr x, t))"
  by (simp add: tryP_def)

lemma withP_apply [prog_simps]:
  "withP enter leave body s =
     (case enter s of
        (Inl e, t) \<Rightarrow> (Inl e, t)
      | (Inr c, t) \<Rightarrow> (case body c t of
            (Inr x, u) \<Rightarrow> thenP (leave c None) (returnP x) u
          | (Inl e, u) \<Rightarrow> thenP (leave c (Some e)) (raiseP e) u))"
  by (simp add: withP_def bindP_def)

text \<open>Python's \<open>for x in xs: f(x)\<close>.\<close>

fun forP :: "('x \<Rightarrow> ('s, 'e, unit) prog) \<Rightarrow> 'x list \<Rightarrow> ('s, 'e, unit) prog" where
  "forP f [] = returnP ()"
| "forP f (x # xs) = thenP (f x) (forP f xs)"

text \<open>A program that leaves a part of the state as it was, however it ends.\<close>

definition keeps :: "('s \<Rightarrow> 'p) \<Rightarrow> ('s, 'e, 'a) prog \<Rightarrow> bool" where
  "keeps g m \<longleftrightarrow> (\<forall>s. g (snd (m s)) = g s)"

lemma keepsD: "keeps g m \<Longrightarrow> g (snd (m s)) = g s"
  by (simp add: keeps_def)

lemma keepsI: "(\<And>s. g (snd (m s)) = g s) \<Longrightarrow> keeps g m"
  by (simp add: keeps_def)

lemma keeps_pure [intro]:
  "keeps g (returnP x)" "keeps g (raiseP e)" "keeps g (liftP r)" "keeps g (getP f)"
  by (simp_all add: keeps_def prog_simps)

lemma keeps_bindP [intro]:
  assumes "keeps g m" and "\<And>x. keeps g (f x)"
  shows "keeps g (bindP m f)"
proof (rule keepsI)
  fix s
  show "g (snd (bindP m f s)) = g s"
    using keepsD [OF assms(1), of s] keepsD [OF assms(2)]
    by (cases "m s") (auto simp: bindP_apply split: sum.splits)
qed

lemma keeps_thenP [intro]: "keeps g m \<Longrightarrow> keeps g k \<Longrightarrow> keeps g (thenP m k)"
  unfolding thenP_def by (rule keeps_bindP)

lemma keeps_tryP [intro]:
  assumes "keeps g m" and "\<And>e. keeps g (h e)"
  shows "keeps g (tryP m h)"
proof (rule keepsI)
  fix s
  show "g (snd (tryP m h s)) = g s"
    using keepsD [OF assms(1), of s] keepsD [OF assms(2)]
    by (cases "m s") (auto simp: tryP_apply split: sum.splits)
qed

text \<open>
  A program that behaves, through an abstraction of its state, exactly as another one: same results
  and exceptions, and abstract states that correspond.
\<close>

definition simulates :: "('s \<Rightarrow> 't) \<Rightarrow> ('s, 'e, 'a) prog \<Rightarrow> ('t, 'e, 'a) prog \<Rightarrow> bool" where
  "simulates f p q \<longleftrightarrow> (\<forall>s. q (f s) = (fst (p s), f (snd (p s))))"

lemma simulatesD: "simulates f p q \<Longrightarrow> q (f s) = (fst (p s), f (snd (p s)))"
  by (simp add: simulates_def)

lemma simulatesI: "(\<And>s. q (f s) = (fst (p s), f (snd (p s)))) \<Longrightarrow> simulates f p q"
  by (simp add: simulates_def)

lemma simulates_pure [intro]:
  "simulates f (returnP x) (returnP x)" "simulates f (raiseP e) (raiseP e)" "simulates f (liftP r) (liftP r)"
  by (simp_all add: simulates_def prog_simps)

lemma simulates_bindP [intro]:
  assumes "simulates f p q" and "\<And>x. simulates f (g x) (k x)"
  shows "simulates f (bindP p g) (bindP q k)"
proof (rule simulatesI)
  fix s
  show "bindP q k (f s) = (fst (bindP p g s), f (snd (bindP p g s)))"
    using simulatesD [OF assms(1), of s] simulatesD [OF assms(2)]
    by (cases "p s") (auto simp: bindP_apply split: sum.splits)
qed

lemma simulates_thenP [intro]: "simulates f p q \<Longrightarrow> simulates f g k \<Longrightarrow> simulates f (thenP p g) (thenP q k)"
  unfolding thenP_def by (rule simulates_bindP)

lemma simulates_tryP [intro]:
  assumes "simulates f p q" and "\<And>e. simulates f (g e) (k e)"
  shows "simulates f (tryP p g) (tryP q k)"
proof (rule simulatesI)
  fix s
  show "tryP q k (f s) = (fst (tryP p g s), f (snd (tryP p g s)))"
    using simulatesD [OF assms(1), of s] simulatesD [OF assms(2)]
    by (cases "p s") (auto simp: tryP_apply split: sum.splits)
qed

lemma simulates_withP [intro]:
  assumes "simulates f p q" and "\<And>c. simulates f (b c) (b' c)" and "\<And>c x. simulates f (l c x) (l' c x)"
  shows "simulates f (withP p l b) (withP q l' b')"
proof -
  have "simulates f (\<lambda>s. case b c s of (Inr x, t) \<Rightarrow> thenP (l c None) (returnP x) t
         | (Inl e, t) \<Rightarrow> thenP (l c (Some e)) (raiseP e) t)
      (\<lambda>s. case b' c s of (Inr x, t) \<Rightarrow> thenP (l' c None) (returnP x) t
         | (Inl e, t) \<Rightarrow> thenP (l' c (Some e)) (raiseP e) t)" for c
  proof (rule simulatesI)
    fix s
    have "simulates f (thenP (l c None) (returnP x)) (thenP (l' c None) (returnP x))"
      "simulates f (thenP (l c (Some e)) (raiseP e)) (thenP (l' c (Some e)) (raiseP e))" for x e
      using assms(3) by auto
    note * = this [THEN simulatesD]
    show "(case b' c (f s) of (Inr x, t) \<Rightarrow> thenP (l' c None) (returnP x) t
         | (Inl e, t) \<Rightarrow> thenP (l' c (Some e)) (raiseP e) t) =
      (fst (case b c s of (Inr x, t) \<Rightarrow> thenP (l c None) (returnP x) t
         | (Inl e, t) \<Rightarrow> thenP (l c (Some e)) (raiseP e) t),
       f (snd (case b c s of (Inr x, t) \<Rightarrow> thenP (l c None) (returnP x) t
         | (Inl e, t) \<Rightarrow> thenP (l c (Some e)) (raiseP e) t)))"
      using simulatesD [OF assms(2), of c s] *
      by (cases "b c s") (auto split: sum.splits)
  qed
  with assms(1) show ?thesis unfolding withP_def by (rule simulates_bindP)
qed

lemma simulates_forP [intro]:
  "(\<And>x. simulates f (p x) (q x)) \<Longrightarrow> simulates f (forP p xs) (forP q xs)"
  by (induction xs) auto

lemma keeps_forP [intro]: "(\<And>x. keeps g (p x)) \<Longrightarrow> keeps g (forP p xs)"
  by (induction xs) auto

lemma keeps_withP [intro]:
  fixes b :: "'c \<Rightarrow> ('s, 'e, 'a) prog"
  assumes "keeps g p" and "\<And>c. keeps g (b c)" and "\<And>c x. keeps g (l c x)"
  shows "keeps g (withP p l b)"
proof (rule keepsI)
  fix s
  have leave: "keeps g (thenP (l c None) (returnP x :: ('s, 'e, 'a) prog))"
    "keeps g (thenP (l c (Some e)) (raiseP e :: ('s, 'e, 'a) prog))" for c x e
    using assms(3) by auto
  have body: "g (snd (case b c t of (Inr x, v) \<Rightarrow> thenP (l c None) (returnP x) v
         | (Inl e, v) \<Rightarrow> thenP (l c (Some e)) (raiseP e) v)) = g t" for c t
    using keepsD [OF assms(2), of c t] leave [THEN keepsD]
    by (cases "b c t") (auto split: sum.splits)
  show "g (snd (withP p l b s)) = g s"
    using keepsD [OF assms(1), of s] body
    by (cases "p s") (auto simp: withP_def bindP_def split: sum.splits)
qed

section \<open>Digits\<close>

definition from_digits :: "nat \<Rightarrow> nat list \<Rightarrow> nat" where
  "from_digits b ds = foldl (\<lambda>a d. a * b + d) 0 ds"

lemma from_digits_Nil [simp]: "from_digits b [] = 0"
  by (simp add: from_digits_def)

lemma from_digits_snoc [simp]: "from_digits b (ds @ [d]) = from_digits b ds * b + d"
  by (simp add: from_digits_def)

lemma from_digits_append:
  "from_digits b (xs @ ys) = from_digits b xs * b ^ length ys + from_digits b ys"
  by (induction ys rule: rev_induct) (auto simp: algebra_simps simp flip: append_assoc)

lemma from_digits_Cons: "from_digits b (d # ds) = d * b ^ length ds + from_digits b ds"
  using from_digits_append [of b "[d]" ds] by (simp add: from_digits_def)

lemma from_digits_replicate0 [simp]: "from_digits b (replicate n 0) = 0"
  by (induction n) (auto simp: from_digits_Cons)

lemma from_digits_less: "\<forall>d \<in> set ds. d < b \<Longrightarrow> from_digits b ds < b ^ length ds"
proof (induction ds rule: rev_induct)
  case Nil
  then show ?case by simp
next
  case (snoc d ds)
  then have "from_digits b ds + 1 \<le> b ^ length ds" and "d < b" by auto
  then have "(from_digits b ds + 1) * b \<le> b ^ length ds * b" by (intro mult_right_mono) auto
  with \<open>d < b\<close> show ?case by (simp add: algebra_simps)
qed

text \<open>The decimal digits of a number, most significant first.\<close>

fun digits10 :: "nat \<Rightarrow> nat list" where
  "digits10 n = (if n < 10 then [n] else digits10 (n div 10) @ [n mod 10])"

declare digits10.simps [simp del]

lemma digits10_small: "n < 10 \<Longrightarrow> digits10 n = [n]"
  by (subst digits10.simps) simp

lemma digits10_step: "10 \<le> n \<Longrightarrow> digits10 n = digits10 (n div 10) @ [n mod 10]"
  by (subst digits10.simps) simp

lemma digits10_bound: "d \<in> set (digits10 n) \<Longrightarrow> d < 10"
proof (induction n rule: digits10.induct)
  case (1 n)
  then show ?case
    by (cases "n < 10") (auto simp: digits10_small digits10_step not_less)
qed

lemma from_digits_digits10 [simp]: "from_digits 10 (digits10 n) = n"
proof (induction n rule: digits10.induct)
  case (1 n)
  show ?case
  proof (cases "n < 10")
    case True
    then show ?thesis by (simp add: digits10_small from_digits_Cons)
  next
    case False
    with 1 show ?thesis by (simp add: digits10_step)
  qed
qed

lemma digits10_nonempty [simp]: "digits10 n \<noteq> []"
  by (subst digits10.simps) simp

definition ndigits :: "nat \<Rightarrow> nat" where
  "ndigits n = length (digits10 n)"

lemma ndigits_pos [simp]: "0 < ndigits n"
  by (simp add: ndigits_def)

lemma ndigits_upper: "n < 10 ^ ndigits n"
  using from_digits_less [of "digits10 n" 10] digits10_bound [of _ n] by (simp add: ndigits_def)

lemma ndigits_lower: "10 \<le> n \<Longrightarrow> 10 ^ (ndigits n - 1) \<le> n"
proof (induction n rule: digits10.induct)
  case (1 n)
  have nd: "ndigits n = Suc (ndigits (n div 10))"
    using 1(2) by (simp add: ndigits_def digits10_step)
  show ?case
  proof (cases "10 \<le> n div 10")
    case True
    with 1 have ih: "10 ^ (ndigits (n div 10) - 1) \<le> n div 10" by simp
    have "(10::nat) ^ ndigits (n div 10) = 10 * 10 ^ (ndigits (n div 10) - 1)"
      using ndigits_pos [of "n div 10"] by (metis Suc_diff_1 power_Suc)
    with ih nd have "10 ^ (ndigits n - 1) \<le> 10 * (n div 10)" by simp
    also have "\<dots> \<le> n" by simp
    finally show ?thesis .
  next
    case False
    with nd 1(2) show ?thesis by (simp add: ndigits_def digits10_small)
  qed
qed

lemma ndigits_le_iff: "0 < k \<Longrightarrow> ndigits n \<le> k \<longleftrightarrow> n < 10 ^ k"
proof
  assume "ndigits n \<le> k"
  then have "(10::nat) ^ ndigits n \<le> 10 ^ k" by (intro power_increasing) auto
  with ndigits_upper [of n] show "n < 10 ^ k" by (rule less_le_trans)
next
  assume k: "0 < k" and n: "n < 10 ^ k"
  show "ndigits n \<le> k"
  proof (cases "10 \<le> n")
    case True
    from ndigits_lower [OF True] n have "(10::nat) ^ (ndigits n - 1) < 10 ^ k"
      by (rule le_less_trans)
    then have "ndigits n - 1 < k" by (rule power_less_imp_less_exp [rotated]) simp
    then show ?thesis by arith
  next
    case False
    with k show ?thesis by (simp add: ndigits_def digits10_small)
  qed
qed

end
