(* ===== verification/Py_Strings.thy ===== *)
theory Py_Strings
  imports Prelude
begin

text \<open>
  The operations on \<open>str\<close> the code uses: decimal rendering of numbers, \<open>upper\<close>, \<open>replace\<close>,
  \<open>startswith\<close>, \<open>strip\<close>, \<open>int(s, 16)\<close>, and the order that \<open>sorted\<close> compares with. Strings are
  lists of characters with codes below 256; comparison is by character code, position by
  position, as in Python.
\<close>

section \<open>Digits as characters\<close>

definition digit_char :: "nat \<Rightarrow> char" where
  "digit_char d = char_of (48 + d)"

definition is_digit :: "char \<Rightarrow> bool" where
  "is_digit c \<longleftrightarrow> 48 \<le> (of_char c :: nat) \<and> (of_char c :: nat) \<le> 57"

definition digit_val :: "char \<Rightarrow> nat" where
  "digit_val c = of_char c - 48"

lemma of_char_digit_char: "d < 10 \<Longrightarrow> (of_char (digit_char d) :: nat) = 48 + d"
  by (simp add: digit_char_def of_char_of)

lemma is_digit_digit_char [simp]: "d < 10 \<Longrightarrow> is_digit (digit_char d)"
  by (simp add: is_digit_def of_char_digit_char)

lemma digit_val_digit_char [simp]: "d < 10 \<Longrightarrow> digit_val (digit_char d) = d"
  by (simp add: digit_val_def of_char_digit_char)

text \<open>\<open>str(n)\<close> for a non-negative integer, and its reading.\<close>

definition nat_str :: "nat \<Rightarrow> string" where
  "nat_str n = map digit_char (digits10 n)"

definition nat_of_str :: "string \<Rightarrow> nat" where
  "nat_of_str s = from_digits 10 (map digit_val s)"

lemma nat_str_nonempty [simp]: "nat_str n \<noteq> []"
  by (simp add: nat_str_def)

lemma length_nat_str [simp]: "length (nat_str n) = ndigits n"
  by (simp add: nat_str_def ndigits_def)

lemma nat_str_digits: "list_all is_digit (nat_str n)"
  by (auto simp: nat_str_def list_all_iff dest: digits10_bound)

lemma map_digit_val_nat_str: "map digit_val (nat_str n) = digits10 n"
  by (simp add: nat_str_def map_idI digits10_bound)

lemma nat_of_str_nat_str [simp]: "nat_of_str (nat_str n) = n"
  by (simp add: nat_of_str_def map_digit_val_nat_str)

text \<open>A number written in exactly \<open>k\<close> decimal places (\<open>%0kd\<close>), for \<open>n < 10 ^ k\<close>.\<close>

definition pad_str :: "nat \<Rightarrow> nat \<Rightarrow> string" where
  "pad_str k n = replicate (k - ndigits n) (CHR ''0'') @ nat_str n"

definition int_str :: "int \<Rightarrow> string" where
  "int_str i = (if i < 0 then CHR ''-'' # nat_str (nat (- i)) else nat_str (nat i))"

section \<open>Case, prefixes, replacement\<close>

definition upper_char :: "char \<Rightarrow> char" where
  "upper_char c = (let n = of_char c :: nat in if 97 \<le> n \<and> n \<le> 122 then char_of (n - 32) else c)"

definition upper_str :: "string \<Rightarrow> string" where
  "upper_str s = map upper_char s"

definition lower_char :: "char \<Rightarrow> char" where
  "lower_char c = (let n = of_char c :: nat in if 65 \<le> n \<and> n \<le> 90 then char_of (n + 32) else c)"

fun starts_with :: "string \<Rightarrow> string \<Rightarrow> bool" where
  "starts_with [] s = True"
| "starts_with (p # ps) [] = False"
| "starts_with (p # ps) (c # cs) = (p = c \<and> starts_with ps cs)"

lemma starts_with_append [simp]: "starts_with p (p @ s)"
  by (induction p) auto

lemma starts_with_iff: "starts_with p s \<longleftrightarrow> (\<exists>r. s = p @ r)"
  by (induction p s rule: starts_with.induct) auto

text \<open>
  \<open>s.replace(old, new)\<close> for a non-empty \<open>old\<close>: the occurrences are taken from the left and do
  not overlap.
\<close>

function str_replace :: "string \<Rightarrow> string \<Rightarrow> string \<Rightarrow> string" where
  "str_replace old new s =
     (case s of
        [] \<Rightarrow> []
      | c # cs \<Rightarrow>
          if old \<noteq> [] \<and> starts_with old s
          then new @ str_replace old new (drop (length old) s)
          else c # str_replace old new cs)"
  by pat_completeness auto
termination
  by (relation "measure (\<lambda>(old, new, s). length s)") auto

declare str_replace.simps [simp del]

lemma str_replace_Nil [simp]: "str_replace old new [] = []"
  by (subst str_replace.simps) simp

lemma str_replace_Cons:
  "str_replace old new (c # cs) =
     (if old \<noteq> [] \<and> starts_with old (c # cs)
      then new @ str_replace old new (drop (length old) (c # cs))
      else c # str_replace old new cs)"
  by (subst str_replace.simps) simp

text \<open>A string in which the first character of \<open>old\<close> does not occur is left as it is.\<close>

lemma str_replace_absent: "p \<notin> set s \<Longrightarrow> str_replace (p # ps) new s = s"
  by (induction s) (auto simp: str_replace_Cons)

lemma str_replace_char_filter: "str_replace [p] [] s = filter (\<lambda>c. c \<noteq> p) s"
  by (induction s) (auto simp: str_replace_Cons)

text \<open>\<open>s.strip(...)\<close>, with the set of characters given as a predicate.\<close>

definition strip_by :: "(char \<Rightarrow> bool) \<Rightarrow> string \<Rightarrow> string" where
  "strip_by p s = rev (dropWhile p (rev (dropWhile p s)))"

lemma dropWhile_none: "\<forall>x \<in> set xs. \<not> P x \<Longrightarrow> dropWhile P xs = xs"
  by (cases xs) auto

lemma strip_by_absent:
  assumes "\<forall>c \<in> set s. \<not> p c"
  shows "strip_by p s = s"
  using assms by (simp add: strip_by_def dropWhile_none)

definition is_space :: "char \<Rightarrow> bool" where
  "is_space c \<longleftrightarrow> (let n = of_char c :: nat
     in (9 \<le> n \<and> n \<le> 13) \<or> (28 \<le> n \<and> n \<le> 32) \<or> n = 133 \<or> n = 160)"

text \<open>An optional sign in front of a number.\<close>

definition split_sign :: "string \<Rightarrow> bool \<times> string" where
  "split_sign s =
     (case s of
        [] \<Rightarrow> (False, [])
      | h # t \<Rightarrow> if h = CHR ''-'' then (True, t) else if h = CHR ''+'' then (False, t) else (False, s))"

section \<open>Order on strings\<close>

lemma le_append_same_length:
  fixes xs ys :: string
  assumes "length xs = length xs'"
  shows "xs @ ys \<le> xs' @ ys' \<longleftrightarrow> xs < xs' \<or> (xs = xs' \<and> ys \<le> ys')"
  using assms by (induction xs xs' rule: list_induct2) auto

lemma less_append_same_length:
  fixes xs ys :: string
  assumes "length xs = length xs'"
  shows "xs @ ys < xs' @ ys' \<longleftrightarrow> xs < xs' \<or> (xs = xs' \<and> ys < ys')"
  using assms by (induction xs xs' rule: list_induct2) auto

end
