(* ===== verification/Py_Decimal.thy ===== *)
theory Py_Decimal
  imports Py_Strings
begin

text \<open>
  Python's \<open>decimal.Decimal\<close> under the default context (28 digits, ROUND_HALF_EVEN, exponents
  from -999999 to 999999, traps on InvalidOperation, DivisionByZero and Overflow), as far as
  \<open>src/domain/value_objects/money.py\<close> and the mappers use it: construction from a string,
  \<open>quantize\<close> to cents, addition, subtraction, comparison, and the two renderings.

  A finite decimal is \<open>Fin s c e\<close>: the sign (\<open>True\<close> for minus, also of a zero), the coefficient
  and the exponent. Signals that the context traps are values of \<open>dec_signal\<close>. Theorem
  \<open>dec_of_str_dec_str\<close> says that \<open>Decimal(str(d))\<close> is \<open>d\<close>, which the services and the mappers
  rely on.
\<close>

datatype decimal = Fin bool nat int | Infinity bool | NaN | SNaN

datatype dec_signal = InvalidOperation | DecOverflow

definition prec :: nat where "prec = 28"

definition Emax :: int where "Emax = 999999"

definition Emin :: int where "Emin = -999999"

definition Etiny :: int where "Etiny = Emin - int prec + 1"

definition Etop :: int where "Etop = Emax - int prec + 1"

definition dec_zero :: decimal where "dec_zero = Fin False 0 0"

section \<open>Rounding\<close>

text \<open>\<open>c * 10 ^ e\<close> as a natural number, with \<open>-e\<close> digits rounded away when \<open>e\<close> is negative.\<close>

definition round_half_up :: "nat \<Rightarrow> nat \<Rightarrow> nat" where
  "round_half_up c k = (c + 5 * 10 ^ (k - 1)) div 10 ^ k"

definition round_half_even :: "nat \<Rightarrow> nat \<Rightarrow> nat" where
  "round_half_even c k =
     (let q = c div 10 ^ k; r = c mod 10 ^ k
      in if 10 ^ k < 2 * r \<or> (10 ^ k = 2 * r \<and> odd q) then q + 1 else q)"

text \<open>Rounding of a finite result to the context's precision and exponent range.\<close>

definition dec_fix :: "bool \<Rightarrow> nat \<Rightarrow> int \<Rightarrow> dec_signal + decimal" where
  "dec_fix s c e =
     (if c = 0 then Inr (Fin s 0 (max Etiny (min e Emax)))
      else
        let emin = int (ndigits c) + e - int prec
        in if Etop < emin then Inl DecOverflow
           else
             let emin' = max emin Etiny
             in if e < emin' then
                  let c' = round_half_even c (nat (emin' - e));
                      (c'', e'') = (if prec < ndigits c' then (c' div 10, emin' + 1) else (c', emin'))
                  in if Etop < e'' then Inl DecOverflow else Inr (Fin s c'' e'')
                else Inr (Fin s c e))"

section \<open>Arithmetic\<close>

text \<open>\<open>d.quantize(Decimal("0.01"), rounding=ROUND_HALF_UP)\<close>.\<close>

fun quantize_cents :: "decimal \<Rightarrow> dec_signal + decimal" where
  "quantize_cents (Fin s c e) =
     (let q = (if -2 \<le> e then c * 10 ^ nat (e + 2) else round_half_up c (nat (-2 - e)))
      in if prec < ndigits q then Inl InvalidOperation else Inr (Fin s q (-2)))"
| "quantize_cents (Infinity s) = Inl InvalidOperation"
| "quantize_cents NaN = Inr NaN"
| "quantize_cents SNaN = Inl InvalidOperation"

definition dec_signed :: "bool \<Rightarrow> nat \<Rightarrow> int" where
  "dec_signed s c = (if s then - int c else int c)"

lemma dec_signed_simps [simp]:
  "dec_signed False c = int c" "dec_signed True c = - int c" "dec_signed s 0 = 0"
  by (simp_all add: dec_signed_def)

lemma dec_signed_eq_0 [simp]: "dec_signed s c = 0 \<longleftrightarrow> c = 0"
  by (simp add: dec_signed_def)

definition dec_add_fin :: "bool \<Rightarrow> nat \<Rightarrow> int \<Rightarrow> bool \<Rightarrow> nat \<Rightarrow> int \<Rightarrow> dec_signal + decimal" where
  "dec_add_fin s1 c1 e1 s2 c2 e2 =
     (let e = min e1 e2;
          n = dec_signed s1 c1 * 10 ^ nat (e1 - e) + dec_signed s2 c2 * 10 ^ nat (e2 - e)
      in dec_fix (if n = 0 then s1 \<and> s2 else n < 0) (nat \<bar>n\<bar>) e)"

fun dec_add :: "decimal \<Rightarrow> decimal \<Rightarrow> dec_signal + decimal" where
  "dec_add SNaN _ = Inl InvalidOperation"
| "dec_add _ SNaN = Inl InvalidOperation"
| "dec_add NaN _ = Inr NaN"
| "dec_add _ NaN = Inr NaN"
| "dec_add (Infinity s) (Infinity t) = (if s = t then Inr (Infinity s) else Inl InvalidOperation)"
| "dec_add (Infinity s) (Fin _ _ _) = Inr (Infinity s)"
| "dec_add (Fin _ _ _) (Infinity s) = Inr (Infinity s)"
| "dec_add (Fin s1 c1 e1) (Fin s2 c2 e2) = dec_add_fin s1 c1 e1 s2 c2 e2"

fun dec_neg :: "decimal \<Rightarrow> decimal" where
  "dec_neg (Fin s c e) = Fin (\<not> s) c e"
| "dec_neg (Infinity s) = Infinity (\<not> s)"
| "dec_neg NaN = NaN"
| "dec_neg SNaN = SNaN"

definition dec_sub :: "decimal \<Rightarrow> decimal \<Rightarrow> dec_signal + decimal" where
  "dec_sub a b = dec_add a (dec_neg b)"

section \<open>Comparison\<close>

text \<open>The sign of \<open>a - b\<close>; an ordering comparison with a NaN signals.\<close>

definition cmp_fin :: "bool \<Rightarrow> nat \<Rightarrow> int \<Rightarrow> bool \<Rightarrow> nat \<Rightarrow> int \<Rightarrow> int" where
  "cmp_fin s1 c1 e1 s2 c2 e2 =
     (let e = min e1 e2
      in sgn (dec_signed s1 c1 * 10 ^ nat (e1 - e) - dec_signed s2 c2 * 10 ^ nat (e2 - e)))"

fun dec_cmp :: "decimal \<Rightarrow> decimal \<Rightarrow> dec_signal + int" where
  "dec_cmp (Fin s1 c1 e1) (Fin s2 c2 e2) = Inr (cmp_fin s1 c1 e1 s2 c2 e2)"
| "dec_cmp (Infinity s) (Infinity t) = Inr (if s = t then 0 else if s then -1 else 1)"
| "dec_cmp (Infinity s) (Fin _ _ _) = Inr (if s then -1 else 1)"
| "dec_cmp (Fin _ _ _) (Infinity s) = Inr (if s then 1 else -1)"
| "dec_cmp _ _ = Inl InvalidOperation"

definition dec_lt :: "decimal \<Rightarrow> decimal \<Rightarrow> dec_signal + bool" where
  "dec_lt a b = bindR (dec_cmp a b) (\<lambda>c. Inr (c < 0))"

definition dec_le :: "decimal \<Rightarrow> decimal \<Rightarrow> dec_signal + bool" where
  "dec_le a b = bindR (dec_cmp a b) (\<lambda>c. Inr (c \<le> 0))"

text \<open>\<open>==\<close> is False for a quiet NaN and signals for a signalling one.\<close>

definition dec_eq :: "decimal \<Rightarrow> decimal \<Rightarrow> dec_signal + bool" where
  "dec_eq a b =
     (if a = SNaN \<or> b = SNaN then Inl InvalidOperation
      else if a = NaN \<or> b = NaN then Inr False
      else bindR (dec_cmp a b) (\<lambda>c. Inr (c = 0)))"

section \<open>Rendering and parsing\<close>

definition signed_int_str :: "int \<Rightarrow> string" where
  "signed_int_str i = (if i < 0 then CHR ''-'' # nat_str (nat (- i)) else CHR ''+'' # nat_str (nat i))"

text \<open>\<open>str(d)\<close>: scientific notation only for a positive exponent or many leading zeros.\<close>

definition fin_str :: "nat \<Rightarrow> int \<Rightarrow> string" where
  "fin_str c e =
     (let ds = nat_str c;
          leftdigits = e + int (length ds);
          dotplace = (if e \<le> 0 \<and> -6 < leftdigits then leftdigits else 1);
          body = (if dotplace \<le> 0 then ''0.'' @ replicate (nat (- dotplace)) (CHR ''0'') @ ds
                  else if int (length ds) \<le> dotplace
                  then ds @ replicate (nat (dotplace - int (length ds))) (CHR ''0'')
                  else take (nat dotplace) ds @ ''.'' @ drop (nat dotplace) ds)
      in if leftdigits = dotplace then body
         else body @ ''E'' @ signed_int_str (leftdigits - dotplace))"

fun dec_str :: "decimal \<Rightarrow> string" where
  "dec_str (Fin s c e) = (if s then ''-'' else '''') @ fin_str c e"
| "dec_str (Infinity s) = (if s then ''-'' else '''') @ ''Infinity''"
| "dec_str NaN = ''NaN''"
| "dec_str SNaN = ''sNaN''"

text \<open>\<open>f"{d:.2f}"\<close>: two digits after the point, rounded half to even.\<close>

definition cents_str :: "nat \<Rightarrow> string" where
  "cents_str q = nat_str (q div 100) @ ''.'' @ pad_str 2 (q mod 100)"

fun format_2f :: "decimal \<Rightarrow> string" where
  "format_2f (Fin s c e) =
     (if s then ''-'' else '''') @
     cents_str (if -2 \<le> e then c * 10 ^ nat (e + 2) else round_half_even c (nat (-2 - e)))"
| "format_2f (Infinity s) = (if s then ''-'' else '''') @ ''Infinity''"
| "format_2f NaN = ''NaN''"
| "format_2f SNaN = ''sNaN''"

text \<open>
  \<open>Decimal(s)\<close> for a string: \<open>None\<close> is the InvalidOperation of a malformed one. White space
  around the number and underscores are dropped; the payload of a NaN is not kept.
\<close>

definition split_at :: "(char \<Rightarrow> bool) \<Rightarrow> string \<Rightarrow> string \<times> string option" where
  "split_at p s = (takeWhile (\<lambda>c. \<not> p c) s,
     (case dropWhile (\<lambda>c. \<not> p c) s of [] \<Rightarrow> None | _ # r \<Rightarrow> Some r))"

definition exponent_of_str :: "string \<Rightarrow> int option" where
  "exponent_of_str s =
     (let (neg, ds) = split_sign s
      in if ds \<noteq> [] \<and> list_all is_digit ds then Some (dec_signed neg (nat_of_str ds)) else None)"

definition fin_of_str :: "bool \<Rightarrow> string \<Rightarrow> decimal option" where
  "fin_of_str neg s =
     (let (mant, ex) = split_at (\<lambda>c. c = CHR ''e'' \<or> c = CHR ''E'') s;
          (ip, fr) = split_at (\<lambda>c. c = CHR ''.'') mant;
          fp = (case fr of None \<Rightarrow> [] | Some f \<Rightarrow> f)
      in if ip @ fp = [] \<or> \<not> list_all is_digit (ip @ fp) then None
         else case (case ex of None \<Rightarrow> Some 0 | Some x \<Rightarrow> exponent_of_str x) of
                None \<Rightarrow> None
              | Some e \<Rightarrow> Some (Fin neg (nat_of_str (ip @ fp)) (e - int (length fp))))"

definition unsigned_of_str :: "bool \<Rightarrow> string \<Rightarrow> decimal option" where
  "unsigned_of_str neg s =
     (let l = map lower_char s
      in if l = ''inf'' \<or> l = ''infinity'' then Some (Infinity neg)
         else if starts_with ''nan'' l \<and> list_all is_digit (drop 3 l) then Some NaN
         else if starts_with ''snan'' l \<and> list_all is_digit (drop 4 l) then Some SNaN
         else fin_of_str neg s)"

definition dec_of_str :: "string \<Rightarrow> decimal option" where
  "dec_of_str s =
     (let (neg, r) = split_sign (filter (\<lambda>c. c \<noteq> CHR ''_'') (strip_by is_space s))
      in unsigned_of_str neg r)"

section \<open>Amounts in cents\<close>

text \<open>The numbers of cents of a decimal whose exponent is -2.\<close>

fun cents :: "decimal \<Rightarrow> int" where
  "cents (Fin s c e) = dec_signed s c"
| "cents _ = 0"

definition max_cents :: nat where "max_cents = 10 ^ 28"

lemma ndigits_gt_prec: "prec < ndigits q \<longleftrightarrow> max_cents \<le> q"
  using ndigits_le_iff [of 28 q] by (auto simp: prec_def max_cents_def)

lemma quantize_cents_cents [simp]:
  "quantize_cents (Fin s c (-2)) =
     (if max_cents \<le> c then Inl InvalidOperation else Inr (Fin s c (-2)))"
  by (simp add: ndigits_gt_prec)

lemma quantize_cents_Inr:
  "quantize_cents d = Inr d' \<Longrightarrow> d' = NaN \<or> (\<exists>s q. d' = Fin s q (-2) \<and> q < max_cents)"
  by (cases d rule: quantize_cents.cases)
    (auto simp: Let_def ndigits_gt_prec not_le simp del: quantize_cents_cents split: if_splits)

lemma dec_fix_cents:
  assumes "c < max_cents"
  shows "dec_fix s c (-2) = Inr (Fin s c (-2))"
proof -
  have "ndigits c \<le> 28"
    using assms ndigits_gt_prec [of c] by (simp add: prec_def)
  then show ?thesis
    by (simp add: dec_fix_def Let_def Etiny_def Etop_def Emax_def Emin_def prec_def)
qed

lemma dec_fix_overflow:
  assumes "max_cents \<le> c" and "c < 2 * max_cents"
  shows "\<exists>c'. dec_fix s c (-2) = Inr (Fin s c' (-1)) \<and> max_cents \<le> c' * 10"
proof -
  from assms(1) have "28 < ndigits c"
    using ndigits_gt_prec [of c] by (simp add: prec_def)
  moreover from assms(2) have "ndigits c \<le> 29"
    using ndigits_le_iff [of 29 c] by (simp add: max_cents_def)
  ultimately have nd: "ndigits c = 29" by simp
  define c' where "c' = round_half_even c 1"
  have lo: "10 ^ 27 \<le> c'" and hi: "c' < 10 ^ 28"
    using assms by (auto simp: c'_def round_half_even_def max_cents_def Let_def)
  have "ndigits c' \<le> 28" using hi ndigits_le_iff [of 28 c'] by simp
  moreover have "c \<noteq> 0" using assms(1) by (simp add: max_cents_def)
  ultimately have "dec_fix s c (-2) = Inr (Fin s c' (-1))"
    by (simp add: dec_fix_def Let_def nd c'_def Etiny_def Etop_def Emax_def Emin_def prec_def)
  with lo show ?thesis by (simp add: max_cents_def)
qed

lemma dec_add_cents:
  "dec_add (Fin s1 c1 (-2)) (Fin s2 c2 (-2)) =
     dec_fix (if dec_signed s1 c1 + dec_signed s2 c2 = 0 then s1 \<and> s2 else dec_signed s1 c1 + dec_signed s2 c2 < 0)
       (nat \<bar>dec_signed s1 c1 + dec_signed s2 c2\<bar>) (-2)"
  by (simp add: dec_add_fin_def Let_def)

lemma dec_cmp_cents:
  "dec_cmp (Fin s1 c1 (-2)) (Fin s2 c2 (-2)) = Inr (sgn (dec_signed s1 c1 - dec_signed s2 c2))"
  by (simp add: cmp_fin_def)

lemma dec_cmp_zero:
  "dec_cmp (Fin s c (-2)) dec_zero = Inr (sgn (dec_signed s c))"
  by (simp add: cmp_fin_def dec_zero_def)

section \<open>Decimal(str(d)) is d\<close>

lemma not_digit_chars [simp]:
  "\<not> is_digit (CHR ''.'')" "\<not> is_digit (CHR ''E'')" "\<not> is_digit (CHR ''e'')"
  "\<not> is_digit (CHR ''-'')" "\<not> is_digit (CHR ''+'')" "\<not> is_digit (CHR ''_'')"
  "is_digit (CHR ''0'')"
  by (simp_all add: is_digit_def)

lemma digit_val_0 [simp]: "digit_val (CHR ''0'') = 0"
  by (simp add: digit_val_def)

lemma split_at_none: "\<forall>c \<in> set s. \<not> p c \<Longrightarrow> split_at p s = (s, None)"
  by (induction s) (auto simp: split_at_def)

lemma split_at_some: "\<forall>c \<in> set s. \<not> p c \<Longrightarrow> p x \<Longrightarrow> split_at p (s @ x # r) = (s, Some r)"
  by (auto simp: split_at_def takeWhile_append2 dropWhile_append2)

lemma exponent_of_signed_int_str [simp]: "exponent_of_str (signed_int_str i) = Some i"
  using nat_str_digits by (auto simp: exponent_of_str_def signed_int_str_def split_sign_def)

text \<open>The shape of \<open>str\<close> of a finite decimal: integer part, fraction, exponent.\<close>

definition point_str :: "string \<Rightarrow> string \<Rightarrow> string" where
  "point_str ip fp = (if fp = [] then ip else ip @ CHR ''.'' # fp)"

definition exp_str :: "int \<Rightarrow> string" where
  "exp_str x = (if x = 0 then [] else CHR ''E'' # signed_int_str x)"

lemma nat_of_str_zeros:
  "nat_of_str (CHR ''0'' # replicate n (CHR ''0'') @ s) = nat_of_str s"
  by (simp add: nat_of_str_def from_digits_Cons from_digits_append map_replicate_const)

definition dec_shape :: "nat \<Rightarrow> int \<Rightarrow> string \<Rightarrow> string \<Rightarrow> int \<Rightarrow> bool" where
  "dec_shape c e ip fp x \<longleftrightarrow> ip \<noteq> [] \<and> list_all is_digit ip \<and> list_all is_digit fp
     \<and> nat_of_str (ip @ fp) = c \<and> x - int (length fp) = e"

lemma fin_str_lead:
  assumes "e \<le> 0" "-6 < e + int (ndigits c)" "e + int (ndigits c) \<le> 0"
  defines "fp \<equiv> replicate (nat (- (e + int (ndigits c)))) (CHR ''0'') @ nat_str c"
  shows "fin_str c e = point_str ''0'' fp @ exp_str 0" and "dec_shape c e ''0'' fp 0"
proof -
  show "fin_str c e = point_str ''0'' fp @ exp_str 0"
    using assms by (simp add: fin_str_def Let_def point_str_def exp_str_def)
  have "list_all is_digit fp"
    using nat_str_digits [of c] by (auto simp: fp_def list_all_iff)
  moreover have "int (length fp) = - e" using assms(3) by (simp add: fp_def)
  moreover have "nat_of_str (''0'' @ fp) = c" by (simp add: fp_def nat_of_str_zeros)
  ultimately show "dec_shape c e ''0'' fp 0" by (simp add: dec_shape_def)
qed

lemma fin_str_split:
  assumes "k \<noteq> 0" "k \<le> ndigits c"
  shows "dec_shape c (x - int (ndigits c - k)) (take k (nat_str c)) (drop k (nat_str c)) x"
proof -
  have "list_all is_digit (take k (nat_str c) @ drop k (nat_str c))"
    by (simp only: append_take_drop_id nat_str_digits)
  then have "list_all is_digit (take k (nat_str c))" "list_all is_digit (drop k (nat_str c))"
    by (simp_all only: list_all_append)
  with assms show ?thesis by (simp add: dec_shape_def)
qed

lemma fin_str_plain_point:
  assumes "e \<le> 0" "0 < e + int (ndigits c)"
  defines "k \<equiv> nat (e + int (ndigits c))"
  shows "fin_str c e = point_str (take k (nat_str c)) (drop k (nat_str c)) @ exp_str 0"
  using assms(1,2) unfolding k_def
  by (cases "e = 0") (simp_all add: fin_str_def Let_def point_str_def exp_str_def nat_add_distrib)

lemma fin_str_sci:
  assumes "\<not> (e \<le> 0 \<and> -6 < e + int (ndigits c))"
  shows "fin_str c e =
    point_str (take 1 (nat_str c)) (drop 1 (nat_str c)) @ exp_str (e + int (ndigits c) - 1)"
proof -
  have dp: "(if e \<le> 0 \<and> -6 < e + int (ndigits c) then e + int (ndigits c) else 1) = (1::int)"
    using assms by (simp only: if_False)
  have "int (ndigits c) \<le> 1 \<longleftrightarrow> drop 1 (nat_str c) = []" by simp
  moreover have "1 \<le> int (ndigits c)" using ndigits_pos [of c] by linarith
  moreover have "take 1 (nat_str c) = nat_str c" if "drop 1 (nat_str c) = []"
    using that by simp
  ultimately show ?thesis
    unfolding fin_str_def Let_def length_nat_str dp point_str_def exp_str_def
    by (cases "drop 1 (nat_str c) = []") simp_all
qed

lemma fin_str_shape:
  obtains ip fp x where "fin_str c e = point_str ip fp @ exp_str x" and "dec_shape c e ip fp x"
proof -
  let ?l = "e + int (ndigits c)"
  have len: "0 < ndigits c" by simp
  consider (lead) "e \<le> 0" "-6 < ?l" "?l \<le> 0" | (plain) "e \<le> 0" "0 < ?l"
    | (sci) "\<not> (e \<le> 0 \<and> -6 < ?l)"
    by linarith
  then show thesis
  proof cases
    case lead
    then show thesis using that fin_str_lead by blast
  next
    case plain
    then have "dec_shape c (0 - int (ndigits c - nat ?l)) (take (nat ?l) (nat_str c)) (drop (nat ?l) (nat_str c)) 0"
      by (intro fin_str_split) auto
    moreover have "0 - int (ndigits c - nat ?l) = e" using plain by simp
    ultimately have "dec_shape c e (take (nat ?l) (nat_str c)) (drop (nat ?l) (nat_str c)) 0"
      by (simp only:)
    with fin_str_plain_point [OF plain] show thesis by (rule that)
  next
    case sci
    have "dec_shape c (?l - 1 - int (ndigits c - 1)) (take 1 (nat_str c)) (drop 1 (nat_str c)) (?l - 1)"
      using len by (intro fin_str_split) linarith+
    moreover have "?l - 1 - int (ndigits c - 1) = e" using len by linarith
    ultimately have "dec_shape c e (take 1 (nat_str c)) (drop 1 (nat_str c)) (?l - 1)"
      by (simp only:)
    with fin_str_sci [OF sci] show thesis by (rule that)
  qed
qed

lemma digit_not_sep:
  "is_digit c \<Longrightarrow> c \<noteq> CHR ''e''" "is_digit c \<Longrightarrow> c \<noteq> CHR ''E''" "is_digit c \<Longrightarrow> c \<noteq> CHR ''.''"
  "is_digit c \<Longrightarrow> c \<noteq> CHR ''-''" "is_digit c \<Longrightarrow> c \<noteq> CHR ''+''" "is_digit c \<Longrightarrow> c \<noteq> CHR ''_''"
  by auto

lemma split_exponent:
  assumes "list_all is_digit ip" and "list_all is_digit fp"
  shows "split_at (\<lambda>c. c = CHR ''e'' \<or> c = CHR ''E'') (point_str ip fp @ exp_str x)
    = (point_str ip fp, if x = 0 then None else Some (signed_int_str x))"
proof -
  have "\<forall>c \<in> set s. \<not> (c = CHR ''e'' \<or> c = CHR ''E'')" if "list_all is_digit s" for s
    using that digit_not_sep(1,2) by (auto simp only: list_all_iff)
  then have "\<forall>c \<in> set (point_str ip fp). \<not> (c = CHR ''e'' \<or> c = CHR ''E'')"
    using assms by (simp add: point_str_def ball_Un)
  then show ?thesis
    by (simp add: exp_str_def split_at_none split_at_some)
qed

lemma split_point:
  assumes "list_all is_digit ip"
  shows "split_at (\<lambda>c. c = CHR ''.'') (point_str ip fp) = (ip, if fp = [] then None else Some fp)"
proof -
  have "\<forall>c \<in> set ip. c \<noteq> CHR ''.''"
    using assms digit_not_sep(3) by (auto simp only: list_all_iff)
  then show ?thesis by (simp add: point_str_def split_at_none split_at_some)
qed

lemma fin_of_str_fin_str [simp]: "fin_of_str neg (fin_str c e) = Some (Fin neg c e)"
proof -
  obtain ip fp x where s: "fin_str c e = point_str ip fp @ exp_str x" and sh: "dec_shape c e ip fp x"
    by (rule fin_str_shape)
  then have d: "list_all is_digit ip" "list_all is_digit fp" by (simp_all add: dec_shape_def)
  from sh have e: "e = x - int (length fp)" and c: "nat_of_str (ip @ fp) = c" and ne: "ip \<noteq> []"
    by (simp_all add: dec_shape_def)
  show ?thesis
    unfolding fin_of_str_def s split_exponent [OF d] Let_def prod.case split_point [OF d(1)]
    using d c ne by (cases "fp = []"; cases "x = 0") (simp_all add: e)
qed

lemma set_signed_int_str: "set (signed_int_str x) \<subseteq> {CHR ''-'', CHR ''+''} \<union> {c. is_digit c}"
  using nat_str_digits by (auto simp: signed_int_str_def list_all_iff)

lemma set_fin_str:
  "set (fin_str c e) \<subseteq> {CHR ''.'', CHR ''E'', CHR ''-'', CHR ''+''} \<union> {c. is_digit c}"
proof -
  obtain ip fp x where "fin_str c e = point_str ip fp @ exp_str x" and "dec_shape c e ip fp x"
    by (rule fin_str_shape)
  then show ?thesis
    using set_signed_int_str [of x]
    by (auto simp: point_str_def exp_str_def dec_shape_def list_all_iff)
qed

lemma fin_str_head:
  obtains h t where "fin_str c e = h # t" and "is_digit h"
proof -
  obtain ip fp x where "fin_str c e = point_str ip fp @ exp_str x" and "dec_shape c e ip fp x"
    by (rule fin_str_shape)
  then have "fin_str c e = hd ip # (tl ip @ (if fp = [] then [] else CHR ''.'' # fp)) @ exp_str x"
    and "is_digit (hd ip)"
    by (auto simp: point_str_def dec_shape_def neq_Nil_conv)
  then show thesis by (rule that)
qed

lemma lower_char_digit: "is_digit h \<Longrightarrow> lower_char h = h"
  by (simp add: lower_char_def is_digit_def)

lemma unsigned_of_str_fin_str: "unsigned_of_str neg (fin_str c e) = Some (Fin neg c e)"
proof -
  obtain h t where h: "fin_str c e = h # t" "is_digit h" by (rule fin_str_head)
  then have "map lower_char (fin_str c e) = h # map lower_char t"
    by (simp add: lower_char_digit)
  moreover have "h \<noteq> CHR ''i''" "h \<noteq> CHR ''n''" "h \<noteq> CHR ''s''"
    using h(2) by (auto simp: is_digit_def)
  ultimately show ?thesis
    using fin_of_str_fin_str [of neg c e] by (simp add: unsigned_of_str_def Let_def)
qed

lemma fin_str_plain: "c \<in> set (fin_str q e) \<Longrightarrow> \<not> is_space c \<and> c \<noteq> CHR ''_''"
  using set_fin_str [of q e] by (auto simp: is_space_def is_digit_def)

lemma dec_str_plain: "c \<in> set (dec_str d) \<Longrightarrow> \<not> is_space c \<and> c \<noteq> CHR ''_''"
proof (cases d)
  case (Fin s q e)
  assume "c \<in> set (dec_str d)"
  with Fin have "c = CHR ''-'' \<or> c \<in> set (fin_str q e)" by (auto split: if_splits)
  then show ?thesis by (elim disjE) (simp add: is_space_def, rule fin_str_plain)
qed (auto simp: is_space_def split: if_splits)

lemma dec_of_str_plain:
  assumes "\<forall>c \<in> set s. \<not> is_space c \<and> c \<noteq> CHR ''_''"
  shows "dec_of_str s = (let (neg, r) = split_sign s in unsigned_of_str neg r)"
proof -
  from assms have "filter (\<lambda>c. c \<noteq> CHR ''_'') (strip_by is_space s) = s"
    by (simp add: strip_by_absent filter_id_conv)
  then show ?thesis by (simp only: dec_of_str_def)
qed

theorem dec_of_str_dec_str [simp]: "dec_of_str (dec_str d) = Some d"
proof -
  have plain: "\<forall>c \<in> set (dec_str d). \<not> is_space c \<and> c \<noteq> CHR ''_''"
    using dec_str_plain by blast
  show ?thesis
  proof (cases d)
    case (Fin s c e)
    obtain h t where h: "fin_str c e = h # t" "is_digit h" by (rule fin_str_head)
    then have "h \<noteq> CHR ''-''" "h \<noteq> CHR ''+''" by auto
    have "split_sign (dec_str d) = (s, fin_str c e)"
      using h \<open>h \<noteq> CHR ''-''\<close> \<open>h \<noteq> CHR ''+''\<close> by (cases s) (simp_all add: split_sign_def Fin)
    with dec_of_str_plain [OF plain] show ?thesis
      by (simp add: unsigned_of_str_fin_str Fin)
  next
    case (Infinity s)
    have "dec_of_str (dec_str (Infinity b)) = Some (Infinity b)" for b
      by (cases b) (simp only:, code_simp)+
    with Infinity show ?thesis by simp
  next
    case NaN
    have "dec_of_str (dec_str NaN) = Some NaN" by code_simp
    with NaN show ?thesis by simp
  next
    case SNaN
    have "dec_of_str (dec_str SNaN) = Some SNaN" by code_simp
    with SNaN show ?thesis by simp
  qed
qed

end
