(* ===== verification/Identifiers.thy ===== *)
theory Identifiers
  imports Py_Strings
begin

text \<open>
  \<open>src/domain/value_objects/identifiers.py\<close>: identifiers are UUIDs (\<open>NewType\<close> adds no value of
  its own), the idempotency key is a string. A UUID is its 128-bit integer; \<open>uuid_str\<close> is
  \<open>str(u)\<close> and \<open>uuid_of_str\<close> is the constructor \<open>UUID(s)\<close> of the standard library, \<open>None\<close> for
  its ValueError. The fresh UUIDs of \<open>uuid4()\<close> are readings of the environment (theory Base).

  Facts for the other components: \<open>str\<close> is injective, \<open>UUID(str(u))\<close> is \<open>u\<close>, and comparing the
  strings is comparing the UUIDs, so that sorting the lock keys by their text is a global order.
\<close>

datatype uuid = UUID (uuid_int: "128 word")

type_synonym account_id = uuid
type_synonym transaction_id = uuid
type_synonym owner_id = uuid
type_synonym idempotency_key = string

instantiation uuid :: linorder
begin

definition less_eq_uuid :: "uuid \<Rightarrow> uuid \<Rightarrow> bool" where
  "less_eq_uuid a b = (uuid_int a \<le> uuid_int b)"

definition less_uuid :: "uuid \<Rightarrow> uuid \<Rightarrow> bool" where
  "less_uuid a b = (uuid_int a < uuid_int b)"

instance
  by standard (auto simp: less_eq_uuid_def less_uuid_def uuid.expand)

end

section \<open>Hexadecimal text\<close>

definition hex_char :: "nat \<Rightarrow> char" where
  "hex_char d = (if d < 10 then digit_char d else char_of (87 + d))"

definition is_hex :: "char \<Rightarrow> bool" where
  "is_hex c \<longleftrightarrow> (let n = of_char c :: nat
     in (48 \<le> n \<and> n \<le> 57) \<or> (65 \<le> n \<and> n \<le> 70) \<or> (97 \<le> n \<and> n \<le> 102))"

definition hex_val :: "char \<Rightarrow> nat" where
  "hex_val c = (let n = of_char c :: nat
     in if n \<le> 57 then n - 48 else if n \<le> 70 then n - 55 else n - 87)"

fun to_base16 :: "nat \<Rightarrow> nat \<Rightarrow> nat list" where
  "to_base16 0 n = []"
| "to_base16 (Suc k) n = (n div 16 ^ k) mod 16 # to_base16 k (n mod 16 ^ k)"

definition uuid_hex :: "uuid \<Rightarrow> string" where
  "uuid_hex u = map hex_char (to_base16 32 (unat (uuid_int u)))"

definition uuid_str :: "uuid \<Rightarrow> string" where
  "uuid_str u =
     (let h = uuid_hex u
      in take 8 h @ ''-'' @ take 4 (drop 8 h) @ ''-'' @ take 4 (drop 12 h) @ ''-'' @
         take 4 (drop 16 h) @ ''-'' @ drop 20 h)"

text \<open>\<open>int(s, 16)\<close>: white space, a sign, \<open>0x\<close> and single underscores between digits are accepted.\<close>

fun hex_acc :: "nat \<Rightarrow> string \<Rightarrow> nat option" where
  "hex_acc a [] = Some a"
| "hex_acc a (c # cs) =
     (if c = CHR ''_'' then (if cs \<noteq> [] \<and> is_hex (hd cs) then hex_acc a cs else None)
      else if is_hex c then hex_acc (16 * a + hex_val c) cs
      else None)"

definition hex_start :: "string \<Rightarrow> nat option" where
  "hex_start s = (if s \<noteq> [] \<and> is_hex (hd s) then hex_acc 0 s else None)"

definition hex_prefix :: "string \<Rightarrow> nat option" where
  "hex_prefix s =
     (if starts_with ''0x'' s \<or> starts_with ''0X'' s
      then (let r = drop 2 s
            in hex_start (if r \<noteq> [] \<and> hd r = CHR ''_'' then tl r else r))
      else hex_start s)"

definition int_of_hex :: "string \<Rightarrow> int option" where
  "int_of_hex s =
     (let (neg, r) = split_sign (strip_by is_space s)
      in map_option (\<lambda>n. if neg then - int n else int n) (hex_prefix r))"

definition uuid_of_str :: "string \<Rightarrow> uuid option" where
  "uuid_of_str s =
     (let h = str_replace ''-'' [] (strip_by (\<lambda>c. c = CHR ''{'' \<or> c = CHR ''}'')
                (str_replace ''uuid:'' [] (str_replace ''urn:'' [] s)))
      in if length h \<noteq> 32 then None
         else case int_of_hex h of
                None \<Rightarrow> None
              | Some i \<Rightarrow> if 0 \<le> i \<and> i < 2 ^ 128 then Some (UUID (word_of_int i)) else None)"

section \<open>Facts\<close>

lemma of_char_hex_char: "d < 16 \<Longrightarrow> (of_char (hex_char d) :: nat) = (if d < 10 then 48 + d else 87 + d)"
  by (simp add: hex_char_def of_char_digit_char of_char_of)

lemma is_hex_hex_char [simp]: "d < 16 \<Longrightarrow> is_hex (hex_char d)"
  by (simp add: is_hex_def of_char_hex_char Let_def)

lemma hex_val_hex_char [simp]: "d < 16 \<Longrightarrow> hex_val (hex_char d) = d"
  by (simp add: hex_val_def of_char_hex_char Let_def)

lemma char_less_iff: "c < d \<longleftrightarrow> (of_char c :: nat) < of_char d"
  by (simp add: less_char_def)

lemma hex_char_less: "d < e \<Longrightarrow> e < 16 \<Longrightarrow> hex_char d < hex_char e"
  by (simp add: char_less_iff of_char_hex_char)

lemma length_to_base16 [simp]: "length (to_base16 k n) = k"
  by (induction k arbitrary: n) auto

lemma to_base16_bound: "d \<in> set (to_base16 k n) \<Longrightarrow> d < 16"
  by (induction k arbitrary: n) auto

lemma from_digits_to_base16: "n < 16 ^ k \<Longrightarrow> from_digits 16 (to_base16 k n) = n"
proof (induction k arbitrary: n)
  case 0
  then show ?case by simp
next
  case (Suc k)
  then have "n div 16 ^ k < 16" by (simp add: less_mult_imp_div_less mult.commute)
  with Suc show ?case by (simp add: from_digits_Cons div_mult_mod_eq)
qed

lemma map_to_base16_less:
  "m < n \<Longrightarrow> n < 16 ^ k \<Longrightarrow> map hex_char (to_base16 k m) < map hex_char (to_base16 k n)"
proof (induction k arbitrary: m n)
  case 0
  then show ?case by simp
next
  case (Suc k)
  have n16: "n div 16 ^ k < 16" and m16: "m div 16 ^ k < 16"
    using Suc.prems by (simp_all add: less_mult_imp_div_less mult.commute)
  have le: "m div 16 ^ k \<le> n div 16 ^ k" using Suc.prems by (intro div_le_mono) simp
  show ?case
  proof (cases "m div 16 ^ k = n div 16 ^ k")
    case True
    with Suc.prems have "m mod 16 ^ k < n mod 16 ^ k"
      by (metis add_less_cancel_left div_mult_mod_eq)
    with Suc.IH [of "m mod 16 ^ k" "n mod 16 ^ k"] True show ?thesis by simp
  next
    case False
    with le n16 m16 have "hex_char (m div 16 ^ k mod 16) < hex_char (n div 16 ^ k mod 16)"
      by (simp add: hex_char_less)
    then show ?thesis by simp
  qed
qed

lemma length_uuid_hex [simp]: "length (uuid_hex u) = 32"
  by (simp add: uuid_hex_def)

lemma unat_uuid_bound: "unat (uuid_int u) < 16 ^ 32"
proof -
  have "unat (uuid_int u) < 2 ^ LENGTH(128)" by (rule unsigned_less)
  then show ?thesis by simp
qed

lemma uuid_hex_less: "a < b \<Longrightarrow> uuid_hex a < uuid_hex b"
  using map_to_base16_less [of "unat (uuid_int a)" "unat (uuid_int b)" 32] unat_uuid_bound [of b]
  by (simp add: uuid_hex_def less_uuid_def word_less_nat_alt)

lemma uuid_hex_inject: "uuid_hex a = uuid_hex b \<longleftrightarrow> a = b"
  by (metis less_irrefl linorder_neqE uuid_hex_less)

lemma hex_chunks:
  "h = take 8 h @ take 4 (drop 8 h) @ take 4 (drop 12 h) @ take 4 (drop 16 h) @ drop 20 h"
proof -
  have "h = take 8 h @ drop 8 h" by simp
  moreover have "drop 8 h = take 4 (drop 8 h) @ drop 12 h"
    using append_take_drop_id [of 4 "drop 8 h"] by simp
  moreover have "drop 12 h = take 4 (drop 12 h) @ drop 16 h"
    using append_take_drop_id [of 4 "drop 12 h"] by simp
  moreover have "drop 16 h = take 4 (drop 16 h) @ drop 20 h"
    using append_take_drop_id [of 4 "drop 16 h"] by simp
  ultimately show ?thesis by metis
qed

lemma dash_less:
  fixes a b c d e :: string
  assumes "length a = length a'" "length b = length b'" "length c = length c'" "length d = length d'"
  shows "a @ ''-'' @ b @ ''-'' @ c @ ''-'' @ d @ ''-'' @ e
       < a' @ ''-'' @ b' @ ''-'' @ c' @ ''-'' @ d' @ ''-'' @ e'
     \<longleftrightarrow> a @ b @ c @ d @ e < a' @ b' @ c' @ d' @ e'"
  using assms by (simp add: less_append_same_length)

lemma uuid_str_less_iff: "uuid_str a < uuid_str b \<longleftrightarrow> a < b"
proof -
  have "uuid_str a < uuid_str b \<longleftrightarrow> uuid_hex a < uuid_hex b"
    unfolding uuid_str_def Let_def
    by (subst dash_less) (simp_all add: hex_chunks [symmetric])
  also have "\<dots> \<longleftrightarrow> a < b"
    using uuid_hex_less by (cases a b rule: linorder_cases) (auto dest: less_not_sym)
  finally show ?thesis .
qed

lemma uuid_str_inject [simp]: "uuid_str a = uuid_str b \<longleftrightarrow> a = b"
  by (metis less_irrefl linorder_neqE uuid_str_less_iff)

lemma uuid_str_le_iff: "uuid_str a \<le> uuid_str b \<longleftrightarrow> a \<le> b"
  by (simp add: uuid_str_less_iff le_less)

text \<open>\<open>UUID(str(u))\<close>.\<close>

lemma hex_not_special:
  "d < 16 \<Longrightarrow> hex_char d \<noteq> CHR ''-''" "d < 16 \<Longrightarrow> hex_char d \<noteq> CHR ''+''"
  "d < 16 \<Longrightarrow> hex_char d \<noteq> CHR ''_''" "d < 16 \<Longrightarrow> hex_char d \<noteq> CHR ''u''"
  "d < 16 \<Longrightarrow> hex_char d \<noteq> CHR ''x''" "d < 16 \<Longrightarrow> hex_char d \<noteq> CHR ''X''"
  "d < 16 \<Longrightarrow> hex_char d \<noteq> CHR ''{''" "d < 16 \<Longrightarrow> hex_char d \<noteq> CHR ''}''"
  using of_char_hex_char [of d] by (auto split: if_splits)

lemma uuid_hex_chars:
  assumes "c \<in> set (uuid_hex u)"
  obtains d where "c = hex_char d" and "d < 16"
  using assms to_base16_bound by (auto simp: uuid_hex_def)

lemma hex_acc_digits:
  "\<forall>d \<in> set ds. d < 16 \<Longrightarrow> hex_acc a (map hex_char ds) = Some (foldl (\<lambda>a d. a * 16 + d) a ds)"
  by (induction ds arbitrary: a) (auto simp: hex_not_special mult.commute)

lemma hex_acc_uuid_hex: "hex_acc 0 (uuid_hex u) = Some (unat (uuid_int u))"
  using hex_acc_digits [of "to_base16 32 (unat (uuid_int u))" 0]
    from_digits_to_base16 [OF unat_uuid_bound [of u]]
  by (simp add: uuid_hex_def to_base16_bound from_digits_def)

lemma to_base16_two: "k = Suc (Suc j) \<Longrightarrow> \<exists>d0 d1 ds. to_base16 k n = d0 # d1 # ds"
  by simp

lemma uuid_hex_two:
  obtains d0 d1 t where "uuid_hex u = hex_char d0 # hex_char d1 # t" and "d0 < 16" and "d1 < 16"
proof -
  obtain d0 d1 ds where ds: "to_base16 32 (unat (uuid_int u)) = d0 # d1 # ds"
    using to_base16_two [of 32 30 "unat (uuid_int u)"] by auto
  moreover from ds have "d0 < 16" "d1 < 16"
    using to_base16_bound [of _ 32 "unat (uuid_int u)"] by auto
  ultimately show thesis by (intro that [of d0 d1 "map hex_char ds"]) (simp_all add: uuid_hex_def)
qed

lemma not_space_hex_char: "d < 16 \<Longrightarrow> \<not> is_space (hex_char d)"
  by (simp add: is_space_def Let_def of_char_hex_char)

lemma hex_prefix_plain:
  assumes "d1 < 16"
  shows "hex_prefix (c # hex_char d1 # t) = hex_start (c # hex_char d1 # t)"
  using hex_not_special(5,6) [OF assms]
  by (simp add: hex_prefix_def not_sym del: hex_start_def)

lemma int_of_hex_uuid_hex: "int_of_hex (uuid_hex u) = Some (int (unat (uuid_int u)))"
proof -
  obtain d0 d1 t where h: "uuid_hex u = hex_char d0 # hex_char d1 # t" and b: "d0 < 16" "d1 < 16"
    by (rule uuid_hex_two)
  have "\<forall>c \<in> set (uuid_hex u). \<not> is_space c"
    by (auto elim!: uuid_hex_chars simp: not_space_hex_char)
  then have "strip_by is_space (uuid_hex u) = uuid_hex u" by (rule strip_by_absent)
  moreover have "split_sign (uuid_hex u) = (False, uuid_hex u)"
    using b by (simp add: split_sign_def h hex_not_special)
  moreover have "hex_prefix (uuid_hex u) = hex_start (uuid_hex u)"
    unfolding h by (rule hex_prefix_plain [OF b(2)])
  moreover have "hex_start (uuid_hex u) = Some (unat (uuid_int u))"
    using hex_acc_uuid_hex [of u] b by (simp add: hex_start_def h)
  ultimately show ?thesis by (simp add: int_of_hex_def)
qed

lemma uuid_str_set: "set (uuid_str u) \<subseteq> insert (CHR ''-'') (set (uuid_hex u))"
  by (auto simp: uuid_str_def Let_def dest: in_set_takeD in_set_dropD)

lemma uuid_str_no_special:
  assumes "c \<in> set (uuid_str u)"
  shows "c \<noteq> CHR ''u''" and "c \<noteq> CHR ''{''" and "c \<noteq> CHR ''}''"
proof -
  from assms uuid_str_set consider "c = CHR ''-''" | d where "c = hex_char d" "d < 16"
    by (blast elim: uuid_hex_chars)
  then show "c \<noteq> CHR ''u''" and "c \<noteq> CHR ''{''" and "c \<noteq> CHR ''}''"
    by (cases; simp add: hex_not_special)+
qed

lemma filter_dash_uuid_str: "filter (\<lambda>c. c \<noteq> CHR ''-'') (uuid_str u) = uuid_hex u"
proof -
  have nd: "c \<in> set (uuid_hex u) \<Longrightarrow> c \<noteq> CHR ''-''" for c
    by (auto elim!: uuid_hex_chars simp: hex_not_special)
  have "filter (\<lambda>c. c \<noteq> CHR ''-'') (take n (drop m (uuid_hex u))) = take n (drop m (uuid_hex u))" for n m
    by (rule filter_True) (auto dest!: in_set_takeD in_set_dropD nd)
  moreover have "filter (\<lambda>c. c \<noteq> CHR ''-'') (take n (uuid_hex u)) = take n (uuid_hex u)" for n
    by (rule filter_True) (auto dest!: in_set_takeD nd)
  moreover have "filter (\<lambda>c. c \<noteq> CHR ''-'') (drop m (uuid_hex u)) = drop m (uuid_hex u)" for m
    by (rule filter_True) (auto dest!: in_set_dropD nd)
  ultimately show ?thesis
    using hex_chunks [of "uuid_hex u"] by (simp add: uuid_str_def Let_def)
qed

theorem uuid_of_str_uuid_str [simp]: "uuid_of_str (uuid_str u) = Some u"
proof -
  have "CHR ''u'' \<notin> set (uuid_str u)" using uuid_str_no_special(1) by blast
  then have "str_replace ''uuid:'' [] (str_replace ''urn:'' [] (uuid_str u)) = uuid_str u"
    by (simp add: str_replace_absent)
  moreover have "strip_by (\<lambda>c. c = CHR ''{'' \<or> c = CHR ''}'') (uuid_str u) = uuid_str u"
    using uuid_str_no_special(2,3) by (intro strip_by_absent) blast
  moreover have "str_replace ''-'' [] (uuid_str u) = uuid_hex u"
    by (simp add: str_replace_char_filter filter_dash_uuid_str)
  moreover have "uint (uuid_int u) < 2 ^ LENGTH(128)" by (rule unsigned_less)
  ultimately show ?thesis
    by (simp add: uuid_of_str_def Let_def int_of_hex_uuid_hex)
qed

lemma length_uuid_str [simp]: "length (uuid_str u) = 36"
  by (simp add: uuid_str_def Let_def)

end
