(* ===== verification/Enums.thy ===== *)
theory Enums
  imports Py_Strings
begin

text \<open>
  \<open>src/domain/value_objects/enums.py\<close>: the enumerations, their values, their constructors from a
  value (\<open>Currency("EUR")\<close>, \<open>None\<close> for the ValueError) and their predicates.
\<close>

datatype currency = EUR | USD | GBP | IRR

fun currency_value :: "currency \<Rightarrow> string" where
  "currency_value EUR = ''EUR''"
| "currency_value USD = ''USD''"
| "currency_value GBP = ''GBP''"
| "currency_value IRR = ''IRR''"

definition all_currencies :: "currency list" where
  "all_currencies = [EUR, USD, GBP, IRR]"

datatype account_status = ACTIVE | FROZEN | CLOSED

fun account_status_value :: "account_status \<Rightarrow> string" where
  "account_status_value ACTIVE = ''active''"
| "account_status_value FROZEN = ''frozen''"
| "account_status_value CLOSED = ''closed''"

definition all_account_statuses :: "account_status list" where
  "all_account_statuses = [ACTIVE, FROZEN, CLOSED]"

definition can_transact :: "account_status \<Rightarrow> bool" where
  "can_transact s \<longleftrightarrow> s = ACTIVE"

definition can_close :: "account_status \<Rightarrow> bool" where
  "can_close s \<longleftrightarrow> s = ACTIVE \<or> s = FROZEN"

definition account_is_terminal :: "account_status \<Rightarrow> bool" where
  "account_is_terminal s \<longleftrightarrow> s = CLOSED"

datatype kyc_status = KYC_PENDING | SUBMITTED | VERIFIED | REJECTED

fun kyc_status_value :: "kyc_status \<Rightarrow> string" where
  "kyc_status_value KYC_PENDING = ''pending''"
| "kyc_status_value SUBMITTED = ''submitted''"
| "kyc_status_value VERIFIED = ''verified''"
| "kyc_status_value REJECTED = ''rejected''"

definition can_open_account :: "kyc_status \<Rightarrow> bool" where
  "can_open_account s \<longleftrightarrow> s = VERIFIED"

definition kyc_is_terminal :: "kyc_status \<Rightarrow> bool" where
  "kyc_is_terminal s \<longleftrightarrow> s = REJECTED"

datatype transaction_status = PENDING | PROCESSING | COMPLETED | FAILED

fun transaction_status_value :: "transaction_status \<Rightarrow> string" where
  "transaction_status_value PENDING = ''pending''"
| "transaction_status_value PROCESSING = ''processing''"
| "transaction_status_value COMPLETED = ''completed''"
| "transaction_status_value FAILED = ''failed''"

definition all_transaction_statuses :: "transaction_status list" where
  "all_transaction_statuses = [PENDING, PROCESSING, COMPLETED, FAILED]"

definition status_is_terminal :: "transaction_status \<Rightarrow> bool" where
  "status_is_terminal s \<longleftrightarrow> s = COMPLETED \<or> s = FAILED"

definition can_process :: "transaction_status \<Rightarrow> bool" where
  "can_process s \<longleftrightarrow> s = PENDING"

definition can_complete :: "transaction_status \<Rightarrow> bool" where
  "can_complete s \<longleftrightarrow> s = PROCESSING"

definition can_fail :: "transaction_status \<Rightarrow> bool" where
  "can_fail s \<longleftrightarrow> s = PENDING \<or> s = PROCESSING"

datatype transaction_type = TRANSFER | DEPOSIT | WITHDRAWAL

fun transaction_type_value :: "transaction_type \<Rightarrow> string" where
  "transaction_type_value TRANSFER = ''transfer''"
| "transaction_type_value DEPOSIT = ''deposit''"
| "transaction_type_value WITHDRAWAL = ''withdrawal''"

definition all_transaction_types :: "transaction_type list" where
  "all_transaction_types = [TRANSFER, DEPOSIT, WITHDRAWAL]"

section \<open>Construction from a value\<close>

text \<open>\<open>Enum(v)\<close> returns the member whose value is \<open>v\<close>.\<close>

definition member_of_value :: "('m \<Rightarrow> string) \<Rightarrow> 'm list \<Rightarrow> string \<Rightarrow> 'm option" where
  "member_of_value val ms v = List.find (\<lambda>m. val m = v) ms"

definition currency_of_value :: "string \<Rightarrow> currency option" where
  "currency_of_value = member_of_value currency_value all_currencies"

definition account_status_of_value :: "string \<Rightarrow> account_status option" where
  "account_status_of_value = member_of_value account_status_value all_account_statuses"

definition transaction_status_of_value :: "string \<Rightarrow> transaction_status option" where
  "transaction_status_of_value = member_of_value transaction_status_value all_transaction_statuses"

definition transaction_type_of_value :: "string \<Rightarrow> transaction_type option" where
  "transaction_type_of_value = member_of_value transaction_type_value all_transaction_types"

text \<open>
  The contract of an enumeration: distinct members have distinct values, and the list of members is
  complete. Then the constructor inverts \<open>value\<close>, and it fails exactly on a string that is the value
  of no member.
\<close>

locale enumeration =
  fixes val :: "'m \<Rightarrow> string" and ms :: "'m list"
  assumes val_inject: "val a = val b \<Longrightarrow> a = b"
    and complete: "m \<in> set ms"
begin

lemma of_value_value [simp]: "member_of_value val ms (val m) = Some m"
proof -
  have "member_of_value val ms (val m) \<noteq> None"
    using complete by (auto simp: member_of_value_def find_None_iff)
  then obtain a where "member_of_value val ms (val m) = Some a" by blast
  moreover from this have "val a = val m"
    by (auto simp: member_of_value_def find_Some_iff)
  ultimately show ?thesis using val_inject by blast
qed

lemma of_value_iff: "member_of_value val ms v = Some m \<longleftrightarrow> v = val m"
  by (auto simp: member_of_value_def find_Some_iff) (metis of_value_value member_of_value_def find_Some_iff)

lemma of_value_None_iff: "member_of_value val ms v = None \<longleftrightarrow> v \<notin> range val"
  using of_value_iff [of v] by (cases "member_of_value val ms v") auto

end

interpretation currency: enumeration currency_value all_currencies
proof
  show "currency_value a = currency_value b \<Longrightarrow> a = b" for a b by (cases a; cases b) auto
  show "m \<in> set all_currencies" for m by (cases m) (auto simp: all_currencies_def)
qed

interpretation account_status: enumeration account_status_value all_account_statuses
proof
  show "account_status_value a = account_status_value b \<Longrightarrow> a = b" for a b by (cases a; cases b) auto
  show "m \<in> set all_account_statuses" for m by (cases m) (auto simp: all_account_statuses_def)
qed

interpretation transaction_status: enumeration transaction_status_value all_transaction_statuses
proof
  show "transaction_status_value a = transaction_status_value b \<Longrightarrow> a = b" for a b
    by (cases a; cases b) auto
  show "m \<in> set all_transaction_statuses" for m
    by (cases m) (auto simp: all_transaction_statuses_def)
qed

interpretation transaction_type: enumeration transaction_type_value all_transaction_types
proof
  show "transaction_type_value a = transaction_type_value b \<Longrightarrow> a = b" for a b
    by (cases a; cases b) auto
  show "m \<in> set all_transaction_types" for m by (cases m) (auto simp: all_transaction_types_def)
qed

lemma of_value_value_simps [simp, value_simps]:
  "currency_of_value (currency_value c) = Some c"
  "account_status_of_value (account_status_value a) = Some a"
  "transaction_status_of_value (transaction_status_value t) = Some t"
  "transaction_type_of_value (transaction_type_value k) = Some k"
  by (simp_all add: currency_of_value_def account_status_of_value_def
      transaction_status_of_value_def transaction_type_of_value_def)

text \<open>The guards of a transfer's life cycle in terms of \<open>is_terminal\<close>.\<close>

lemma can_fail_iff_not_terminal: "can_fail s \<longleftrightarrow> \<not> status_is_terminal s"
  by (cases s) (auto simp: can_fail_def status_is_terminal_def)

lemma can_close_iff_not_terminal: "can_close s \<longleftrightarrow> \<not> account_is_terminal s"
  by (cases s) (auto simp: can_close_def account_is_terminal_def)

end
