(* ===== verification/Exceptions.thy ===== *)
theory Exceptions
  imports Py_Decimal Identifiers Enums
begin

text \<open>
  The data that the exceptions carry and the exceptions themselves.

  \<^item> \<open>money\<close> is the data of \<open>Money\<close> (\<open>src/domain/value_objects/money.py\<close>); its operations are in
    theory Money, because they raise.
  \<^item> \<open>exn\<close> lists the exceptions of \<open>src/domain/exceptions\<close> with their constructor arguments, the
    built-in ones the code raises, and \<open>ExternalError\<close> (class name, message) for an exception that
    comes out of a library call.
  \<^item> \<open>exn_name\<close> is \<open>type(exc).__name__\<close> and \<open>exn_str\<close> is \<open>str(exc)\<close>: the transfer service stores both
    in the transaction, and the HTTP layer returns both.
\<close>

record money =
  amount :: decimal
  money_currency :: currency

definition money_str :: "money \<Rightarrow> string" where
  "money_str m = currency_value (money_currency m) @ '' '' @ format_2f (amount m)"

datatype exn =
    ResourceNotFoundError string uuid
  | CurrencyMismatchError currency currency
  | ConcurrencyConflictError string
  | BusinessRuleViolationError string
  | InsufficientFundsError money money
  | AccountFrozenError account_id
  | AccountClosedError account_id
  | AccountNotEmptyError account_id money
  | InvalidTransferAmountError money
  | SameAccountTransferError account_id
  | TransactionAlreadyProcessingError transaction_id string
  | TransactionAlreadyCompletedError transaction_id string
  | TransactionNotFailableError transaction_id string
  | DuplicateIdempotencyKeyError idempotency_key transaction_id
  | TransactionRollbackError transaction_id string
  | DecimalSignal dec_signal
  | ValueErr string
  | TypeErr string
  | AttributeErr string
  | ExternalError string string

definition quote :: "string \<Rightarrow> string" where
  "quote s = CHR 39 # s @ [CHR 39]"

primrec exn_name :: "exn \<Rightarrow> string" where
  "exn_name (ResourceNotFoundError _ _) = ''ResourceNotFoundError''"
| "exn_name (CurrencyMismatchError _ _) = ''CurrencyMismatchError''"
| "exn_name (ConcurrencyConflictError _) = ''ConcurrencyConflictError''"
| "exn_name (BusinessRuleViolationError _) = ''BusinessRuleViolationError''"
| "exn_name (InsufficientFundsError _ _) = ''InsufficientFundsError''"
| "exn_name (AccountFrozenError _) = ''AccountFrozenError''"
| "exn_name (AccountClosedError _) = ''AccountClosedError''"
| "exn_name (AccountNotEmptyError _ _) = ''AccountNotEmptyError''"
| "exn_name (InvalidTransferAmountError _) = ''InvalidTransferAmountError''"
| "exn_name (SameAccountTransferError _) = ''SameAccountTransferError''"
| "exn_name (TransactionAlreadyProcessingError _ _) = ''TransactionAlreadyProcessingError''"
| "exn_name (TransactionAlreadyCompletedError _ _) = ''TransactionAlreadyCompletedError''"
| "exn_name (TransactionNotFailableError _ _) = ''TransactionNotFailableError''"
| "exn_name (DuplicateIdempotencyKeyError _ _) = ''DuplicateIdempotencyKeyError''"
| "exn_name (TransactionRollbackError _ _) = ''TransactionRollbackError''"
| "exn_name (DecimalSignal d) = (case d of InvalidOperation \<Rightarrow> ''InvalidOperation'' | DecOverflow \<Rightarrow> ''Overflow'')"
| "exn_name (ValueErr _) = ''ValueError''"
| "exn_name (TypeErr _) = ''TypeError''"
| "exn_name (AttributeErr _) = ''AttributeError''"
| "exn_name (ExternalError n _) = n"

primrec exn_str :: "exn \<Rightarrow> string" where
  "exn_str (ResourceNotFoundError r i) = r @ '' with id '' @ quote (uuid_str i) @ '' not found.''"
| "exn_str (CurrencyMismatchError l r) =
     ''Cannot operate on different currencies: '' @ currency_value l @ '' vs '' @ currency_value r @ ''.''"
| "exn_str (ConcurrencyConflictError r) =
     ''Concurrent operation in progress on '' @ quote r @ ''. Please retry.''"
| "exn_str (BusinessRuleViolationError m) = m"
| "exn_str (InsufficientFundsError a r) =
     ''Insufficient funds: requested '' @ money_str r @ '', but only '' @ money_str a @ '' available.''"
| "exn_str (AccountFrozenError i) =
     ''Account '' @ quote (uuid_str i) @ '' is frozen. No transactions permitted until unfrozen.''"
| "exn_str (AccountClosedError i) = ''Account '' @ quote (uuid_str i) @ '' is permanently closed.''"
| "exn_str (AccountNotEmptyError i b) =
     ''Cannot close account '' @ quote (uuid_str i) @
     '': balance must be zero, current balance is '' @ money_str b @ ''.''"
| "exn_str (InvalidTransferAmountError m) =
     ''Transfer amount must be greater than zero. Got: '' @ money_str m @ ''.''"
| "exn_str (SameAccountTransferError i) =
     ''Cannot transfer to the same account: '' @ quote (uuid_str i) @ ''.''"
| "exn_str (TransactionAlreadyProcessingError i s) =
     ''Transaction '' @ quote (uuid_str i) @ '' cannot move to PROCESSING: current status is '' @
     quote s @ ''. Only PENDING transactions can begin processing.''"
| "exn_str (TransactionAlreadyCompletedError i s) =
     ''Transaction '' @ quote (uuid_str i) @ '' cannot be completed: current status is '' @
     quote s @ ''. Only PROCESSING transactions can complete.''"
| "exn_str (TransactionNotFailableError i s) =
     ''Transaction '' @ quote (uuid_str i) @ '' cannot be failed: current status is '' @
     quote s @ ''. To reverse a COMPLETED transfer, create a REVERSAL transaction.''"
| "exn_str (DuplicateIdempotencyKeyError k i) =
     ''Idempotency key '' @ quote k @ '' was already used by transaction '' @ quote (uuid_str i) @
     ''. Return the existing transaction '' @ map char_of [226::nat, 128, 148] @ '' do not create a duplicate.''"
| "exn_str (TransactionRollbackError i s) =
     ''Transaction '' @ quote (uuid_str i) @ '' cannot be rolled back: current status is '' @
     quote s @ ''. Rollback is only valid for FAILED transactions that reached PROCESSING.''"
| "exn_str (DecimalSignal d) =
     ''[<class '' @ quote (case d of InvalidOperation \<Rightarrow> ''decimal.InvalidOperation''
       | DecOverflow \<Rightarrow> ''decimal.Overflow'') @ ''>]''"
| "exn_str (ValueErr m) = m"
| "exn_str (TypeErr m) = m"
| "exn_str (AttributeErr m) = m"
| "exn_str (ExternalError _ m) = m"

text \<open>The subclasses of \<open>DomainException\<close>.\<close>

definition is_domain_exception :: "exn \<Rightarrow> bool" where
  "is_domain_exception e =
     (case e of
        DecimalSignal _ \<Rightarrow> False
      | ValueErr _ \<Rightarrow> False
      | TypeErr _ \<Rightarrow> False
      | AttributeErr _ \<Rightarrow> False
      | ExternalError _ _ \<Rightarrow> False
      | _ \<Rightarrow> True)"

text \<open>A decimal signal becomes an exception of the caller.\<close>

definition raise_dec :: "dec_signal + 'a \<Rightarrow> exn + 'a" where
  "raise_dec r = (case r of Inl s \<Rightarrow> Inl (DecimalSignal s) | Inr x \<Rightarrow> Inr x)"

lemma raise_dec_simps [simp]:
  "raise_dec (Inl s) = Inl (DecimalSignal s)"
  "raise_dec (Inr x) = Inr x"
  by (simp_all add: raise_dec_def)

text \<open>\<open>repr\<close> of a string, as it appears in the message of a failed enum lookup.\<close>

definition repr_char :: "char \<Rightarrow> char \<Rightarrow> string" where
  "repr_char q c =
     (let n = of_char c :: nat
      in if c = q \<or> n = 92 then [CHR 92, c]
         else if n = 10 then [CHR 92, CHR ''n'']
         else if n = 13 then [CHR 92, CHR ''r'']
         else if n = 9 then [CHR 92, CHR ''t'']
         else if n < 32 \<or> (127 \<le> n \<and> n \<le> 160) \<or> n = 173
         then CHR 92 # CHR ''x'' # map hex_char (to_base16 2 n)
         else [c])"

definition py_repr :: "string \<Rightarrow> string" where
  "py_repr s =
     (let q = (if CHR 39 \<in> set s \<and> CHR 34 \<notin> set s then CHR 34 else CHR 39)
      in q # concat (map (repr_char q) s) @ [q])"

definition enum_value_error :: "string \<Rightarrow> string \<Rightarrow> exn" where
  "enum_value_error cls v = ValueErr (py_repr v @ '' is not a valid '' @ cls)"

definition parse_currency :: "string \<Rightarrow> exn + currency" where
  "parse_currency v =
     (case currency_of_value v of Some c \<Rightarrow> Inr c | None \<Rightarrow> Inl (enum_value_error ''Currency'' v))"

definition parse_account_status :: "string \<Rightarrow> exn + account_status" where
  "parse_account_status v =
     (case account_status_of_value v of Some c \<Rightarrow> Inr c | None \<Rightarrow> Inl (enum_value_error ''AccountStatus'' v))"

definition parse_transaction_status :: "string \<Rightarrow> exn + transaction_status" where
  "parse_transaction_status v =
     (case transaction_status_of_value v of Some c \<Rightarrow> Inr c
      | None \<Rightarrow> Inl (enum_value_error ''TransactionStatus'' v))"

definition parse_transaction_type :: "string \<Rightarrow> exn + transaction_type" where
  "parse_transaction_type v =
     (case transaction_type_of_value v of Some c \<Rightarrow> Inr c
      | None \<Rightarrow> Inl (enum_value_error ''TransactionType'' v))"

lemma parse_value_simps [simp, value_simps]:
  "parse_currency (currency_value c) = Inr c"
  "parse_account_status (account_status_value a) = Inr a"
  "parse_transaction_status (transaction_status_value t) = Inr t"
  "parse_transaction_type (transaction_type_value k) = Inr k"
  by (simp_all add: parse_currency_def parse_account_status_def parse_transaction_status_def
      parse_transaction_type_def)

end
