(* ===== verification/Money.thy ===== *)
theory Money
  imports Exceptions
begin

text \<open>
  \<open>src/domain/value_objects/money.py\<close>: construction with rounding to cents, addition, subtraction
  and comparison, on the decimals of theory Py_Decimal.

  \<open>money_ok\<close> is the invariant every constructed \<open>Money\<close> has: two decimal places, at most 28 digits,
  not negative (a zero may carry a minus sign, as \<open>Decimal("-0.001")\<close> rounds to \<open>-0.00\<close>, which is
  not less than zero). Under it the operations are exact arithmetic on whole cents, up to the
  bound where the decimal context refuses the result.
\<close>

section \<open>Operations\<close>

text \<open>The constructor's argument: a \<open>Decimal\<close>, or another object with its \<open>str\<close> and \<open>repr\<close>.\<close>

datatype amount_arg = DecArg decimal | OtherArg string string

definition money_post_init :: "amount_arg \<Rightarrow> currency \<Rightarrow> exn + money" where
  "money_post_init a cur =
     bindR (case a of
         DecArg d \<Rightarrow> Inr d
       | OtherArg s r \<Rightarrow> (case dec_of_str s of
             None \<Rightarrow> Inl (ValueErr (''Invalid monetary amount: '' @ r))
           | Some d \<Rightarrow> Inr d)) (\<lambda>d.
     bindR (raise_dec (quantize_cents d)) (\<lambda>rounded.
     bindR (raise_dec (dec_lt rounded dec_zero)) (\<lambda>neg.
       if neg
       then Inl (ValueErr (''Money amount cannot be negative: '' @ dec_str rounded @
              ''. Use a positive amount and call debit() on the account.''))
       else Inr \<lparr>amount = rounded, money_currency = cur\<rparr>)))"

definition money_new :: "decimal \<Rightarrow> currency \<Rightarrow> exn + money" where
  "money_new d cur = money_post_init (DecArg d) cur"

definition assert_same_currency :: "money \<Rightarrow> money \<Rightarrow> exn + unit" where
  "assert_same_currency m other =
     (if money_currency m \<noteq> money_currency other
      then Inl (CurrencyMismatchError (money_currency m) (money_currency other))
      else Inr ())"

definition money_add :: "money \<Rightarrow> money \<Rightarrow> exn + money" where
  "money_add m other =
     bindR (assert_same_currency m other) (\<lambda>_.
     bindR (raise_dec (dec_add (amount m) (amount other))) (\<lambda>s.
       money_new s (money_currency m)))"

definition money_sub :: "money \<Rightarrow> money \<Rightarrow> exn + money" where
  "money_sub m other =
     bindR (assert_same_currency m other) (\<lambda>_.
     bindR (raise_dec (dec_sub (amount m) (amount other))) (\<lambda>d.
     bindR (raise_dec (quantize_cents d)) (\<lambda>result_amount.
     bindR (raise_dec (dec_lt result_amount dec_zero)) (\<lambda>neg.
       if neg then Inl (InsufficientFundsError m other)
       else money_new result_amount (money_currency m)))))"

definition money_lt :: "money \<Rightarrow> money \<Rightarrow> exn + bool" where
  "money_lt m other =
     bindR (assert_same_currency m other) (\<lambda>_. raise_dec (dec_lt (amount m) (amount other)))"

definition money_le :: "money \<Rightarrow> money \<Rightarrow> exn + bool" where
  "money_le m other =
     bindR (assert_same_currency m other) (\<lambda>_. raise_dec (dec_le (amount m) (amount other)))"

definition money_gt :: "money \<Rightarrow> money \<Rightarrow> exn + bool" where
  "money_gt m other =
     bindR (assert_same_currency m other) (\<lambda>_. raise_dec (dec_lt (amount other) (amount m)))"

definition money_ge :: "money \<Rightarrow> money \<Rightarrow> exn + bool" where
  "money_ge m other =
     bindR (assert_same_currency m other) (\<lambda>_. raise_dec (dec_le (amount other) (amount m)))"

text \<open>\<open>is_zero\<close>: a NaN is not zero; a \<open>Money\<close> never holds a signalling NaN.\<close>

definition is_zero :: "money \<Rightarrow> bool" where
  "is_zero m \<longleftrightarrow> dec_eq (amount m) dec_zero = Inr True"

section \<open>The invariant\<close>

definition money_ok :: "money \<Rightarrow> bool" where
  "money_ok m =
     (case amount m of Fin s c e \<Rightarrow> e = -2 \<and> c < max_cents \<and> (s \<longrightarrow> c = 0) | _ \<Rightarrow> False)"

definition money_cents :: "money \<Rightarrow> int" where
  "money_cents m = cents (amount m)"

lemma money_okE:
  assumes "money_ok m"
  obtains s c where "amount m = Fin s c (-2)" and "c < max_cents" and "s \<longrightarrow> c = 0"
    and "money_cents m = int c" and "dec_signed s c = int c"
  using assms by (auto simp: money_ok_def money_cents_def dec_signed_def split: decimal.splits)

lemma money_ok_bounds: "money_ok m \<Longrightarrow> 0 \<le> money_cents m \<and> money_cents m < int max_cents"
  by (auto elim!: money_okE)

lemma money_okI: "amount m = Fin s c (-2) \<Longrightarrow> c < max_cents \<Longrightarrow> (s \<Longrightarrow> c = 0) \<Longrightarrow> money_ok m"
  by (simp add: money_ok_def)

lemma is_zero_iff: "money_ok m \<Longrightarrow> is_zero m \<longleftrightarrow> money_cents m = 0"
  by (erule money_okE) (simp add: is_zero_def dec_eq_def dec_zero_def cmp_fin_def sgn_0_0)

text \<open>Construction from a decimal that is in cents already.\<close>

lemma money_new_cents:
  "money_new (Fin s c (-2)) cur =
     (if max_cents \<le> c then Inl (DecimalSignal InvalidOperation)
      else if s \<and> c \<noteq> 0
      then Inl (ValueErr (''Money amount cannot be negative: '' @ dec_str (Fin s c (-2)) @
              ''. Use a positive amount and call debit() on the account.''))
      else Inr \<lparr>amount = Fin s c (-2), money_currency = cur\<rparr>)"
  by (auto simp: money_new_def money_post_init_def dec_lt_def dec_zero_def cmp_fin_def dec_signed_def
      sgn_if simp del: quantize_cents.simps)

lemma money_post_init_ok:
  assumes "money_post_init a cur = Inr m"
  shows "money_ok m \<and> money_currency m = cur"
proof -
  obtain d r where "raise_dec (quantize_cents d) = Inr r" and lt: "raise_dec (dec_lt r dec_zero) = Inr False"
    and m: "m = \<lparr>amount = r, money_currency = cur\<rparr>"
    using assms by (auto simp: money_post_init_def bindR_Inr_iff split: if_splits)
  then have "quantize_cents d = Inr r" by (auto simp: raise_dec_def split: sum.splits)
  then consider "r = NaN" | s q where "r = Fin s q (-2)" "q < max_cents"
    using quantize_cents_Inr by blast
  then show ?thesis
  proof cases
    case 1
    with lt show ?thesis by (simp add: dec_lt_def)
  next
    case 2
    with lt have "s \<longrightarrow> q = 0"
      by (auto simp: dec_lt_def dec_zero_def cmp_fin_def sgn_if dec_signed_def split: if_splits)
    with 2 m show ?thesis by (simp add: money_ok_def)
  qed
qed

lemma money_new_ok: "money_new d cur = Inr m \<Longrightarrow> money_ok m \<and> money_currency m = cur"
  unfolding money_new_def by (rule money_post_init_ok)

lemma money_new_amount:
  assumes "money_ok m"
  shows "money_new (amount m) cur = Inr (m\<lparr>money_currency := cur\<rparr>)"
  using assms by (elim money_okE) (auto simp: money_new_cents)

section \<open>Arithmetic on cents\<close>

lemma money_add_mismatch:
  "money_currency a \<noteq> money_currency b \<Longrightarrow>
     money_add a b = Inl (CurrencyMismatchError (money_currency a) (money_currency b))"
  by (simp add: money_add_def assert_same_currency_def)

lemma money_sub_mismatch:
  "money_currency a \<noteq> money_currency b \<Longrightarrow>
     money_sub a b = Inl (CurrencyMismatchError (money_currency a) (money_currency b))"
  by (simp add: money_sub_def assert_same_currency_def)

lemma money_add_exact:
  assumes "money_ok a" and "money_ok b" and "money_currency a = money_currency b"
    and "money_cents a + money_cents b < int max_cents"
  obtains m where "money_add a b = Inr m" and "money_ok m"
    and "money_cents m = money_cents a + money_cents b" and "money_currency m = money_currency a"
proof -
  obtain s1 c1 where a: "amount a = Fin s1 c1 (-2)" "c1 < max_cents" "s1 \<longrightarrow> c1 = 0"
    "money_cents a = int c1" "dec_signed s1 c1 = int c1"
    using assms(1) by (rule money_okE)
  obtain s2 c2 where b: "amount b = Fin s2 c2 (-2)" "c2 < max_cents" "s2 \<longrightarrow> c2 = 0"
    "money_cents b = int c2" "dec_signed s2 c2 = int c2"
    using assms(2) by (rule money_okE)
  let ?s = "c1 + c2 = 0 \<and> s1 \<and> s2"
  have lt: "c1 + c2 < max_cents" using assms(4) a(4) b(4) by linarith
  have n: "nat \<bar>int c1 + int c2\<bar> = c1 + c2" by (simp add: nat_add_distrib)
  have "dec_add (amount a) (amount b) = Inr (Fin ?s (c1 + c2) (-2))"
    unfolding a(1) b(1) dec_add_cents a(5) b(5) n by (subst dec_fix_cents [OF lt]) auto
  then have "money_add a b = Inr \<lparr>amount = Fin ?s (c1 + c2) (-2), money_currency = money_currency a\<rparr>"
    using assms(3) lt by (auto simp: money_add_def assert_same_currency_def money_new_cents)
  then show thesis
    by (rule that) (use lt a b in \<open>auto simp: money_ok_def money_cents_def dec_signed_def\<close>)
qed

lemma money_add_too_large:
  assumes "money_ok a" and "money_ok b" and "money_currency a = money_currency b"
    and "int max_cents \<le> money_cents a + money_cents b"
  shows "money_add a b = Inl (DecimalSignal InvalidOperation)"
proof -
  obtain s1 c1 where a: "amount a = Fin s1 c1 (-2)" "c1 < max_cents" "s1 \<longrightarrow> c1 = 0"
    "money_cents a = int c1" "dec_signed s1 c1 = int c1"
    using assms(1) by (rule money_okE)
  obtain s2 c2 where b: "amount b = Fin s2 c2 (-2)" "c2 < max_cents" "s2 \<longrightarrow> c2 = 0"
    "money_cents b = int c2" "dec_signed s2 c2 = int c2"
    using assms(2) by (rule money_okE)
  have ge: "max_cents \<le> c1 + c2" using assms(4) a(4) b(4) by linarith
  have lt: "c1 + c2 < 2 * max_cents" using a(2) b(2) by linarith
  have n: "nat \<bar>int c1 + int c2\<bar> = c1 + c2" by (simp add: nat_add_distrib)
  obtain c' where c': "dec_add (amount a) (amount b) = Inr (Fin False c' (-1))" and big: "max_cents \<le> c' * 10"
    unfolding a(1) b(1) dec_add_cents a(5) b(5) n
    using dec_fix_overflow [OF ge lt, of False] ge by (auto simp: max_cents_def)
  have "quantize_cents (Fin False c' (-1)) = Inl InvalidOperation"
    using big by (simp add: ndigits_gt_prec)
  with c' assms(3) show ?thesis
    by (simp add: money_add_def assert_same_currency_def money_new_def money_post_init_def
        del: quantize_cents.simps)
qed

lemma dec_sub_ok:
  assumes "money_ok a" and "money_ok b"
  obtains s c where "dec_sub (amount a) (amount b) = Inr (Fin s c (-2))" and "c < max_cents"
    and "dec_signed s c = money_cents a - money_cents b"
proof -
  obtain s1 c1 where a: "amount a = Fin s1 c1 (-2)" "c1 < max_cents" "s1 \<longrightarrow> c1 = 0"
    "money_cents a = int c1" "dec_signed s1 c1 = int c1"
    using assms(1) by (rule money_okE)
  obtain s2 c2 where b: "amount b = Fin s2 c2 (-2)" "c2 < max_cents" "s2 \<longrightarrow> c2 = 0"
    "money_cents b = int c2" "dec_signed s2 c2 = int c2"
    using assms(2) by (rule money_okE)
  let ?d = "int c1 - int c2"
  have neg: "dec_signed (\<not> s2) c2 = - int c2" using b(5) by (auto simp: dec_signed_def split: if_splits)
  have sum: "dec_signed s1 c1 + dec_signed (\<not> s2) c2 = ?d" using a(5) neg by simp
  have lt: "nat \<bar>?d\<bar> < max_cents" using a(2) b(2) by linarith
  let ?s = "if ?d = 0 then s1 \<and> \<not> s2 else ?d < 0"
  have "dec_sub (amount a) (amount b) = Inr (Fin ?s (nat \<bar>?d\<bar>) (-2))"
    unfolding dec_sub_def a(1) b(1) dec_neg.simps dec_add_cents sum by (rule dec_fix_cents [OF lt])
  then show thesis
    by (rule that) (use lt a(4) b(4) in \<open>auto simp: dec_signed_def\<close>)
qed

lemma dec_lt_zero_cents: "dec_lt (Fin s c (-2)) dec_zero = Inr (dec_signed s c < 0)"
  by (cases s) (simp_all add: dec_lt_def dec_zero_def cmp_fin_def sgn_if)

lemma money_sub_unfold:
  assumes "money_ok a" and "money_ok b" and "money_currency a = money_currency b"
  obtains s c where "c < max_cents" and "dec_signed s c = money_cents a - money_cents b"
    and "money_sub a b =
      (if dec_signed s c < 0 then Inl (InsufficientFundsError a b) else money_new (Fin s c (-2)) (money_currency a))"
proof -
  obtain s c where d: "dec_sub (amount a) (amount b) = Inr (Fin s c (-2))" and lt: "c < max_cents"
    and v: "dec_signed s c = money_cents a - money_cents b"
    using assms(1,2) by (rule dec_sub_ok)
  from d lt assms(3) have "money_sub a b =
      (if dec_signed s c < 0 then Inl (InsufficientFundsError a b) else money_new (Fin s c (-2)) (money_currency a))"
    by (simp add: money_sub_def assert_same_currency_def dec_lt_zero_cents del: quantize_cents.simps)
  with lt v show thesis by (rule that)
qed

lemma money_sub_exact:
  assumes "money_ok a" and "money_ok b" and "money_currency a = money_currency b"
    and "money_cents b \<le> money_cents a"
  obtains m where "money_sub a b = Inr m" and "money_ok m"
    and "money_cents m = money_cents a - money_cents b" and "money_currency m = money_currency a"
proof -
  obtain s c where lt: "c < max_cents" and v: "dec_signed s c = money_cents a - money_cents b"
    and r: "money_sub a b =
      (if dec_signed s c < 0 then Inl (InsufficientFundsError a b) else money_new (Fin s c (-2)) (money_currency a))"
    using assms(1-3) by (rule money_sub_unfold)
  from v assms(4) have nn: "0 \<le> dec_signed s c" by simp
  then have "s \<longrightarrow> c = 0" by (auto simp: dec_signed_def)
  with r nn lt have "money_sub a b = Inr \<lparr>amount = Fin s c (-2), money_currency = money_currency a\<rparr>"
    by (auto simp: money_new_cents)
  then show thesis
    by (rule that) (use lt v \<open>s \<longrightarrow> c = 0\<close> in \<open>simp_all add: money_ok_def money_cents_def\<close>)
qed

lemma money_sub_insufficient:
  assumes "money_ok a" and "money_ok b" and "money_currency a = money_currency b"
    and "money_cents a < money_cents b"
  shows "money_sub a b = Inl (InsufficientFundsError a b)"
proof -
  obtain s c where "dec_signed s c = money_cents a - money_cents b"
    and "money_sub a b =
      (if dec_signed s c < 0 then Inl (InsufficientFundsError a b) else money_new (Fin s c (-2)) (money_currency a))"
    using assms(1-3) by (rule money_sub_unfold)
  with assms(4) show ?thesis by simp
qed

text \<open>What a successful operation says about its operands, for any operands.\<close>

lemma money_add_Inr:
  assumes "money_add a b = Inr m"
  shows "money_ok m" and "money_currency a = money_currency b" and "money_currency m = money_currency a"
  using assms
  by (auto simp: money_add_def assert_same_currency_def bindR_Inr_iff dest!: money_new_ok split: if_splits)

lemma money_sub_Inr:
  assumes "money_sub a b = Inr m"
  shows "money_ok m" and "money_currency a = money_currency b" and "money_currency m = money_currency a"
proof -
  have "assert_same_currency a b = Inr ()"
    using assms by (cases "assert_same_currency a b") (simp_all add: money_sub_def)
  then show "money_currency a = money_currency b"
    by (simp add: assert_same_currency_def split: if_splits)
  have "\<exists>r neg. (if neg then Inl (InsufficientFundsError a b)
      else money_new r (money_currency a)) = Inr m"
    using assms unfolding money_sub_def bindR_Inr_iff by blast
  then have "\<exists>r. money_new r (money_currency a) = Inr m" by (auto split: if_splits)
  then show "money_ok m" and "money_currency m = money_currency a"
    using money_new_ok by blast+
qed

lemma money_add_cents:
  assumes "money_ok a" and "money_ok b" and "money_add a b = Inr m"
  shows "money_cents m = money_cents a + money_cents b"
    and "money_cents a + money_cents b < int max_cents"
proof -
  have cur: "money_currency a = money_currency b" by (rule money_add_Inr(2) [OF assms(3)])
  show lt: "money_cents a + money_cents b < int max_cents"
  proof (rule ccontr)
    assume "\<not> ?thesis"
    with money_add_too_large [OF assms(1,2) cur] assms(3) show False by simp
  qed
  obtain m' where "money_add a b = Inr m'" and "money_cents m' = money_cents a + money_cents b"
    using money_add_exact [OF assms(1,2) cur lt] by blast
  with assms(3) show "money_cents m = money_cents a + money_cents b" by simp
qed

lemma money_sub_cents:
  assumes "money_ok a" and "money_ok b" and "money_sub a b = Inr m"
  shows "money_cents m = money_cents a - money_cents b" and "money_cents b \<le> money_cents a"
proof -
  have cur: "money_currency a = money_currency b" by (rule money_sub_Inr(2) [OF assms(3)])
  show le: "money_cents b \<le> money_cents a"
  proof (rule ccontr)
    assume "\<not> ?thesis"
    with money_sub_insufficient [OF assms(1,2) cur] assms(3) show False by simp
  qed
  obtain m' where "money_sub a b = Inr m'" and "money_cents m' = money_cents a - money_cents b"
    using money_sub_exact [OF assms(1,2) cur le] by blast
  with assms(3) show "money_cents m = money_cents a - money_cents b" by simp
qed

end
