(* ===== verification/Events.thy ===== *)
theory Events
  imports Money
begin

text \<open>
  Time, the readings of the environment, the domain events (\<open>src/domain/events\<close>) with their
  rendering as a dictionary and as JSON, and the base classes of the aggregates
  (\<open>src/domain/entities/base.py\<close>).

  \<^item> A \<open>datetime\<close> is a point in UTC; every one the program makes or reads back is.
  \<^item> \<open>readings\<close> are what one call reads from its environment: the UUIDs that \<open>uuid4()\<close>
    returns, the times that \<open>datetime.now\<close> returns and the numbers that \<open>random.randint(0, 9)\<close>
    returns, each in the order of the calls. The model never says how they are chosen.
  \<^item> A domain event has the base class's fields and the data of its own class (\<open>event_data\<close>,
    one constructor per class).
\<close>

section \<open>Time and environment\<close>

datatype datetime = Datetime (dt_year: nat) (dt_month: nat) (dt_day: nat)
  (dt_hour: nat) (dt_minute: nat) (dt_second: nat) (dt_micro: nat)

text \<open>\<open>d.isoformat()\<close> for a time zone aware value in UTC; no fraction when it is zero.\<close>

definition isoformat :: "datetime \<Rightarrow> string" where
  "isoformat d =
     pad_str 4 (dt_year d) @ ''-'' @ pad_str 2 (dt_month d) @ ''-'' @ pad_str 2 (dt_day d) @ ''T'' @
     pad_str 2 (dt_hour d) @ '':'' @ pad_str 2 (dt_minute d) @ '':'' @ pad_str 2 (dt_second d) @
     (if dt_micro d = 0 then '''' else ''.'' @ pad_str 6 (dt_micro d)) @ ''+00:00''"

record readings =
  rd_uuid :: "nat \<Rightarrow> uuid"
  rd_now :: "nat \<Rightarrow> datetime"
  rd_randint :: "nat \<Rightarrow> nat"

section \<open>Domain events\<close>

datatype event_data =
    AccountCreated account_id owner_id string decimal
  | BalanceDebited account_id transaction_id decimal string decimal
  | BalanceCredited account_id transaction_id decimal string decimal
  | AccountFrozen account_id owner_id string
  | AccountUnfrozen account_id owner_id
  | AccountClosed account_id owner_id
  | TransactionInitiated transaction_id account_id account_id decimal string string
  | TransactionProcessing transaction_id account_id account_id decimal string
  | TransactionCompleted transaction_id account_id account_id decimal string
  | TransactionFailed transaction_id account_id account_id decimal string string string bool
  | TransactionRolledBack transaction_id account_id decimal string
  | DuplicateTransactionDetected string transaction_id account_id

record domain_event =
  event_id :: uuid
  occurred_at :: datetime
  metadata :: "(string \<times> string) list"
  event_data :: event_data

text \<open>\<open>self.__class__.__name__\<close>.\<close>

primrec event_class :: "event_data \<Rightarrow> string" where
  "event_class (AccountCreated _ _ _ _) = ''AccountCreated''"
| "event_class (BalanceDebited _ _ _ _ _) = ''BalanceDebited''"
| "event_class (BalanceCredited _ _ _ _ _) = ''BalanceCredited''"
| "event_class (AccountFrozen _ _ _) = ''AccountFrozen''"
| "event_class (AccountUnfrozen _ _) = ''AccountUnfrozen''"
| "event_class (AccountClosed _ _) = ''AccountClosed''"
| "event_class (TransactionInitiated _ _ _ _ _ _) = ''TransactionInitiated''"
| "event_class (TransactionProcessing _ _ _ _ _) = ''TransactionProcessing''"
| "event_class (TransactionCompleted _ _ _ _ _) = ''TransactionCompleted''"
| "event_class (TransactionFailed _ _ _ _ _ _ _ _) = ''TransactionFailed''"
| "event_class (TransactionRolledBack _ _ _ _) = ''TransactionRolledBack''"
| "event_class (DuplicateTransactionDetected _ _ _) = ''DuplicateTransactionDetected''"

definition event_type :: "domain_event \<Rightarrow> string" where
  "event_type e = event_class (event_data e)"

text \<open>The values that an event's dictionary holds.\<close>

datatype pyval = PUuid uuid | PDatetime datetime | PDecimal decimal | PStr string | PBool bool
  | PDict "(string \<times> string) list"

text \<open>The fields of each class, in the order of their declaration.\<close>

primrec event_fields :: "event_data \<Rightarrow> (string \<times> pyval) list" where
  "event_fields (AccountCreated a own cur bal) =
     [(''account_id'', PUuid a), (''owner_id'', PUuid own), (''currency'', PStr cur),
      (''initial_balance'', PDecimal bal)]"
| "event_fields (BalanceDebited a t amt cur aft) =
     [(''account_id'', PUuid a), (''transaction_id'', PUuid t), (''amount'', PDecimal amt),
      (''currency'', PStr cur), (''balance_after'', PDecimal aft)]"
| "event_fields (BalanceCredited a t amt cur aft) =
     [(''account_id'', PUuid a), (''transaction_id'', PUuid t), (''amount'', PDecimal amt),
      (''currency'', PStr cur), (''balance_after'', PDecimal aft)]"
| "event_fields (AccountFrozen a own reason) =
     [(''account_id'', PUuid a), (''owner_id'', PUuid own), (''reason'', PStr reason)]"
| "event_fields (AccountUnfrozen a own) = [(''account_id'', PUuid a), (''owner_id'', PUuid own)]"
| "event_fields (AccountClosed a own) = [(''account_id'', PUuid a), (''owner_id'', PUuid own)]"
| "event_fields (TransactionInitiated t f g amt cur key) =
     [(''transaction_id'', PUuid t), (''from_account_id'', PUuid f), (''to_account_id'', PUuid g),
      (''amount'', PDecimal amt), (''currency'', PStr cur), (''idempotency_key'', PStr key)]"
| "event_fields (TransactionProcessing t f g amt cur) =
     [(''transaction_id'', PUuid t), (''from_account_id'', PUuid f), (''to_account_id'', PUuid g),
      (''amount'', PDecimal amt), (''currency'', PStr cur)]"
| "event_fields (TransactionCompleted t f g amt cur) =
     [(''transaction_id'', PUuid t), (''from_account_id'', PUuid f), (''to_account_id'', PUuid g),
      (''amount'', PDecimal amt), (''currency'', PStr cur)]"
| "event_fields (TransactionFailed t f g amt cur code reason rb) =
     [(''transaction_id'', PUuid t), (''from_account_id'', PUuid f), (''to_account_id'', PUuid g),
      (''amount'', PDecimal amt), (''currency'', PStr cur), (''failure_code'', PStr code),
      (''failure_reason'', PStr reason), (''rollback_required'', PBool rb)]"
| "event_fields (TransactionRolledBack t f amt cur) =
     [(''transaction_id'', PUuid t), (''from_account_id'', PUuid f),
      (''amount'', PDecimal amt), (''currency'', PStr cur)]"
| "event_fields (DuplicateTransactionDetected key t f) =
     [(''idempotency_key'', PStr key), (''original_transaction_id'', PUuid t),
      (''from_account_id'', PUuid f)]"

definition asdict :: "domain_event \<Rightarrow> (string \<times> pyval) list" where
  "asdict e =
     [(''event_id'', PUuid (event_id e)), (''occurred_at'', PDatetime (occurred_at e)),
      (''metadata'', PDict (metadata e))] @ event_fields (event_data e)"

text \<open>The loop of \<open>to_dict\<close>: UUIDs and times become strings, other values stay.\<close>

fun plain_val :: "pyval \<Rightarrow> pyval" where
  "plain_val (PUuid u) = PStr (uuid_str u)"
| "plain_val (PDatetime d) = PStr (isoformat d)"
| "plain_val v = v"

definition to_dict :: "domain_event \<Rightarrow> (string \<times> pyval) list" where
  "to_dict e = map (\<lambda>(k, v). (k, plain_val v)) (asdict e @ [(''event_type'', PStr (event_type e))])"

section \<open>JSON\<close>

definition json_char :: "char \<Rightarrow> string" where
  "json_char c =
     (let n = of_char c :: nat
      in if n = 34 then [CHR 92, CHR 34]
         else if n = 92 then [CHR 92, CHR 92]
         else if n = 10 then [CHR 92, CHR ''n'']
         else if n = 13 then [CHR 92, CHR ''r'']
         else if n = 9 then [CHR 92, CHR ''t'']
         else if n = 12 then [CHR 92, CHR ''f'']
         else if n = 8 then [CHR 92, CHR ''b'']
         else if n < 32 \<or> 126 < n then CHR 92 # CHR ''u'' # map hex_char (to_base16 4 n)
         else [c])"

definition json_string :: "string \<Rightarrow> string" where
  "json_string s = CHR 34 # concat (map json_char s) @ [CHR 34]"

fun join :: "string \<Rightarrow> string list \<Rightarrow> string" where
  "join sep [] = []"
| "join sep [x] = x"
| "join sep (x # y # xs) = x @ sep @ join sep (y # xs)"

definition json_object :: "(string \<times> string) list \<Rightarrow> string" where
  "json_object kvs = ''{'' @ join '', '' (map (\<lambda>(k, v). json_string k @ '': '' @ v) kvs) @ ''}''"

text \<open>\<open>json.dumps(d, default=str)\<close>: a \<open>Decimal\<close> is not a JSON value, so it is rendered by \<open>str\<close>.\<close>

fun json_val :: "pyval \<Rightarrow> string" where
  "json_val (PStr s) = json_string s"
| "json_val (PDecimal d) = json_string (dec_str d)"
| "json_val (PBool b) = (if b then ''true'' else ''false'')"
| "json_val (PDict kvs) = json_object (map (\<lambda>(k, v). (k, json_string v)) kvs)"
| "json_val (PUuid u) = json_string (uuid_str u)"
| "json_val (PDatetime d) = json_string (isoformat d)"

definition to_json :: "domain_event \<Rightarrow> string" where
  "to_json e = json_object (map (\<lambda>(k, v). (k, json_val v)) (to_dict e))"

section \<open>Entities and aggregate roots\<close>

record entity =
  entity_id :: uuid
  created_at :: datetime
  updated_at :: datetime

record aggregate_root = entity +
  domain_events :: "domain_event list"

text \<open>The construction of an event reads one UUID and one time.\<close>

definition new_event :: "readings \<Rightarrow> nat \<Rightarrow> nat \<Rightarrow> event_data \<Rightarrow> domain_event" where
  "new_event r i j d = \<lparr>event_id = rd_uuid r i, occurred_at = rd_now r j, metadata = [], event_data = d\<rparr>"

definition record_event :: "domain_event \<Rightarrow> 'a aggregate_root_scheme \<Rightarrow> 'a aggregate_root_scheme" where
  "record_event e a = a\<lparr>domain_events := domain_events a @ [e]\<rparr>"

definition collect_events :: "'a aggregate_root_scheme \<Rightarrow> domain_event list \<times> 'a aggregate_root_scheme" where
  "collect_events a = (domain_events a, a\<lparr>domain_events := []\<rparr>)"

definition has_pending_events :: "'a aggregate_root_scheme \<Rightarrow> bool" where
  "has_pending_events a \<longleftrightarrow> 0 < length (domain_events a)"

text \<open>The data of the pending events, in the order they were recorded.\<close>

definition pending :: "'a aggregate_root_scheme \<Rightarrow> event_data list" where
  "pending a = map event_data (domain_events a)"

lemma new_event_data [simp]: "event_data (new_event r i j d) = d"
  by (simp add: new_event_def)

lemma record_event_simps [simp]:
  "entity_id (record_event e a) = entity_id a"
  "created_at (record_event e a) = created_at a"
  "updated_at (record_event e a) = updated_at a"
  "domain_events (record_event e a) = domain_events a @ [e]"
  "pending (record_event e a) = pending a @ [event_data e]"
  by (simp_all add: record_event_def pending_def)

lemma pending_updated_at [simp]:
  fixes a :: "'a aggregate_root_scheme"
  shows "pending (a\<lparr>updated_at := t\<rparr>) = pending a"
  by (simp add: pending_def)

lemma collect_events_once: "fst (collect_events (snd (collect_events a))) = []"
  by (simp add: collect_events_def)

end
