(* ===== verification/Transaction.thy ===== *)
theory Transaction
  imports Account
begin

text \<open>
  \<open>src/domain/entities/transaction.py\<close>: the Transaction aggregate, its operations, its invariant and
  its life cycle.

  \<^item> \<open>tx_step\<close> is one call; a refused call leaves the transaction as it was.
  \<^item> \<open>lifecycle\<close> is the state machine of the class comment (PENDING to PROCESSING or FAILED,
    PROCESSING to COMPLETED or FAILED); \<open>tx_reachable\<close> are the transactions that \<open>initiate\<close> and
    the calls can produce, and \<open>tx_history\<close> says which events such a transaction has recorded.
\<close>

section \<open>The aggregate\<close>

record transaction = aggregate_root +
  from_account_id :: account_id
  to_account_id :: account_id
  tx_amount :: money
  transaction_type :: transaction_type
  tx_status :: transaction_status
  idempotency_key :: idempotency_key
  failure_code :: "string option"
  failure_reason :: "string option"
  completed_at :: "datetime option"
  rollback_required :: bool

definition tx_initiate ::
  "account_id \<Rightarrow> account_id \<Rightarrow> money \<Rightarrow> idempotency_key \<Rightarrow> transaction_type \<Rightarrow> readings \<Rightarrow> exn + transaction" where
  "tx_initiate f t amt key typ r =
     (if is_zero amt then Inl (InvalidTransferAmountError amt)
      else if f = t then Inl (SameAccountTransferError f)
      else
        let tx = \<lparr>entity_id = rd_uuid r 1, created_at = rd_now r 0, updated_at = rd_now r 1,
                  domain_events = [], from_account_id = f, to_account_id = t, tx_amount = amt,
                  transaction_type = typ, tx_status = PENDING, idempotency_key = key,
                  failure_code = None, failure_reason = None, completed_at = None,
                  rollback_required = False\<rparr>
        in Inr (record_event (new_event r 2 2
             (TransactionInitiated (entity_id tx) f t (amount amt)
               (currency_value (money_currency amt)) key)) tx))"

definition tx_reconstitute ::
  "transaction_id \<Rightarrow> account_id \<Rightarrow> account_id \<Rightarrow> money \<Rightarrow> transaction_type \<Rightarrow> transaction_status
   \<Rightarrow> idempotency_key \<Rightarrow> datetime \<Rightarrow> datetime \<Rightarrow> string option \<Rightarrow> string option \<Rightarrow> datetime option
   \<Rightarrow> bool \<Rightarrow> transaction" where
  "tx_reconstitute i f t amt typ st key created updated code reason completed rb =
     \<lparr>entity_id = i, created_at = created, updated_at = updated, domain_events = [],
      from_account_id = f, to_account_id = t, tx_amount = amt, transaction_type = typ,
      tx_status = st, idempotency_key = key, failure_code = code, failure_reason = reason,
      completed_at = completed, rollback_required = rb\<rparr>"

definition tx_currency :: "transaction \<Rightarrow> currency" where
  "tx_currency tx = money_currency (tx_amount tx)"

definition mark_processing :: "readings \<Rightarrow> transaction \<Rightarrow> exn + transaction" where
  "mark_processing r tx =
     (if \<not> can_process (tx_status tx)
      then Inl (TransactionAlreadyProcessingError (entity_id tx) (transaction_status_value (tx_status tx)))
      else
        let tx' = tx\<lparr>tx_status := PROCESSING, updated_at := rd_now r 0\<rparr>
        in Inr (record_event (new_event r 0 1
             (TransactionProcessing (entity_id tx') (from_account_id tx') (to_account_id tx')
               (amount (tx_amount tx')) (currency_value (tx_currency tx')))) tx'))"

definition complete :: "readings \<Rightarrow> transaction \<Rightarrow> exn + transaction" where
  "complete r tx =
     (if \<not> can_complete (tx_status tx)
      then Inl (TransactionAlreadyCompletedError (entity_id tx) (transaction_status_value (tx_status tx)))
      else
        let tx' = tx\<lparr>tx_status := COMPLETED, completed_at := Some (rd_now r 0), updated_at := rd_now r 0\<rparr>
        in Inr (record_event (new_event r 0 1
             (TransactionCompleted (entity_id tx') (from_account_id tx') (to_account_id tx')
               (amount (tx_amount tx')) (currency_value (tx_currency tx')))) tx'))"

definition fail :: "string \<Rightarrow> string \<Rightarrow> readings \<Rightarrow> transaction \<Rightarrow> exn + transaction" where
  "fail code reason r tx =
     (if \<not> can_fail (tx_status tx)
      then Inl (TransactionNotFailableError (entity_id tx) (transaction_status_value (tx_status tx)))
      else
        let tx' = tx\<lparr>rollback_required := (tx_status tx = PROCESSING), tx_status := FAILED,
                     failure_code := Some code, failure_reason := Some reason, updated_at := rd_now r 0\<rparr>
        in Inr (record_event (new_event r 0 1
             (TransactionFailed (entity_id tx') (from_account_id tx') (to_account_id tx')
               (amount (tx_amount tx')) (currency_value (tx_currency tx')) code reason
               (rollback_required tx'))) tx'))"

definition mark_rolled_back :: "readings \<Rightarrow> transaction \<Rightarrow> exn + transaction" where
  "mark_rolled_back r tx =
     (if tx_status tx \<noteq> FAILED
      then Inl (TransactionRollbackError (entity_id tx) (transaction_status_value (tx_status tx)))
      else
        let tx' = tx\<lparr>updated_at := rd_now r 0\<rparr>
        in Inr (record_event (new_event r 0 1
             (TransactionRolledBack (entity_id tx') (from_account_id tx')
               (amount (tx_amount tx')) (currency_value (tx_currency tx')))) tx'))"

definition tx_is_terminal :: "transaction \<Rightarrow> bool" where
  "tx_is_terminal tx \<longleftrightarrow> status_is_terminal (tx_status tx)"

definition needs_rollback :: "transaction \<Rightarrow> bool" where
  "needs_rollback tx \<longleftrightarrow> tx_status tx = FAILED \<and> rollback_required tx"

datatype tx_op = MarkProcessing readings | Complete readings | Fail string string readings
  | MarkRolledBack readings

primrec tx_step :: "tx_op \<Rightarrow> transaction \<Rightarrow> exn + transaction" where
  "tx_step (MarkProcessing r) tx = mark_processing r tx"
| "tx_step (Complete r) tx = complete r tx"
| "tx_step (Fail code reason r) tx = fail code reason r tx"
| "tx_step (MarkRolledBack r) tx = mark_rolled_back r tx"

lemmas tx_defs = mark_processing_def complete_def fail_def mark_rolled_back_def Let_def
  can_process_def can_complete_def can_fail_def

lemma record_event_transaction [simp]:
  "from_account_id (record_event e tx) = from_account_id tx"
  "to_account_id (record_event e tx) = to_account_id tx"
  "tx_amount (record_event e tx) = tx_amount tx"
  "transaction_type (record_event e tx) = transaction_type tx"
  "tx_status (record_event e tx) = tx_status tx"
  "idempotency_key (record_event e tx) = idempotency_key tx"
  "failure_code (record_event e tx) = failure_code tx"
  "failure_reason (record_event e tx) = failure_reason tx"
  "completed_at (record_event e tx) = completed_at tx"
  "rollback_required (record_event e tx) = rollback_required tx"
  by (simp_all add: record_event_def)

lemma pending_tx_update [simp]:
  "pending (tx\<lparr>tx_status := s\<rparr>) = pending tx"
  "pending (tx\<lparr>failure_code := c\<rparr>) = pending tx"
  "pending (tx\<lparr>failure_reason := c\<rparr>) = pending tx"
  "pending (tx\<lparr>completed_at := t\<rparr>) = pending tx"
  "pending (tx\<lparr>rollback_required := b\<rparr>) = pending tx"
  by (simp_all add: pending_def)

section \<open>Invariant\<close>

definition tx_ok :: "transaction \<Rightarrow> bool" where
  "tx_ok tx \<longleftrightarrow>
     money_ok (tx_amount tx) \<and> \<not> is_zero (tx_amount tx) \<and>
     from_account_id tx \<noteq> to_account_id tx \<and>
     (completed_at tx \<noteq> None \<longleftrightarrow> tx_status tx = COMPLETED) \<and>
     (failure_code tx \<noteq> None \<longleftrightarrow> tx_status tx = FAILED) \<and>
     (failure_reason tx \<noteq> None \<longleftrightarrow> tx_status tx = FAILED) \<and>
     (rollback_required tx \<longrightarrow> tx_status tx = FAILED)"

text \<open>What no call changes; a terminal status is never left, and a completed transaction is final.\<close>

definition tx_frame :: "transaction \<Rightarrow> transaction \<Rightarrow> bool" where
  "tx_frame a b \<longleftrightarrow>
     entity_id b = entity_id a \<and> created_at b = created_at a \<and>
     from_account_id b = from_account_id a \<and> to_account_id b = to_account_id a \<and>
     tx_amount b = tx_amount a \<and> transaction_type b = transaction_type a \<and>
     idempotency_key b = idempotency_key a \<and>
     (tx_is_terminal a \<longrightarrow> tx_status b = tx_status a \<and> rollback_required b = rollback_required a) \<and>
     (tx_status a = COMPLETED \<longrightarrow> b = a) \<and>
     (\<exists>es. pending b = pending a @ es)"

lemma tx_step_ok: "tx_ok a \<Longrightarrow> tx_step x a = Inr b \<Longrightarrow> tx_ok b"
  by (cases x) (auto simp: tx_ok_def tx_defs split: if_splits)

lemma tx_step_frame: "tx_step x a = Inr b \<Longrightarrow> tx_frame a b"
  by (cases x) (auto simp: tx_frame_def tx_is_terminal_def status_is_terminal_def tx_defs split: if_splits)

interpretation tx_ops: aggregate_ops tx_step tx_ok "\<lambda>_. True" tx_frame
proof
  show "tx_ok b" if "tx_ok a" "tx_step x a = Inr b" for a x b
    using that by (rule tx_step_ok)
  show "tx_frame a b" if "tx_step x a = Inr b" for a x b
    using that by (rule tx_step_frame)
  show "tx_frame a a" for a by (simp add: tx_frame_def)
  show "tx_frame a c" if "tx_frame a b" "tx_frame b c" for a b c
    using that by (auto simp: tx_frame_def tx_is_terminal_def)
qed

lemma tx_initiate_Inr:
  assumes "tx_initiate f t amt key typ r = Inr tx"
  shows "from_account_id tx = f" "to_account_id tx = t" "tx_amount tx = amt" "tx_status tx = PENDING"
    "idempotency_key tx = key" "entity_id tx = rd_uuid r 1" "rollback_required tx = False"
    "failure_code tx = None" "failure_reason tx = None" "completed_at tx = None"
    "\<not> is_zero amt" "f \<noteq> t" "transaction_type tx = typ"
    "pending tx = [TransactionInitiated (rd_uuid r 1) f t (amount amt) (currency_value (money_currency amt)) key]"
  using assms by (auto simp: tx_initiate_def Let_def pending_def split: if_splits)

lemma tx_initiate_ok: "tx_initiate f t amt key typ r = Inr tx \<Longrightarrow> money_ok amt \<Longrightarrow> tx_ok tx"
  by (auto dest: tx_initiate_Inr simp: tx_ok_def)

section \<open>Life cycle\<close>

inductive lifecycle :: "transaction_status \<Rightarrow> transaction_status \<Rightarrow> bool" where
  start: "lifecycle PENDING PROCESSING"
| finish: "lifecycle PROCESSING COMPLETED"
| reject: "lifecycle PENDING FAILED"
| abort: "lifecycle PROCESSING FAILED"

inductive_simps lifecycle_from_simps [simp]:
  "lifecycle PENDING s" "lifecycle PROCESSING s" "lifecycle COMPLETED s" "lifecycle FAILED s"

inductive_cases lifecycleE: "lifecycle s t"

inductive tx_reachable :: "transaction \<Rightarrow> bool" where
  initiated: "tx_initiate f t amt key typ r = Inr tx \<Longrightarrow> money_ok amt \<Longrightarrow> tx_reachable tx"
| stepped: "tx_reachable tx \<Longrightarrow> tx_step x tx = Inr tx' \<Longrightarrow> tx_reachable tx'"

lemma tx_reachable_ok: "tx_reachable tx \<Longrightarrow> tx_ok tx"
  by (induction rule: tx_reachable.induct) (auto intro: tx_initiate_ok tx_step_ok)

lemma tx_step_lifecycle:
  "tx_step x tx = Inr tx' \<Longrightarrow>
     lifecycle (tx_status tx) (tx_status tx') \<or>
     (\<exists>r. x = MarkRolledBack r) \<and> tx_status tx = FAILED \<and> tx_status tx' = FAILED"
  by (cases x) (auto simp: tx_defs split: if_splits)

lemma lifecycle_enabled:
  "lifecycle (tx_status tx) s \<Longrightarrow> \<exists>x tx'. tx_step x tx = Inr tx' \<and> tx_status tx' = s"
proof (erule lifecycleE)
  assume "tx_status tx = PENDING" "s = PROCESSING"
  then show ?thesis
    by (intro exI [of _ "MarkProcessing undefined"]) (simp add: tx_defs)
next
  assume "tx_status tx = PROCESSING" "s = COMPLETED"
  then show ?thesis
    by (intro exI [of _ "Complete undefined"]) (simp add: tx_defs)
next
  assume "tx_status tx = PENDING" "s = FAILED"
  then show ?thesis
    by (intro exI [of _ "Fail [] [] undefined"]) (simp add: tx_defs)
next
  assume "tx_status tx = PROCESSING" "s = FAILED"
  then show ?thesis
    by (intro exI [of _ "Fail [] [] undefined"]) (simp add: tx_defs)
qed

text \<open>The classes of the events a transaction has recorded, by its status.\<close>

definition tx_history :: "transaction_status \<Rightarrow> bool \<Rightarrow> string list \<Rightarrow> bool" where
  "tx_history st rb es =
     (case st of
        PENDING \<Rightarrow> es = [''TransactionInitiated'']
      | PROCESSING \<Rightarrow> es = [''TransactionInitiated'', ''TransactionProcessing'']
      | COMPLETED \<Rightarrow> es = [''TransactionInitiated'', ''TransactionProcessing'', ''TransactionCompleted'']
      | FAILED \<Rightarrow>
          \<exists>n. es = [''TransactionInitiated''] @ (if rb then [''TransactionProcessing''] else []) @
                [''TransactionFailed''] @ replicate n ''TransactionRolledBack'')"

lemma replicate_snoc: "replicate n x @ [x] = replicate (Suc n) x"
  by (induction n) auto

lemma tx_step_history:
  assumes "tx_history (tx_status tx) (rollback_required tx) (map event_class (pending tx))"
    and "tx_step x tx = Inr tx'"
  shows "tx_history (tx_status tx') (rollback_required tx') (map event_class (pending tx'))"
proof (cases x)
  case (MarkRolledBack r)
  with assms show ?thesis
    by (auto simp: tx_defs tx_history_def replicate_snoc simp del: replicate_Suc split: if_splits)
qed (use assms in \<open>auto simp: tx_defs tx_history_def split: if_splits\<close>)

lemma tx_reachable_history:
  "tx_reachable tx \<Longrightarrow> tx_history (tx_status tx) (rollback_required tx) (map event_class (pending tx))"
proof (induction rule: tx_reachable.induct)
  case (initiated f t amt key ty r tx)
  then show ?case by (simp add: tx_initiate_Inr tx_history_def)
next
  case (stepped tx x tx')
  then show ?case by (blast intro: tx_step_history)
qed

end
