(* ===== verification/Mappers.thy ===== *)
theory Mappers
  imports Transaction
begin

text \<open>
  The rows of the database and their mappers: \<open>src/adapters/outbound/persistence/models\<close> and
  \<open>.../mappers\<close>.

  \<^item> A row is a record of the columns, with the enumerations as their text. The columns' SQL types,
    defaults and indexes are the database's business and are not in the rows.
  \<^item> \<open>to_domain\<close> can fail (a text that is no member, an amount that is no money); \<open>to_new_orm\<close> and
    \<open>update_orm\<close> cannot.
  \<^item> \<open>redecimal\<close> is \<open>Decimal(str(d))\<close>; by theory Py_Decimal it is \<open>d\<close>.
\<close>

section \<open>Rows\<close>

record account_orm =
  ao_id :: uuid
  ao_owner_id :: uuid
  ao_account_number :: string
  ao_balance :: decimal
  ao_currency :: string
  ao_status :: string
  ao_created_at :: datetime
  ao_updated_at :: datetime

record transaction_orm =
  to_id :: uuid
  to_from_account_id :: uuid
  to_to_account_id :: uuid
  to_amount :: decimal
  to_currency :: string
  to_transaction_type :: string
  to_status :: string
  to_idempotency_key :: string
  to_failure_code :: "string option"
  to_failure_reason :: "string option"
  to_created_at :: datetime
  to_updated_at :: datetime
  to_completed_at :: "datetime option"

text \<open>The fields the code sets of an outbox row; \<open>published\<close> starts false.\<close>

record outbox_orm =
  ob_event_type :: string
  ob_aggregate_id :: string
  ob_aggregate_type :: string
  ob_payload :: string
  ob_published :: bool

section \<open>Mappers\<close>

definition redecimal :: "decimal \<Rightarrow> exn + decimal" where
  "redecimal d = (case dec_of_str (dec_str d) of
     None \<Rightarrow> Inl (DecimalSignal InvalidOperation) | Some x \<Rightarrow> Inr x)"

lemma redecimal_id [simp]: "redecimal d = Inr d"
  by (simp add: redecimal_def)

definition account_to_domain :: "account_orm \<Rightarrow> exn + account" where
  "account_to_domain orm =
     bindR (redecimal (ao_balance orm)) (\<lambda>d.
     bindR (parse_currency (ao_currency orm)) (\<lambda>cur.
     bindR (money_new d cur) (\<lambda>bal.
     bindR (parse_account_status (ao_status orm)) (\<lambda>st.
       Inr (account_reconstitute (ao_id orm) (ao_owner_id orm) (ao_account_number orm) bal st
              (ao_created_at orm) (ao_updated_at orm))))))"

definition account_to_new_orm :: "account \<Rightarrow> account_orm" where
  "account_to_new_orm a =
     \<lparr>ao_id = entity_id a, ao_owner_id = owner_id a, ao_account_number = account_number a,
      ao_balance = amount (balance a), ao_currency = currency_value (money_currency (balance a)),
      ao_status = account_status_value (account_status a), ao_created_at = created_at a,
      ao_updated_at = updated_at a\<rparr>"

definition account_update_orm :: "account_orm \<Rightarrow> account \<Rightarrow> account_orm" where
  "account_update_orm orm a =
     orm\<lparr>ao_balance := amount (balance a), ao_currency := currency_value (money_currency (balance a)),
         ao_status := account_status_value (account_status a), ao_updated_at := updated_at a\<rparr>"

definition tx_to_domain :: "transaction_orm \<Rightarrow> exn + transaction" where
  "tx_to_domain orm =
     bindR (redecimal (to_amount orm)) (\<lambda>d.
     bindR (parse_currency (to_currency orm)) (\<lambda>cur.
     bindR (money_new d cur) (\<lambda>amt.
     bindR (parse_transaction_type (to_transaction_type orm)) (\<lambda>typ.
     bindR (parse_transaction_status (to_status orm)) (\<lambda>st.
       Inr (tx_reconstitute (to_id orm) (to_from_account_id orm) (to_to_account_id orm) amt typ st
              (to_idempotency_key orm) (to_created_at orm) (to_updated_at orm) (to_failure_code orm)
              (to_failure_reason orm) (to_completed_at orm) False))))))"

definition tx_to_new_orm :: "transaction \<Rightarrow> transaction_orm" where
  "tx_to_new_orm tx =
     \<lparr>to_id = entity_id tx, to_from_account_id = from_account_id tx,
      to_to_account_id = to_account_id tx, to_amount = amount (tx_amount tx),
      to_currency = currency_value (money_currency (tx_amount tx)),
      to_transaction_type = transaction_type_value (transaction_type tx),
      to_status = transaction_status_value (tx_status tx),
      to_idempotency_key = idempotency_key tx, to_failure_code = failure_code tx,
      to_failure_reason = failure_reason tx, to_created_at = created_at tx,
      to_updated_at = updated_at tx, to_completed_at = completed_at tx\<rparr>"

definition tx_update_orm :: "transaction_orm \<Rightarrow> transaction \<Rightarrow> transaction_orm" where
  "tx_update_orm orm tx =
     orm\<lparr>to_status := transaction_status_value (tx_status tx), to_failure_code := failure_code tx,
         to_failure_reason := failure_reason tx, to_completed_at := completed_at tx,
         to_updated_at := updated_at tx\<rparr>"

definition outbox_of_event :: "domain_event \<Rightarrow> outbox_orm" where
  "outbox_of_event e =
     \<lparr>ob_event_type = event_type e, ob_aggregate_id = uuid_str (event_id e),
      ob_aggregate_type = event_type e, ob_payload = to_json e, ob_published = False\<rparr>"

section \<open>Round trips\<close>

text \<open>What persistence keeps of an account: everything but the pending events.\<close>

lemma account_roundtrip:
  assumes "money_ok (balance a)"
  shows "account_to_domain (account_to_new_orm a) = Inr (a\<lparr>domain_events := []\<rparr>)"
  using assms by (simp add: account_to_domain_def account_to_new_orm_def account_reconstitute_def
      money_new_amount)

text \<open>An update writes exactly the mutable fields: on the account's own row it acts like an insert.\<close>

lemma account_update_orm_eq:
  assumes "ao_id orm = entity_id a" "ao_owner_id orm = owner_id a"
    "ao_account_number orm = account_number a" "ao_created_at orm = created_at a"
  shows "account_update_orm orm a = account_to_new_orm a"
  using assms by (simp add: account_update_orm_def account_to_new_orm_def)

text \<open>A transaction loses its pending events and its \<open>rollback_required\<close>.\<close>

lemma tx_roundtrip_eq:
  assumes "money_ok (tx_amount tx)"
  shows "tx_to_domain (tx_to_new_orm tx) = Inr (tx\<lparr>domain_events := [], rollback_required := False\<rparr>)"
  using assms by (simp add: tx_to_domain_def tx_to_new_orm_def tx_reconstitute_def money_new_amount)

lemma tx_update_orm_eq:
  assumes "tx_frame tx tx'"
  shows "tx_update_orm (tx_to_new_orm tx) tx' = tx_to_new_orm tx'"
  using assms by (simp add: tx_update_orm_def tx_to_new_orm_def tx_frame_def)

lemma account_to_domain_ok:
  assumes "account_to_domain orm = Inr a"
  shows "money_ok (balance a)" and "pending a = []" and "entity_id a = ao_id orm"
  using assms money_new_ok
  by (auto simp: account_to_domain_def bindR_Inr_iff account_reconstitute_def pending_def)

text \<open>
  The column is \<open>Numeric(19, 4)\<close>: the amount comes back with four decimal places. Reading it gives the
  same cents, whatever the number of further places.
\<close>

lemma quantize_scaled:
  assumes "c < max_cents"
  shows "quantize_cents (Fin s (c * 10 ^ k) (-2 - int k)) = Inr (Fin s c (-2))"
proof (cases k)
  case 0
  with assms show ?thesis by (simp del: quantize_cents.simps)
next
  case (Suc j)
  have "(c * 10 ^ Suc j + 5 * 10 ^ j) div 10 ^ Suc j = c"
    by simp
  with Suc assms show ?thesis
    by (simp add: round_half_up_def ndigits_gt_prec Let_def nat_add_distrib)
qed

end
