(* ===== verification/Ports.thy ===== *)
theory Ports
  imports Mappers
begin

text \<open>
  The state that services and adapters share, the data transfer objects
  (\<open>src/application/dtos\<close>) and the outbound ports (\<open>src/application/ports/outbound\<close>).

  Aggregates are mutable objects that the service and the repositories refer to at the same time:
  the service debits an object that the unit of work also holds in its \<open>seen\<close> list. So they live
  in a \<open>heap\<close> and are passed by reference; a method call on an aggregate rewrites the object.

  A port is a record of operations on the heap and the adapter's own state, one field per method of
  the Protocol; the services take the ports as arguments, as their constructors do. Theory InMemory
  and theory Postgres provide them. The locales at the end are the contracts the services rely on.
\<close>

section \<open>Objects\<close>

record heap =
  accounts_at :: "nat \<Rightarrow> account"
  txs_at :: "nat \<Rightarrow> transaction"
  next_ref :: nat

definition alloc_account :: "account \<Rightarrow> heap \<Rightarrow> nat \<times> heap" where
  "alloc_account a h =
     (next_ref h, h\<lparr>accounts_at := (accounts_at h)(next_ref h := a), next_ref := next_ref h + 1\<rparr>)"

definition alloc_tx :: "transaction \<Rightarrow> heap \<Rightarrow> nat \<times> heap" where
  "alloc_tx tx h =
     (next_ref h, h\<lparr>txs_at := (txs_at h)(next_ref h := tx), next_ref := next_ref h + 1\<rparr>)"

text \<open>A program of a repository or a unit of work acts on the heap and the adapter's state.\<close>

type_synonym ('u, 'a) uow_prog = "(heap \<times> 'u, exn, 'a) prog"

definition new_account :: "account \<Rightarrow> ('u, nat) uow_prog" where
  "new_account a = (\<lambda>(h, u). case alloc_account a h of (r, h') \<Rightarrow> (Inr r, (h', u)))"

definition new_tx :: "transaction \<Rightarrow> ('u, nat) uow_prog" where
  "new_tx tx = (\<lambda>(h, u). case alloc_tx tx h of (r, h') \<Rightarrow> (Inr r, (h', u)))"

definition read_account :: "nat \<Rightarrow> ('u, account) uow_prog" where
  "read_account r = getP (\<lambda>(h, u). accounts_at h r)"

definition read_tx :: "nat \<Rightarrow> ('u, transaction) uow_prog" where
  "read_tx r = getP (\<lambda>(h, u). txs_at h r)"

text \<open>A method call on an object: a refused call raises and leaves the object unchanged.\<close>

definition on_account :: "nat \<Rightarrow> (account \<Rightarrow> exn + account) \<Rightarrow> ('u, unit) uow_prog" where
  "on_account r f = (\<lambda>(h, u). case f (accounts_at h r) of
       Inl e \<Rightarrow> (Inl e, (h, u))
     | Inr a \<Rightarrow> (Inr (), (h\<lparr>accounts_at := (accounts_at h)(r := a)\<rparr>, u)))"

definition on_tx :: "nat \<Rightarrow> (transaction \<Rightarrow> exn + transaction) \<Rightarrow> ('u, unit) uow_prog" where
  "on_tx r f = (\<lambda>(h, u). case f (txs_at h r) of
       Inl e \<Rightarrow> (Inl e, (h, u))
     | Inr tx \<Rightarrow> (Inr (), (h\<lparr>txs_at := (txs_at h)(r := tx)\<rparr>, u)))"

definition collect_account :: "nat \<Rightarrow> ('u, domain_event list) uow_prog" where
  "collect_account r = (\<lambda>(h, u). case collect_events (accounts_at h r) of (es, a) \<Rightarrow>
     (Inr es, (h\<lparr>accounts_at := (accounts_at h)(r := a)\<rparr>, u)))"

definition collect_tx :: "nat \<Rightarrow> ('u, domain_event list) uow_prog" where
  "collect_tx r = (\<lambda>(h, u). case collect_events (txs_at h r) of (es, tx) \<Rightarrow>
     (Inr es, (h\<lparr>txs_at := (txs_at h)(r := tx)\<rparr>, u)))"

lemmas object_defs = new_account_def new_tx_def alloc_account_def alloc_tx_def read_account_def
  read_tx_def on_account_def on_tx_def collect_account_def collect_tx_def

section \<open>Data transfer objects\<close>

record create_account_command =
  cac_owner_id :: uuid
  cac_currency :: string
  cac_initial_balance :: decimal

record account_dto =
  ad_id :: uuid
  ad_owner_id :: uuid
  ad_account_number :: string
  ad_balance :: decimal
  ad_currency :: string
  ad_status :: string

definition account_dto_of :: "account \<Rightarrow> account_dto" where
  "account_dto_of a =
     \<lparr>ad_id = entity_id a, ad_owner_id = owner_id a, ad_account_number = account_number a,
      ad_balance = amount (balance a), ad_currency = currency_value (money_currency (balance a)),
      ad_status = account_status_value (account_status a)\<rparr>"

record transfer_command =
  tc_from_account_id :: uuid
  tc_to_account_id :: uuid
  tc_amount :: decimal
  tc_currency :: string
  tc_idempotency_key :: string

record transaction_dto =
  td_id :: uuid
  td_from_account_id :: uuid
  td_to_account_id :: uuid
  td_amount :: decimal
  td_currency :: string
  td_status :: string
  td_idempotency_key :: string
  td_failure_code :: "string option"
  td_failure_reason :: "string option"
  td_created_at :: datetime
  td_completed_at :: "datetime option"

definition transaction_dto_of :: "transaction \<Rightarrow> transaction_dto" where
  "transaction_dto_of tx =
     \<lparr>td_id = entity_id tx, td_from_account_id = from_account_id tx,
      td_to_account_id = to_account_id tx, td_amount = amount (tx_amount tx),
      td_currency = currency_value (money_currency (tx_amount tx)),
      td_status = transaction_status_value (tx_status tx),
      td_idempotency_key = idempotency_key tx, td_failure_code = failure_code tx,
      td_failure_reason = failure_reason tx, td_created_at = created_at tx,
      td_completed_at = completed_at tx\<rparr>"

section \<open>Ports\<close>

text \<open>\<open>IAccountRepository\<close> and \<open>ITransactionRepository\<close>; a loaded aggregate is a reference.\<close>

record 'u account_repository =
  ar_get :: "account_id \<Rightarrow> ('u, nat option) uow_prog"
  ar_get_with_lock :: "account_id \<Rightarrow> ('u, nat option) uow_prog"
  ar_save :: "nat \<Rightarrow> ('u, unit) uow_prog"
  ar_update :: "nat \<Rightarrow> ('u, unit) uow_prog"
  ar_exists :: "account_id \<Rightarrow> ('u, bool) uow_prog"

record 'u transaction_repository =
  tr_get :: "transaction_id \<Rightarrow> ('u, nat option) uow_prog"
  tr_get_by_idempotency_key :: "idempotency_key \<Rightarrow> ('u, nat option) uow_prog"
  tr_save :: "nat \<Rightarrow> ('u, unit) uow_prog"
  tr_update :: "nat \<Rightarrow> ('u, unit) uow_prog"

text \<open>\<open>IUnitOfWork\<close> with the two repositories it exposes.\<close>

record 'u uow_port =
  uow_accounts :: "'u account_repository"
  uow_transactions :: "'u transaction_repository"
  uow_enter :: "('u, unit) uow_prog"
  uow_exit :: "exn option \<Rightarrow> ('u, unit) uow_prog"
  uow_commit :: "('u, unit) uow_prog"
  uow_rollback :: "('u, unit) uow_prog"

text \<open>\<open>uow.accounts.get\<close> and so on.\<close>

abbreviation acc_get :: "'u uow_port \<Rightarrow> account_id \<Rightarrow> ('u, nat option) uow_prog" where
  "acc_get U \<equiv> ar_get (uow_accounts U)"

abbreviation acc_get_with_lock :: "'u uow_port \<Rightarrow> account_id \<Rightarrow> ('u, nat option) uow_prog" where
  "acc_get_with_lock U \<equiv> ar_get_with_lock (uow_accounts U)"

abbreviation acc_save :: "'u uow_port \<Rightarrow> nat \<Rightarrow> ('u, unit) uow_prog" where
  "acc_save U \<equiv> ar_save (uow_accounts U)"

abbreviation acc_update :: "'u uow_port \<Rightarrow> nat \<Rightarrow> ('u, unit) uow_prog" where
  "acc_update U \<equiv> ar_update (uow_accounts U)"

abbreviation acc_exists :: "'u uow_port \<Rightarrow> account_id \<Rightarrow> ('u, bool) uow_prog" where
  "acc_exists U \<equiv> ar_exists (uow_accounts U)"

abbreviation tx_get :: "'u uow_port \<Rightarrow> transaction_id \<Rightarrow> ('u, nat option) uow_prog" where
  "tx_get U \<equiv> tr_get (uow_transactions U)"

abbreviation tx_get_by_idempotency_key :: "'u uow_port \<Rightarrow> idempotency_key \<Rightarrow> ('u, nat option) uow_prog" where
  "tx_get_by_idempotency_key U \<equiv> tr_get_by_idempotency_key (uow_transactions U)"

abbreviation tx_save :: "'u uow_port \<Rightarrow> nat \<Rightarrow> ('u, unit) uow_prog" where
  "tx_save U \<equiv> tr_save (uow_transactions U)"

abbreviation tx_update :: "'u uow_port \<Rightarrow> nat \<Rightarrow> ('u, unit) uow_prog" where
  "tx_update U \<equiv> tr_update (uow_transactions U)"

text \<open>
  \<open>ILockManager.acquire\<close> as its two halves: up to the \<open>yield\<close>, with the keys it then holds (when it
  raises, its \<open>finally\<close> has run already), and the \<open>finally\<close> after the body.
\<close>

record 'l lock_port =
  lock_acquire :: "string list \<Rightarrow> ('l, exn, string list) prog"
  lock_release :: "string list \<Rightarrow> ('l, exn, unit) prog"

text \<open>\<open>IEventBus\<close>; an event type to subscribe to is given by its class name.\<close>

record 'b bus_port =
  bus_publish :: "domain_event \<Rightarrow> ('b, exn, unit) prog"
  bus_publish_many :: "domain_event list \<Rightarrow> ('b, exn, unit) prog"
  bus_subscribe :: "string \<Rightarrow> (domain_event \<Rightarrow> ('b, exn, unit) prog) \<Rightarrow> ('b, exn, unit) prog"
  bus_start :: "('b, exn, unit) prog"
  bus_stop :: "('b, exn, unit) prog"

section \<open>The world of a service\<close>

record ('u, 'l, 'b) world =
  w_heap :: heap
  w_uow :: 'u
  w_lock :: 'l
  w_bus :: 'b

definition in_uow :: "('u, 'a) uow_prog \<Rightarrow> (('u, 'l, 'b) world, exn, 'a) prog" where
  "in_uow m = (\<lambda>w. case m (w_heap w, w_uow w) of (x, (h, u)) \<Rightarrow> (x, w\<lparr>w_heap := h, w_uow := u\<rparr>))"

definition in_lock :: "('l, exn, 'a) prog \<Rightarrow> (('u, 'l, 'b) world, exn, 'a) prog" where
  "in_lock m = (\<lambda>w. case m (w_lock w) of (x, l) \<Rightarrow> (x, w\<lparr>w_lock := l\<rparr>))"

definition in_bus :: "('b, exn, 'a) prog \<Rightarrow> (('u, 'l, 'b) world, exn, 'a) prog" where
  "in_bus m = (\<lambda>w. case m (w_bus w) of (x, b) \<Rightarrow> (x, w\<lparr>w_bus := b\<rparr>))"

definition with_uow :: "'u uow_port \<Rightarrow> ('u, 'a) uow_prog \<Rightarrow> ('u, 'a) uow_prog" where
  "with_uow U body = withP (uow_enter U) (\<lambda>_. uow_exit U) (\<lambda>_. body)"

definition with_lock ::
  "'l lock_port \<Rightarrow> string list \<Rightarrow> (('u, 'l, 'b) world, exn, 'a) prog \<Rightarrow> (('u, 'l, 'b) world, exn, 'a) prog" where
  "with_lock L keys body =
     withP (in_lock (lock_acquire L keys)) (\<lambda>acquired _. in_lock (lock_release L acquired)) (\<lambda>_. body)"

lemma in_uow_lock [simp]: "w_lock (snd (in_uow m w)) = w_lock w"
  by (simp add: in_uow_def split: prod.splits)

lemma in_uow_bus [simp]: "w_bus (snd (in_uow m w)) = w_bus w"
  by (simp add: in_uow_def split: prod.splits)

section \<open>Contracts\<close>

text \<open>
  What a lock manager promises: acquiring takes exactly the keys asked for, and only when all were
  free; a refused acquisition leaves nothing held; releasing gives the keys back.
\<close>

locale lock_manager =
  fixes L :: "'l lock_port" and held :: "'l \<Rightarrow> string set"
  assumes acquire_ok: "lock_acquire L keys l = (Inr acq, l') \<Longrightarrow>
      set acq = set keys \<and> held l' = held l \<union> set keys \<and> held l \<inter> set keys = {}"
    and acquire_refused: "lock_acquire L keys l = (Inl e, l') \<Longrightarrow> held l' = held l"
    and release_ok: "\<exists>l'. lock_release L acq l = (Inr (), l') \<and> held l' = held l - set acq"
begin

text \<open>Whatever the body does and however it ends, the locks afterwards are those from before.\<close>

lemma with_lock_restores:
  fixes body :: "(('u, 'l, 'b) world, exn, 'a) prog"
  assumes body: "\<And>v. held (w_lock (snd (body v))) = held (w_lock v)"
  shows "held (w_lock (snd (with_lock L keys body w))) = held (w_lock w)"
proof (cases "lock_acquire L keys (w_lock w)")
  case (Pair x l')
  show ?thesis
  proof (cases x)
    case (Inl e)
    with Pair show ?thesis
      using acquire_refused [of keys "w_lock w" e l']
      by (simp add: with_lock_def withP_apply in_lock_def)
  next
    case (Inr acq)
    note ok = acquire_ok [OF Pair [unfolded Inr]]
    obtain y v where y: "body (w\<lparr>w_lock := l'\<rparr>) = (y, v)" by (cases "body (w\<lparr>w_lock := l'\<rparr>)")
    have hv: "held (w_lock v) = held (w_lock w) \<union> set keys"
      using body [of "w\<lparr>w_lock := l'\<rparr>"] y ok by simp
    obtain l'' where l'': "lock_release L acq (w_lock v) = (Inr (), l'')"
      and h: "held l'' = held (w_lock v) - set acq"
      using release_ok [of acq "w_lock v"] by blast
    have "held l'' = held (w_lock w)" using h hv ok by blast
    then show ?thesis
      using Pair Inr y l''
      by (cases y) (simp_all add: with_lock_def withP_apply in_lock_def thenP_apply returnP_apply raiseP_apply)
  qed
qed

lemma with_lock_conflict:
  fixes body :: "(('u, 'l, 'b) world, exn, 'a) prog"
  assumes "held (w_lock w) \<inter> set keys \<noteq> {}"
  shows "\<exists>e l'. with_lock L keys body w = (Inl e, w\<lparr>w_lock := l'\<rparr>) \<and> held l' = held (w_lock w)"
proof (cases "lock_acquire L keys (w_lock w)")
  case (Pair x l')
  show ?thesis
  proof (cases x)
    case (Inl e)
    with Pair show ?thesis
      using acquire_refused [of keys "w_lock w" e l']
      by (auto simp: with_lock_def withP_apply in_lock_def)
  next
    case (Inr acq)
    with acquire_ok [OF Pair [unfolded Inr]] assms show ?thesis by blast
  qed
qed

end

text \<open>What an event bus promises: events are appended in order, one by one or many at a time.\<close>

locale event_bus =
  fixes B :: "'b bus_port" and published :: "'b \<Rightarrow> domain_event list"
  assumes publish_ok: "\<exists>b'. bus_publish B e b = (Inr (), b') \<and> published b' = published b @ [e]"
    and publish_many_ok: "\<exists>b'. bus_publish_many B es b = (Inr (), b') \<and> published b' = published b @ es"
begin

lemma publish_all_same:
  "\<exists>b'. forP (bus_publish B) es b = (Inr (), b') \<and> published b' = published b @ es"
proof (induction es arbitrary: b)
  case Nil
  then show ?case by (simp add: returnP_apply)
next
  case (Cons e es)
  obtain b1 where b1: "bus_publish B e b = (Inr (), b1)" "published b1 = published b @ [e]"
    using publish_ok by blast
  obtain b2 where "forP (bus_publish B) es b1 = (Inr (), b2)" "published b2 = published b1 @ es"
    using Cons by blast
  with b1 show ?case by (simp add: thenP_apply)
qed

end

text \<open>
  What an account repository promises its readers: \<open>stored\<close> is the persisted account of an id; loading
  yields an object in that state, and disturbs nothing that is stored.
\<close>

locale account_store =
  fixes U :: "'u uow_port" and stored :: "heap \<times> 'u \<Rightarrow> account_id \<Rightarrow> account option"
    and valid :: "heap \<times> 'u \<Rightarrow> bool"
  assumes enter_ok: "valid s \<Longrightarrow> \<exists>s'. uow_enter U s = (Inr (), s') \<and> valid s' \<and> stored s' = stored s"
    and exit_ok: "valid s \<Longrightarrow> \<exists>s'. uow_exit U x s = (Inr (), s') \<and> stored s' = stored s \<and>
      accounts_at (fst s') = accounts_at (fst s)"
    and get_none: "valid s \<Longrightarrow> stored s i = None \<Longrightarrow>
      \<exists>s'. acc_get U i s = (Inr None, s') \<and> valid s' \<and> stored s' = stored s"
    and get_some: "valid s \<Longrightarrow> stored s i = Some a \<Longrightarrow>
      \<exists>r s'. acc_get U i s = (Inr (Some r), s') \<and> valid s' \<and> stored s' = stored s \<and>
        accounts_at (fst s') r = a"

end
