(* ===== verification/InMemory.thy ===== *)
theory InMemory
  imports Ports
begin

text \<open>
  The in-memory adapters: the event bus of the container, and the unit of work, the repositories and the lock
  manager that the tests' fixtures wire in:
  \<open>in_memory_unit_of_work.py\<close>, \<open>in_memory_account_repository.py\<close>,
  \<open>in_memory_transaction_repository.py\<close>, \<open>in_memory_lock_manager.py\<close>, \<open>in_memory_event_bus.py\<close>.

  \<^item> The stores map ids to references: a loaded account is the stored object itself, so changing it
    changes what is stored, committed or not.
  \<^item> \<open>update\<close> is not defined by the in-memory repositories; the call runs the Protocol's empty body.
  \<^item> \<open>im_ok\<close> is the invariant of the store; the locales of theory Ports are interpreted here.
\<close>

section \<open>Repositories and unit of work\<close>

record im_uow =
  im_accounts :: "account_id \<rightharpoonup> nat"
  im_accounts_seen :: "nat list"
  im_txs :: "transaction_id \<rightharpoonup> nat"
  im_by_key :: "string \<rightharpoonup> transaction_id"
  im_txs_seen :: "nat list"
  im_committed :: bool

definition im_empty :: im_uow where
  "im_empty = \<lparr>im_accounts = (\<lambda>_. None), im_accounts_seen = [], im_txs = (\<lambda>_. None),
     im_by_key = (\<lambda>_. None), im_txs_seen = [], im_committed = False\<rparr>"

definition im_acc_get :: "account_id \<Rightarrow> (im_uow, nat option) uow_prog" where
  "im_acc_get i = (\<lambda>(h, u). case im_accounts u i of
       Some r \<Rightarrow> (Inr (Some r), (h, u\<lparr>im_accounts_seen := im_accounts_seen u @ [r]\<rparr>))
     | None \<Rightarrow> (Inr None, (h, u)))"

definition im_acc_get_with_lock :: "account_id \<Rightarrow> (im_uow, nat option) uow_prog" where
  "im_acc_get_with_lock i = im_acc_get i"

definition im_acc_save :: "nat \<Rightarrow> (im_uow, unit) uow_prog" where
  "im_acc_save r = (\<lambda>(h, u).
     (Inr (), (h, u\<lparr>im_accounts := (im_accounts u)(entity_id (accounts_at h r) \<mapsto> r)\<rparr>)))"

definition im_acc_exists :: "account_id \<Rightarrow> (im_uow, bool) uow_prog" where
  "im_acc_exists i = getP (\<lambda>(h, u). im_accounts u i \<noteq> None)"

text \<open>The test helper \<open>add\<close>.\<close>

definition im_acc_add :: "nat \<Rightarrow> (im_uow, unit) uow_prog" where
  "im_acc_add r = (\<lambda>(h, u).
     (Inr (), (h, u\<lparr>im_accounts := (im_accounts u)(entity_id (accounts_at h r) \<mapsto> r)\<rparr>)))"

definition im_tx_get :: "transaction_id \<Rightarrow> (im_uow, nat option) uow_prog" where
  "im_tx_get i = getP (\<lambda>(h, u). im_txs u i)"

definition im_tx_get_by_idempotency_key :: "idempotency_key \<Rightarrow> (im_uow, nat option) uow_prog" where
  "im_tx_get_by_idempotency_key k = getP (\<lambda>(h, u). case im_by_key u k of
       None \<Rightarrow> None
     | Some i \<Rightarrow> im_txs u i)"

definition im_tx_save :: "nat \<Rightarrow> (im_uow, unit) uow_prog" where
  "im_tx_save r = (\<lambda>(h, u). let tx = txs_at h r in
     (Inr (), (h, u\<lparr>im_txs := (im_txs u)(entity_id tx \<mapsto> r),
                    im_by_key := (im_by_key u)(idempotency_key tx \<mapsto> entity_id tx)\<rparr>)))"

definition im_enter :: "(im_uow, unit) uow_prog" where
  "im_enter = modifyP (\<lambda>(h, u). (h, u\<lparr>im_committed := False\<rparr>))"

definition im_exit :: "exn option \<Rightarrow> (im_uow, unit) uow_prog" where
  "im_exit e = returnP ()"

definition im_commit :: "(im_uow, unit) uow_prog" where
  "im_commit = modifyP (\<lambda>(h, u). (h, u\<lparr>im_committed := True\<rparr>))"

definition im_rollback :: "(im_uow, unit) uow_prog" where
  "im_rollback = returnP ()"

text \<open>\<open>update\<close> is inherited from the Protocol class, whose body does nothing.\<close>

definition im_account_repository :: "im_uow account_repository" where
  "im_account_repository = \<lparr>ar_get = im_acc_get, ar_get_with_lock = im_acc_get_with_lock, ar_save = im_acc_save,
     ar_update = (\<lambda>_. returnP ()), ar_exists = im_acc_exists\<rparr>"

definition im_transaction_repository :: "im_uow transaction_repository" where
  "im_transaction_repository = \<lparr>tr_get = im_tx_get, tr_get_by_idempotency_key = im_tx_get_by_idempotency_key,
     tr_save = im_tx_save, tr_update = (\<lambda>_. returnP ())\<rparr>"

definition in_memory_uow :: "im_uow uow_port" where
  "in_memory_uow = \<lparr>uow_accounts = im_account_repository, uow_transactions = im_transaction_repository, uow_enter = im_enter,
     uow_exit = im_exit, uow_commit = im_commit, uow_rollback = im_rollback\<rparr>"

lemma in_memory_uow_simps [simp]:
  "uow_enter in_memory_uow = im_enter" "uow_exit in_memory_uow = im_exit"
  "uow_commit in_memory_uow = im_commit" "uow_rollback in_memory_uow = im_rollback"
  "acc_get in_memory_uow = im_acc_get" "acc_get_with_lock in_memory_uow = im_acc_get_with_lock"
  "acc_save in_memory_uow = im_acc_save" "acc_update in_memory_uow = (\<lambda>_. returnP ())"
  "acc_exists in_memory_uow = im_acc_exists" "tx_get in_memory_uow = im_tx_get"
  "tx_get_by_idempotency_key in_memory_uow = im_tx_get_by_idempotency_key"
  "tx_save in_memory_uow = im_tx_save" "tx_update in_memory_uow = (\<lambda>_. returnP ())"
  by (simp_all add: in_memory_uow_def im_account_repository_def im_transaction_repository_def)

lemma im_exit_apply [prog_simps]: "im_exit e s = (Inr (), s)"
  by (simp add: im_exit_def returnP_apply)

lemma im_enter_apply [prog_simps]: "im_enter (h, u) = (Inr (), (h, u\<lparr>im_committed := False\<rparr>))"
  by (simp add: im_enter_def modifyP_apply)

lemma im_commit_apply [prog_simps]: "im_commit (h, u) = (Inr (), (h, u\<lparr>im_committed := True\<rparr>))"
  by (simp add: im_commit_def modifyP_apply)

lemma with_uow_in_memory:
  "with_uow in_memory_uow body (h, u) = body (h, u\<lparr>im_committed := False\<rparr>)"
  by (simp add: with_uow_def withP_apply thenP_apply returnP_apply raiseP_apply
      im_enter_apply im_exit_apply split: sum.splits prod.splits)

text \<open>
  The invariant of the store: every id leads to an allocated object with that id, and every
  idempotency key to a stored transaction with that key.
\<close>

definition im_ok :: "heap \<times> im_uow \<Rightarrow> bool" where
  "im_ok = (\<lambda>(h, u).
     (\<forall>i r. im_accounts u i = Some r \<longrightarrow> r < next_ref h \<and> entity_id (accounts_at h r) = i) \<and>
     (\<forall>i r. im_txs u i = Some r \<longrightarrow> r < next_ref h \<and> entity_id (txs_at h r) = i) \<and>
     (\<forall>k i. im_by_key u k = Some i \<longrightarrow> (\<exists>r. im_txs u i = Some r \<and> idempotency_key (txs_at h r) = k)))"

definition im_stored :: "heap \<times> im_uow \<Rightarrow> account_id \<Rightarrow> account option" where
  "im_stored = (\<lambda>(h, u) i. map_option (accounts_at h) (im_accounts u i))"

lemma im_okD:
  assumes "im_ok (h, u)"
  shows "im_accounts u i = Some r \<Longrightarrow> r < next_ref h \<and> entity_id (accounts_at h r) = i"
    and "im_txs u i = Some r \<Longrightarrow> r < next_ref h \<and> entity_id (txs_at h r) = i"
    and "im_by_key u k = Some i \<Longrightarrow> \<exists>r. im_txs u i = Some r \<and> idempotency_key (txs_at h r) = k"
  using assms by (auto simp: im_ok_def)

lemma im_ok_empty: "im_ok (h, im_empty)"
  by (simp add: im_ok_def im_empty_def)

lemma im_ok_flags [simp]:
  "im_ok (h, u\<lparr>im_committed := b\<rparr>) = im_ok (h, u)"
  "im_ok (h, u\<lparr>im_accounts_seen := xs\<rparr>) = im_ok (h, u)"
  "im_stored (h, u\<lparr>im_committed := b\<rparr>) = im_stored (h, u)"
  "im_stored (h, u\<lparr>im_accounts_seen := xs\<rparr>) = im_stored (h, u)"
  by (simp_all add: im_ok_def im_stored_def)

interpretation im_store: account_store in_memory_uow im_stored im_ok
proof
  show "\<exists>s'. uow_enter in_memory_uow s = (Inr (), s') \<and> im_ok s' \<and> im_stored s' = im_stored s"
    if "im_ok s" for s using that by (cases s) (simp add: im_enter_apply)
  show "\<exists>s'. uow_exit in_memory_uow x s = (Inr (), s') \<and> im_stored s' = im_stored s \<and>
      accounts_at (fst s') = accounts_at (fst s)" for x s
    by (simp add: im_exit_apply)
  show "\<exists>s'. acc_get in_memory_uow i s = (Inr None, s') \<and> im_ok s' \<and> im_stored s' = im_stored s"
    if "im_ok s" "im_stored s i = None" for s i
    using that by (cases s) (simp add: im_acc_get_def im_stored_def)
  show "\<exists>r s'. acc_get in_memory_uow i s = (Inr (Some r), s') \<and> im_ok s' \<and> im_stored s' = im_stored s \<and>
      accounts_at (fst s') r = a"
    if "im_ok s" "im_stored s i = Some a" for s i a
    using that by (cases s) (auto simp: im_acc_get_def im_stored_def im_ok_def split: option.splits)
qed

section \<open>Lock manager\<close>

text \<open>\<open>acquired\<close> is the list built so far; a key that is held ends the loop and \<open>finally\<close> runs.\<close>

definition im_discard :: "string list \<Rightarrow> string set \<Rightarrow> string set" where
  "im_discard acquired held = fold (\<lambda>k s. s - {k}) acquired held"

fun im_acquire_loop :: "string list \<Rightarrow> string list \<Rightarrow> (string set, exn, string list) prog" where
  "im_acquire_loop [] acquired held = (Inr acquired, held)"
| "im_acquire_loop (k # ks) acquired held =
     (if k \<in> held then (Inl (ConcurrencyConflictError k), im_discard acquired held)
      else im_acquire_loop ks (acquired @ [k]) (insert k held))"

definition in_memory_lock :: "string set lock_port" where
  "in_memory_lock = \<lparr>lock_acquire = (\<lambda>ks. im_acquire_loop ks []),
     lock_release = (\<lambda>acquired. modifyP (im_discard acquired))\<rparr>"

lemma im_discard_eq [simp]: "im_discard acquired held = held - set acquired"
  by (induction acquired arbitrary: held) (auto simp: im_discard_def)

lemma im_acquire_loop_cases:
  assumes "im_acquire_loop ks acq held = (x, held')" and "set acq \<subseteq> held"
  shows "(x = Inr (acq @ ks) \<and> distinct ks \<and> set ks \<inter> held = {} \<and> held' = held \<union> set ks) \<or>
    (\<exists>k. x = Inl (ConcurrencyConflictError k) \<and> k \<in> set ks \<and> held' = held - set acq \<and>
       (k \<in> held \<or> \<not> distinct ks))"
  using assms
proof (induction ks arbitrary: acq held)
  case Nil
  then show ?case by simp
next
  case (Cons k ks)
  show ?case
  proof (cases "k \<in> held")
    case True
    with Cons.prems show ?thesis by auto
  next
    case False
    with Cons.prems have r: "im_acquire_loop ks (acq @ [k]) (insert k held) = (x, held')"
      and sub: "set (acq @ [k]) \<subseteq> insert k held" by auto
    have h: "insert k held - set (acq @ [k]) = held - set acq" using False Cons.prems(2) by auto
    from Cons.IH [OF r sub] False show ?thesis unfolding h by auto
  qed
qed

lemma in_memory_lock_simps [simp]:
  "lock_acquire in_memory_lock ks held = im_acquire_loop ks [] held"
  "lock_release in_memory_lock acq held = (Inr (), held - set acq)"
  by (simp_all add: in_memory_lock_def modifyP_apply)

lemma im_acquire_free:
  assumes "distinct ks" and "set ks \<inter> held = {}"
  shows "im_acquire_loop ks [] held = (Inr ks, held \<union> set ks)"
proof -
  obtain x held' where r: "im_acquire_loop ks [] held = (x, held')" by (cases "im_acquire_loop ks [] held")
  from im_acquire_loop_cases [OF r] assms r show ?thesis by auto
qed

interpretation im_locks: lock_manager in_memory_lock "\<lambda>held. held"
proof
  show "set acq = set keys \<and> l' = l \<union> set keys \<and> l \<inter> set keys = {}"
    if "lock_acquire in_memory_lock keys l = (Inr acq, l')" for keys l acq l'
    using im_acquire_loop_cases [of keys "[]" l "Inr acq" l'] that by auto
  show "l' = l" if "lock_acquire in_memory_lock keys l = (Inl e, l')" for keys l e l'
    using im_acquire_loop_cases [of keys "[]" l "Inl e" l'] that by auto
  show "\<exists>l'. lock_release in_memory_lock acq l = (Inr (), l') \<and> l' = l - set acq" for acq l
    by simp
qed

section \<open>Event bus\<close>

definition in_memory_bus :: "domain_event list bus_port" where
  "in_memory_bus = \<lparr>bus_publish = (\<lambda>e. modifyP (\<lambda>published. published @ [e])),
     bus_publish_many = (\<lambda>es. modifyP (\<lambda>published. published @ es)),
     bus_subscribe = (\<lambda>_ _. returnP ()), bus_start = returnP (), bus_stop = returnP ()\<rparr>"

lemma in_memory_bus_simps [simp]:
  "bus_publish in_memory_bus e b = (Inr (), b @ [e])"
  "bus_publish_many in_memory_bus es b = (Inr (), b @ es)"
  by (simp_all add: in_memory_bus_def modifyP_apply)

interpretation im_bus: event_bus in_memory_bus "\<lambda>published. published"
  by unfold_locales simp_all

end
