(* ===== verification/Services.thy ===== *)
theory Services
  imports InMemory
begin

text \<open>
  The application services, over any unit of work, lock manager and event bus:
  \<open>src/application/services/account.py\<close> and \<open>src/application/services/transfer.py\<close>.

  \<^item> \<open>\<omega> n\<close> are the readings of the \<open>n\<close>-th construction or method call of a run of the service.
  \<^item> The steps of \<open>TransferService.initiate\<close> are definitions of their own, in the order of the code.
  \<^item> The log calls are added in theory Service_Logs, which shows that they change nothing else.
  \<^item> The section on the in-memory store says what the pieces do there; theory Transfer_Run composes them.
\<close>

section \<open>AccountService\<close>

definition account_service_create ::
  "'u uow_port \<Rightarrow> create_account_command \<Rightarrow> readings \<Rightarrow> (('u, 'l, 'b) world, exn, account_dto) prog" where
  "account_service_create U cmd r =
     bindP (liftP (parse_currency (cac_currency cmd))) (\<lambda>cur.
     bindP (liftP (bindR (redecimal (cac_initial_balance cmd)) (\<lambda>d. money_new d cur))) (\<lambda>initial_balance.
     bindP (liftP (account_create (cac_owner_id cmd) cur (Some initial_balance) r)) (\<lambda>a.
     bindP (in_uow (new_account a)) (\<lambda>account.
     thenP (in_uow (with_uow U (thenP (acc_save U account) (uow_commit U))))
     (bindP (in_uow (read_account account)) (\<lambda>a'. returnP (account_dto_of a')))))))"

definition account_service_get ::
  "'u uow_port \<Rightarrow> uuid \<Rightarrow> (('u, 'l, 'b) world, exn, account_dto) prog" where
  "account_service_get U i =
     in_uow (with_uow U (
       bindP (acc_get U i) (\<lambda>account. case account of
           None \<Rightarrow> raiseP (ResourceNotFoundError ''Account'' i)
         | Some r \<Rightarrow> bindP (read_account r) (\<lambda>a. returnP (account_dto_of a)))))"

section \<open>TransferService\<close>

text \<open>Step 1: the idempotency check, in a unit of work of its own.\<close>

definition transfer_existing ::
  "'u uow_port \<Rightarrow> idempotency_key \<Rightarrow> (('u, 'l, 'b) world, exn, nat option) prog" where
  "transfer_existing U key = in_uow (with_uow U (tx_get_by_idempotency_key U key))"

text \<open>Step 7: the body of the \<open>try\<close>.\<close>

definition transfer_apply ::
  "nat \<Rightarrow> nat \<Rightarrow> nat \<Rightarrow> money \<Rightarrow> (nat \<Rightarrow> readings) \<Rightarrow> ('u, unit) uow_prog" where
  "transfer_apply sender receiver tx amt \<omega> =
     thenP (on_tx tx (mark_processing (\<omega> 1)))
     (bindP (read_tx tx) (\<lambda>t.
     thenP (on_account sender (debit amt (entity_id t) (\<omega> 2)))
     (thenP (on_account receiver (credit amt (entity_id t) (\<omega> 3)))
            (on_tx tx (complete (\<omega> 4))))))"

definition failure_code_of :: "exn \<Rightarrow> string" where
  "failure_code_of e = str_replace ''ERROR'' [] (upper_str (exn_name e))"

text \<open>The \<open>except\<close> branch: the failed transaction is saved and committed, then the exception goes on.\<close>

definition transfer_failed ::
  "'u uow_port \<Rightarrow> nat \<Rightarrow> (nat \<Rightarrow> readings) \<Rightarrow> exn \<Rightarrow> ('u, unit) uow_prog" where
  "transfer_failed U tx \<omega> e =
     thenP (on_tx tx (fail (failure_code_of e) (exn_str e) (\<omega> 5)))
     (thenP (tx_save U tx)
     (thenP (uow_commit U)
            (raiseP e)))"

definition load_account :: "'u uow_port \<Rightarrow> account_id \<Rightarrow> ('u, nat) uow_prog" where
  "load_account U i =
     bindP (acc_get_with_lock U i) (\<lambda>account. case account of
         None \<Rightarrow> raiseP (ResourceNotFoundError ''Account'' i)
       | Some r \<Rightarrow> returnP r)"

text \<open>Steps 5 to 9: the body of \<open>async with self._uow\<close>.\<close>

definition transfer_in_uow ::
  "'u uow_port \<Rightarrow> account_id \<Rightarrow> account_id \<Rightarrow> money \<Rightarrow> idempotency_key \<Rightarrow> (nat \<Rightarrow> readings)
   \<Rightarrow> ('u, nat \<times> nat \<times> nat) uow_prog" where
  "transfer_in_uow U sender_id receiver_id amt key \<omega> =
     bindP (load_account U sender_id) (\<lambda>sender.
     bindP (load_account U receiver_id) (\<lambda>receiver.
     bindP (liftP (tx_initiate sender_id receiver_id amt key TRANSFER (\<omega> 0))) (\<lambda>t.
     bindP (new_tx t) (\<lambda>tx.
     thenP (tryP (transfer_apply sender receiver tx amt \<omega>) (transfer_failed U tx \<omega>))
     (thenP (acc_update U sender)
     (thenP (acc_update U receiver)
     (thenP (tx_save U tx)
     (thenP (uow_commit U)
            (returnP (sender, receiver, tx))))))))))"

text \<open>Step 10: the events of the three aggregates, published together.\<close>

definition transfer_publish ::
  "'b bus_port \<Rightarrow> nat \<Rightarrow> nat \<Rightarrow> nat \<Rightarrow> (('u, 'l, 'b) world, exn, unit) prog" where
  "transfer_publish B sender receiver tx =
     bindP (in_uow (collect_account sender)) (\<lambda>es1.
     bindP (in_uow (collect_account receiver)) (\<lambda>es2.
     bindP (in_uow (collect_tx tx)) (\<lambda>es3.
       let events = es1 @ es2 @ es3 in
       if events \<noteq> [] then in_bus (bus_publish_many B events) else returnP ())))"

text \<open>\<open>sorted([str(from_id), str(to_id)])\<close>: code point order on the canonical texts.\<close>

definition lock_keys :: "account_id \<Rightarrow> account_id \<Rightarrow> string list" where
  "lock_keys sender_id receiver_id = sort [uuid_str sender_id, uuid_str receiver_id]"

definition transfer_new ::
  "'u uow_port \<Rightarrow> 'l lock_port \<Rightarrow> 'b bus_port \<Rightarrow> transfer_command \<Rightarrow> (nat \<Rightarrow> readings)
   \<Rightarrow> (('u, 'l, 'b) world, exn, transaction_dto) prog" where
  "transfer_new U L B cmd \<omega> =
     bindP (liftP (parse_currency (tc_currency cmd))) (\<lambda>cur.
     bindP (liftP (bindR (redecimal (tc_amount cmd)) (\<lambda>d. money_new d cur))) (\<lambda>amt.
     bindP (with_lock L (lock_keys (tc_from_account_id cmd) (tc_to_account_id cmd))
              (in_uow (with_uow U (transfer_in_uow U (tc_from_account_id cmd) (tc_to_account_id cmd)
                 amt (tc_idempotency_key cmd) \<omega>)))) (\<lambda>(sender, receiver, tx).
     thenP (transfer_publish B sender receiver tx)
     (bindP (in_uow (read_tx tx)) (\<lambda>t. returnP (transaction_dto_of t))))))"

definition transfer_initiate ::
  "'u uow_port \<Rightarrow> 'l lock_port \<Rightarrow> 'b bus_port \<Rightarrow> transfer_command \<Rightarrow> (nat \<Rightarrow> readings)
   \<Rightarrow> (('u, 'l, 'b) world, exn, transaction_dto) prog" where
  "transfer_initiate U L B cmd \<omega> =
     bindP (transfer_existing U (tc_idempotency_key cmd)) (\<lambda>existing. case existing of
         Some r \<Rightarrow> bindP (in_uow (read_tx r)) (\<lambda>t. returnP (transaction_dto_of t))
       | None \<Rightarrow> transfer_new U L B cmd \<omega>)"

definition transfer_get ::
  "'u uow_port \<Rightarrow> uuid \<Rightarrow> (('u, 'l, 'b) world, exn, transaction_dto) prog" where
  "transfer_get U i =
     in_uow (with_uow U (
       bindP (tx_get U i) (\<lambda>tx. case tx of
           None \<Rightarrow> raiseP (ResourceNotFoundError ''Transaction'' i)
         | Some r \<Rightarrow> bindP (read_tx r) (\<lambda>t. returnP (transaction_dto_of t)))))"

section \<open>The services as inbound ports\<close>

text \<open>\<open>IAccountService\<close> and \<open>ITransferService\<close>, and the services with what their constructors are given.\<close>

record 'w account_service_port =
  as_create :: "create_account_command \<Rightarrow> readings \<Rightarrow> ('w, exn, account_dto) prog"
  as_get :: "uuid \<Rightarrow> ('w, exn, account_dto) prog"

record 'w transfer_service_port =
  ts_initiate :: "transfer_command \<Rightarrow> (nat \<Rightarrow> readings) \<Rightarrow> ('w, exn, transaction_dto) prog"
  ts_get :: "uuid \<Rightarrow> ('w, exn, transaction_dto) prog"

definition account_service :: "'u uow_port \<Rightarrow> ('u, 'l, 'b) world account_service_port" where
  "account_service U = \<lparr>as_create = account_service_create U, as_get = account_service_get U\<rparr>"

definition transfer_service :: "'u uow_port \<Rightarrow> 'l lock_port \<Rightarrow> 'b bus_port \<Rightarrow> ('u, 'l, 'b) world transfer_service_port" where
  "transfer_service U L B = \<lparr>ts_initiate = transfer_initiate U L B, ts_get = transfer_get U\<rparr>"

lemma service_simps [simp]:
  "as_create (account_service U) = account_service_create U" "as_get (account_service U) = account_service_get U"
  "ts_initiate (transfer_service U L B) = transfer_initiate U L B" "ts_get (transfer_service U L B) = transfer_get U"
  by (simp_all add: account_service_def transfer_service_def)

section \<open>Reading through the store contract\<close>

context account_store begin

text \<open>\<open>AccountService.get\<close> reports what is stored and disturbs nothing.\<close>

lemma service_get:
  fixes w :: "('u, 'l, 'b) world"
  assumes ok: "valid (w_heap w, w_uow w)"
  shows "\<exists>w'. account_service_get U i w =
      ((case stored (w_heap w, w_uow w) i of
          None \<Rightarrow> Inl (ResourceNotFoundError ''Account'' i)
        | Some a \<Rightarrow> Inr (account_dto_of a)), w')
    \<and> stored (w_heap w', w_uow w') = stored (w_heap w, w_uow w)
    \<and> w_lock w' = w_lock w \<and> w_bus w' = w_bus w"
proof -
  obtain s1 where s1: "uow_enter U (w_heap w, w_uow w) = (Inr (), s1)" "valid s1"
    "stored s1 = stored (w_heap w, w_uow w)"
    using enter_ok [OF ok] by blast
  show ?thesis
  proof (cases "stored (w_heap w, w_uow w) i")
    case None
    then obtain s2 where s2: "acc_get U i s1 = (Inr None, s2)" "valid s2" "stored s2 = stored s1"
      using get_none [OF s1(2)] s1(3) by metis
    obtain s3 where s3: "uow_exit U (Some (ResourceNotFoundError ''Account'' i)) s2 = (Inr (), s3)"
      "stored s3 = stored s2"
      using exit_ok [OF s2(2)] by blast
    obtain h u where "s3 = (h, u)" by (cases s3)
    with None s1 s2 s3 show ?thesis
      by (simp add: account_service_get_def in_uow_def with_uow_def withP_apply bindP_apply thenP_apply
          raiseP_apply)
  next
    case (Some a)
    then obtain r s2 where s2: "acc_get U i s1 = (Inr (Some r), s2)" "valid s2" "stored s2 = stored s1"
      "accounts_at (fst s2) r = a"
      using get_some [OF s1(2)] s1(3) by metis
    obtain s3 where s3: "uow_exit U None s2 = (Inr (), s3)" "stored s3 = stored s2"
      using exit_ok [OF s2(2)] by blast
    obtain h u where "s3 = (h, u)" by (cases s3)
    moreover have "read_account r s2 = (Inr a, s2)"
      using s2(4) by (cases s2) (simp add: read_account_def getP_apply)
    ultimately show ?thesis
      using Some s1 s2 s3
      by (simp add: account_service_get_def in_uow_def with_uow_def withP_apply bindP_apply thenP_apply
          returnP_apply)
  qed
qed

end

section \<open>Opening an account in memory\<close>

definition opened :: "account \<Rightarrow> (im_uow, 'l, 'b) world \<Rightarrow> (im_uow, 'l, 'b) world" where
  "opened a w = w\<lparr>w_heap := snd (alloc_account a (w_heap w)),
     w_uow := (w_uow w)\<lparr>im_accounts := (im_accounts (w_uow w))(entity_id a \<mapsto> next_ref (w_heap w)),
                       im_committed := True\<rparr>\<rparr>"

lemma account_service_create_in_memory:
  fixes w :: "(im_uow, 'l, 'b) world"
  shows "account_service_create in_memory_uow cmd r w =
    (case bindR (parse_currency (cac_currency cmd)) (\<lambda>cur.
          bindR (money_new (cac_initial_balance cmd) cur) (\<lambda>m.
            account_create (cac_owner_id cmd) cur (Some m) r)) of
       Inl e \<Rightarrow> (Inl e, w)
     | Inr a \<Rightarrow> (Inr (account_dto_of a), opened a w))"
  by (cases w)
    (auto simp: account_service_create_def bindP_apply liftP_apply thenP_apply in_uow_def object_defs
      with_uow_in_memory im_acc_save_def im_commit_apply getP_apply returnP_apply opened_def
      split: sum.splits)

lemma opened_stored:
  "im_stored (w_heap (opened a w), w_uow (opened a w)) (entity_id a) = Some a"
  "im_ok (w_heap w, w_uow w) \<Longrightarrow> i \<noteq> entity_id a \<Longrightarrow>
     im_stored (w_heap (opened a w), w_uow (opened a w)) i = im_stored (w_heap w, w_uow w) i"
  by (auto simp: im_stored_def opened_def alloc_account_def dest: im_okD(1) split: option.splits)
    (cases "im_accounts (w_uow w) i"; auto dest: im_okD(1))

lemma opened_ok:
  assumes "im_ok (w_heap w, w_uow w)"
  shows "im_ok (w_heap (opened a w), w_uow (opened a w))"
  using im_okD [OF assms] unfolding im_ok_def opened_def alloc_account_def
  by (fastforce split: if_splits)

end
