(* ===== verification/Account_Spec.thy ===== *)
theory Account_Spec
  imports Account
begin

text \<open>
  What an account promises: an integer number of cents, a currency and a status, with a step per
  operation (\<open>ledger_step\<close>). The aggregate refines it step by step and run by run, every refusal
  included, and the events it records are a faithful log: replaying them, with each event's
  \<open>balance_after\<close> checked on the way, gives the final balance and status.
\<close>

section \<open>The abstract account\<close>

record ledger =
  l_cents :: int
  l_currency :: currency
  l_status :: account_status

datatype ledger_op = LDebit int currency | LCredit int currency | LFreeze | LUnfreeze | LClose

datatype refusal = IsClosed | IsFrozen | OtherCurrency | NotEnough | TooLarge | NotEmpty | Unexpected

fun ledger_step :: "ledger_op \<Rightarrow> ledger \<Rightarrow> refusal + ledger" where
  "ledger_step (LDebit n cur) l =
     (if l_status l = CLOSED then Inl IsClosed
      else if l_status l = FROZEN then Inl IsFrozen
      else if l_currency l \<noteq> cur then Inl OtherCurrency
      else if l_cents l < n then Inl NotEnough
      else Inr (l\<lparr>l_cents := l_cents l - n\<rparr>))"
| "ledger_step (LCredit n cur) l =
     (if l_status l = CLOSED then Inl IsClosed
      else if l_status l = FROZEN then Inl IsFrozen
      else if l_currency l \<noteq> cur then Inl OtherCurrency
      else if int max_cents \<le> l_cents l + n then Inl TooLarge
      else Inr (l\<lparr>l_cents := l_cents l + n\<rparr>))"
| "ledger_step LFreeze l =
     (if l_status l = CLOSED then Inl IsClosed else Inr (l\<lparr>l_status := FROZEN\<rparr>))"
| "ledger_step LUnfreeze l =
     (if l_status l = CLOSED then Inl IsClosed else Inr (l\<lparr>l_status := ACTIVE\<rparr>))"
| "ledger_step LClose l =
     (if l_status l = CLOSED then Inl IsClosed
      else if l_cents l \<noteq> 0 then Inl NotEmpty
      else Inr (l\<lparr>l_status := CLOSED\<rparr>))"

definition abs_account :: "account \<Rightarrow> ledger" where
  "abs_account a = \<lparr>l_cents = money_cents (balance a), l_currency = account_currency a,
     l_status = account_status a\<rparr>"

primrec abs_op :: "account_op \<Rightarrow> ledger_op" where
  "abs_op (Debit m t r) = LDebit (money_cents m) (money_currency m)"
| "abs_op (Credit m t r) = LCredit (money_cents m) (money_currency m)"
| "abs_op (Freeze s r) = LFreeze"
| "abs_op (Unfreeze r) = LUnfreeze"
| "abs_op (Close r) = LClose"

definition abs_exn :: "exn \<Rightarrow> refusal" where
  "abs_exn e =
     (case e of
        AccountClosedError _ \<Rightarrow> IsClosed
      | AccountFrozenError _ \<Rightarrow> IsFrozen
      | CurrencyMismatchError _ _ \<Rightarrow> OtherCurrency
      | InsufficientFundsError _ _ \<Rightarrow> NotEnough
      | DecimalSignal InvalidOperation \<Rightarrow> TooLarge
      | AccountNotEmptyError _ _ \<Rightarrow> NotEmpty
      | _ \<Rightarrow> Unexpected)"

lemma abs_exn_simps [simp]:
  "abs_exn (AccountClosedError i) = IsClosed"
  "abs_exn (AccountFrozenError i) = IsFrozen"
  "abs_exn (CurrencyMismatchError c d) = OtherCurrency"
  "abs_exn (InsufficientFundsError m n) = NotEnough"
  "abs_exn (DecimalSignal InvalidOperation) = TooLarge"
  "abs_exn (AccountNotEmptyError i m) = NotEmpty"
  by (simp_all add: abs_exn_def)

lemma abs_account_simps [simp]:
  "l_cents (abs_account a) = money_cents (balance a)"
  "l_currency (abs_account a) = account_currency a"
  "l_status (abs_account a) = account_status a"
  "abs_account (record_event e a) = abs_account a"
  "abs_account (a\<lparr>updated_at := t\<rparr>) = abs_account a"
  by (simp_all add: abs_account_def account_currency_def)

section \<open>Refinement\<close>

lemma debit_refines:
  assumes "account_ok a" and "money_ok m"
  shows "map_sum abs_exn abs_account (debit m t r a) =
    ledger_step (LDebit (money_cents m) (money_currency m)) (abs_account a)"
proof (cases "account_status a = ACTIVE \<and> account_currency a = money_currency m")
  case True
  then have cur: "money_currency (balance a) = money_currency m" by (simp add: account_currency_def)
  have ok: "money_ok (balance a)" using assms(1) by (simp add: account_ok_def)
  show ?thesis
  proof (cases "money_cents m \<le> money_cents (balance a)")
    case le: True
    obtain x where "money_sub (balance a) m = Inr x" and "money_cents x = money_cents (balance a) - money_cents m"
      and "money_currency x = money_currency (balance a)"
      using money_sub_exact [OF ok assms(2) cur le] by blast
    with True le show ?thesis
      by (simp add: account_defs abs_account_def account_currency_def)
  next
    case False
    with True money_sub_insufficient [OF ok assms(2) cur] show ?thesis
      by (simp add: account_defs)
  qed
next
  case False
  then show ?thesis
    by (cases "account_status a") (simp_all add: account_defs account_currency_def money_sub_mismatch)
qed

lemma credit_refines:
  assumes "account_ok a" and "money_ok m"
  shows "map_sum abs_exn abs_account (credit m t r a) =
    ledger_step (LCredit (money_cents m) (money_currency m)) (abs_account a)"
proof (cases "account_status a = ACTIVE \<and> account_currency a = money_currency m")
  case True
  then have cur: "money_currency (balance a) = money_currency m" by (simp add: account_currency_def)
  have ok: "money_ok (balance a)" using assms(1) by (simp add: account_ok_def)
  show ?thesis
  proof (cases "money_cents (balance a) + money_cents m < int max_cents")
    case lt: True
    obtain x where "money_add (balance a) m = Inr x" and "money_cents x = money_cents (balance a) + money_cents m"
      and "money_currency x = money_currency (balance a)"
      using money_add_exact [OF ok assms(2) cur lt] by blast
    with True lt show ?thesis
      by (simp add: account_defs abs_account_def account_currency_def)
  next
    case False
    with True money_add_too_large [OF ok assms(2) cur] show ?thesis
      by (simp add: account_defs)
  qed
next
  case False
  then show ?thesis
    by (cases "account_status a") (simp_all add: account_defs account_currency_def money_add_mismatch)
qed

lemma account_step_refines:
  assumes "account_ok a" and "account_op_ok x"
  shows "map_sum abs_exn abs_account (account_step x a) = ledger_step (abs_op x) (abs_account a)"
proof (cases x)
  case (Close r)
  with assms(1) show ?thesis
    by (simp add: close_def assert_not_closed_def Let_def account_ok_def is_zero_iff abs_account_def
        account_currency_def)
qed (use assms in \<open>simp_all add: debit_refines credit_refines freeze_def unfreeze_def
  assert_not_closed_def Let_def abs_account_def account_currency_def\<close>)

lemma account_run_refines:
  assumes "account_ok a" and "\<forall>x \<in> set xs. account_op_ok x"
  shows "map_sum abs_exn abs_account (runR account_step xs a) = runR ledger_step (map abs_op xs) (abs_account a)"
  using assms
proof (induction xs arbitrary: a)
  case Nil
  then show ?case by simp
next
  case (Cons x xs)
  then have step: "map_sum abs_exn abs_account (account_step x a) = ledger_step (abs_op x) (abs_account a)"
    by (simp add: account_step_refines)
  show ?case
  proof (cases "account_step x a")
    case (Inl e)
    with step have "ledger_step (abs_op x) (abs_account a) = Inl (abs_exn e)" by simp
    with Inl show ?thesis by simp
  next
    case (Inr b)
    with step have "ledger_step (abs_op x) (abs_account a) = Inr (abs_account b)" by simp
    moreover have "account_ok b" using Cons.prems Inr account_step_ok by auto
    ultimately show ?thesis using Inr Cons by simp
  qed
qed

section \<open>The events are the ledger\<close>

text \<open>One event of the log; \<open>None\<close> when its \<open>balance_after\<close> is not the balance it leads to.\<close>

definition replay_event :: "event_data \<Rightarrow> ledger \<Rightarrow> ledger option" where
  "replay_event e l =
     (case e of
        AccountCreated _ _ _ amt \<Rightarrow> Some (l\<lparr>l_cents := cents amt, l_status := ACTIVE\<rparr>)
      | BalanceDebited _ _ amt _ aft \<Rightarrow>
          if cents aft = l_cents l - cents amt then Some (l\<lparr>l_cents := cents aft\<rparr>) else None
      | BalanceCredited _ _ amt _ aft \<Rightarrow>
          if cents aft = l_cents l + cents amt then Some (l\<lparr>l_cents := cents aft\<rparr>) else None
      | AccountFrozen _ _ _ \<Rightarrow> Some (l\<lparr>l_status := FROZEN\<rparr>)
      | AccountUnfrozen _ _ \<Rightarrow> Some (l\<lparr>l_status := ACTIVE\<rparr>)
      | AccountClosed _ _ \<Rightarrow> Some (l\<lparr>l_status := CLOSED\<rparr>)
      | _ \<Rightarrow> Some l)"

fun replay :: "event_data list \<Rightarrow> ledger \<Rightarrow> ledger option" where
  "replay [] l = Some l"
| "replay (e # es) l = Option.bind (replay_event e l) (replay es)"

lemma replay_append: "replay (es @ fs) l = Option.bind (replay es l) (replay fs)"
  by (induction es arbitrary: l) (auto simp: Option.bind_assoc fun_eq_iff intro!: bind_option_cong)

lemma account_step_replays:
  assumes "account_ok a" and "account_op_ok x" and "account_step x a = Inr b"
  obtains es where "pending b = pending a @ es" and "replay es (abs_account a) = Some (abs_account b)"
proof (cases x)
  case (Debit m t r)
  with assms(3) obtain y where y: "money_sub (balance a) m = Inr y"
    and b: "b = record_event (new_event r 0 1 (BalanceDebited (entity_id a) t (amount m)
             (currency_value (money_currency m)) (amount y))) (a\<lparr>balance := y, updated_at := rd_now r 0\<rparr>)"
    by (auto simp: debit_Inr)
  have "money_cents y = money_cents (balance a) - money_cents m"
    using assms(1,2) Debit y by (simp add: account_ok_def money_sub_cents(1))
  moreover have "money_currency y = account_currency a"
    using money_sub_Inr(3) [OF y] by (simp add: account_currency_def)
  ultimately show thesis
    by (intro that [of "[_]"], simp add: b)
      (simp add: b replay_event_def abs_account_def money_cents_def account_currency_def)
next
  case (Credit m t r)
  with assms(3) obtain y where y: "money_add (balance a) m = Inr y"
    and b: "b = record_event (new_event r 0 1 (BalanceCredited (entity_id a) t (amount m)
             (currency_value (money_currency m)) (amount y))) (a\<lparr>balance := y, updated_at := rd_now r 0\<rparr>)"
    by (auto simp: credit_Inr)
  have "money_cents y = money_cents (balance a) + money_cents m"
    using assms(1,2) Credit y by (simp add: account_ok_def money_add_cents(1))
  moreover have "money_currency y = account_currency a"
    using money_add_Inr(3) [OF y] by (simp add: account_currency_def)
  ultimately show thesis
    by (intro that [of "[_]"], simp add: b)
      (simp add: b replay_event_def abs_account_def money_cents_def account_currency_def)
next
  case (Freeze s r)
  show thesis
  proof (cases "account_status a = FROZEN")
    case True
    with Freeze assms(3) have "b = a" by (simp add: freeze_def assert_not_closed_def)
    with that [of "[]"] show thesis by simp
  next
    case False
    with Freeze assms(3) show thesis
      by (intro that) (auto simp: freeze_def assert_not_closed_def Let_def replay_event_def abs_account_def
          account_currency_def bindR_Inr_iff split: if_splits)
  qed
next
  case (Unfreeze r)
  show thesis
  proof (cases "account_status a = ACTIVE")
    case True
    with Unfreeze assms(3) have "b = a" by (simp add: unfreeze_def assert_not_closed_def)
    with that [of "[]"] show thesis by simp
  next
    case False
    with Unfreeze assms(3) show thesis
      by (intro that) (auto simp: unfreeze_def assert_not_closed_def Let_def replay_event_def abs_account_def
          account_currency_def bindR_Inr_iff split: if_splits)
  qed
next
  case (Close r)
  with assms(3) show thesis
    by (intro that) (auto simp: close_def assert_not_closed_def Let_def replay_event_def abs_account_def
        account_currency_def bindR_Inr_iff split: if_splits)
qed

lemma account_run_replay:
  assumes "account_ok a" and "\<forall>x \<in> set xs. account_op_ok x" and "runR account_step xs a = Inr b"
  shows "\<exists>es. pending b = pending a @ es \<and> replay es (abs_account a) = Some (abs_account b)"
  using assms
proof (induction xs arbitrary: a)
  case Nil
  then show ?case by (intro exI [of _ "[]"]) simp
next
  case (Cons x xs)
  then obtain c where c: "account_step x a = Inr c" and r: "runR account_step xs c = Inr b"
    by (auto simp: bindR_Inr_iff)
  obtain es where es: "pending c = pending a @ es" "replay es (abs_account a) = Some (abs_account c)"
    using account_step_replays [OF _ _ c] Cons.prems by auto
  have "account_ok c" using account_step_ok [OF _ _ c] Cons.prems by auto
  with Cons r obtain fs where "pending b = pending c @ fs" "replay fs (abs_account c) = Some (abs_account b)"
    by auto
  with es show ?case by (intro exI [of _ "es @ fs"]) (simp add: replay_append)
qed

end
