(* ===== verification/Transfer_Run.thy ===== *)
theory Transfer_Run
  imports Services Account_Spec
begin

text \<open>
  What \<open>TransferService.initiate\<close> does to the in-memory bank, on every branch.

  \<^item> The first sections run its steps on the in-memory adapters, up to one equation per outcome
    (\<open>transfer_refused\<close>, \<open>transfer_debit_fails\<close>, \<open>transfer_credit_fails\<close>, \<open>transfer_succeeds\<close>).
  \<^item> \<open>bank\<close> and \<open>bank_transfer\<close> are the abstract specification: accounts as ledgers, transfers by
    their idempotency key. \<open>transfer_refines_bank\<close> states that the service implements it.
\<close>

type_synonym im_world = "(im_uow, string set, domain_event list) world"

section \<open>Locks around a unit of work\<close>

lemma in_uow_with_lock:
  "in_uow m (w\<lparr>w_lock := l\<rparr>) = (fst (in_uow m w), (snd (in_uow m w))\<lparr>w_lock := l\<rparr>)"
  by (simp add: in_uow_def split: prod.splits)

lemma with_lock_in_memory:
  fixes w :: "('u, string set, 'b) world"
  assumes "distinct ks" and "set ks \<inter> w_lock w = {}"
  shows "with_lock in_memory_lock ks (in_uow m) w = in_uow m w"
proof -
  obtain x v where r: "in_uow m w = (x, v)" by (cases "in_uow m w")
  then have l: "w_lock v = w_lock w" using in_uow_lock [of m w] by simp
  have h: "(w_lock w \<union> set ks) - set ks = w_lock w" using assms(2) by blast
  have v: "v\<lparr>w_lock := w_lock w\<rparr> = v" using l by (cases v) simp
  show ?thesis
    using assms r h v
    by (cases x) (simp_all add: with_lock_def withP_apply in_lock_def im_acquire_free in_uow_with_lock
        thenP_apply returnP_apply raiseP_apply)
qed

lemma with_lock_refused:
  fixes w :: "('u, string set, 'b) world"
  assumes "\<not> distinct ks \<or> set ks \<inter> w_lock w \<noteq> {}"
  obtains k where "with_lock in_memory_lock ks body w = (Inl (ConcurrencyConflictError k), w)"
    and "k \<in> set ks"
proof -
  obtain x l where r: "im_acquire_loop ks [] (w_lock w) = (x, l)"
    by (cases "im_acquire_loop ks [] (w_lock w)")
  with im_acquire_loop_cases [OF r] assms obtain k where "x = Inl (ConcurrencyConflictError k)"
    and "k \<in> set ks" and "l = w_lock w" by auto
  with r have "with_lock in_memory_lock ks body w = (Inl (ConcurrencyConflictError k), w)"
    by (simp add: with_lock_def withP_apply in_lock_def)
  then show thesis using \<open>k \<in> set ks\<close> by (rule that)
qed

lemma set_lock_keys [simp]: "set (lock_keys f t) = {uuid_str f, uuid_str t}"
  by (auto simp: lock_keys_def)

lemma distinct_lock_keys [simp]: "distinct (lock_keys f t) \<longleftrightarrow> f \<noteq> t"
  by (auto simp: lock_keys_def uuid_str_inject)

section \<open>The transaction's part\<close>

text \<open>\<open>initiate\<close> accepts two different accounts and an amount that is not zero; then the calls of the
  service on the new transaction succeed.\<close>

definition processing_tx :: "(nat \<Rightarrow> readings) \<Rightarrow> transaction \<Rightarrow> transaction" where
  "processing_tx \<omega> tx = record_event (new_event (\<omega> 1) 0 1
     (TransactionProcessing (entity_id tx) (from_account_id tx) (to_account_id tx)
       (amount (tx_amount tx)) (currency_value (tx_currency tx))))
     (tx\<lparr>tx_status := PROCESSING, updated_at := rd_now (\<omega> 1) 0\<rparr>)"

lemma mark_processing_pending:
  "tx_status tx = PENDING \<Longrightarrow> mark_processing (\<omega> (Suc 0)) tx = Inr (processing_tx \<omega> tx)"
  by (simp add: mark_processing_def processing_tx_def can_process_def Let_def tx_currency_def)

lemma processing_tx_simps [simp]:
  "entity_id (processing_tx \<omega> tx) = entity_id tx"
  "tx_status (processing_tx \<omega> tx) = PROCESSING"
  "from_account_id (processing_tx \<omega> tx) = from_account_id tx"
  "to_account_id (processing_tx \<omega> tx) = to_account_id tx"
  "tx_amount (processing_tx \<omega> tx) = tx_amount tx"
  "idempotency_key (processing_tx \<omega> tx) = idempotency_key tx"
  "created_at (processing_tx \<omega> tx) = created_at tx"
  by (simp_all add: processing_tx_def)

definition completed_tx :: "(nat \<Rightarrow> readings) \<Rightarrow> transaction \<Rightarrow> transaction" where
  "completed_tx \<omega> tx = projr (complete (\<omega> 4) (processing_tx \<omega> tx))"

definition failed_tx :: "(nat \<Rightarrow> readings) \<Rightarrow> exn \<Rightarrow> transaction \<Rightarrow> transaction" where
  "failed_tx \<omega> e tx = projr (fail (failure_code_of e) (exn_str e) (\<omega> 5) (processing_tx \<omega> tx))"

lemma complete_processing: "complete (\<omega> 4) (processing_tx \<omega> tx) = Inr (completed_tx \<omega> tx)"
  by (simp add: completed_tx_def complete_def can_complete_def Let_def)

lemma fail_processing:
  "fail (failure_code_of e) (exn_str e) (\<omega> 5) (processing_tx \<omega> tx) = Inr (failed_tx \<omega> e tx)"
  by (simp add: failed_tx_def fail_def can_fail_def Let_def)

lemma completed_tx_simps [simp]:
  "entity_id (completed_tx \<omega> tx) = entity_id tx"
  "tx_status (completed_tx \<omega> tx) = COMPLETED"
  "from_account_id (completed_tx \<omega> tx) = from_account_id tx"
  "to_account_id (completed_tx \<omega> tx) = to_account_id tx"
  "tx_amount (completed_tx \<omega> tx) = tx_amount tx"
  "idempotency_key (completed_tx \<omega> tx) = idempotency_key tx"
  by (simp_all add: completed_tx_def complete_def can_complete_def Let_def)

lemma failed_tx_simps [simp]:
  "entity_id (failed_tx \<omega> e tx) = entity_id tx"
  "tx_status (failed_tx \<omega> e tx) = FAILED"
  "from_account_id (failed_tx \<omega> e tx) = from_account_id tx"
  "to_account_id (failed_tx \<omega> e tx) = to_account_id tx"
  "tx_amount (failed_tx \<omega> e tx) = tx_amount tx"
  "idempotency_key (failed_tx \<omega> e tx) = idempotency_key tx"
  "failure_code (failed_tx \<omega> e tx) = Some (failure_code_of e)"
  "failure_reason (failed_tx \<omega> e tx) = Some (exn_str e)"
  "rollback_required (failed_tx \<omega> e tx) = True"
  by (simp_all add: failed_tx_def fail_def can_fail_def Let_def)

section \<open>The unit of work's part\<close>

lemma load_account_in_memory:
  "load_account in_memory_uow i (h, u) =
     (case im_accounts u i of
        None \<Rightarrow> (Inl (ResourceNotFoundError ''Account'' i), (h, u))
      | Some r \<Rightarrow> (Inr r, (h, u\<lparr>im_accounts_seen := im_accounts_seen u @ [r]\<rparr>)))"
  by (simp add: load_account_def im_acc_get_with_lock_def im_acc_get_def bindP_apply raiseP_apply
      returnP_apply split: option.splits)

text \<open>The heap and the store after the transaction object is made, and after it is saved.\<close>

definition with_tx :: "transaction \<Rightarrow> heap \<Rightarrow> heap" where
  "with_tx tx h = h\<lparr>txs_at := (txs_at h)(next_ref h := tx), next_ref := next_ref h + 1\<rparr>"

definition with_account :: "nat \<Rightarrow> account \<Rightarrow> heap \<Rightarrow> heap" where
  "with_account r a h = h\<lparr>accounts_at := (accounts_at h)(r := a)\<rparr>"

definition loaded :: "nat \<Rightarrow> nat \<Rightarrow> im_uow \<Rightarrow> im_uow" where
  "loaded r1 r2 u = u\<lparr>im_accounts_seen := im_accounts_seen u @ [r1, r2]\<rparr>"

definition saved :: "nat \<Rightarrow> transaction \<Rightarrow> im_uow \<Rightarrow> im_uow" where
  "saved r tx u = u\<lparr>im_txs := (im_txs u)(entity_id tx \<mapsto> r),
     im_by_key := (im_by_key u)(idempotency_key tx \<mapsto> entity_id tx), im_committed := True\<rparr>"

lemmas heap_defs = with_tx_def with_account_def loaded_def saved_def

text \<open>The two loaded accounts and the new transaction of a unit of work.\<close>

definition in_uow_ready ::
  "account_id \<Rightarrow> account_id \<Rightarrow> money \<Rightarrow> idempotency_key \<Rightarrow> (nat \<Rightarrow> readings) \<Rightarrow> im_uow \<Rightarrow> nat \<Rightarrow> nat
   \<Rightarrow> transaction \<Rightarrow> bool" where
  "in_uow_ready f t amt key \<omega> u r1 r2 tx \<longleftrightarrow>
     im_accounts u f = Some r1 \<and> im_accounts u t = Some r2 \<and> r1 \<noteq> r2 \<and>
     tx_initiate f t amt key TRANSFER (\<omega> 0) = Inr tx"

lemma in_uow_ready_pending: "in_uow_ready f t amt key \<omega> u r1 r2 tx \<Longrightarrow> tx_status tx = PENDING"
  by (auto simp: in_uow_ready_def dest: tx_initiate_Inr)

lemmas in_uow_run_simps = transfer_in_uow_def load_account_in_memory bindP_apply thenP_apply liftP_apply
  object_defs tryP_apply transfer_apply_def transfer_failed_def getP_apply raiseP_apply returnP_apply
  mark_processing_pending fail_processing complete_processing im_tx_save_def Let_def im_commit_apply heap_defs

lemma transfer_in_uow_debit_fails:
  assumes "in_uow_ready f t amt key \<omega> u r1 r2 tx"
    and "debit amt (entity_id tx) (\<omega> 2) (accounts_at h r1) = Inl e"
  shows "transfer_in_uow in_memory_uow f t amt key \<omega> (h, u) =
    (Inl e, (with_tx (failed_tx \<omega> e tx) h, saved (next_ref h) (failed_tx \<omega> e tx) (loaded r1 r2 u)))"
  using assms in_uow_ready_pending [OF assms(1)] unfolding in_uow_ready_def
  by (simp add: in_uow_run_simps)

lemma transfer_in_uow_credit_fails:
  assumes "in_uow_ready f t amt key \<omega> u r1 r2 tx"
    and "debit amt (entity_id tx) (\<omega> 2) (accounts_at h r1) = Inr a"
    and "credit amt (entity_id tx) (\<omega> 3) (accounts_at h r2) = Inl e"
  shows "transfer_in_uow in_memory_uow f t amt key \<omega> (h, u) =
    (Inl e, (with_account r1 a (with_tx (failed_tx \<omega> e tx) h),
       saved (next_ref h) (failed_tx \<omega> e tx) (loaded r1 r2 u)))"
  using assms in_uow_ready_pending [OF assms(1)] unfolding in_uow_ready_def
  by (simp add: in_uow_run_simps)

lemma transfer_in_uow_succeeds:
  assumes "in_uow_ready f t amt key \<omega> u r1 r2 tx"
    and "debit amt (entity_id tx) (\<omega> 2) (accounts_at h r1) = Inr a"
    and "credit amt (entity_id tx) (\<omega> 3) (accounts_at h r2) = Inr b"
  shows "transfer_in_uow in_memory_uow f t amt key \<omega> (h, u) =
    (Inr (r1, r2, next_ref h),
      (with_account r2 b (with_account r1 a (with_tx (completed_tx \<omega> tx) h)),
       saved (next_ref h) (completed_tx \<omega> tx) (loaded r1 r2 u)))"
  using assms in_uow_ready_pending [OF assms(1)] unfolding in_uow_ready_def
  by (simp add: in_uow_run_simps)

section \<open>The whole call\<close>

definition lookup_key :: "im_uow \<Rightarrow> idempotency_key \<Rightarrow> nat option" where
  "lookup_key u k = Option.bind (im_by_key u k) (im_txs u)"

definition reset_uow :: "im_world \<Rightarrow> im_world" where
  "reset_uow w = w\<lparr>w_uow := (w_uow w)\<lparr>im_committed := False\<rparr>\<rparr>"

lemma transfer_existing_in_memory:
  "transfer_existing in_memory_uow key w = (Inr (lookup_key (w_uow w) key), reset_uow w)"
  by (simp add: transfer_existing_def in_uow_def with_uow_in_memory im_tx_get_by_idempotency_key_def
      getP_apply lookup_key_def reset_uow_def split: option.splits)

lemma in_uow_read_tx: "in_uow (read_tx r) w = (Inr (txs_at (w_heap w) r), w)"
  by (simp add: in_uow_def read_tx_def getP_apply)

text \<open>A key that is known: the stored transaction is reported, nothing else happens.\<close>

lemma transfer_initiate_known:
  assumes "lookup_key (w_uow w) (tc_idempotency_key cmd) = Some r"
  shows "transfer_initiate in_memory_uow L B cmd \<omega> w =
    (Inr (transaction_dto_of (txs_at (w_heap w) r)), reset_uow w)"
  using assms by (simp add: transfer_initiate_def bindP_apply transfer_existing_in_memory in_uow_read_tx
      returnP_apply reset_uow_def)

lemma transfer_initiate_fresh:
  assumes "lookup_key (w_uow w) (tc_idempotency_key cmd) = None"
  shows "transfer_initiate in_memory_uow L B cmd \<omega> w = transfer_new in_memory_uow L B cmd \<omega> (reset_uow w)"
  using assms by (simp add: transfer_initiate_def bindP_apply transfer_existing_in_memory)

definition cleared :: "nat \<Rightarrow> nat \<Rightarrow> nat \<Rightarrow> heap \<Rightarrow> heap" where
  "cleared r1 r2 t h = h\<lparr>
     accounts_at := (accounts_at h)(r1 := (accounts_at h r1)\<lparr>domain_events := []\<rparr>,
                                    r2 := (accounts_at h r2)\<lparr>domain_events := []\<rparr>),
     txs_at := (txs_at h)(t := (txs_at h t)\<lparr>domain_events := []\<rparr>)\<rparr>"

lemma transfer_publish_in_memory:
  fixes w :: "('u, 'l, domain_event list) world"
  assumes "r1 \<noteq> r2"
  shows "transfer_publish in_memory_bus r1 r2 t w =
    (Inr (), w\<lparr>w_heap := cleared r1 r2 t (w_heap w),
       w_bus := w_bus w @ domain_events (accounts_at (w_heap w) r1) @
         domain_events (accounts_at (w_heap w) r2) @ domain_events (txs_at (w_heap w) t)\<rparr>)"
  using assms by (cases w)
    (simp add: transfer_publish_def bindP_apply in_uow_def in_bus_def object_defs collect_events_def Let_def
      returnP_apply cleared_def fun_upd_twist)

text \<open>A call whose locks are free and whose argument is well formed, up to the unit of work.\<close>

definition locks_free :: "account_id \<Rightarrow> account_id \<Rightarrow> ('u, string set, 'b) world \<Rightarrow> bool" where
  "locks_free f t w \<longleftrightarrow> f \<noteq> t \<and> uuid_str f \<notin> w_lock w \<and> uuid_str t \<notin> w_lock w"

lemma transfer_new_locked:
  assumes "parse_currency (tc_currency cmd) = Inr cur" and "money_new (tc_amount cmd) cur = Inr amt"
    and "locks_free (tc_from_account_id cmd) (tc_to_account_id cmd) w"
  shows "transfer_new U in_memory_lock B cmd \<omega> w =
    (case in_uow (with_uow U (transfer_in_uow U (tc_from_account_id cmd) (tc_to_account_id cmd) amt
         (tc_idempotency_key cmd) \<omega>)) w of
       (Inl e, v) \<Rightarrow> (Inl e, v)
     | (Inr (s, r, tx), v) \<Rightarrow> thenP (transfer_publish B s r tx)
         (bindP (in_uow (read_tx tx)) (\<lambda>t. returnP (transaction_dto_of t))) v)"
proof -
  let ?m = "in_uow (with_uow U (transfer_in_uow U (tc_from_account_id cmd) (tc_to_account_id cmd) amt
         (tc_idempotency_key cmd) \<omega>))"
  have "with_lock in_memory_lock (lock_keys (tc_from_account_id cmd) (tc_to_account_id cmd)) ?m w = ?m w"
    using assms(3) by (intro with_lock_in_memory) (auto simp: locks_free_def)
  then show ?thesis
    using assms(1,2) by (simp add: transfer_new_def bindP_apply liftP_apply split: sum.splits prod.splits)
qed

lemma transfer_new_in_memory:
  assumes "parse_currency (tc_currency cmd) = Inr cur" and "money_new (tc_amount cmd) cur = Inr amt"
    and "locks_free (tc_from_account_id cmd) (tc_to_account_id cmd) w"
  shows "transfer_new in_memory_uow in_memory_lock B cmd \<omega> (reset_uow w) =
    (case in_uow (transfer_in_uow in_memory_uow (tc_from_account_id cmd) (tc_to_account_id cmd) amt
         (tc_idempotency_key cmd) \<omega>) (reset_uow w) of
       (Inl e, v) \<Rightarrow> (Inl e, v)
     | (Inr (s, r, tx), v) \<Rightarrow> thenP (transfer_publish B s r tx)
         (bindP (in_uow (read_tx tx)) (\<lambda>t. returnP (transaction_dto_of t))) v)"
proof -
  have free: "locks_free (tc_from_account_id cmd) (tc_to_account_id cmd) (reset_uow w)"
    using assms(3) by (simp add: locks_free_def reset_uow_def)
  let ?m = "transfer_in_uow in_memory_uow (tc_from_account_id cmd) (tc_to_account_id cmd) amt
         (tc_idempotency_key cmd) \<omega>"
  have "in_uow (with_uow in_memory_uow ?m) (reset_uow w) = in_uow ?m (reset_uow w)"
    by (simp add: in_uow_def with_uow_in_memory reset_uow_def)
  then show ?thesis by (simp only: transfer_new_locked [OF assms(1,2) free])
qed

lemma transfer_new_busy:
  assumes "parse_currency (tc_currency cmd) = Inr cur" and "money_new (tc_amount cmd) cur = Inr amt"
    and "\<not> locks_free (tc_from_account_id cmd) (tc_to_account_id cmd) w"
  obtains k where "transfer_new U in_memory_lock B cmd \<omega> (w :: ('u, string set, 'b) world) =
      (Inl (ConcurrencyConflictError k), w)"
proof -
  have "\<not> distinct (lock_keys (tc_from_account_id cmd) (tc_to_account_id cmd)) \<or>
      set (lock_keys (tc_from_account_id cmd) (tc_to_account_id cmd)) \<inter> w_lock w \<noteq> {}"
    using assms(3) by (auto simp: locks_free_def)
  then show thesis
  proof (rule with_lock_refused)
    fix k
    assume "with_lock in_memory_lock (lock_keys (tc_from_account_id cmd) (tc_to_account_id cmd))
      (in_uow (with_uow U (transfer_in_uow U (tc_from_account_id cmd) (tc_to_account_id cmd)
                 amt (tc_idempotency_key cmd) \<omega>))) w = (Inl (ConcurrencyConflictError k), w)"
    with assms(1,2) show thesis
      by (intro that [of k]) (simp add: transfer_new_def bindP_apply liftP_apply)
  qed
qed

section \<open>The abstract bank\<close>

text \<open>A transfer as it is reported, without times and ids.\<close>

record transfer_entry =
  te_from :: account_id
  te_to :: account_id
  te_cents :: int
  te_currency :: string
  te_status :: string

record bank =
  bk_accounts :: "account_id \<rightharpoonup> ledger"
  bk_transfers :: "idempotency_key \<rightharpoonup> transfer_entry"
  bk_busy :: "account_id \<Rightarrow> bool"

datatype bank_failure = Busy | NoAccount account_id | ZeroAmount | Refused refusal

definition bank_entry ::
  "account_id \<Rightarrow> account_id \<Rightarrow> int \<Rightarrow> currency \<Rightarrow> transaction_status \<Rightarrow> transfer_entry" where
  "bank_entry f t n cur st = \<lparr>te_from = f, te_to = t, te_cents = n,
     te_currency = currency_value cur, te_status = transaction_status_value st\<rparr>"

definition bank_record :: "idempotency_key \<Rightarrow> transfer_entry \<Rightarrow> bank \<Rightarrow> bank" where
  "bank_record key e b = b\<lparr>bk_transfers := (bk_transfers b)(key \<mapsto> e)\<rparr>"

definition bank_set :: "account_id \<Rightarrow> ledger \<Rightarrow> bank \<Rightarrow> bank" where
  "bank_set i l b = b\<lparr>bk_accounts := (bk_accounts b)(i \<mapsto> l)\<rparr>"

text \<open>
  A repeated key reports the recorded transfer. A new one is refused without a trace when an account
  is busy or unknown or the amount is zero; otherwise it is recorded, COMPLETED when both ledgers
  accept and FAILED when one refuses. When the store shares its objects with the service (\<open>shared\<close>),
  the sender's debit survives a refused credit; a transactional store leaves the accounts alone.
\<close>

definition bank_transfer ::
  "bool \<Rightarrow> account_id \<Rightarrow> account_id \<Rightarrow> int \<Rightarrow> currency \<Rightarrow> idempotency_key \<Rightarrow> bank
   \<Rightarrow> (bank_failure + transfer_entry) \<times> bank" where
  "bank_transfer shared f t n cur key b =
     (case bk_transfers b key of Some e \<Rightarrow> (Inr e, b) | None \<Rightarrow>
      if f = t \<or> bk_busy b f \<or> bk_busy b t then (Inl Busy, b)
      else (case bk_accounts b f of None \<Rightarrow> (Inl (NoAccount f), b) | Some s \<Rightarrow>
      (case bk_accounts b t of None \<Rightarrow> (Inl (NoAccount t), b) | Some r \<Rightarrow>
      if n = 0 then (Inl ZeroAmount, b)
      else (case ledger_step (LDebit n cur) s of
          Inl x \<Rightarrow> (Inl (Refused x), bank_record key (bank_entry f t n cur FAILED) b)
        | Inr s' \<Rightarrow> (case ledger_step (LCredit n cur) r of
            Inl x \<Rightarrow> (Inl (Refused x),
              (if shared then bank_set f s' else id) (bank_record key (bank_entry f t n cur FAILED) b))
          | Inr r' \<Rightarrow> (Inr (bank_entry f t n cur COMPLETED),
              bank_set t r' (bank_set f s' (bank_record key (bank_entry f t n cur COMPLETED) b))))))))"

section \<open>Refinement\<close>

definition abs_dto :: "transaction_dto \<Rightarrow> transfer_entry" where
  "abs_dto d = \<lparr>te_from = td_from_account_id d, te_to = td_to_account_id d,
     te_cents = cents (td_amount d), te_currency = td_currency d, te_status = td_status d\<rparr>"

definition abs_bank :: "im_world \<Rightarrow> bank" where
  "abs_bank w = \<lparr>
     bk_accounts = (\<lambda>i. map_option abs_account (im_stored (w_heap w, w_uow w) i)),
     bk_transfers = (\<lambda>k. map_option (\<lambda>r. abs_dto (transaction_dto_of (txs_at (w_heap w) r)))
        (lookup_key (w_uow w) k)),
     bk_busy = (\<lambda>i. uuid_str i \<in> w_lock w)\<rparr>"

definition abs_failure :: "exn \<Rightarrow> bank_failure" where
  "abs_failure e =
     (case e of
        ConcurrencyConflictError _ \<Rightarrow> Busy
      | ResourceNotFoundError _ i \<Rightarrow> NoAccount i
      | InvalidTransferAmountError _ \<Rightarrow> ZeroAmount
      | _ \<Rightarrow> Refused (abs_exn e))"

definition bank_ok :: "im_world \<Rightarrow> bool" where
  "bank_ok w \<longleftrightarrow> im_ok (w_heap w, w_uow w) \<and>
     (\<forall>i a. im_stored (w_heap w, w_uow w) i = Some a \<longrightarrow> account_ok a)"

definition abs_outcome :: "(exn + transaction_dto) \<times> im_world \<Rightarrow> (bank_failure + transfer_entry) \<times> bank" where
  "abs_outcome = (\<lambda>(x, w). (map_sum abs_failure abs_dto x, abs_bank w))"

lemma bank_ok_reset [simp]: "bank_ok (reset_uow w) = bank_ok w"
  by (simp add: bank_ok_def reset_uow_def)

lemma abs_bank_reset [simp]: "abs_bank (reset_uow w) = abs_bank w"
  by (simp add: abs_bank_def reset_uow_def lookup_key_def)

text \<open>Saving a transaction under a fresh id adds one entry and touches nothing else.\<close>

lemma saved_im_ok:
  assumes "im_ok (h, u)" and "im_txs u (entity_id tx) = None"
  shows "im_ok (with_tx tx h, saved (next_ref h) tx (loaded r1 r2 u))"
proof -
  let ?h = "with_tx tx h" and ?u = "saved (next_ref h) tx (loaded r1 r2 u)"
  have "\<exists>r. im_txs ?u i = Some r \<and> idempotency_key (txs_at ?h r) = k"
    if "im_by_key ?u k = Some i" for k i
  proof (cases "k = idempotency_key tx")
    case False
    with that have "im_by_key u k = Some i" by (simp add: heap_defs)
    then obtain r where r: "im_txs u i = Some r" "idempotency_key (txs_at h r) = k"
      using im_okD(3) [OF assms(1)] by blast
    with im_okD(2) [OF assms(1) r(1)] assms(2) show ?thesis by (auto simp: heap_defs)
  qed (use that in \<open>simp add: heap_defs\<close>)
  moreover have "r < next_ref ?h \<and> entity_id (txs_at ?h r) = i" if "im_txs ?u i = Some r" for i r
    using that im_okD(2) [OF assms(1), of i r] by (auto simp: heap_defs split: if_splits)
  moreover have "r < next_ref ?h \<and> entity_id (accounts_at ?h r) = i" if "im_accounts ?u i = Some r" for i r
    using that im_okD(1) [OF assms(1), of i r] by (auto simp: heap_defs)
  ultimately show ?thesis by (simp add: im_ok_def)
qed

lemma saved_lookup:
  assumes "im_ok (h, u)" and "im_txs u (entity_id tx) = None"
  shows "lookup_key (saved r tx (loaded r1 r2 u)) k =
    (if k = idempotency_key tx then Some r else lookup_key u k)"
proof (cases "im_by_key u k")
  case (Some i)
  then obtain r' where "im_txs u i = Some r'" using im_okD(3) [OF assms(1)] by blast
  with assms(2) have "i \<noteq> entity_id tx" by auto
  with Some show ?thesis by (simp add: lookup_key_def heap_defs)
qed (simp add: lookup_key_def heap_defs)

lemma lookup_key_less: "im_ok (h, u) \<Longrightarrow> lookup_key u k = Some r \<Longrightarrow> r < next_ref h"
  by (auto simp: lookup_key_def bind_eq_Some_conv dest: im_okD(2))

text \<open>Rewriting a stored account object, with the same id, changes that account only.\<close>

lemma with_account_im_ok:
  assumes "im_ok (h, u)" and "entity_id a = entity_id (accounts_at h r)"
  shows "im_ok (with_account r a h, u)"
  using assms by (auto simp: im_ok_def with_account_def)

lemma with_account_stored:
  assumes "im_ok (h, u)" and "im_accounts u i = Some r"
  shows "im_stored (with_account r a h, u) = (im_stored (h, u))(i \<mapsto> a)"
proof
  fix j
  show "im_stored (with_account r a h, u) j = ((im_stored (h, u))(i \<mapsto> a)) j"
    using assms im_okD(1) [OF assms(1)]
    by (cases "im_accounts u j") (auto simp: im_stored_def with_account_def)
qed

text \<open>The same steps on the whole world, with what they mean for the bank.\<close>

definition save_step :: "transaction \<Rightarrow> nat \<Rightarrow> nat \<Rightarrow> im_world \<Rightarrow> im_world" where
  "save_step tx r1 r2 w = w\<lparr>w_heap := with_tx tx (w_heap w),
     w_uow := saved (next_ref (w_heap w)) tx (loaded r1 r2 (w_uow w))\<rparr>"

definition account_step_at :: "nat \<Rightarrow> account \<Rightarrow> im_world \<Rightarrow> im_world" where
  "account_step_at r a w = w\<lparr>w_heap := with_account r a (w_heap w)\<rparr>"

definition publish_step :: "nat \<Rightarrow> nat \<Rightarrow> nat \<Rightarrow> im_world \<Rightarrow> im_world" where
  "publish_step r1 r2 t w = w\<lparr>w_heap := cleared r1 r2 t (w_heap w),
       w_bus := w_bus w @ domain_events (accounts_at (w_heap w) r1) @
         domain_events (accounts_at (w_heap w) r2) @ domain_events (txs_at (w_heap w) t)\<rparr>"

lemma save_step_ok:
  assumes "bank_ok w" and "im_txs (w_uow w) (entity_id tx) = None"
  shows "bank_ok (save_step tx r1 r2 w)"
    and "abs_bank (save_step tx r1 r2 w) =
      bank_record (idempotency_key tx) (abs_dto (transaction_dto_of tx)) (abs_bank w)"
proof -
  let ?h = "w_heap w" and ?u = "w_uow w"
  have ok: "im_ok (?h, ?u)" using assms(1) by (simp add: bank_ok_def)
  have st: "im_stored (with_tx tx ?h, saved r tx (loaded r1 r2 ?u)) = im_stored (?h, ?u)" for r
    by (simp add: im_stored_def heap_defs)
  show "bank_ok (save_step tx r1 r2 w)"
    using assms saved_im_ok [OF ok assms(2)] by (simp add: bank_ok_def save_step_def st)
  have "map_option (\<lambda>r. abs_dto (transaction_dto_of (txs_at (with_tx tx ?h) r))) (lookup_key ?u k) =
      map_option (\<lambda>r. abs_dto (transaction_dto_of (txs_at ?h r))) (lookup_key ?u k)" for k
    using lookup_key_less [OF ok, of k] by (cases "lookup_key ?u k") (auto simp: with_tx_def)
  then show "abs_bank (save_step tx r1 r2 w) =
      bank_record (idempotency_key tx) (abs_dto (transaction_dto_of tx)) (abs_bank w)"
    by (simp add: bank_record_def abs_bank_def save_step_def st saved_lookup [OF ok assms(2)] fun_eq_iff)
      (simp add: with_tx_def)
qed

lemma account_step_at_ok:
  assumes "bank_ok w" and "im_accounts (w_uow w) i = Some r" and "entity_id a = i" and "account_ok a"
  shows "bank_ok (account_step_at r a w)"
    and "abs_bank (account_step_at r a w) = bank_set i (abs_account a) (abs_bank w)"
proof -
  let ?h = "w_heap w" and ?u = "w_uow w"
  have ok: "im_ok (?h, ?u)" using assms(1) by (simp add: bank_ok_def)
  have "entity_id a = entity_id (accounts_at ?h r)" using im_okD(1) [OF ok assms(2)] assms(3) by simp
  note ok' = with_account_im_ok [OF ok this] and st = with_account_stored [OF ok assms(2)]
  show "bank_ok (account_step_at r a w)"
    using assms ok' by (auto simp: bank_ok_def account_step_at_def st split: if_splits)
  show "abs_bank (account_step_at r a w) = bank_set i (abs_account a) (abs_bank w)"
    by (simp add: bank_set_def abs_bank_def account_step_at_def st fun_eq_iff) (simp add: with_account_def)
qed

lemma publish_step_ok [simp]:
  "bank_ok (publish_step r1 r2 t w) = bank_ok w"
  "abs_bank (publish_step r1 r2 t w) = abs_bank w"
proof -
  have a: "account_ok (a\<lparr>domain_events := []\<rparr>) = account_ok a"
    "abs_account (a\<lparr>domain_events := []\<rparr>) = abs_account a" for a
    by (simp_all add: account_ok_def abs_account_def account_currency_def)
  have fields: "next_ref (cleared r1 r2 t h) = next_ref h"
    "entity_id (accounts_at (cleared r1 r2 t h) r) = entity_id (accounts_at h r)"
    "entity_id (txs_at (cleared r1 r2 t h) r) = entity_id (txs_at h r)"
    "idempotency_key (txs_at (cleared r1 r2 t h) r) = idempotency_key (txs_at h r)"
    "transaction_dto_of (txs_at (cleared r1 r2 t h) r) = transaction_dto_of (txs_at h r)" for h r
    by (simp_all add: cleared_def transaction_dto_of_def)
  have ok: "im_ok (cleared r1 r2 t h, u) = im_ok (h, u)" for h u
    by (simp only: im_ok_def split fields)
  have st: "im_stored (cleared r1 r2 t h, u) i = (case im_stored (h, u) i of None \<Rightarrow> None
      | Some x \<Rightarrow> if im_accounts u i = Some r1 \<or> im_accounts u i = Some r2
          then Some (x\<lparr>domain_events := []\<rparr>) else Some x)" for h u i
    by (auto simp: im_stored_def cleared_def split: option.splits)
  show "bank_ok (publish_step r1 r2 t w) = bank_ok w"
    by (simp add: bank_ok_def publish_step_def ok st) (auto simp: a split: option.splits if_splits; metis a(1))
  show "abs_bank (publish_step r1 r2 t w) = abs_bank w"
    by (simp add: abs_bank_def publish_step_def st fields fun_eq_iff) (simp add: a split: option.splits)
qed

section \<open>One equation per outcome\<close>

text \<open>The two accounts of a command and the transaction that \<open>initiate\<close> makes of it.\<close>

definition transfer_ready ::
  "transfer_command \<Rightarrow> (nat \<Rightarrow> readings) \<Rightarrow> im_world \<Rightarrow> money \<Rightarrow> nat \<Rightarrow> nat \<Rightarrow> transaction \<Rightarrow> bool" where
  "transfer_ready cmd \<omega> w amt r1 r2 tx \<longleftrightarrow>
     lookup_key (w_uow w) (tc_idempotency_key cmd) = None \<and>
     (\<exists>cur. parse_currency (tc_currency cmd) = Inr cur \<and> money_new (tc_amount cmd) cur = Inr amt) \<and>
     locks_free (tc_from_account_id cmd) (tc_to_account_id cmd) w \<and>
     im_accounts (w_uow w) (tc_from_account_id cmd) = Some r1 \<and>
     im_accounts (w_uow w) (tc_to_account_id cmd) = Some r2 \<and>
     im_ok (w_heap w, w_uow w) \<and>
     tx_initiate (tc_from_account_id cmd) (tc_to_account_id cmd) amt (tc_idempotency_key cmd) TRANSFER (\<omega> 0)
       = Inr tx"

lemma transfer_ready_refs: "transfer_ready cmd \<omega> w amt r1 r2 tx \<Longrightarrow> r1 \<noteq> r2"
  using im_okD(1) [of "w_heap w" "w_uow w" "tc_from_account_id cmd" r1]
    im_okD(1) [of "w_heap w" "w_uow w" "tc_to_account_id cmd" r2]
  by (auto simp: transfer_ready_def locks_free_def)

lemma transfer_ready_call:
  assumes "transfer_ready cmd \<omega> w amt r1 r2 tx"
  shows "transfer_initiate in_memory_uow in_memory_lock B cmd \<omega> w =
    (case in_uow (transfer_in_uow in_memory_uow (tc_from_account_id cmd) (tc_to_account_id cmd) amt
         (tc_idempotency_key cmd) \<omega>) (reset_uow w) of
       (Inl e, v) \<Rightarrow> (Inl e, v)
     | (Inr (s, r, tx), v) \<Rightarrow> thenP (transfer_publish B s r tx)
         (bindP (in_uow (read_tx tx)) (\<lambda>t. returnP (transaction_dto_of t))) v)"
  using assms by (auto simp: transfer_ready_def transfer_initiate_fresh intro: transfer_new_in_memory)

lemmas ready_in_uow =
  transfer_in_uow_debit_fails [where h = "w_heap w" and u = "w_uow (reset_uow w)"]
  transfer_in_uow_credit_fails [where h = "w_heap w" and u = "w_uow (reset_uow w)"]
  transfer_in_uow_succeeds [where h = "w_heap w" and u = "w_uow (reset_uow w)"]
  for w

lemma ready_accounts:
  assumes "transfer_ready cmd \<omega> w amt r1 r2 tx"
  shows "in_uow_ready (tc_from_account_id cmd) (tc_to_account_id cmd) amt (tc_idempotency_key cmd) \<omega>
    (w_uow (reset_uow w)) r1 r2 tx"
  using assms transfer_ready_refs [OF assms] by (auto simp: transfer_ready_def in_uow_ready_def reset_uow_def)

lemma transfer_debit_fails:
  assumes ready: "transfer_ready cmd \<omega> w amt r1 r2 tx"
    and "debit amt (entity_id tx) (\<omega> 2) (accounts_at (w_heap w) r1) = Inl e"
  shows "transfer_initiate in_memory_uow in_memory_lock in_memory_bus cmd \<omega> w =
    (Inl e, save_step (failed_tx \<omega> e tx) r1 r2 (reset_uow w))"
  unfolding transfer_ready_call [OF ready] in_uow_def
  using ready_in_uow(1) [OF ready_accounts [OF ready] assms(2)] by (simp add: save_step_def reset_uow_def)

lemma transfer_credit_fails:
  assumes ready: "transfer_ready cmd \<omega> w amt r1 r2 tx"
    and "debit amt (entity_id tx) (\<omega> 2) (accounts_at (w_heap w) r1) = Inr a"
    and "credit amt (entity_id tx) (\<omega> 3) (accounts_at (w_heap w) r2) = Inl e"
  shows "transfer_initiate in_memory_uow in_memory_lock in_memory_bus cmd \<omega> w =
    (Inl e, account_step_at r1 a (save_step (failed_tx \<omega> e tx) r1 r2 (reset_uow w)))"
  unfolding transfer_ready_call [OF ready] in_uow_def
  using ready_in_uow(2) [OF ready_accounts [OF ready] assms(2,3)] by (simp add: save_step_def account_step_at_def reset_uow_def)

lemma transfer_succeeds:
  assumes ready: "transfer_ready cmd \<omega> w amt r1 r2 tx"
    and "debit amt (entity_id tx) (\<omega> 2) (accounts_at (w_heap w) r1) = Inr a"
    and "credit amt (entity_id tx) (\<omega> 3) (accounts_at (w_heap w) r2) = Inr b"
  shows "transfer_initiate in_memory_uow in_memory_lock in_memory_bus cmd \<omega> w =
    (Inr (transaction_dto_of (completed_tx \<omega> tx)),
     publish_step r1 r2 (next_ref (w_heap w))
       (account_step_at r2 b (account_step_at r1 a (save_step (completed_tx \<omega> tx) r1 r2 (reset_uow w)))))"
proof -
  let ?v = "account_step_at r2 b (account_step_at r1 a (save_step (completed_tx \<omega> tx) r1 r2 (reset_uow w)))"
  have "in_uow (transfer_in_uow in_memory_uow (tc_from_account_id cmd) (tc_to_account_id cmd) amt
         (tc_idempotency_key cmd) \<omega>) (reset_uow w) = (Inr (r1, r2, next_ref (w_heap w)), ?v)"
    using ready_in_uow(3) [OF ready_accounts [OF ready] assms(2,3)]
    by (simp add: in_uow_def save_step_def account_step_at_def reset_uow_def)
  moreover have "transfer_publish in_memory_bus r1 r2 (next_ref (w_heap w)) ?v =
      (Inr (), publish_step r1 r2 (next_ref (w_heap w)) ?v)"
    unfolding publish_step_def by (rule transfer_publish_in_memory [OF transfer_ready_refs [OF ready]])
  moreover have "txs_at (w_heap (publish_step r1 r2 (next_ref (w_heap w)) ?v)) (next_ref (w_heap w)) =
      (completed_tx \<omega> tx)\<lparr>domain_events := []\<rparr>"
    by (simp add: publish_step_def cleared_def account_step_at_def save_step_def heap_defs reset_uow_def)
  ultimately show ?thesis
    unfolding transfer_ready_call [OF ready]
    by (simp add: thenP_apply bindP_apply in_uow_read_tx returnP_apply) (simp add: transaction_dto_of_def)
qed

section \<open>The service implements the abstract bank\<close>

text \<open>Refusals before the transaction exists leave no trace but the list of loaded objects.\<close>

definition seen_step :: "nat list \<Rightarrow> im_world \<Rightarrow> im_world" where
  "seen_step rs w = w\<lparr>w_uow := (w_uow w)\<lparr>im_accounts_seen := im_accounts_seen (w_uow w) @ rs\<rparr>\<rparr>"

lemma seen_step_ok [simp]:
  "bank_ok (seen_step rs w) = bank_ok w" "abs_bank (seen_step rs w) = abs_bank w"
  by (simp_all add: bank_ok_def abs_bank_def seen_step_def lookup_key_def)

lemma transfer_in_uow_refused:
  "im_accounts (w_uow w) f = None \<Longrightarrow>
     in_uow (transfer_in_uow in_memory_uow f t amt key \<omega>) w = (Inl (ResourceNotFoundError ''Account'' f), seen_step [] w)"
  "im_accounts (w_uow w) f = Some r1 \<Longrightarrow> im_accounts (w_uow w) t = None \<Longrightarrow>
     in_uow (transfer_in_uow in_memory_uow f t amt key \<omega>) w =
       (Inl (ResourceNotFoundError ''Account'' t), seen_step [r1] w)"
  "im_accounts (w_uow w) f = Some r1 \<Longrightarrow> im_accounts (w_uow w) t = Some r2 \<Longrightarrow> is_zero amt \<Longrightarrow>
     in_uow (transfer_in_uow in_memory_uow f t amt key \<omega>) w =
       (Inl (InvalidTransferAmountError amt), seen_step [r1, r2] w)"
  by (simp_all add: in_uow_def transfer_in_uow_def load_account_in_memory bindP_apply liftP_apply
      tx_initiate_def seen_step_def)

lemma transfer_refused:
  assumes "lookup_key (w_uow w) (tc_idempotency_key cmd) = None"
    and "parse_currency (tc_currency cmd) = Inr cur" and "money_new (tc_amount cmd) cur = Inr amt"
    and "locks_free (tc_from_account_id cmd) (tc_to_account_id cmd) w"
    and "in_uow (transfer_in_uow in_memory_uow (tc_from_account_id cmd) (tc_to_account_id cmd) amt
         (tc_idempotency_key cmd) \<omega>) (reset_uow w) = (Inl e, v)"
  shows "transfer_initiate in_memory_uow in_memory_lock B cmd \<omega> w = (Inl e, v)"
  unfolding transfer_initiate_fresh [OF assms(1)] transfer_new_in_memory [OF assms(2-4)]
  using assms(5) by simp

lemma abs_failure_account:
  "abs_exn e \<noteq> Unexpected \<Longrightarrow> abs_failure e = Refused (abs_exn e)"
  by (simp add: abs_failure_def abs_exn_def split: exn.splits dec_signal.splits)

lemma ledger_step_expected: "ledger_step x l = Inl y \<Longrightarrow> y \<noteq> Unexpected"
  by (cases x) (auto split: if_splits)

lemma abs_recorded:
  assumes "tx_initiate f t amt key TRANSFER r = Inr tx"
  shows "abs_dto (transaction_dto_of (completed_tx \<omega> tx)) =
      bank_entry f t (money_cents amt) (money_currency amt) COMPLETED"
    and "abs_dto (transaction_dto_of (failed_tx \<omega> e tx)) =
      bank_entry f t (money_cents amt) (money_currency amt) FAILED"
  using tx_initiate_Inr [OF assms]
  by (simp_all add: abs_dto_def transaction_dto_of_def money_cents_def bank_entry_def)

lemma account_step_cases:
  assumes "account_ok a" and "account_op_ok x"
  obtains e where "account_step x a = Inl e" and "ledger_step (abs_op x) (abs_account a) = Inl (abs_exn e)"
      and "abs_failure e = Refused (abs_exn e)"
  | b where "account_step x a = Inr b" and "ledger_step (abs_op x) (abs_account a) = Inr (abs_account b)"
      and "account_ok b" and "entity_id b = entity_id a"
proof (cases "account_step x a")
  case (Inl e)
  have ls: "ledger_step (abs_op x) (abs_account a) = Inl (abs_exn e)"
    using account_step_refines [OF assms] Inl by simp
  show thesis by (rule that(1) [OF Inl ls abs_failure_account [OF ledger_step_expected [OF ls]]])
next
  case (Inr b)
  have ls: "ledger_step (abs_op x) (abs_account a) = Inr (abs_account b)"
    using account_step_refines [OF assms] Inr by simp
  have "entity_id b = entity_id a" using account_step_frame [OF Inr] by (simp add: account_frame_def)
  with account_step_ok [OF assms Inr] show thesis by (rule that(2) [OF Inr ls])
qed

text \<open>What the refinement needs of the call: a valid store, a well-formed argument, a fresh id.\<close>

definition call_ok :: "transfer_command \<Rightarrow> (nat \<Rightarrow> readings) \<Rightarrow> im_world \<Rightarrow> money \<Rightarrow> bool" where
  "call_ok cmd \<omega> w amt \<longleftrightarrow>
     bank_ok w \<and> im_txs (w_uow w) (rd_uuid (\<omega> 0) 1) = None \<and>
     (\<exists>cur. parse_currency (tc_currency cmd) = Inr cur \<and> money_new (tc_amount cmd) cur = Inr amt)"

definition bank_call :: "transfer_command \<Rightarrow> money \<Rightarrow> bank \<Rightarrow> (bank_failure + transfer_entry) \<times> bank" where
  "bank_call cmd amt = bank_transfer True (tc_from_account_id cmd) (tc_to_account_id cmd) (money_cents amt)
     (money_currency amt) (tc_idempotency_key cmd)"

lemma abs_bank_fields:
  "bk_transfers (abs_bank w) k = map_option (\<lambda>r. abs_dto (transaction_dto_of (txs_at (w_heap w) r)))
     (lookup_key (w_uow w) k)"
  "bk_accounts (abs_bank w) i = map_option (\<lambda>r. abs_account (accounts_at (w_heap w) r)) (im_accounts (w_uow w) i)"
  "bk_busy (abs_bank w) i = (uuid_str i \<in> w_lock w)"
  by (simp_all add: abs_bank_def im_stored_def map_option.compositionality comp_def)

lemma bank_call_ready:
  assumes ready: "transfer_ready cmd \<omega> w amt r1 r2 tx" and "money_ok amt"
  shows "bank_call cmd amt (abs_bank w) =
     (let f = tc_from_account_id cmd; t = tc_to_account_id cmd; key = tc_idempotency_key cmd;
          n = money_cents amt; cur = money_currency amt
      in case ledger_step (LDebit n cur) (abs_account (accounts_at (w_heap w) r1)) of
          Inl x \<Rightarrow> (Inl (Refused x), bank_record key (bank_entry f t n cur FAILED) (abs_bank w))
        | Inr s' \<Rightarrow> (case ledger_step (LCredit n cur) (abs_account (accounts_at (w_heap w) r2)) of
            Inl x \<Rightarrow> (Inl (Refused x), bank_set f s' (bank_record key (bank_entry f t n cur FAILED) (abs_bank w)))
          | Inr r' \<Rightarrow> (Inr (bank_entry f t n cur COMPLETED),
              bank_set t r' (bank_set f s' (bank_record key (bank_entry f t n cur COMPLETED) (abs_bank w))))))"
proof -
  have acc: "lookup_key (w_uow w) (tc_idempotency_key cmd) = None"
    "locks_free (tc_from_account_id cmd) (tc_to_account_id cmd) w"
    "im_accounts (w_uow w) (tc_from_account_id cmd) = Some r1"
    "im_accounts (w_uow w) (tc_to_account_id cmd) = Some r2"
    "tx_initiate (tc_from_account_id cmd) (tc_to_account_id cmd) amt (tc_idempotency_key cmd) TRANSFER (\<omega> 0)
       = Inr tx"
    using ready by (auto simp: transfer_ready_def)
  have "money_cents amt \<noteq> 0" using tx_initiate_Inr(11) [OF acc(5)] assms(2) by (simp add: is_zero_iff)
  with acc show ?thesis unfolding bank_call_def bank_transfer_def
    by (simp add: abs_bank_fields locks_free_def Let_def del: ledger_step.simps split: sum.splits)
qed

text \<open>The call has two loaded accounts and a new transaction: three outcomes.\<close>

lemma ready_refines:
  assumes ready: "transfer_ready cmd \<omega> w amt r1 r2 tx" and call: "call_ok cmd \<omega> w amt"
    and run: "transfer_initiate in_memory_uow in_memory_lock in_memory_bus cmd \<omega> w = (x, w')"
  shows "abs_outcome (x, w') = bank_call cmd amt (abs_bank w) \<and> bank_ok w'"
proof -
  let ?f = "tc_from_account_id cmd" and ?t = "tc_to_account_id cmd"
  let ?s = "accounts_at (w_heap w) r1" and ?r = "accounts_at (w_heap w) r2"
  note acc = ready [unfolded transfer_ready_def]
  have tx: "tx_initiate ?f ?t amt (tc_idempotency_key cmd) TRANSFER (\<omega> 0) = Inr tx" using acc by blast
  note tx_fields = tx_initiate_Inr [OF tx]
  have ok: "bank_ok w" and fresh: "im_txs (w_uow w) (entity_id tx) = None"
    using call tx_fields(6) by (auto simp: call_ok_def)
  have amt: "money_ok amt" using acc money_new_ok by blast
  have ids: "entity_id ?s = ?f" "entity_id ?r = ?t"
    using acc im_okD(1) [of "w_heap w" "w_uow w"] by auto
  have s_ok: "account_ok ?s" and r_ok: "account_ok ?r"
    using ok acc by (auto simp: bank_ok_def im_stored_def)
  note spec = bank_call_ready [OF ready amt, unfolded Let_def]
  have stepped: "bank_ok (save_step u r1 r2 (reset_uow w))"
    "abs_bank (save_step u r1 r2 (reset_uow w)) =
      bank_record (idempotency_key u) (abs_dto (transaction_dto_of u)) (abs_bank w)"
    "im_accounts (w_uow (save_step u r1 r2 (reset_uow w))) = im_accounts (w_uow w)"
    if "entity_id u = entity_id tx" for u
  proof -
    have "im_txs (w_uow (reset_uow w)) (entity_id u) = None" using fresh that by (simp add: reset_uow_def)
    from save_step_ok [OF _ this, of r1 r2] ok
    show "bank_ok (save_step u r1 r2 (reset_uow w))" "abs_bank (save_step u r1 r2 (reset_uow w)) =
      bank_record (idempotency_key u) (abs_dto (transaction_dto_of u)) (abs_bank w)" by simp_all
    show "im_accounts (w_uow (save_step u r1 r2 (reset_uow w))) = im_accounts (w_uow w)"
      by (simp add: reset_uow_def save_step_def heap_defs)
  qed
  note finish = abs_outcome_def spec abs_recorded [OF tx] tx_fields(5)
  have moved: "bank_ok (account_step_at r1 a (save_step u r1 r2 (reset_uow w)))"
    "abs_bank (account_step_at r1 a (save_step u r1 r2 (reset_uow w))) =
      bank_set ?f (abs_account a) (abs_bank (save_step u r1 r2 (reset_uow w)))"
    if "entity_id u = entity_id tx" "account_ok a" "entity_id a = ?f" for u a
    using account_step_at_ok [of "save_step u r1 r2 (reset_uow w)" ?f r1 a] stepped [OF that(1)] that acc by auto
  show ?thesis
  proof (rule account_step_cases [OF s_ok, of "Debit amt (entity_id tx) (\<omega> 2)"])
    fix e
    assume "account_step (Debit amt (entity_id tx) (\<omega> 2)) ?s = Inl e"
      "ledger_step (abs_op (Debit amt (entity_id tx) (\<omega> 2))) (abs_account ?s) = Inl (abs_exn e)"
      "abs_failure e = Refused (abs_exn e)"
    with run stepped [of "failed_tx \<omega> e tx"] show ?thesis
      by (auto simp: transfer_debit_fails [OF ready] finish simp del: ledger_step.simps)
  next
    fix a
    assume d: "account_step (Debit amt (entity_id tx) (\<omega> 2)) ?s = Inr a"
      "ledger_step (abs_op (Debit amt (entity_id tx) (\<omega> 2))) (abs_account ?s) = Inr (abs_account a)"
      "account_ok a" "entity_id a = entity_id ?s"
    show ?thesis
    proof (rule account_step_cases [OF r_ok, of "Credit amt (entity_id tx) (\<omega> 3)"])
      fix e
      assume "account_step (Credit amt (entity_id tx) (\<omega> 3)) ?r = Inl e"
        "ledger_step (abs_op (Credit amt (entity_id tx) (\<omega> 3))) (abs_account ?r) = Inl (abs_exn e)"
        "abs_failure e = Refused (abs_exn e)"
      with d run stepped [of "failed_tx \<omega> e tx"] moved [of "failed_tx \<omega> e tx" a] ids show ?thesis
        by (auto simp: transfer_credit_fails [OF ready] finish simp del: ledger_step.simps)
    next
      fix b
      assume c: "account_step (Credit amt (entity_id tx) (\<omega> 3)) ?r = Inr b"
        "ledger_step (abs_op (Credit amt (entity_id tx) (\<omega> 3))) (abs_account ?r) = Inr (abs_account b)"
        "account_ok b" "entity_id b = entity_id ?r"
      let ?v = "account_step_at r1 a (save_step (completed_tx \<omega> tx) r1 r2 (reset_uow w))"
      have "im_accounts (w_uow ?v) ?t = Some r2"
        using stepped(3) [of "completed_tx \<omega> tx"] acc by (simp add: account_step_at_def)
      with moved [of "completed_tx \<omega> tx" a] account_step_at_ok [of ?v ?t r2 b] c d ids
      have "bank_ok (account_step_at r2 b ?v)"
        "abs_bank (account_step_at r2 b ?v) = bank_set ?t (abs_account b) (abs_bank ?v)" by auto
      with c d run stepped [of "completed_tx \<omega> tx"] moved [of "completed_tx \<omega> tx" a] ids show ?thesis
        by (auto simp: transfer_succeeds [OF ready] finish simp del: ledger_step.simps)
    qed (use amt in simp)
  qed (use amt in simp)
qed

lemma refused_refines:
  assumes call: "call_ok cmd \<omega> w amt"
    and key: "lookup_key (w_uow w) (tc_idempotency_key cmd) = None"
    and free: "locks_free (tc_from_account_id cmd) (tc_to_account_id cmd) w"
    and r: "in_uow (transfer_in_uow in_memory_uow (tc_from_account_id cmd) (tc_to_account_id cmd) amt
         (tc_idempotency_key cmd) \<omega>) (reset_uow w) = (Inl e, seen_step rs (reset_uow w))"
    and spec: "bank_call cmd amt (abs_bank w) = (Inl (abs_failure e), abs_bank w)"
  shows "abs_outcome (transfer_initiate in_memory_uow in_memory_lock in_memory_bus cmd \<omega> w) =
      bank_call cmd amt (abs_bank w) \<and>
    bank_ok (snd (transfer_initiate in_memory_uow in_memory_lock in_memory_bus cmd \<omega> w))"
proof -
  obtain cur where "parse_currency (tc_currency cmd) = Inr cur" "money_new (tc_amount cmd) cur = Inr amt"
    using call by (auto simp: call_ok_def)
  from transfer_refused [OF key this free r] spec call show ?thesis
    by (simp add: abs_outcome_def call_ok_def)
qed

lemma free_refines:
  assumes call: "call_ok cmd \<omega> w amt"
    and free: "lookup_key (w_uow w) (tc_idempotency_key cmd) = None"
      "locks_free (tc_from_account_id cmd) (tc_to_account_id cmd) w"
  shows "abs_outcome (transfer_initiate in_memory_uow in_memory_lock in_memory_bus cmd \<omega> w) =
      bank_call cmd amt (abs_bank w) \<and>
    bank_ok (snd (transfer_initiate in_memory_uow in_memory_lock in_memory_bus cmd \<omega> w))"
proof -
  let ?f = "tc_from_account_id cmd" and ?t = "tc_to_account_id cmd"
  have acc: "im_accounts (w_uow (reset_uow w)) = im_accounts (w_uow w)" by (simp add: reset_uow_def)
  have amt: "money_ok amt" using call money_new_ok by (auto simp: call_ok_def)
  note refused = refused_refines [OF call free]
  note in_uow = transfer_in_uow_refused [of "reset_uow w", unfolded acc]
  note spec = bank_call_def bank_transfer_def abs_bank_fields locks_free_def abs_failure_def
  consider (no_sender) "im_accounts (w_uow w) ?f = None"
    | (no_receiver) r1 where "im_accounts (w_uow w) ?f = Some r1" "im_accounts (w_uow w) ?t = None"
    | (zero) r1 r2 where "im_accounts (w_uow w) ?f = Some r1" "im_accounts (w_uow w) ?t = Some r2" "is_zero amt"
    | (found) r1 r2 where "im_accounts (w_uow w) ?f = Some r1" "im_accounts (w_uow w) ?t = Some r2" "\<not> is_zero amt"
    by fastforce
  then show ?thesis
  proof cases
    case no_sender
    show ?thesis
      by (rule refused [OF in_uow(1) [OF no_sender]]) (use free no_sender in \<open>simp add: spec\<close>)
  next
    case no_receiver
    show ?thesis
      by (rule refused [OF in_uow(2) [OF no_receiver]]) (use free no_receiver in \<open>simp add: spec\<close>)
  next
    case zero
    show ?thesis
      by (rule refused [OF in_uow(3) [OF zero]]) (use free zero amt in \<open>simp add: spec is_zero_iff\<close>)
  next
    case found
    then obtain tx where "tx_initiate ?f ?t amt (tc_idempotency_key cmd) TRANSFER (\<omega> 0) = Inr tx"
      using free(2) by (auto simp: tx_initiate_def locks_free_def Let_def)
    with free found call have "transfer_ready cmd \<omega> w amt r1 r2 tx"
      by (auto simp: transfer_ready_def call_ok_def bank_ok_def)
    with call show ?thesis
      by (cases "transfer_initiate in_memory_uow in_memory_lock in_memory_bus cmd \<omega> w")
        (simp add: ready_refines)
  qed
qed

lemma transfer_refines:
  assumes call: "call_ok cmd \<omega> w amt"
  shows "abs_outcome (transfer_initiate in_memory_uow in_memory_lock in_memory_bus cmd \<omega> w) =
      bank_call cmd amt (abs_bank w) \<and>
    bank_ok (snd (transfer_initiate in_memory_uow in_memory_lock in_memory_bus cmd \<omega> w))"
proof -
  let ?f = "tc_from_account_id cmd" and ?t = "tc_to_account_id cmd" and ?key = "tc_idempotency_key cmd"
  note spec = bank_call_def bank_transfer_def abs_bank_fields
  consider (known) r where "lookup_key (w_uow w) ?key = Some r"
    | (busy) "lookup_key (w_uow w) ?key = None" "\<not> locks_free ?f ?t w"
    | (free) "lookup_key (w_uow w) ?key = None" "locks_free ?f ?t w"
    by (cases "lookup_key (w_uow w) ?key") auto
  then show ?thesis
  proof cases
    case known
    then show ?thesis
      using call by (simp add: transfer_initiate_known abs_outcome_def spec call_ok_def)
  next
    case busy
    obtain cur where arg: "parse_currency (tc_currency cmd) = Inr cur" "money_new (tc_amount cmd) cur = Inr amt"
      using call by (auto simp: call_ok_def)
    from busy have "\<not> locks_free ?f ?t (reset_uow w)" by (simp add: locks_free_def reset_uow_def)
    from transfer_new_busy [OF arg this] obtain k
      where "transfer_new in_memory_uow in_memory_lock in_memory_bus cmd \<omega> (reset_uow w) =
        (Inl (ConcurrencyConflictError k), reset_uow w)" by blast
    with busy call show ?thesis
      by (auto simp: transfer_initiate_fresh abs_outcome_def abs_failure_def spec call_ok_def locks_free_def)
  next
    case free
    with call show ?thesis by (rule free_refines)
  qed
qed

section \<open>What follows for the bank\<close>

definition bank_total :: "account_id set \<Rightarrow> bank \<Rightarrow> int" where
  "bank_total A b = (\<Sum>i\<in>A. case bk_accounts b i of None \<Rightarrow> 0 | Some l \<Rightarrow> l_cents l)"

lemma bank_set_lookup [simp]:
  "bk_accounts (bank_set i l b) = (bk_accounts b)(i \<mapsto> l)"
  "bk_accounts (bank_record k e b) = bk_accounts b"
  "bk_transfers (bank_set i l b) = bk_transfers b"
  "bk_transfers (bank_record k e b) = (bk_transfers b)(k \<mapsto> e)"
  "bk_busy (bank_set i l b) = bk_busy b" "bk_busy (bank_record k e b) = bk_busy b"
  by (simp_all add: bank_set_def bank_record_def)

lemma bank_total_record [simp]: "bank_total A (bank_record k e b) = bank_total A b"
  by (simp add: bank_total_def bank_record_def)

lemma bank_total_set:
  assumes "finite A" and "i \<in> A" and "bk_accounts b i = Some l"
  shows "bank_total A (bank_set i l' b) = bank_total A b - l_cents l + l_cents l'"
proof -
  have "(\<Sum>j\<in>A - {i}. case bk_accounts (bank_set i l' b) j of None \<Rightarrow> 0 | Some l \<Rightarrow> l_cents l) =
      (\<Sum>j\<in>A - {i}. case bk_accounts b j of None \<Rightarrow> 0 | Some l \<Rightarrow> l_cents l)"
    by (rule sum.cong) (auto simp: bank_set_def)
  then show ?thesis
    using assms by (simp add: bank_total_def sum.remove [of A i] bank_set_def)
qed

text \<open>A transfer that is not refused moves the money; a refused one loses what was debited already.\<close>

definition bank_lost :: "account_id \<Rightarrow> account_id \<Rightarrow> int \<Rightarrow> currency \<Rightarrow> bank \<Rightarrow> bool" where
  "bank_lost f t n cur b =
     (case (bk_accounts b f, bk_accounts b t) of
        (Some s, Some r) \<Rightarrow> \<not> isl (ledger_step (LDebit n cur) s) \<and> isl (ledger_step (LCredit n cur) r)
      | _ \<Rightarrow> False)"

lemma bank_transfer_total:
  assumes "finite A" "f \<in> A" "t \<in> A"
  shows "bank_total A (snd (bank_transfer shared f t n cur key b)) =
    bank_total A b - (if isl (fst (bank_transfer shared f t n cur key b)) \<and>
      snd (bank_transfer shared f t n cur key b) \<noteq> b \<and> shared \<and> bank_lost f t n cur b then n else 0)"
proof (cases "bk_transfers b key = None \<and> f \<noteq> t \<and> \<not> bk_busy b f \<and> \<not> bk_busy b t \<and> n \<noteq> 0 \<and>
    bk_accounts b f \<noteq> None \<and> bk_accounts b t \<noteq> None")
  case False
  then show ?thesis
    by (auto simp: bank_transfer_def simp del: ledger_step.simps split: option.splits)
next
  case True
  then obtain s r where sr: "bk_accounts b f = Some s" "bk_accounts b t = Some r" by auto
  have new: "bank_record key e b \<noteq> b" "bank_set i l (bank_record key e b) \<noteq> b" for e i l
    using True bank_set_lookup(3,4) by (metis fun_upd_same option.distinct(1))+
  show ?thesis
  proof (cases "ledger_step (LDebit n cur) s")
    case (Inl x)
    with True sr show ?thesis
      by (simp add: bank_transfer_def bank_lost_def del: ledger_step.simps)
  next
    case s': (Inr s')
    then have d: "l_cents s' = l_cents s - n" by (auto split: if_splits)
    show ?thesis
    proof (cases "ledger_step (LCredit n cur) r")
      case (Inl x)
      with True sr s' d new assms show ?thesis
        by (simp add: bank_transfer_def bank_lost_def bank_total_set del: ledger_step.simps)
    next
      case (Inr r')
      then have c: "l_cents r' = l_cents r + n" by (auto split: if_splits)
      let ?b = "bank_set f s' (bank_record key (bank_entry f t n cur COMPLETED) b)"
      have "bk_accounts ?b t = Some r" using True sr by auto
      from bank_total_set [OF assms(1,3) this, of r'] Inr True sr s' d c assms show ?thesis
        by (simp add: bank_transfer_def bank_lost_def bank_total_set del: ledger_step.simps)
    qed
  qed
qed

text \<open>The same key again: the same answer, and nothing changes any more.\<close>

lemma bank_transfer_known:
  "bk_transfers b key = Some e \<Longrightarrow> bank_transfer shared f t n cur key b = (Inr e, b)"
  by (simp add: bank_transfer_def)

lemma bank_transfer_recorded:
  assumes "bank_transfer shared f t n cur key b = (Inr e, b')"
  shows "bk_transfers b' key = Some e"
  using assms
  by (auto simp: bank_transfer_def simp del: ledger_step.simps split: option.splits sum.splits if_splits)

lemma bank_transfer_keeps:
  assumes "bk_transfers b k = Some e"
  shows "bk_transfers (snd (bank_transfer shared f t n cur key b)) k = Some e"
  using assms
  by (auto simp: bank_transfer_def simp del: ledger_step.simps split: option.splits sum.splits)

lemma bank_transfer_others:
  assumes "i \<noteq> f" and "i \<noteq> t"
  shows "bk_accounts (snd (bank_transfer shared f t n cur key b)) i = bk_accounts b i"
  using assms by (simp add: bank_transfer_def del: ledger_step.simps split: option.splits sum.splits)

section \<open>What a call leaves in the store\<close>

lemma bank_transfer_Inr_cases:
  assumes "bank_transfer shared f t n cur key b = (Inr e, b')" and "bk_transfers b key = None"
  shows "f \<noteq> t" "\<not> bk_busy b f" "\<not> bk_busy b t" "bk_accounts b f \<noteq> None" "bk_accounts b t \<noteq> None" "n \<noteq> 0"
  using assms by (auto simp: bank_transfer_def simp del: ledger_step.simps split: option.splits if_splits)

text \<open>A call on a fresh key that returns has made its way through every guard.\<close>

lemma fresh_return_ready:
  assumes call: "call_ok cmd \<omega> w amt" and key: "lookup_key (w_uow w) (tc_idempotency_key cmd) = None"
    and run: "transfer_initiate in_memory_uow in_memory_lock in_memory_bus cmd \<omega> w = (Inr dto, w')"
  obtains r1 r2 tx where "transfer_ready cmd \<omega> w amt r1 r2 tx"
proof -
  let ?f = "tc_from_account_id cmd" and ?t = "tc_to_account_id cmd"
  have spec: "bank_call cmd amt (abs_bank w) = (Inr (abs_dto dto), abs_bank w')"
    using transfer_refines [OF call] run by (simp add: abs_outcome_def)
  note c = bank_transfer_Inr_cases [OF spec [unfolded bank_call_def], unfolded abs_bank_fields key]
  from c obtain r1 r2 where acc: "im_accounts (w_uow w) ?f = Some r1" "im_accounts (w_uow w) ?t = Some r2"
    by auto
  have "money_ok amt" using call money_new_ok by (auto simp: call_ok_def)
  then have "\<not> is_zero amt" using c by (simp add: is_zero_iff)
  then obtain tx where "tx_initiate ?f ?t amt (tc_idempotency_key cmd) TRANSFER (\<omega> 0) = Inr tx"
    using c by (auto simp: tx_initiate_def Let_def)
  with c acc key call have "transfer_ready cmd \<omega> w amt r1 r2 tx"
    by (auto simp: transfer_ready_def locks_free_def call_ok_def bank_ok_def)
  then show thesis by (rule that)
qed

lemma ready_return:
  assumes ready: "transfer_ready cmd \<omega> w amt r1 r2 tx"
    and run: "transfer_initiate in_memory_uow in_memory_lock in_memory_bus cmd \<omega> w = (Inr dto, w')"
  obtains a b where "debit amt (entity_id tx) (\<omega> 2) (accounts_at (w_heap w) r1) = Inr a"
    and "credit amt (entity_id tx) (\<omega> 3) (accounts_at (w_heap w) r2) = Inr b"
    and "dto = transaction_dto_of (completed_tx \<omega> tx)"
    and "w' = publish_step r1 r2 (next_ref (w_heap w))
       (account_step_at r2 b (account_step_at r1 a (save_step (completed_tx \<omega> tx) r1 r2 (reset_uow w))))"
proof (cases "debit amt (entity_id tx) (\<omega> 2) (accounts_at (w_heap w) r1)")
  case (Inl e)
  with transfer_debit_fails [OF ready] run show thesis by simp
next
  case a: (Inr a)
  show thesis
  proof (cases "credit amt (entity_id tx) (\<omega> 3) (accounts_at (w_heap w) r2)")
    case (Inl e)
    with transfer_credit_fails [OF ready a] run show thesis by simp
  next
    case (Inr b)
    from transfer_succeeds [OF ready a Inr] run show thesis by (intro that [OF a Inr]) simp_all
  qed
qed

text \<open>The transfer that a call saved is what its key leads to afterwards.\<close>

lemma saved_key:
  assumes "w = account_step_at r2 b (account_step_at r1 a (save_step tx r1 r2 (reset_uow v)))
    \<or> w = account_step_at r1 a (save_step tx r1 r2 (reset_uow v)) \<or> w = save_step tx r1 r2 (reset_uow v)"
  shows "lookup_key (w_uow w) (idempotency_key tx) = Some (next_ref (w_heap v))"
    and "txs_at (w_heap w) (next_ref (w_heap v)) = tx"
  using assms by (auto simp: account_step_at_def save_step_def heap_defs reset_uow_def lookup_key_def)

lemma return_stored:
  assumes call: "call_ok cmd \<omega> w amt"
    and run: "transfer_initiate in_memory_uow in_memory_lock in_memory_bus cmd \<omega> w = (Inr dto, w')"
  shows "\<exists>r. lookup_key (w_uow w') (tc_idempotency_key cmd) = Some r \<and>
    transaction_dto_of (txs_at (w_heap w') r) = dto"
proof (cases "lookup_key (w_uow w) (tc_idempotency_key cmd)")
  case (Some r)
  with run show ?thesis by (auto simp: transfer_initiate_known reset_uow_def lookup_key_def)
next
  case None
  obtain r1 r2 tx where ready: "transfer_ready cmd \<omega> w amt r1 r2 tx"
    using fresh_return_ready [OF call None run] .
  obtain a b where dto: "dto = transaction_dto_of (completed_tx \<omega> tx)"
    and w': "w' = publish_step r1 r2 (next_ref (w_heap w))
       (account_step_at r2 b (account_step_at r1 a (save_step (completed_tx \<omega> tx) r1 r2 (reset_uow w))))"
    using ready_return [OF ready run] .
  have k: "idempotency_key tx = tc_idempotency_key cmd"
    using ready tx_initiate_Inr(5) by (auto simp: transfer_ready_def)
  have "lookup_key (w_uow w') (tc_idempotency_key cmd) = Some (next_ref (w_heap w))"
    using saved_key(1) [OF disjI1 [OF refl], of r2 b r1 a "completed_tx \<omega> tx" w]
    by (simp add: w' publish_step_def k)
  moreover have "transaction_dto_of (txs_at (w_heap w') (next_ref (w_heap w))) = dto"
    using saved_key(2) [OF disjI1 [OF refl], of r2 b r1 a "completed_tx \<omega> tx" w]
    by (simp add: w' dto publish_step_def cleared_def) (simp add: transaction_dto_of_def)
  ultimately show ?thesis by blast
qed

section \<open>Sequences of calls\<close>

primrec run_calls :: "(transfer_command \<times> (nat \<Rightarrow> readings)) list \<Rightarrow> im_world \<Rightarrow> im_world" where
  "run_calls [] w = w"
| "run_calls (c # cs) w = run_calls cs
     (snd (transfer_initiate in_memory_uow in_memory_lock in_memory_bus (fst c) (snd c) w))"

primrec calls_ok :: "(transfer_command \<times> (nat \<Rightarrow> readings)) list \<Rightarrow> im_world \<Rightarrow> bool" where
  "calls_ok [] w = True"
| "calls_ok (c # cs) w = ((\<exists>amt. call_ok (fst c) (snd c) w amt) \<and> calls_ok cs
     (snd (transfer_initiate in_memory_uow in_memory_lock in_memory_bus (fst c) (snd c) w)))"

lemma call_step:
  assumes "call_ok cmd \<omega> w amt" and w': "w' = snd (transfer_initiate in_memory_uow in_memory_lock in_memory_bus cmd \<omega> w)"
  shows "bank_ok w'" and "abs_bank w' = snd (bank_call cmd amt (abs_bank w))"
  using transfer_refines [OF assms(1)] unfolding w'
  by (auto simp: abs_outcome_def split_beta snd_conv dest: arg_cong [where f = snd])

lemma bank_call_total_le:
  assumes "finite A" "tc_from_account_id cmd \<in> A" "tc_to_account_id cmd \<in> A" "0 \<le> money_cents amt"
  shows "bank_total A (snd (bank_call cmd amt b)) \<le> bank_total A b"
  unfolding bank_call_def by (simp add: bank_transfer_total [OF assms(1-3)] assms(4))

lemma run_calls_safe:
  assumes "bank_ok w" and "calls_ok cs w"
  shows "bank_ok (run_calls cs w)"
    and "bk_transfers (abs_bank w) k = Some e \<Longrightarrow> bk_transfers (abs_bank (run_calls cs w)) k = Some e"
proof -
  have "bank_ok (run_calls cs w) \<and>
    (bk_transfers (abs_bank w) k = Some e \<longrightarrow> bk_transfers (abs_bank (run_calls cs w)) k = Some e)"
    using assms
  proof (induction cs arbitrary: w)
    case (Cons c cs)
    from Cons.prems(2) obtain amt where call: "call_ok (fst c) (snd c) w amt" by auto
    from Cons.IH Cons.prems call_step [OF call refl] bank_transfer_keeps show ?case
      by (auto simp: bank_call_def)
  qed simp
  then show "bank_ok (run_calls cs w)"
    and "bk_transfers (abs_bank w) k = Some e \<Longrightarrow> bk_transfers (abs_bank (run_calls cs w)) k = Some e"
    by auto
qed

lemma run_calls_total:
  assumes "bank_ok w" and "calls_ok cs w" and "finite A"
    and "\<forall>c \<in> set cs. tc_from_account_id (fst c) \<in> A \<and> tc_to_account_id (fst c) \<in> A"
  shows "bank_total A (abs_bank (run_calls cs w)) \<le> bank_total A (abs_bank w)"
  using assms
proof (induction cs arbitrary: w)
  case (Cons c cs)
  from Cons.prems(2) obtain amt where call: "call_ok (fst c) (snd c) w amt" by auto
  then have "0 \<le> money_cents amt" using money_new_ok money_ok_bounds by (fastforce simp: call_ok_def)
  then have "bank_total A (snd (bank_call (fst c) amt (abs_bank w))) \<le> bank_total A (abs_bank w)"
    using Cons.prems by (intro bank_call_total_le) auto
  with Cons.IH Cons.prems call_step [OF call refl] show ?case by fastforce
qed simp

section \<open>Locks\<close>

text \<open>Whatever happens, with any store and any bus, the locks are those from before the call.\<close>

lemma keeps_in_uow [intro]: "keeps w_lock (in_uow m)" "keeps w_lock (in_bus n)"
  by (auto intro!: keepsI simp: in_uow_def in_bus_def split: prod.splits)

lemma keeps_with_lock [intro]: "keeps w_lock m \<Longrightarrow> keeps w_lock (with_lock in_memory_lock ks m)"
  by (rule keepsI, rule im_locks.with_lock_restores) (rule keepsD)

lemma transfer_publish_locks [intro]: "keeps w_lock (transfer_publish B r1 r2 t)"
  unfolding transfer_publish_def Let_def by (intro keeps_bindP keeps_in_uow) auto

lemma transfer_new_locks [intro]: "keeps w_lock (transfer_new U in_memory_lock B cmd \<omega>)"
  unfolding transfer_new_def by (intro keeps_bindP) (auto split: prod.splits)

lemma transfer_locks: "keeps w_lock (transfer_initiate U in_memory_lock B cmd \<omega>)"
  unfolding transfer_initiate_def transfer_existing_def
  by (intro keeps_bindP) (auto split: option.splits)

end
