(* ===== verification/Samples.thy ===== *)
theory Samples
  imports Transfer_Run
begin

text \<open>
  Concrete values on which the properties' witnesses are evaluated: ids, times, environment
  readings, amounts, accounts, transactions and a small bank with two accounts.
\<close>

definition uid :: "nat \<Rightarrow> uuid" where
  "uid n = UUID (of_nat n)"

definition noon :: datetime where
  "noon = Datetime 2024 5 17 12 0 0 0"

text \<open>Readings number \<open>k\<close>: its UUIDs start at \<open>100 * k\<close>.\<close>

definition reads :: "nat \<Rightarrow> readings" where
  "reads k = \<lparr>rd_uuid = (\<lambda>i. uid (100 * k + i)), rd_now = (\<lambda>_. noon), rd_randint = (\<lambda>i. i mod 10)\<rparr>"

definition eur :: "nat \<Rightarrow> money" where
  "eur n = \<lparr>amount = Fin False n (-2), money_currency = EUR\<rparr>"

definition sample_account :: "nat \<Rightarrow> nat \<Rightarrow> account_status \<Rightarrow> account" where
  "sample_account i n st = account_reconstitute (uid i) (uid 9) ''DE0'' (eur n) st noon noon"

definition sample_tx :: transaction where
  "sample_tx = tx_reconstitute (uid 7) (uid 1) (uid 2) (eur 250) TRANSFER PENDING ''key'' noon noon
     None None None False"

lemma uid_inject: "m < 1000 \<Longrightarrow> n < 1000 \<Longrightarrow> uid m = uid n \<longleftrightarrow> m = n"
  by (simp add: uid_def word_of_nat_eq_iff take_bit_nat_eq_self)

lemma reads_simps [simp]:
  "rd_uuid (reads k) i = uid (100 * k + i)" "rd_now (reads k) i = noon"
  by (simp_all add: reads_def)

lemma eur_simps [simp]:
  "amount (eur n) = Fin False n (-2)" "money_currency (eur n) = EUR"
  "money_cents (eur n) = int n" "money_ok (eur n) \<longleftrightarrow> n < max_cents"
  "is_zero (eur n) \<longleftrightarrow> n = 0"
  by (auto simp: eur_def money_cents_def money_ok_def is_zero_def dec_eq_def dec_zero_def cmp_fin_def sgn_0_0)

lemma max_cents_big [simp]: "n \<le> 1000000 \<Longrightarrow> n < max_cents"
  by (simp add: max_cents_def)

lemma sample_account_simps [simp]:
  "entity_id (sample_account i n st) = uid i" "balance (sample_account i n st) = eur n"
  "account_status (sample_account i n st) = st" "pending (sample_account i n st) = []"
  "domain_events (sample_account i n st) = []" "owner_id (sample_account i n st) = uid 9"
  by (simp_all add: sample_account_def account_reconstitute_def pending_def)

lemma sample_account_ok [simp]:
  "account_ok (sample_account i n st) \<longleftrightarrow> n < max_cents \<and> (st = CLOSED \<longrightarrow> n = 0)"
  by (simp add: account_ok_def)

lemma sample_tx_simps [simp]:
  "tx_status sample_tx = PENDING" "tx_amount sample_tx = eur 250" "from_account_id sample_tx = uid 1"
  "to_account_id sample_tx = uid 2" "rollback_required sample_tx = False"
  "failure_code sample_tx = None" "failure_reason sample_tx = None" "completed_at sample_tx = None"
  by (simp_all add: sample_tx_def tx_reconstitute_def)

lemma sample_tx_ok [simp]: "tx_ok sample_tx"
  by (simp add: tx_ok_def uid_inject)

lemma money_new_eur: "n < max_cents \<Longrightarrow> money_new (Fin False n (-2)) EUR = Inr (eur n)"
  by (simp add: money_new_cents eur_def)

lemma eur_arith:
  "m < max_cents \<Longrightarrow> n \<le> m \<Longrightarrow> money_sub (eur m) (eur n) = Inr (eur (m - n))"
  "m < max_cents \<Longrightarrow> m < n \<Longrightarrow> n < max_cents \<Longrightarrow> money_sub (eur m) (eur n) = Inl (InsufficientFundsError (eur m) (eur n))"
  "m + n < max_cents \<Longrightarrow> money_add (eur m) (eur n) = Inr (eur (m + n))"
proof -
  assume *: "m < max_cents" "n \<le> m"
  have n: "nat (int m - int n) = m - n" using * by simp
  have "dec_sub (amount (eur m)) (amount (eur n)) = Inr (Fin False (m - n) (-2))"
    unfolding dec_sub_def eur_simps dec_neg.simps dec_add_cents using * by (simp add: n dec_fix_cents)
  with * show "money_sub (eur m) (eur n) = Inr (eur (m - n))"
    by (simp add: money_sub_def assert_same_currency_def dec_lt_zero_cents money_new_eur del: quantize_cents.simps)
next
  assume "m < max_cents" "m < n" "n < max_cents"
  then show "money_sub (eur m) (eur n) = Inl (InsufficientFundsError (eur m) (eur n))"
    by (intro money_sub_insufficient) simp_all
next
  assume *: "m + n < max_cents"
  have n: "nat (int m + int n) = m + n" by simp
  have "dec_add (amount (eur m)) (amount (eur n)) = Inr (Fin False (m + n) (-2))"
    unfolding eur_simps dec_add_cents using * by (simp add: n dec_fix_cents)
  with * show "money_add (eur m) (eur n) = Inr (eur (m + n))"
    by (simp add: money_add_def assert_same_currency_def money_new_eur)
qed

end
