(* ===== verification/Event_Payload.thy ===== *)
theory Event_Payload
  imports Mappers
begin

text \<open>
  The text of an event, \<open>to_json\<close> of \<open>src/domain/events/base.py\<close>, which the unit of work stores in the outbox, against a
  reader of JSON.

  \<^item> \<open>json_loads\<close> reads the values an event can hold: strings with every escape of the JSON grammar, the two booleans
    and objects of strings, with white space where JSON allows it. Its fuel is the length of the text, one unit for
    each member of an object.
  \<^item> \<open>to_json_loads\<close>: reading the text gives back the dictionary, whatever characters its strings have.
  \<^item> \<open>to_dict_inject\<close> and \<open>payloads_inject\<close>: the dictionary, and so the text, determines the event.
\<close>

section \<open>A reader of JSON\<close>

datatype json = JString string | JBool bool | JObject "(string \<times> string) list"

definition json_space :: "char \<Rightarrow> bool" where
  "json_space c \<longleftrightarrow> c = CHR '' '' \<or> c = CHR 9 \<or> c = CHR 10 \<or> c = CHR 13"

definition skip :: "string \<Rightarrow> string" where
  "skip = dropWhile json_space"

text \<open>One character after a backslash; \<open>u\<close> is followed by four hexadecimal digits.\<close>

definition escaped :: "char \<Rightarrow> char option" where
  "escaped c =
     (if c = CHR 34 \<or> c = CHR 92 \<or> c = CHR ''/'' then Some c
      else if c = CHR ''n'' then Some (CHR 10) else if c = CHR ''r'' then Some (CHR 13)
      else if c = CHR ''t'' then Some (CHR 9) else if c = CHR ''f'' then Some (CHR 12)
      else if c = CHR ''b'' then Some (CHR 8) else None)"

definition unicode :: "string \<Rightarrow> char option" where
  "unicode h = (if list_all is_hex h \<and> from_digits 16 (map hex_val h) < 256
     then Some (char_of (from_digits 16 (map hex_val h))) else None)"

text \<open>One character of a string, and the text after it; \<open>None\<close> at the closing quote and for a malformed text.\<close>

definition read_char :: "string \<Rightarrow> (char \<times> string) option" where
  "read_char s = (case s of
     [] \<Rightarrow> None
   | c # t \<Rightarrow>
       if c = CHR 34 \<or> (of_char c :: nat) < 32 then None
       else if c \<noteq> CHR 92 then Some (c, t)
       else case t of [] \<Rightarrow> None
            | e # u \<Rightarrow> if e = CHR ''u'' then (if length u < 4 then None else map_option (\<lambda>x. (x, drop 4 u)) (unicode (take 4 u)))
                      else map_option (\<lambda>x. (x, u)) (escaped e))"

lemma read_char_shorter: "read_char s = Some (x, t) \<Longrightarrow> length t < length s"
  by (auto simp: read_char_def split: list.splits if_splits)

function read_chars :: "string \<Rightarrow> (string \<times> string) option" where
  "read_chars s =
     (case read_char s of
        Some (x, t) \<Rightarrow> map_option (\<lambda>(xs, r). (x # xs, r)) (read_chars t)
      | None \<Rightarrow> if s \<noteq> [] \<and> hd s = CHR 34 then Some ([], tl s) else None)"
  by pat_completeness auto
termination
  by (relation "measure length") (auto dest: read_char_shorter)

declare read_chars.simps [simp del]

text \<open>A punctuation character after white space.\<close>

definition expect :: "char \<Rightarrow> string \<Rightarrow> string option" where
  "expect c s = (case skip s of [] \<Rightarrow> None | x # t \<Rightarrow> if x = c then Some t else None)"

definition read_string :: "string \<Rightarrow> (string \<times> string) option" where
  "read_string s = Option.bind (expect (CHR 34) s) read_chars"

text \<open>The members of an object after its opening brace, for a reader of the values.\<close>

fun read_members :: "(string \<Rightarrow> ('v \<times> string) option) \<Rightarrow> nat \<Rightarrow> string \<Rightarrow> ((string \<times> 'v) list \<times> string) option" where
  "read_members rd 0 s = None"
| "read_members rd (Suc n) s =
     Option.bind (read_string s) (\<lambda>(k, t). Option.bind (expect (CHR '':'') t) (\<lambda>u. Option.bind (rd u) (\<lambda>(v, w).
       case expect (CHR ''}'') w of
         Some r \<Rightarrow> Some ([(k, v)], r)
       | None \<Rightarrow> Option.bind (expect (CHR '','') w) (\<lambda>x. map_option (\<lambda>(kvs, r). ((k, v) # kvs, r)) (read_members rd n x)))))"

definition read_object :: "(string \<Rightarrow> ('v \<times> string) option) \<Rightarrow> string \<Rightarrow> ((string \<times> 'v) list \<times> string) option" where
  "read_object rd s = Option.bind (expect (CHR ''{'') s) (\<lambda>t.
     case expect (CHR ''}'') t of Some r \<Rightarrow> Some ([], r) | None \<Rightarrow> read_members rd (length t) t)"

definition read_value :: "string \<Rightarrow> (json \<times> string) option" where
  "read_value s =
     (if starts_with ''true'' (skip s) then Some (JBool True, drop 4 (skip s))
      else if starts_with ''false'' (skip s) then Some (JBool False, drop 5 (skip s))
      else case read_string s of
        Some (x, r) \<Rightarrow> Some (JString x, r)
      | None \<Rightarrow> map_option (\<lambda>(kvs, r). (JObject kvs, r)) (read_object read_string s))"

text \<open>\<open>json.loads(s)\<close> of an object.\<close>

definition json_loads :: "string \<Rightarrow> (string \<times> json) list option" where
  "json_loads s = Option.bind (read_object read_value s) (\<lambda>(kvs, r). if skip r = [] then Some kvs else None)"

section \<open>Reading back what was written\<close>

lemma skip_Cons [simp]: "\<not> json_space c \<Longrightarrow> skip (c # s) = c # s"
  by (simp add: skip_def)

lemma skip_space [simp]: "skip (CHR '' '' # s) = skip s"
  by (simp add: skip_def json_space_def)

lemma expect_Cons: "\<not> json_space x \<Longrightarrow> expect c (x # s) = (if x = c then Some s else None)"
  by (simp add: expect_def)

lemma unicode_to_base16: "n < 256 \<Longrightarrow> unicode (map hex_char (to_base16 4 n)) = Some (char_of n)"
  using from_digits_to_base16 [of n 4]
  by (simp add: unicode_def list_all_iff to_base16_bound comp_def map_idI)

lemma read_char_unicode: "length h = 4 \<Longrightarrow> read_char (CHR 92 # CHR ''u'' # h @ s) = map_option (\<lambda>x. (x, s)) (unicode h)"
  by (simp add: read_char_def)

lemma of_char_less: "(of_char (c :: char) :: nat) < 256"
  using nat_of_char_less_256 by simp

lemma json_char_simple:
  "json_char (CHR 34) = [CHR 92, CHR 34]" "json_char (CHR 92) = [CHR 92, CHR 92]" "json_char (CHR 10) = [CHR 92, CHR ''n'']"
  "json_char (CHR 13) = [CHR 92, CHR ''r'']" "json_char (CHR 9) = [CHR 92, CHR ''t'']" "json_char (CHR 12) = [CHR 92, CHR ''f'']"
  "json_char (CHR 8) = [CHR 92, CHR ''b'']"
  by (simp_all add: json_char_def Let_def)

lemma read_char_json_char: "read_char (json_char c @ s) = Some (c, s)"
proof -
  let ?n = "of_char c :: nat"
  consider "?n \<in> {34, 92, 10, 13, 9, 12, 8}" | "?n \<notin> {34, 92, 10, 13, 9, 12, 8}" "?n < 32 \<or> 126 < ?n"
    | "?n \<notin> {34, 92, 10, 13, 9, 12, 8}" "\<not> (?n < 32 \<or> 126 < ?n)" by blast
  then show ?thesis
  proof cases
    case 1
    then have "c \<in> {CHR 34, CHR 92, CHR 10, CHR 13, CHR 9, CHR 12, CHR 8}" by (simp del: of_char_eq_iff add: of_char_eq_iff [where 'a = nat, symmetric])
    then obtain e where "json_char c = [CHR 92, e]" "e \<noteq> CHR ''u''" "escaped e = Some c"
      by (auto simp: json_char_simple escaped_def)
    then show ?thesis by (simp add: read_char_def)
  next
    case 2
    then have "json_char c = CHR 92 # CHR ''u'' # map hex_char (to_base16 4 ?n)"
      unfolding json_char_def Let_def by simp
    moreover have "unicode (map hex_char (to_base16 4 ?n)) = Some (char_of ?n)"
      by (rule unicode_to_base16 [OF of_char_less])
    ultimately show ?thesis by (simp only: append_Cons read_char_unicode length_map length_to_base16) simp
  next
    case 3
    then have "json_char c = [c]" unfolding json_char_def Let_def by simp
    moreover have "c \<noteq> CHR 34" "c \<noteq> CHR 92" using 3(1) by auto
    ultimately show ?thesis using 3(2) by (simp add: read_char_def)
  qed
qed

lemma read_char_quote: "read_char (CHR 34 # s) = None"
  by (simp add: read_char_def)

lemma read_chars_json: "read_chars (concat (map json_char xs) @ CHR 34 # s) = Some (xs, s)"
  by (induction xs) (subst read_chars.simps; simp add: read_char_json_char read_char_quote)+

lemma read_string_json [simp]: "read_string (json_string x @ s) = Some (x, s)"
  by (simp add: read_string_def json_string_def expect_Cons json_space_def read_chars_json)

lemma read_string_space [simp]: "read_string (CHR '' '' # s) = read_string s"
  by (simp add: read_string_def expect_def)

lemma read_value_space [simp]: "read_value (CHR '' '' # s) = read_value s"
proof -
  have "read_object read_string (CHR '' '' # s) = read_object read_string s"
    by (simp add: read_object_def expect_def)
  then show ?thesis by (simp add: read_value_def split: option.split)
qed

text \<open>The members written by a writer whose texts the reader of values reads.\<close>

definition member :: "('p \<Rightarrow> string) \<Rightarrow> string \<times> 'p \<Rightarrow> string" where
  "member wr = (\<lambda>(k, v). json_string k @ '': '' @ wr v)"

lemma read_members_space [simp]: "read_members rd n (CHR '' '' # s) = read_members rd n s"
  by (cases n) simp_all

lemma read_members_join:
  assumes "kvs \<noteq> []" and "length kvs \<le> n"
    and "\<And>k v r. (k, v) \<in> set kvs \<Longrightarrow> rd (CHR '' '' # wr v @ r) = Some (f v, r)"
  shows "read_members rd n (join '', '' (map (member wr) kvs) @ CHR ''}'' # s) = Some (map (\<lambda>(k, v). (k, f v)) kvs, s)"
  using assms
proof (induction kvs arbitrary: n)
  case (Cons kv kvs)
  obtain k v where kv: "kv = (k, v)" by (cases kv)
  obtain m where n: "n = Suc m" using Cons.prems(2) by (cases n) auto
  have rd: "rd (CHR '' '' # wr v @ r) = Some (f v, r)" for r
    using Cons.prems(3) [of k v] kv by simp
  show ?case
  proof (cases "kvs = []")
    case True
    then show ?thesis by (simp add: n kv member_def expect_Cons json_space_def rd)
  next
    case False
    then have "join '', '' (map (member wr) (kv # kvs)) = member wr kv @ '', '' @ join '', '' (map (member wr) kvs)"
      by (cases kvs) simp_all
    moreover have "member wr kv = json_string k @ '': '' @ wr v" by (simp add: kv member_def)
    moreover have "read_members rd m (join '', '' (map (member wr) kvs) @ CHR ''}'' # s) = Some (map (\<lambda>(k, v). (k, f v)) kvs, s)"
      using Cons.prems n False by (intro Cons.IH) auto
    ultimately show ?thesis by (simp add: n kv expect_Cons json_space_def rd)
  qed
qed simp_all

lemma length_join: "\<forall>x \<in> set xs. x \<noteq> [] \<Longrightarrow> length xs \<le> length (join sep xs)"
  by (induction sep xs rule: join.induct) (auto simp: Suc_le_eq length_greater_0_conv [symmetric] simp del: length_greater_0_conv)

lemma member_nonempty: "member wr kv \<noteq> []"
  by (cases kv) (simp add: member_def json_string_def)

lemma read_object_json:
  assumes "\<And>k v r. (k, v) \<in> set kvs \<Longrightarrow> rd (CHR '' '' # wr v @ r) = Some (f v, r)"
  shows "read_object rd (json_object (map (\<lambda>(k, v). (k, wr v)) kvs) @ s) = Some (map (\<lambda>(k, v). (k, f v)) kvs, s)"
proof (cases "kvs = []")
  case True
  then show ?thesis by (simp add: read_object_def json_object_def expect_Cons json_space_def)
next
  case False
  let ?t = "join '', '' (map (member wr) kvs)"
  have shape: "json_object (map (\<lambda>(k, v). (k, wr v)) kvs) = CHR ''{'' # ?t @ ''}''"
    by (simp add: json_object_def member_def comp_def split_def)
  have "length kvs \<le> length ?t" using length_join [of "map (member wr) kvs" "'', ''"] by (simp add: member_nonempty)
  moreover obtain t where "?t = CHR 34 # t"
    using False by (cases kvs; cases "tl kvs") (auto simp: member_def json_string_def)
  moreover have "read_members rd (length (?t @ CHR ''}'' # s)) (?t @ CHR ''}'' # s) = Some (map (\<lambda>(k, v). (k, f v)) kvs, s)"
    using False calculation(1) assms by (intro read_members_join) auto
  ultimately show ?thesis by (simp add: read_object_def shape expect_Cons json_space_def del: read_members.simps)
qed

text \<open>What the reader makes of a value of the dictionary.\<close>

fun json_of :: "pyval \<Rightarrow> json" where
  "json_of (PStr s) = JString s"
| "json_of (PDecimal d) = JString (dec_str d)"
| "json_of (PBool b) = JBool b"
| "json_of (PDict kvs) = JObject kvs"
| "json_of (PUuid u) = JString (uuid_str u)"
| "json_of (PDatetime d) = JString (isoformat d)"

lemma read_value_string: "read_value (json_string x @ s) = Some (JString x, s)"
  by (simp add: read_value_def) (simp add: json_string_def json_space_def)

lemma read_value_json [simp]: "read_value (json_val v @ s) = Some (json_of v, s)"
proof (cases v)
  case (PDict kvs)
  have "read_object read_string (json_object (map (\<lambda>(k, v). (k, json_string v)) kvs) @ s) = Some (map (\<lambda>(k, v). (k, v)) kvs, s)"
    by (rule read_object_json) simp
  moreover have "read_string (json_object xs @ s) = None" "\<not> starts_with ''true'' (skip (json_object xs @ s))"
    "\<not> starts_with ''false'' (skip (json_object xs @ s))" for xs
    by (simp_all add: json_object_def read_string_def expect_Cons json_space_def)
  ultimately show ?thesis using PDict by (simp add: read_value_def)
next
  case (PBool b)
  then show ?thesis by (simp add: read_value_def json_space_def)
qed (simp_all add: read_value_string)

lemma to_json_loads: "json_loads (to_json e) = Some (map (\<lambda>(k, v). (k, json_of v)) (to_dict e))"
  using read_object_json [of "to_dict e" read_value json_val json_of "[]"]
  by (simp add: json_loads_def to_json_def skip_def)

section \<open>The dictionary determines the event\<close>

definition datetime_ok :: "datetime \<Rightarrow> bool" where
  "datetime_ok d \<longleftrightarrow> dt_year d < 10000 \<and> dt_month d \<in> {1..12} \<and> dt_day d \<in> {1..31} \<and> dt_hour d < 24 \<and> dt_minute d < 60 \<and>
     dt_second d < 60 \<and> dt_micro d < 1000000"

lemma nat_of_str_pad_str [simp]: "nat_of_str (pad_str k n) = n"
  by (simp add: pad_str_def nat_of_str_def from_digits_append map_replicate_const map_digit_val_nat_str)

lemma length_pad_str: "n < 10 ^ k \<Longrightarrow> 0 < k \<Longrightarrow> length (pad_str k n) = k"
  by (simp add: pad_str_def ndigits_le_iff)

lemma pad_str_inject [simp]: "pad_str k m = pad_str k n \<longleftrightarrow> m = n"
  by (metis nat_of_str_pad_str)

lemma isoformat_inject:
  assumes "datetime_ok d" and "datetime_ok d'"
  shows "isoformat d = isoformat d' \<longleftrightarrow> d = d'"
proof -
  have len: "length (pad_str 4 (dt_year x)) = 4" "length (pad_str 2 (dt_month x)) = 2" "length (pad_str 2 (dt_day x)) = 2"
    "length (pad_str 2 (dt_hour x)) = 2" "length (pad_str 2 (dt_minute x)) = 2" "length (pad_str 2 (dt_second x)) = 2"
    if "datetime_ok x" for x
    using that by (auto simp: datetime_ok_def intro!: length_pad_str)
  show ?thesis
    using len [OF assms(1)] len [OF assms(2)]
    by (cases d; cases d') (auto simp: isoformat_def split: if_splits)
qed

lemma dec_str_inject [simp]: "dec_str a = dec_str b \<longleftrightarrow> a = b"
  by (metis dec_of_str_dec_str option.inject)

lemma to_dict_inject:
  assumes "datetime_ok (occurred_at e)" and "datetime_ok (occurred_at e')"
    and "map (\<lambda>(k, v). (k, json_of v)) (to_dict e) = map (\<lambda>(k, v). (k, json_of v)) (to_dict e')"
  shows "e = e'"
proof -
  from assms(3) have same: "event_id e = event_id e'" "occurred_at e = occurred_at e'" "metadata e = metadata e'"
    and type: "event_type e = event_type e'"
    and data: "map (\<lambda>(k, v). (k, json_of (plain_val v))) (event_fields (event_data e)) =
      map (\<lambda>(k, v). (k, json_of (plain_val v))) (event_fields (event_data e'))"
    by (simp_all add: to_dict_def asdict_def isoformat_inject [OF assms(1,2)] comp_def split_def)
  have "event_data e = event_data e'"
    using type data by (cases "event_data e"; cases "event_data e'") (simp_all add: event_type_def)
  with same show ?thesis by simp
qed

lemma payloads_inject:
  assumes "\<forall>e \<in> set es \<union> set es'. datetime_ok (occurred_at e)" and "map to_json es = map to_json es'"
  shows "es = es'"
  using assms
proof (induction es arbitrary: es')
  case (Cons e es)
  then obtain e' r where es': "es' = e' # r" "to_json e = to_json e'" "map to_json es = map to_json r"
    by (cases es') auto
  then have "map (\<lambda>(k, v). (k, json_of v)) (to_dict e) = map (\<lambda>(k, v). (k, json_of v)) (to_dict e')"
    by (metis option.inject to_json_loads)
  with Cons es' show ?case using to_dict_inject [of e e'] by simp
qed simp

end
