(* ===== verification/Domain_Properties.thy ===== *)
theory Domain_Properties
  imports Samples Event_Payload
begin

text \<open>
  The properties of the values and the aggregates (\<open>src/domain\<close>), and of the mappers to their rows,
  each with a witness at concrete values.
\<close>

section \<open>Money\<close>

lemma round_half_up_bounds:
  assumes "0 < k"
  shows "2 * (round_half_up c k * 10 ^ k) \<le> 2 * c + 10 ^ k"
    and "2 * c + 10 ^ k < 2 * (round_half_up c k * 10 ^ k) + 2 * 10 ^ k"
proof -
  obtain j where k: "k = Suc j" using assms by (cases k) auto
  let ?q = "round_half_up c k"
  have q: "?q = (c + 5 * 10 ^ j) div 10 ^ k" by (simp add: round_half_up_def k)
  have "?q * 10 ^ k \<le> c + 5 * 10 ^ j" unfolding q by (rule div_times_less_eq_dividend)
  moreover have "c + 5 * 10 ^ j < ?q * 10 ^ k + 10 ^ k"
    unfolding q using mod_less_divisor [of "10 ^ k" "c + 5 * 10 ^ j"] div_mult_mod_eq [of "c + 5 * 10 ^ j" "10 ^ k"]
    by (simp del: mod_less_divisor)
  moreover have "2 * (5 * 10 ^ j) = (10 :: nat) ^ k" by (simp add: k)
  ultimately show "2 * (?q * 10 ^ k) \<le> 2 * c + 10 ^ k"
    and "2 * c + 10 ^ k < 2 * (?q * 10 ^ k) + 2 * 10 ^ k" by linarith+
qed

lemma quantize_cents_near:
  assumes "quantize_cents (Fin s c e) = Inr (Fin s' q (-2))"
  shows "real q / 100 - real c * 10 powi e \<le> 1 / 200" and "real c * 10 powi e - real q / 100 < 1 / 200"
proof -
  have "real q / 100 - real c * 10 powi e \<le> 1 / 200 \<and> real c * 10 powi e - real q / 100 < 1 / 200"
  proof (cases "-2 \<le> e")
    case True
    then have q: "q = c * 10 ^ nat (e + 2)" using assms by (auto simp: Let_def split: if_splits)
    have "(10::real) powi (e + 2) = 10 powi e * 100" by (simp add: power_int_add)
    moreover have "(10::real) powi (e + 2) = 10 ^ nat (e + 2)" using True by (simp add: power_int_def)
    ultimately have "real q = real c * 10 powi e * 100" by (simp add: q)
    then show ?thesis by simp
  next
    case False
    define k where "k = nat (-2 - e)"
    have k: "0 < k" "e = - int (k + 2)" using False by (auto simp: k_def)
    have q: "q = round_half_up c k" using assms False by (auto simp: Let_def k_def split: if_splits)
    have p: "(10::real) powi e = 1 / (10 ^ k * 100)"
      unfolding k(2) power_int_minus power_int_of_nat by (simp add: power_add field_simps)
    have "real (2 * (q * 10 ^ k)) \<le> real (2 * c + 10 ^ k)"
      and "real (2 * c + 10 ^ k) < real (2 * (q * 10 ^ k) + 2 * 10 ^ k)"
      using round_half_up_bounds [OF k(1), of c] unfolding q of_nat_le_iff of_nat_less_iff by auto
    then show ?thesis by (simp add: p field_simps)
  qed
  then show "real q / 100 - real c * 10 powi e \<le> 1 / 200" and "real c * 10 powi e - real q / 100 < 1 / 200"
    by simp_all
qed

text \<open>C25: Constructing a \<open>Money\<close> from a finite decimal rounds it half up to whole cents: the result
  is at most half a cent above and less than half a cent below the amount given (in magnitude),
  keeps its sign and currency, is never negative and has at most 28 digits.\<close>

theorem money_rounds_half_up:
  assumes "money_new (Fin s c e) cur = Inr m"
  shows "\<exists>q. amount m = Fin s q (-2) \<and> q < 10 ^ 28 \<and> (s \<longrightarrow> q = 0) \<and> money_currency m = cur \<and>
    real q / 100 - real c * 10 powi e \<le> 1 / 200 \<and> real c * 10 powi e - real q / 100 < 1 / 200"
proof -
  have ok: "money_ok m" "money_currency m = cur" using money_new_ok [OF assms] by auto
  have q: "quantize_cents (Fin s c e) = Inr (amount m)"
    using assms by (auto simp: money_new_def money_post_init_def bindR_Inr_iff raise_dec_def
        simp del: quantize_cents.simps split: sum.splits if_splits)
  then have "\<exists>q. Fin s q (-2) = amount m" by (auto simp: Let_def split: if_splits)
  then obtain q where a: "amount m = Fin s q (-2)" by metis
  from ok(1) a have "q < 10 ^ 28" "s \<longrightarrow> q = 0" by (auto simp: money_ok_def max_cents_def)
  with a ok quantize_cents_near [OF q [unfolded a]] show ?thesis by blast
qed

lemma money_rounds_half_up_witness:
  "\<exists>m. money_new (Fin False 12345 (-3)) EUR = Inr m \<and> amount m = Fin False 1235 (-2) \<and>
     (\<exists>q. amount m = Fin False q (-2) \<and> q < 10 ^ 28 \<and> (False \<longrightarrow> q = 0) \<and> money_currency m = EUR \<and>
       real q / 100 - real 12345 * 10 powi (-3) \<le> 1 / 200 \<and> real 12345 * 10 powi (-3) - real q / 100 < 1 / 200)"
proof -
  have m: "money_new (Fin False 12345 (-3)) EUR = Inr (eur 1235)"
    by (simp add: money_new_def money_post_init_def Let_def round_half_up_def ndigits_gt_prec dec_lt_def
        dec_zero_def cmp_fin_def dec_signed_def eur_def max_cents_def)
  from money_rounds_half_up [OF this] m show ?thesis by simp
qed

text \<open>C24: The sum of two valid amounts is a valid amount of the same currency with exactly the sum of
  the cents, unless the currencies differ, or the sum needs more than 28 digits, which the decimal
  context refuses with \<open>InvalidOperation\<close>.\<close>

theorem money_add_total:
  assumes "money_ok a" and "money_ok b"
  shows "case money_add a b of
      Inr m \<Rightarrow> money_currency a = money_currency b \<and> money_currency m = money_currency a \<and> money_ok m \<and>
        money_cents m = money_cents a + money_cents b
    | Inl e \<Rightarrow> if money_currency a \<noteq> money_currency b
        then e = CurrencyMismatchError (money_currency a) (money_currency b)
        else e = DecimalSignal InvalidOperation \<and> 10 ^ 28 \<le> money_cents a + money_cents b"
proof (cases "money_add a b")
  case (Inl e)
  show ?thesis
  proof (cases "money_currency a = money_currency b")
    case True
    have "\<not> money_cents a + money_cents b < int max_cents"
      using money_add_exact [OF assms True] Inl by fastforce
    with True Inl money_add_too_large [OF assms True] show ?thesis by (simp add: max_cents_def)
  qed (use Inl money_add_mismatch in auto)
next
  case (Inr m)
  with assms money_add_Inr [OF Inr] show ?thesis by (simp add: money_add_cents(1) [OF assms Inr])
qed

lemma money_add_total_witness:
  "case money_add (eur 150) (eur 275) of
      Inr m \<Rightarrow> money_currency (eur 150) = money_currency (eur 275) \<and> money_currency m = money_currency (eur 150) \<and>
        money_ok m \<and> money_cents m = money_cents (eur 150) + money_cents (eur 275)
    | Inl e \<Rightarrow> if money_currency (eur 150) \<noteq> money_currency (eur 275)
        then e = CurrencyMismatchError (money_currency (eur 150)) (money_currency (eur 275))
        else e = DecimalSignal InvalidOperation \<and> 10 ^ 28 \<le> money_cents (eur 150) + money_cents (eur 275)"
  by (rule money_add_total) simp_all

text \<open>Subtracting valid amounts of one currency gives exactly the difference of the cents, and
  when it would be negative raises \<open>InsufficientFundsError\<close> with both amounts: an overdraft is never
  a value. Different currencies are refused.\<close>

theorem money_sub_total:
  assumes "money_ok a" and "money_ok b"
  shows "case money_sub a b of
      Inr m \<Rightarrow> money_currency a = money_currency b \<and> money_currency m = money_currency a \<and> money_ok m \<and>
        money_cents m = money_cents a - money_cents b
    | Inl e \<Rightarrow> if money_currency a \<noteq> money_currency b
        then e = CurrencyMismatchError (money_currency a) (money_currency b)
        else e = InsufficientFundsError a b \<and> money_cents a < money_cents b"
proof (cases "money_sub a b")
  case (Inl e)
  show ?thesis
  proof (cases "money_currency a = money_currency b")
    case True
    have "\<not> money_cents b \<le> money_cents a"
      using money_sub_exact [OF assms True] Inl by fastforce
    with True Inl money_sub_insufficient [OF assms True] show ?thesis by simp
  qed (use Inl money_sub_mismatch in auto)
next
  case (Inr m)
  with assms money_sub_Inr [OF Inr] show ?thesis by (simp add: money_sub_cents(1) [OF assms Inr])
qed

lemma money_sub_total_witness:
  "case money_sub (eur 150) (eur 275) of
      Inr m \<Rightarrow> money_currency (eur 150) = money_currency (eur 275) \<and> money_currency m = money_currency (eur 150) \<and>
        money_ok m \<and> money_cents m = money_cents (eur 150) - money_cents (eur 275)
    | Inl e \<Rightarrow> if money_currency (eur 150) \<noteq> money_currency (eur 275)
        then e = CurrencyMismatchError (money_currency (eur 150)) (money_currency (eur 275))
        else e = InsufficientFundsError (eur 150) (eur 275) \<and> money_cents (eur 150) < money_cents (eur 275)"
  by (rule money_sub_total) simp_all

section \<open>Identifiers, decimals and enumerations\<close>

text \<open>The canonical text of an id is read back as the same id, and the order of the texts is the
  order of the ids: sorting lock keys as strings is a total order on accounts.\<close>

theorem uuid_text_faithful:
  "uuid_of_str (uuid_str u) = Some u \<and> (uuid_str u \<le> uuid_str v) = (u \<le> v) \<and>
   (uuid_str u = uuid_str v) = (u = v)"
  by (simp add: uuid_str_le_iff)

text \<open>\<open>Decimal(str(d))\<close> is \<open>d\<close> for every decimal, special values and signed zeros included, so the
  services and mappers that rebuild an amount this way lose nothing.\<close>

theorem redecimal_exact: "dec_of_str (dec_str d) = Some d \<and> redecimal d = Inr d"
  by simp

lemma parse_iff:
  assumes "\<And>v c. of_value v = Some c \<longleftrightarrow> v = val c" and "\<And>v. of_value v = None \<longleftrightarrow> v \<notin> range val"
    and "\<And>v. parse v = (case of_value v of Some c \<Rightarrow> Inr c | None \<Rightarrow> Inl (err v))"
  shows "(parse v = Inr c) = (v = val c)" and "(parse v = Inl e) = (v \<notin> range val \<and> e = err v)"
proof -
  show "(parse v = Inr c) = (v = val c)"
    unfolding assms(3) assms(1) [symmetric] by (simp split: option.splits)
  show "(parse v = Inl e) = (v \<notin> range val \<and> e = err v)"
    unfolding assms(3) assms(2) [symmetric] by (auto split: option.splits)
qed

lemmas parse_currency_iff = parse_iff [OF
    currency.of_value_iff [folded currency_of_value_def] currency.of_value_None_iff [folded currency_of_value_def]
    parse_currency_def]
lemmas parse_account_status_iff = parse_iff [OF
    account_status.of_value_iff [folded account_status_of_value_def]
    account_status.of_value_None_iff [folded account_status_of_value_def] parse_account_status_def]
lemmas parse_transaction_status_iff = parse_iff [OF
    transaction_status.of_value_iff [folded transaction_status_of_value_def]
    transaction_status.of_value_None_iff [folded transaction_status_of_value_def] parse_transaction_status_def]
lemmas parse_transaction_type_iff = parse_iff [OF
    transaction_type.of_value_iff [folded transaction_type_of_value_def]
    transaction_type.of_value_None_iff [folded transaction_type_of_value_def] parse_transaction_type_def]

text \<open>The text of an enumeration member is parsed back to that member, and every other text raises
  \<open>ValueError\<close> with the text quoted; this holds of the four enumerations the rows and requests carry.\<close>

theorem enum_texts_exact:
  "(parse_currency v = Inr c \<longleftrightarrow> v = currency_value c) \<and>
   (parse_currency v = Inl e \<longleftrightarrow> v \<notin> range currency_value \<and> e = enum_value_error ''Currency'' v) \<and>
   (parse_account_status v = Inr a \<longleftrightarrow> v = account_status_value a) \<and>
   (parse_account_status v = Inl e \<longleftrightarrow>
      v \<notin> range account_status_value \<and> e = enum_value_error ''AccountStatus'' v) \<and>
   (parse_transaction_status v = Inr t \<longleftrightarrow> v = transaction_status_value t) \<and>
   (parse_transaction_status v = Inl e \<longleftrightarrow>
      v \<notin> range transaction_status_value \<and> e = enum_value_error ''TransactionStatus'' v) \<and>
   (parse_transaction_type v = Inr k \<longleftrightarrow> v = transaction_type_value k) \<and>
   (parse_transaction_type v = Inl e \<longleftrightarrow>
      v \<notin> range transaction_type_value \<and> e = enum_value_error ''TransactionType'' v)"
  by (simp add: parse_currency_iff parse_account_status_iff parse_transaction_status_iff parse_transaction_type_iff)

section \<open>Account\<close>

text \<open>Opening an account succeeds exactly when the opening balance has the account's currency; then
  the account is valid, ACTIVE, holds that balance and has recorded one \<open>AccountCreated\<close> event.\<close>

theorem account_create_total:
  assumes "money_ok m"
  shows "case account_create own cur (Some m) r of
      Inl e \<Rightarrow> money_currency m \<noteq> cur \<and> e = CurrencyMismatchError (money_currency m) cur
    | Inr a \<Rightarrow> money_currency m = cur \<and> account_ok a \<and> account_status a = ACTIVE \<and> balance a = m \<and>
        owner_id a = own \<and> pending a = [AccountCreated (entity_id a) own (currency_value cur) (amount m)]"
  using assms by (auto simp: account_create_def Let_def account_ok_def pending_def)

lemma account_create_total_witness:
  "case account_create (uid 9) EUR (Some (eur 500)) (reads 1) of
      Inl e \<Rightarrow> money_currency (eur 500) \<noteq> EUR \<and> e = CurrencyMismatchError (money_currency (eur 500)) EUR
    | Inr a \<Rightarrow> money_currency (eur 500) = EUR \<and> account_ok a \<and> account_status a = ACTIVE \<and> balance a = eur 500 \<and>
        owner_id a = uid 9 \<and>
        pending a = [AccountCreated (entity_id a) (uid 9) (currency_value EUR) (amount (eur 500))]"
  by (rule account_create_total) simp

text \<open>Over any sequence of debits, credits, freezes, unfreezes and closings that all succeed, the
  account stays valid (a non-negative balance in whole cents, zero once it is closed), keeps its id,
  owner, number, currency and creation time, and only adds to its recorded events.\<close>

theorem account_runs_safe:
  assumes "account_ok a" and "\<forall>x \<in> set xs. account_op_ok x" and "runR account_step xs a = Inr b"
  shows "account_ok b \<and> account_frame a b"
  using account_ops.run_inv [OF assms] account_ops.run_rel [OF assms] by simp

definition sample_ops :: "account_op list" where
  "sample_ops = [Debit (eur 200) (uid 7) (reads 2), Freeze ''audit'' (reads 3), Unfreeze (reads 4),
     Debit (eur 300) (uid 8) (reads 5), Close (reads 6)]"

lemma account_runs_safe_witness:
  "\<exists>b. runR account_step sample_ops (sample_account 1 500 ACTIVE) = Inr b \<and> account_status b = CLOSED \<and>
     account_ok b \<and> account_frame (sample_account 1 500 ACTIVE) b"
proof -
  obtain b where b: "runR account_step sample_ops (sample_account 1 500 ACTIVE) = Inr b" "account_status b = CLOSED"
    by (simp add: sample_ops_def account_defs eur_arith)
  have "account_ok (sample_account 1 500 ACTIVE)" "\<forall>x \<in> set sample_ops. account_op_ok x"
    by (simp_all add: sample_ops_def)
  from account_runs_safe [OF this b(1)] b show ?thesis by blast
qed

text \<open>C12: The account refines the abstract ledger over every sequence of calls: same balance, currency
  and status when all succeed, and the same refusal at the same call when one does not.\<close>

theorem account_refines_ledger:
  assumes "account_ok a" and "\<forall>x \<in> set xs. account_op_ok x"
  shows "map_sum abs_exn abs_account (runR account_step xs a) =
    runR ledger_step (map abs_op xs) (abs_account a)"
  using assms by (rule account_run_refines)

lemma account_refines_ledger_witness:
  "map_sum abs_exn abs_account (runR account_step sample_ops (sample_account 1 400 ACTIVE)) =
    runR ledger_step (map abs_op sample_ops) (abs_account (sample_account 1 400 ACTIVE)) \<and>
   runR ledger_step (map abs_op sample_ops) (abs_account (sample_account 1 400 ACTIVE)) = Inl NotEnough"
proof
  show "map_sum abs_exn abs_account (runR account_step sample_ops (sample_account 1 400 ACTIVE)) =
      runR ledger_step (map abs_op sample_ops) (abs_account (sample_account 1 400 ACTIVE))"
    by (rule account_refines_ledger) (simp_all add: sample_ops_def)
  show "runR ledger_step (map abs_op sample_ops) (abs_account (sample_account 1 400 ACTIVE)) = Inl NotEnough"
    by (simp add: sample_ops_def account_currency_def)
qed

text \<open>C21: The events an account records are a faithful log: replaying those of any successful sequence of
  calls on the state before it, checking each \<open>balance_after\<close> on the way, gives the state after it.\<close>

theorem account_events_replay:
  assumes "account_ok a" and "\<forall>x \<in> set xs. account_op_ok x" and "runR account_step xs a = Inr b"
  shows "\<exists>es. pending b = pending a @ es \<and> replay es (abs_account a) = Some (abs_account b)"
  using assms by (rule account_run_replay)

lemma account_events_replay_witness:
  "\<exists>b es. runR account_step [Debit (eur 200) (uid 7) (reads 2)] (sample_account 1 500 ACTIVE) = Inr b \<and>
     pending b = pending (sample_account 1 500 ACTIVE) @ es \<and>
     replay es (abs_account (sample_account 1 500 ACTIVE)) = Some (abs_account b) \<and> money_cents (balance b) = 300"
proof -
  obtain b where b: "runR account_step [Debit (eur 200) (uid 7) (reads 2)] (sample_account 1 500 ACTIVE) = Inr b"
      "balance b = eur 300"
    by (simp add: account_defs eur_arith)
  have "account_ok (sample_account 1 500 ACTIVE)" "\<forall>x \<in> set [Debit (eur 200) (uid 7) (reads 2)]. account_op_ok x"
    by simp_all
  from account_events_replay [OF this b(1)] b show ?thesis by auto
qed

text \<open>The guards of an account, whatever its balance: CLOSED refuses every call with
  \<open>AccountClosedError\<close>; FROZEN refuses debits and credits with \<open>AccountFrozenError\<close> and accepts
  \<open>unfreeze\<close>; closing an open account with money left raises \<open>AccountNotEmptyError\<close>.\<close>

theorem account_guards:
  "(account_status a = CLOSED \<longrightarrow> account_step x a = Inl (AccountClosedError (entity_id a))) \<and>
   (account_status a = FROZEN \<longrightarrow>
      debit m t r a = Inl (AccountFrozenError (entity_id a)) \<and>
      credit m t r a = Inl (AccountFrozenError (entity_id a)) \<and>
      freeze reason r a = Inr a \<and>
      map_sum id account_status (unfreeze r a) = Inr ACTIVE) \<and>
   (account_status a \<noteq> CLOSED \<longrightarrow> \<not> is_zero (balance a) \<longrightarrow>
      close r a = Inl (AccountNotEmptyError (entity_id a) (balance a)))"
  by (cases x) (simp_all add: account_defs)

lemma account_guards_witness:
  "account_step (Close (reads 1)) (sample_account 1 0 CLOSED) = Inl (AccountClosedError (uid 1)) \<and>
   debit (eur 5) (uid 7) (reads 1) (sample_account 2 10 FROZEN) = Inl (AccountFrozenError (uid 2)) \<and>
   close (reads 1) (sample_account 3 10 ACTIVE) = Inl (AccountNotEmptyError (uid 3) (eur 10))"
  using account_guards [of "sample_account 1 0 CLOSED" "Close (reads 1)" "eur 5" "uid 7" "reads 1" "[]"]
    account_guards [of "sample_account 2 10 FROZEN" "Close (reads 1)" "eur 5" "uid 7" "reads 1" "[]"]
    account_guards [of "sample_account 3 10 ACTIVE" "Close (reads 1)" "eur 5" "uid 7" "reads 1" "[]"]
  by simp

section \<open>Transaction\<close>

text \<open>Initiating a transfer is refused for a zero amount, then for equal accounts; otherwise it
  makes a PENDING transaction with the given data, no failure data and one \<open>TransactionInitiated\<close> event.\<close>

theorem tx_initiate_total:
  "case tx_initiate f t amt key k r of
     Inl e \<Rightarrow> if is_zero amt then e = InvalidTransferAmountError amt
       else f = t \<and> e = SameAccountTransferError f
   | Inr tx \<Rightarrow> \<not> is_zero amt \<and> f \<noteq> t \<and> tx_status tx = PENDING \<and> from_account_id tx = f \<and>
       to_account_id tx = t \<and> tx_amount tx = amt \<and> idempotency_key tx = key \<and> transaction_type tx = k \<and>
       failure_code tx = None \<and> failure_reason tx = None \<and> completed_at tx = None \<and> \<not> rollback_required tx \<and>
       pending tx = [TransactionInitiated (entity_id tx) f t (amount amt) (currency_value (money_currency amt)) key]"
proof (cases "tx_initiate f t amt key k r")
  case (Inl e)
  then show ?thesis by (auto simp: tx_initiate_def Let_def split: if_splits)
next
  case (Inr tx)
  with tx_initiate_Inr [OF Inr] show ?thesis by simp
qed

text \<open>C13: The life cycle of a transaction, as it is: a call that moves the status to \<open>s\<close> exists iff the documented life
  cycle allows \<open>s\<close> next, with one exception that the documentation excludes. \<open>mark_rolled_back\<close>, and no other call, is
  accepted on every FAILED transaction and leaves it FAILED; so it is accepted, against its docstring and that of
  \<open>TransactionRollbackError\<close>, also on a transaction that failed while PENDING and needs no rollback.\<close>

theorem tx_lifecycle_exact:
  "((\<exists>x tx'. tx_step x tx = Inr tx' \<and> tx_status tx' = s) \<longleftrightarrow>
      lifecycle (tx_status tx) s \<or> tx_status tx = FAILED \<and> s = FAILED) \<and>
   (tx_status tx = FAILED \<longrightarrow> (\<forall>x. (\<exists>tx'. tx_step x tx = Inr tx') \<longleftrightarrow> (\<exists>r. x = MarkRolledBack r))) \<and>
   (tx_status tx = PENDING \<longrightarrow> (\<exists>tx1 tx2. tx_step (Fail code reason r) tx = Inr tx1 \<and> \<not> rollback_required tx1 \<and>
      tx_step (MarkRolledBack r') tx1 = Inr tx2 \<and> tx_status tx2 = FAILED))"
proof (intro conjI impI)
  show "(\<exists>x tx'. tx_step x tx = Inr tx' \<and> tx_status tx' = s) \<longleftrightarrow>
      lifecycle (tx_status tx) s \<or> tx_status tx = FAILED \<and> s = FAILED"
  proof
    assume "\<exists>x tx'. tx_step x tx = Inr tx' \<and> tx_status tx' = s"
    then show "lifecycle (tx_status tx) s \<or> tx_status tx = FAILED \<and> s = FAILED"
      using tx_step_lifecycle by blast
  next
    assume "lifecycle (tx_status tx) s \<or> tx_status tx = FAILED \<and> s = FAILED"
    then show "\<exists>x tx'. tx_step x tx = Inr tx' \<and> tx_status tx' = s"
    proof
      assume *: "tx_status tx = FAILED \<and> s = FAILED"
      then show ?thesis by (intro exI [of _ "MarkRolledBack undefined"]) (simp add: tx_defs)
    qed (rule lifecycle_enabled)
  qed
  show "\<forall>x. (\<exists>tx'. tx_step x tx = Inr tx') \<longleftrightarrow> (\<exists>r. x = MarkRolledBack r)" if "tx_status tx = FAILED"
  proof
    show "(\<exists>tx'. tx_step x tx = Inr tx') \<longleftrightarrow> (\<exists>r. x = MarkRolledBack r)" for x
      using that by (cases x) (simp_all add: tx_defs)
  qed
  show "\<exists>tx1 tx2. tx_step (Fail code reason r) tx = Inr tx1 \<and> \<not> rollback_required tx1 \<and>
      tx_step (MarkRolledBack r') tx1 = Inr tx2 \<and> tx_status tx2 = FAILED" if "tx_status tx = PENDING"
    using that by (simp add: tx_defs)
qed

lemma tx_lifecycle_exact_witness:
  "\<exists>tx tx1 tx2. tx_initiate (uid 1) (uid 2) (eur 5) ''k'' TRANSFER (reads 1) = Inr tx \<and>
    tx_step (Fail ''C'' ''why'' (reads 2)) tx = Inr tx1 \<and> \<not> rollback_required tx1 \<and>
    tx_step (MarkRolledBack (reads 3)) tx1 = Inr tx2 \<and> \<not> (\<exists>tx3. tx_step (Complete (reads 4)) tx2 = Inr tx3)"
proof -
  obtain tx where i: "tx_initiate (uid 1) (uid 2) (eur 5) ''k'' TRANSFER (reads 1) = Inr tx"
    by (simp add: tx_initiate_def Let_def uid_inject)
  have "tx_status tx = PENDING" by (rule tx_initiate_Inr(4) [OF i])
  then obtain tx1 tx2 where s: "tx_step (Fail ''C'' ''why'' (reads 2)) tx = Inr tx1" "\<not> rollback_required tx1"
    "tx_step (MarkRolledBack (reads 3)) tx1 = Inr tx2" "tx_status tx2 = FAILED"
    using tx_lifecycle_exact [of tx FAILED "''C''" "''why''" "reads 2" "reads 3"] by blast
  have "\<not> (\<exists>tx3. tx_step (Complete (reads 4)) tx2 = Inr tx3)"
    using tx_lifecycle_exact [of tx2 FAILED "''C''" "''why''" "reads 2" "reads 3"] s(4) by (metis tx_op.distinct)
  with i s show ?thesis by blast
qed

text \<open>C26: Every transaction that \<open>initiate\<close> and the calls can produce is well formed (positive amount,
  different accounts, completion time exactly when COMPLETED, failure data exactly when FAILED), and
  its recorded events tell its history.\<close>

theorem tx_reachable_safe:
  assumes "tx_reachable tx"
  shows "tx_ok tx \<and> tx_history (tx_status tx) (rollback_required tx) (map event_class (pending tx))"
  using assms by (simp add: tx_reachable_ok tx_reachable_history)

lemma tx_reachable_safe_witness:
  "\<exists>tx. tx_status tx = FAILED \<and> tx_ok tx \<and>
     tx_history (tx_status tx) (rollback_required tx) (map event_class (pending tx))"
proof -
  obtain tx where i: "tx_initiate (uid 1) (uid 2) (eur 5) ''k'' TRANSFER (reads 1) = Inr tx"
    by (simp add: tx_initiate_def Let_def uid_inject)
  note pend = tx_initiate_Inr(4) [OF i]
  have r: "tx_reachable tx" by (rule initiated [OF i]) simp
  obtain tx1 where s: "tx_step (MarkProcessing (reads 2)) tx = Inr tx1" "tx_status tx1 = PROCESSING"
    using pend by (simp add: tx_defs)
  obtain tx2 where f: "tx_step (Fail ''C'' ''why'' (reads 3)) tx1 = Inr tx2" "tx_status tx2 = FAILED"
    using s(2) by (simp add: tx_defs)
  have "tx_reachable tx2" by (rule stepped [OF stepped [OF r s(1)] f(1)])
  from tx_reachable_safe [OF this] f(2) show ?thesis by blast
qed

text \<open>Over any sequence of successful calls a transaction keeps its id, accounts, amount, type and
  key, never leaves COMPLETED or FAILED, and a COMPLETED one does not change at all.\<close>

theorem tx_runs_frame:
  assumes "tx_ok tx" and "runR tx_step xs tx = Inr tx'"
  shows "tx_ok tx' \<and> tx_frame tx tx'"
  using tx_ops.run_inv [OF assms(1) _ assms(2)] tx_ops.run_rel [OF assms(1) _ assms(2)] by simp

lemma tx_runs_frame_witness:
  "\<exists>tx'. runR tx_step [MarkProcessing (reads 2), Complete (reads 3)] sample_tx = Inr tx' \<and>
     tx_status tx' = COMPLETED \<and> tx_ok tx' \<and> tx_frame sample_tx tx'"
proof -
  obtain tx' where r: "runR tx_step [MarkProcessing (reads 2), Complete (reads 3)] sample_tx = Inr tx'"
    "tx_status tx' = COMPLETED"
    by (simp add: tx_defs)
  from tx_runs_frame [OF sample_tx_ok r(1)] r show ?thesis by blast
qed

section \<open>Rows\<close>

text \<open>Saving a valid account as a row and reading it back, also when the database returns the
  amount with two more decimal places as its \<open>Numeric(19, 4)\<close> column does, gives the account again
  with no pending events.\<close>

theorem account_row_roundtrip:
  assumes "money_ok (balance a)" and "amount (balance a) = Fin s c (-2)"
  shows "account_to_domain (account_to_new_orm a) = Inr (a\<lparr>domain_events := []\<rparr>) \<and>
    account_to_domain ((account_to_new_orm a)\<lparr>ao_balance := Fin s (c * 100) (-4)\<rparr>) = Inr (a\<lparr>domain_events := []\<rparr>)"
proof
  show "account_to_domain (account_to_new_orm a) = Inr (a\<lparr>domain_events := []\<rparr>)"
    using assms(1) by (rule account_roundtrip)
  have q: "quantize_cents (Fin s (c * 100) (-4)) = Inr (Fin s c (-2))"
    using quantize_scaled [of c s 2] assms by (simp add: money_ok_def)
  have "money_new (Fin s (c * 100) (-4)) cur = money_new (Fin s c (-2)) cur" for cur
    using assms unfolding money_new_def money_post_init_def
    by (simp add: q money_ok_def del: quantize_cents.simps)
  with account_roundtrip [OF assms(1)] assms(2)
  show "account_to_domain ((account_to_new_orm a)\<lparr>ao_balance := Fin s (c * 100) (-4)\<rparr>) = Inr (a\<lparr>domain_events := []\<rparr>)"
    by (simp add: account_to_domain_def account_to_new_orm_def)
qed

lemma account_row_roundtrip_witness:
  "account_to_domain ((account_to_new_orm (sample_account 1 500 FROZEN))\<lparr>ao_balance := Fin False (500 * 100) (-4)\<rparr>) =
     Inr ((sample_account 1 500 FROZEN)\<lparr>domain_events := []\<rparr>)"
  using account_row_roundtrip [of "sample_account 1 500 FROZEN" False 500] by simp

text \<open>C32: The outbox loses nothing of an event: reading the stored payload as JSON gives back the dictionary of the
  event with every text in it as it was, quotes, backslashes and control characters included, and the payloads of a list of events
  determine the events, their order, their times and their exact amounts.\<close>

theorem payload_roundtrip:
  assumes "\<forall>e \<in> set es \<union> set es'. datetime_ok (occurred_at e)"
  shows "map (json_loads \<circ> ob_payload \<circ> outbox_of_event) es = map (\<lambda>e. Some (map (\<lambda>(k, v). (k, json_of v)) (to_dict e))) es \<and>
    (map (ob_payload \<circ> outbox_of_event) es = map (ob_payload \<circ> outbox_of_event) es' \<longleftrightarrow> es = es')"
proof -
  have "ob_payload \<circ> outbox_of_event = to_json" by (auto simp: outbox_of_event_def)
  with payloads_inject [OF assms] show ?thesis by (auto simp: outbox_of_event_def to_json_loads)
qed

text \<open>A reason with a quote and a backslash in it, and an event with another one.\<close>

definition sample_frozen :: "string \<Rightarrow> domain_event" where
  "sample_frozen reason = \<lparr>event_id = uid 1, occurred_at = Datetime 2024 2 29 12 0 0 0, metadata = [(''by'', reason)],
     event_data = AccountFrozen (uid 2) (uid 3) reason\<rparr>"

lemma payload_roundtrip_witness:
  "Option.bind (json_loads (ob_payload (outbox_of_event (sample_frozen [CHR 34, CHR 92])))) (\<lambda>d. map_of d ''reason'') =
      Some (JString [CHR 34, CHR 92]) \<and>
    ob_payload (outbox_of_event (sample_frozen [CHR 34, CHR 92])) \<noteq> ob_payload (outbox_of_event (sample_frozen []))"
proof -
  have "\<forall>e \<in> set [sample_frozen [CHR 34, CHR 92]] \<union> set [sample_frozen []]. datetime_ok (occurred_at e)"
    by (simp add: sample_frozen_def datetime_ok_def)
  from payload_roundtrip [OF this] show ?thesis
    by (simp add: sample_frozen_def to_dict_def asdict_def event_type_def)
qed

text \<open>C39: A transaction's row gives it back without its pending events and without its
  \<open>rollback_required\<close> mark, which no column holds: a transfer that failed after it began no longer
  says that it needs a rollback once it has been loaded. An update writes the row that an insert of
  the changed transaction would.\<close>

theorem tx_row_roundtrip:
  assumes "money_ok (tx_amount tx)" and "tx_frame tx tx'"
  shows "tx_to_domain (tx_to_new_orm tx) = Inr (tx\<lparr>domain_events := [], rollback_required := False\<rparr>) \<and>
    tx_update_orm (tx_to_new_orm tx) tx' = tx_to_new_orm tx' \<and>
    map_sum id needs_rollback (tx_to_domain (tx_to_new_orm tx)) = Inr False"
  using assms by (simp add: tx_roundtrip_eq tx_update_orm_eq needs_rollback_def)

lemma tx_row_roundtrip_witness:
  "\<exists>tx. needs_rollback tx \<and> tx_to_domain (tx_to_new_orm tx) =
     Inr (tx\<lparr>domain_events := [], rollback_required := False\<rparr>)"
proof -
  obtain tx where r: "runR tx_step [MarkProcessing (reads 2), Fail ''C'' ''why'' (reads 3)] sample_tx = Inr tx"
      "needs_rollback tx" "money_ok (tx_amount tx)"
    by (simp add: tx_defs needs_rollback_def)
  from tx_row_roundtrip [OF r(3), of tx] r show ?thesis by (auto simp: tx_frame_def)
qed

end
