(* ===== verification/Simulation.thy ===== *)
theory Simulation
  imports Services
begin

text \<open>
  Services over two units of work that correspond: if one adapter simulates another, operation by
  operation, through an abstraction of its state, then the services do the same over both.
\<close>

section \<open>Programs on objects\<close>

definition abs_uow_state :: "('u \<Rightarrow> 'v) \<Rightarrow> heap \<times> 'u \<Rightarrow> heap \<times> 'v" where
  "abs_uow_state g = (\<lambda>(h, u). (h, g u))"

lemma simulates_objects [intro]:
  "simulates (abs_uow_state g) (read_account r) (read_account r)"
  "simulates (abs_uow_state g) (read_tx r) (read_tx r)"
  "simulates (abs_uow_state g) (new_account a) (new_account a)"
  "simulates (abs_uow_state g) (new_tx t) (new_tx t)"
  "simulates (abs_uow_state g) (on_account r af) (on_account r af)"
  "simulates (abs_uow_state g) (on_tx r tf) (on_tx r tf)"
  "simulates (abs_uow_state g) (collect_account r) (collect_account r)"
  "simulates (abs_uow_state g) (collect_tx r) (collect_tx r)"
  by (auto intro!: simulatesI simp: abs_uow_state_def object_defs getP_apply collect_events_def split: sum.splits)

lemma simulates_case_option [intro]:
  "simulates f n n' \<Longrightarrow> (\<And>x. simulates f (s x) (s' x)) \<Longrightarrow>
     simulates f (case opt of None \<Rightarrow> n | Some x \<Rightarrow> s x) (case opt of None \<Rightarrow> n' | Some x \<Rightarrow> s' x)"
  by (cases opt) auto

lemma simulates_case_prod [intro]:
  "(\<And>x y. simulates f (s x y) (s' x y)) \<Longrightarrow>
     simulates f (case p of (x, y) \<Rightarrow> s x y) (case p of (x, y) \<Rightarrow> s' x y)"
  by (cases p) auto

section \<open>The whole world\<close>

definition abs_world :: "('u \<Rightarrow> 'v) \<Rightarrow> ('u, 'l, 'b) world \<Rightarrow> ('v, 'l, 'b) world" where
  "abs_world g w = \<lparr>w_heap = w_heap w, w_uow = g (w_uow w), w_lock = w_lock w, w_bus = w_bus w\<rparr>"

lemma abs_world_simps [simp]:
  "w_heap (abs_world g w) = w_heap w" "w_uow (abs_world g w) = g (w_uow w)"
  "w_lock (abs_world g w) = w_lock w" "w_bus (abs_world g w) = w_bus w"
  by (simp_all add: abs_world_def)

lemma simulates_in_uow [intro]:
  assumes "simulates (abs_uow_state g) p q"
  shows "simulates (abs_world g) (in_uow p) (in_uow q)"
proof (rule simulatesI)
  fix w
  show "in_uow q (abs_world g w) = (fst (in_uow p w), abs_world g (snd (in_uow p w)))"
    using simulatesD [OF assms, of "(w_heap w, w_uow w)"]
    by (cases "p (w_heap w, w_uow w)") (auto simp: in_uow_def abs_uow_state_def abs_world_def)
qed

lemma simulates_in_lock [intro]: "simulates (abs_world g) (in_lock m) (in_lock m)"
  by (rule simulatesI) (simp add: in_lock_def abs_world_def split: prod.splits)

lemma simulates_in_bus [intro]: "simulates (abs_world g) (in_bus m) (in_bus m)"
  by (rule simulatesI) (simp add: in_bus_def abs_world_def split: prod.splits)

lemma simulates_with_lock [intro]:
  "simulates (abs_world g) p q \<Longrightarrow> simulates (abs_world g) (with_lock L ks p) (with_lock L ks q)"
  unfolding with_lock_def by (intro simulates_withP simulates_in_lock)

section \<open>Units of work\<close>

definition uow_simulates :: "('u \<Rightarrow> 'v) \<Rightarrow> 'u uow_port \<Rightarrow> 'v uow_port \<Rightarrow> bool" where
  "uow_simulates g U V \<longleftrightarrow>
     simulates (abs_uow_state g) (uow_enter U) (uow_enter V) \<and>
     (\<forall>x. simulates (abs_uow_state g) (uow_exit U x) (uow_exit V x)) \<and>
     simulates (abs_uow_state g) (uow_commit U) (uow_commit V) \<and>
     simulates (abs_uow_state g) (uow_rollback U) (uow_rollback V) \<and>
     (\<forall>i. simulates (abs_uow_state g) (acc_get U i) (acc_get V i)) \<and>
     (\<forall>i. simulates (abs_uow_state g) (acc_get_with_lock U i) (acc_get_with_lock V i)) \<and>
     (\<forall>r. simulates (abs_uow_state g) (acc_save U r) (acc_save V r)) \<and>
     (\<forall>r. simulates (abs_uow_state g) (acc_update U r) (acc_update V r)) \<and>
     (\<forall>i. simulates (abs_uow_state g) (acc_exists U i) (acc_exists V i)) \<and>
     (\<forall>i. simulates (abs_uow_state g) (tx_get U i) (tx_get V i)) \<and>
     (\<forall>k. simulates (abs_uow_state g) (tx_get_by_idempotency_key U k) (tx_get_by_idempotency_key V k)) \<and>
     (\<forall>r. simulates (abs_uow_state g) (tx_save U r) (tx_save V r)) \<and>
     (\<forall>r. simulates (abs_uow_state g) (tx_update U r) (tx_update V r))"

lemma uow_simulatesD [intro]:
  assumes "uow_simulates g U V"
  shows "simulates (abs_uow_state g) (uow_enter U) (uow_enter V)"
    "simulates (abs_uow_state g) (uow_exit U x) (uow_exit V x)"
    "simulates (abs_uow_state g) (uow_commit U) (uow_commit V)"
    "simulates (abs_uow_state g) (acc_get U i) (acc_get V i)"
    "simulates (abs_uow_state g) (acc_get_with_lock U i) (acc_get_with_lock V i)"
    "simulates (abs_uow_state g) (acc_save U r) (acc_save V r)"
    "simulates (abs_uow_state g) (acc_update U r) (acc_update V r)"
    "simulates (abs_uow_state g) (tx_get U i) (tx_get V i)"
    "simulates (abs_uow_state g) (tx_get_by_idempotency_key U k) (tx_get_by_idempotency_key V k)"
    "simulates (abs_uow_state g) (tx_save U r) (tx_save V r)"
  using assms by (simp_all add: uow_simulates_def)

lemma with_uow_simulates [intro]:
  "uow_simulates g U V \<Longrightarrow> simulates (abs_uow_state g) p q \<Longrightarrow>
     simulates (abs_uow_state g) (with_uow U p) (with_uow V q)"
  unfolding with_uow_def by (intro simulates_withP uow_simulatesD)

section \<open>The services\<close>

lemmas simulates_intros = simulates_pure simulates_bindP simulates_thenP simulates_tryP simulates_objects
  simulates_case_option simulates_case_prod simulates_in_uow simulates_in_lock simulates_in_bus
  simulates_with_lock with_uow_simulates uow_simulatesD

lemma account_service_simulates:
  assumes "uow_simulates g U V"
  shows "simulates (abs_world g) (account_service_create U cmd r) (account_service_create V cmd r)"
    and "simulates (abs_world g) (account_service_get U i) (account_service_get V i)"
  unfolding account_service_create_def account_service_get_def
  by (intro simulates_intros assms)+

lemma transfer_apply_simulates [intro]:
  "simulates (abs_uow_state g) (transfer_apply s r t amt \<omega>) (transfer_apply s r t amt \<omega>)"
  unfolding transfer_apply_def by (intro simulates_intros)

lemma transfer_failed_simulates [intro]:
  "uow_simulates g U V \<Longrightarrow> simulates (abs_uow_state g) (transfer_failed U t \<omega> e) (transfer_failed V t \<omega> e)"
  unfolding transfer_failed_def by (intro simulates_intros)

lemma load_account_simulates [intro]:
  "uow_simulates g U V \<Longrightarrow> simulates (abs_uow_state g) (load_account U i) (load_account V i)"
  unfolding load_account_def by (intro simulates_intros)

lemma transfer_in_uow_simulates [intro]:
  "uow_simulates g U V \<Longrightarrow>
     simulates (abs_uow_state g) (transfer_in_uow U f t amt key \<omega>) (transfer_in_uow V f t amt key \<omega>)"
  unfolding transfer_in_uow_def
  by (intro simulates_intros load_account_simulates transfer_apply_simulates transfer_failed_simulates)

lemma transfer_publish_simulates [intro]:
  "simulates (abs_world g) (transfer_publish B s r t) (transfer_publish B s r t)"
proof -
  have "simulates (abs_world g) (if es \<noteq> [] then in_bus (bus_publish_many B es) else returnP ())
      (if es \<noteq> [] then in_bus (bus_publish_many B es) else returnP ())" for es
    by auto
  then show ?thesis unfolding transfer_publish_def Let_def by (intro simulates_intros)
qed

lemma transfer_service_simulates:
  assumes "uow_simulates g U V"
  shows "simulates (abs_world g) (transfer_initiate U L B cmd \<omega>) (transfer_initiate V L B cmd \<omega>)"
    and "simulates (abs_world g) (transfer_get U i) (transfer_get V i)"
  unfolding transfer_initiate_def transfer_new_def transfer_existing_def transfer_get_def
  by (intro simulates_intros transfer_in_uow_simulates transfer_publish_simulates assms)+

end
