(* ===== verification/Settings.thy ===== *)
theory Settings
  imports Py_Strings
begin

text \<open>
  The configuration: \<open>src/infrastructure/config/settings.py\<close>. A settings class is a record of its fields, its
  properties are functions, and its defaults are the record that pydantic builds when the environment sets nothing;
  reading the environment and the \<open>.env\<close> file is pydantic's business, so the code that uses the settings takes
  them as an argument.
\<close>

datatype app_env = Development | Staging | Production

datatype log_level = LogDebug | LogInfo | LogWarning | LogError

datatype log_format = JsonLogs | ConsoleLogs

definition int_text :: "int \<Rightarrow> string" where
  "int_text n = (if n < 0 then ''-'' else []) @ nat_str (nat \<bar>n\<bar>)"

record database_settings =
  db_host :: string
  db_port :: int
  db_name :: string
  db_user :: string
  db_password :: string
  db_pool_size :: int
  db_max_overflow :: int

definition database_defaults :: database_settings where
  "database_defaults = \<lparr>db_host = ''localhost'', db_port = 5432, db_name = ''banking_db'', db_user = ''banking_user'',
     db_password = ''banking_pass'', db_pool_size = 10, db_max_overflow = 20\<rparr>"

definition database_url :: "database_settings \<Rightarrow> string" where
  "database_url d = ''postgresql+asyncpg://'' @ db_user d @ '':'' @ db_password d @ ''@'' @ db_host d @ '':'' @
     int_text (db_port d) @ ''/'' @ db_name d"

record redis_settings =
  redis_host :: string
  redis_port_number :: int
  redis_db :: int
  lock_ttl_seconds :: int

definition redis_defaults :: redis_settings where
  "redis_defaults = \<lparr>redis_host = ''localhost'', redis_port_number = 6379, redis_db = 0, lock_ttl_seconds = 30\<rparr>"

definition redis_url :: "redis_settings \<Rightarrow> string" where
  "redis_url r = ''redis://'' @ redis_host r @ '':'' @ int_text (redis_port_number r) @ ''/'' @ int_text (redis_db r)"

record security_settings =
  jwt_secret :: string
  jwt_algorithm :: string

definition security_defaults :: security_settings where
  "security_defaults = \<lparr>jwt_secret = ''dev-secret-change-in-production'', jwt_algorithm = ''HS256''\<rparr>"

record observability_settings =
  os_log_level :: log_level
  os_log_format :: log_format

definition observability_defaults :: observability_settings where
  "observability_defaults = \<lparr>os_log_level = LogInfo, os_log_format = ConsoleLogs\<rparr>"

record settings =
  st_app_env :: app_env
  st_app_name :: string
  st_app_version :: string
  st_app_host :: string
  st_app_port :: int
  st_debug :: bool
  st_database :: database_settings
  st_redis :: redis_settings
  st_security :: security_settings
  st_observability :: observability_settings

definition settings_defaults :: settings where
  "settings_defaults = \<lparr>st_app_env = Development, st_app_name = ''banking-system'', st_app_version = ''0.1.0'',
     st_app_host = ''0.0.0.0'', st_app_port = 8000, st_debug = False, st_database = database_defaults,
     st_redis = redis_defaults, st_security = security_defaults, st_observability = observability_defaults\<rparr>"

definition is_production :: "settings \<Rightarrow> bool" where
  "is_production s = (st_app_env s = Production)"

definition is_development :: "settings \<Rightarrow> bool" where
  "is_development s = (st_app_env s = Development)"

end
