(* ===== verification/Http.thy ===== *)
theory Http
  imports Services Settings "HOL-Library.AList"
begin

text \<open>
  The HTTP adapter: authentication (\<open>middleware/auth.py\<close>), the exception handlers, the request and response schemas
  and the endpoints of the four routers.

  \<^item> An endpoint is a program over the world of the services; what it raises is a \<open>fault\<close>: an \<open>HTTPException\<close> or any
    other exception. \<open>respond\<close> is what the registered handlers make of its outcome.
  \<^item> A request is the two things of it the code reads: the \<open>X-Dev-User-Id\<close> header and the bearer credentials. Parsing
    the path, the headers and the JSON body is FastAPI's and pydantic's business: an endpoint gets its parsed body, and
    the constraints the schemas declare are predicates on it.
  \<^item> The settings are an argument of the code that reads them.
\<close>

section \<open>Faults and responses\<close>

datatype fault = HttpError nat string "(string \<times> string) list" | Fault exn

record account_response =
  ar_id :: uuid
  ar_owner_id :: uuid
  ar_account_number :: string
  ar_balance :: decimal
  ar_currency :: string
  ar_status :: string

record transaction_response =
  tr_id :: uuid
  tr_from_account_id :: uuid
  tr_to_account_id :: uuid
  tr_amount :: decimal
  tr_currency :: string
  tr_status :: string
  tr_idempotency_key :: string
  tr_failure_code :: "string option"
  tr_failure_reason :: "string option"
  tr_created_at :: datetime
  tr_completed_at :: "datetime option"

record dev_token_response =
  dt_token :: string
  dt_user_id :: uuid
  dt_instructions :: string

datatype body =
    AccountBody account_response
  | TransactionBody transaction_response
  | TokenBody dev_token_response
  | HealthBody string
  | ErrorBody string string
  | DetailBody string

record response =
  rs_status :: nat
  rs_body :: body
  rs_headers :: "(string \<times> string) list"

section \<open>Exception handlers\<close>

definition status_map :: "exn \<Rightarrow> nat option" where
  "status_map e = (case e of
       InvalidTransferAmountError _ \<Rightarrow> Some 400
     | SameAccountTransferError _ \<Rightarrow> Some 400
     | CurrencyMismatchError _ _ \<Rightarrow> Some 400
     | ResourceNotFoundError _ _ \<Rightarrow> Some 404
     | ConcurrencyConflictError _ \<Rightarrow> Some 409
     | TransactionAlreadyProcessingError _ _ \<Rightarrow> Some 409
     | DuplicateIdempotencyKeyError _ _ \<Rightarrow> Some 409
     | InsufficientFundsError _ _ \<Rightarrow> Some 422
     | AccountFrozenError _ \<Rightarrow> Some 422
     | AccountClosedError _ \<Rightarrow> Some 422
     | AccountNotEmptyError _ _ \<Rightarrow> Some 422
     | TransactionAlreadyCompletedError _ _ \<Rightarrow> Some 422
     | TransactionNotFailableError _ _ \<Rightarrow> Some 422
     | _ \<Rightarrow> None)"

definition error_response :: "exn \<Rightarrow> nat \<Rightarrow> response" where
  "error_response e status = \<lparr>rs_status = status, rs_body = ErrorBody (exn_name e) (exn_str e), rs_headers = []\<rparr>"

definition domain_exception_handler :: "exn \<Rightarrow> response" where
  "domain_exception_handler e = error_response e (case status_map e of None \<Rightarrow> 500 | Some n \<Rightarrow> n)"

definition unhandled_exception_handler :: "exn \<Rightarrow> response" where
  "unhandled_exception_handler e = error_response e 500"

text \<open>\<open>HTTPException\<close> has FastAPI's own handler; the two registered ones get the rest, the closer class first.\<close>

fun handle_fault :: "fault \<Rightarrow> response" where
  "handle_fault (HttpError status detail headers) =
     \<lparr>rs_status = status, rs_body = DetailBody detail, rs_headers = headers\<rparr>"
| "handle_fault (Fault e) =
     (if is_domain_exception e then domain_exception_handler e else unhandled_exception_handler e)"

definition respond :: "nat \<Rightarrow> ('w, fault, body) prog \<Rightarrow> 'w \<Rightarrow> response \<times> 'w" where
  "respond status endpoint w = (case endpoint w of
       (Inl f, w') \<Rightarrow> (handle_fault f, w')
     | (Inr b, w') \<Rightarrow> (\<lparr>rs_status = status, rs_body = b, rs_headers = []\<rparr>, w'))"

text \<open>A call of a service, whose exceptions go on.\<close>

definition callP :: "('w, exn, 'a) prog \<Rightarrow> ('w, fault, 'a) prog" where
  "callP m = (\<lambda>w. case m w of (Inl e, w') \<Rightarrow> (Inl (Fault e), w') | (Inr x, w') \<Rightarrow> (Inr x, w'))"

section \<open>Authentication\<close>

record auth_user =
  au_user_id :: uuid
  au_roles :: "string list"

definition has_role :: "auth_user \<Rightarrow> string \<Rightarrow> bool" where
  "has_role u role \<longleftrightarrow> role \<in> set (au_roles u)"

definition can_access_account :: "auth_user \<Rightarrow> uuid \<Rightarrow> bool" where
  "can_access_account u account_owner_id \<longleftrightarrow> has_role u ''admin'' \<or> au_user_id u = account_owner_id"

record http_request =
  rq_dev_user_id :: "string option"
  rq_credentials :: "string option"

definition parse_dev_token :: "string \<Rightarrow> uuid option" where
  "parse_dev_token token = (if starts_with ''dev:'' token then uuid_of_str (drop 4 token) else None)"

definition bearer_challenge :: "(string \<times> string) list" where
  "bearer_challenge = [(''WWW-Authenticate'', ''Bearer'')]"

text \<open>The claims a validated token would have: the subject and, optionally, the roles.\<close>

record jwt_payload =
  jp_sub :: string
  jp_roles :: "string list option"

definition validate_jwt :: "string \<Rightarrow> fault + jwt_payload" where
  "validate_jwt token =
     Inl (HttpError 401 ''JWT validation not implemented. Use dev token in development.'' bearer_challenge)"

definition jwt_user :: "string \<Rightarrow> fault + auth_user" where
  "jwt_user token =
     bindR (validate_jwt token) (\<lambda>payload. case uuid_of_str (jp_sub payload) of
         None \<Rightarrow> Inl (Fault (ValueErr ''badly formed hexadecimal UUID string''))
       | Some u \<Rightarrow> Inr \<lparr>au_user_id = u, au_roles = (case jp_roles payload of None \<Rightarrow> [''user''] | Some rs \<Rightarrow> rs)\<rparr>)"

text \<open>The end of \<open>get_current_user\<close>, for production and for what development did not accept.\<close>

definition production_user :: "http_request \<Rightarrow> fault + auth_user" where
  "production_user rq = (case rq_credentials rq of
       None \<Rightarrow> Inl (HttpError 401 ''Authentication required.'' bearer_challenge)
     | Some token \<Rightarrow> jwt_user token)"

definition get_current_user :: "settings \<Rightarrow> http_request \<Rightarrow> fault + auth_user" where
  "get_current_user S rq =
     (if is_development S then
        (case rq_dev_user_id rq of
           Some (c # cs) \<Rightarrow> (case uuid_of_str (c # cs) of
               Some u \<Rightarrow> Inr \<lparr>au_user_id = u, au_roles = [''user'']\<rparr>
             | None \<Rightarrow> Inl (HttpError 400 ''X-Dev-User-Id must be a valid UUID.'' []))
         | _ \<Rightarrow> (case Option.bind (rq_credentials rq) parse_dev_token of
               Some u \<Rightarrow> Inr \<lparr>au_user_id = u, au_roles = [''user'']\<rparr>
             | None \<Rightarrow> production_user rq))
      else production_user rq)"

definition require_admin :: "settings \<Rightarrow> http_request \<Rightarrow> fault + auth_user" where
  "require_admin S rq =
     bindR (get_current_user S rq) (\<lambda>u.
       if has_role u ''admin'' then Inr u else Inl (HttpError 403 ''Admin role required.'' []))"

text \<open>\<open>POST /auth/dev-token\<close>; \<open>fresh\<close> is what \<open>uuid4()\<close> would return.\<close>

definition get_dev_token :: "settings \<Rightarrow> uuid option \<Rightarrow> uuid \<Rightarrow> fault + dev_token_response" where
  "get_dev_token S requested fresh =
     (if is_production S then Inl (HttpError 403 ''Dev token endpoint is disabled in production.'' [])
      else let user_id = (case requested of Some u \<Rightarrow> u | None \<Rightarrow> fresh) in
        Inr \<lparr>dt_token = ''dev:'' @ uuid_str user_id, dt_user_id = user_id,
             dt_instructions = ''Add this header to every request: X-Dev-User-Id: '' @ uuid_str user_id @
               ''  OR use Bearer token in Authorization header.''\<rparr>)"

section \<open>Schemas\<close>

record create_account_request =
  car_currency :: currency
  car_initial_balance :: decimal

record transfer_request =
  trq_from_account_id :: uuid
  trq_to_account_id :: uuid
  trq_amount :: decimal
  trq_currency :: currency
  trq_idempotency_key :: string

text \<open>The declared constraints; pydantic takes finite decimals only.\<close>

fun is_finite :: "decimal \<Rightarrow> bool" where
  "is_finite (Fin s c e) = True"
| "is_finite d = False"

definition create_account_request_ok :: "create_account_request \<Rightarrow> bool" where
  "create_account_request_ok b \<longleftrightarrow>
     is_finite (car_initial_balance b) \<and> dec_lt (car_initial_balance b) dec_zero = Inr False"

definition transfer_request_ok :: "transfer_request \<Rightarrow> bool" where
  "transfer_request_ok b \<longleftrightarrow>
     is_finite (trq_amount b) \<and> dec_lt dec_zero (trq_amount b) = Inr True \<and>
     1 \<le> length (trq_idempotency_key b) \<and> length (trq_idempotency_key b) \<le> 255"

definition account_response_of :: "account_dto \<Rightarrow> exn + account_response" where
  "account_response_of dto =
     bindR (parse_currency (ad_currency dto)) (\<lambda>cur.
       Inr \<lparr>ar_id = ad_id dto, ar_owner_id = ad_owner_id dto, ar_account_number = ad_account_number dto,
            ar_balance = ad_balance dto, ar_currency = currency_value cur, ar_status = ad_status dto\<rparr>)"

definition transaction_response_of :: "transaction_dto \<Rightarrow> exn + transaction_response" where
  "transaction_response_of dto =
     bindR (parse_currency (td_currency dto)) (\<lambda>cur.
       Inr \<lparr>tr_id = td_id dto, tr_from_account_id = td_from_account_id dto, tr_to_account_id = td_to_account_id dto,
            tr_amount = td_amount dto, tr_currency = currency_value cur, tr_status = td_status dto,
            tr_idempotency_key = td_idempotency_key dto, tr_failure_code = td_failure_code dto,
            tr_failure_reason = td_failure_reason dto, tr_created_at = td_created_at dto,
            tr_completed_at = td_completed_at dto\<rparr>)"

section \<open>Endpoints\<close>

definition create_account ::
  "settings \<Rightarrow> 'w account_service_port \<Rightarrow> http_request \<Rightarrow> create_account_request \<Rightarrow> readings
   \<Rightarrow> ('w, fault, body) prog" where
  "create_account S service rq b r =
     bindP (liftP (get_current_user S rq)) (\<lambda>current_user.
     bindP (callP (as_create service \<lparr>cac_owner_id = au_user_id current_user,
         cac_currency = currency_value (car_currency b), cac_initial_balance = car_initial_balance b\<rparr> r)) (\<lambda>dto.
     bindP (callP (liftP (account_response_of dto))) (\<lambda>a. returnP (AccountBody a))))"

definition get_account ::
  "settings \<Rightarrow> 'w account_service_port \<Rightarrow> http_request \<Rightarrow> uuid \<Rightarrow> ('w, fault, body) prog" where
  "get_account S service rq account_id =
     bindP (liftP (get_current_user S rq)) (\<lambda>current_user.
     bindP (callP (as_get service account_id)) (\<lambda>dto.
       if \<not> can_access_account current_user (ad_owner_id dto)
       then raiseP (HttpError 403 ''You do not have access to this account.'' [])
       else bindP (callP (liftP (account_response_of dto))) (\<lambda>a. returnP (AccountBody a))))"

text \<open>As it is defined, with two parameters.\<close>

definition get_account_or_403 ::
  "'w account_service_port \<Rightarrow> uuid \<Rightarrow> auth_user \<Rightarrow> ('w, fault, unit) prog" where
  "get_account_or_403 service account_id current_user = (\<lambda>w. case as_get service account_id w of
       (Inl _, w') \<Rightarrow> (Inr (), w')
     | (Inr dto, w') \<Rightarrow>
         if \<not> can_access_account current_user (ad_owner_id dto)
         then (Inl (HttpError 403 ''You do not own this account.'' []), w')
         else (Inr (), w'))"

text \<open>How Python binds positional arguments to the parameters of a function that has no defaults.\<close>

definition and_list :: "string list \<Rightarrow> string" where
  "and_list xs = (case xs of [] \<Rightarrow> [] | [a] \<Rightarrow> a | [a, b] \<Rightarrow> a @ '' and '' @ b
     | _ \<Rightarrow> join '', '' (butlast xs) @ '', and '' @ last xs)"

definition bind_positional :: "string \<Rightarrow> string list \<Rightarrow> 'a list \<Rightarrow> exn + 'a list" where
  "bind_positional f params args =
     (let n = length params; m = length args; plural = (\<lambda>k. if k = 1 then [] else ''s'') in
      if n < m then Inl (TypeErr (f @ ''() takes '' @ nat_str n @ '' positional argument'' @ plural n @ '' but '' @ nat_str m @
        (if m = 1 then '' was'' else '' were'') @ '' given''))
      else if m < n then Inl (TypeErr (f @ ''() missing '' @ nat_str (n - m) @ '' required positional argument'' @ plural (n - m) @
        '': '' @ and_list (map quote (drop m params))))
      else Inr args)"

text \<open>The call with its arguments; the body runs when they can be bound. Python does not look at their types, so an
  argument of another kind would fail in the body.\<close>

datatype call_argument = AccountIdArgument uuid | UserArgument auth_user | ServiceArgument

definition call_get_account_or_403 :: "'w account_service_port \<Rightarrow> call_argument list \<Rightarrow> ('w, fault, unit) prog" where
  "call_get_account_or_403 accounts args =
     bindP (callP (liftP (bind_positional ''_get_account_or_403'' [''account_id'', ''current_user''] args))) (\<lambda>bound.
       case bound of [AccountIdArgument i, UserArgument u] \<Rightarrow> get_account_or_403 accounts i u
       | _ \<Rightarrow> raiseP (Fault (ExternalError ''AttributeError'' [])))"

text \<open>The arguments that \<open>initiate_transfer\<close> passes: \<open>body.from_account_id, current_user, service\<close>.\<close>

definition ownership_arguments :: "transfer_request \<Rightarrow> auth_user \<Rightarrow> call_argument list" where
  "ownership_arguments b current_user = [AccountIdArgument (trq_from_account_id b), UserArgument current_user, ServiceArgument]"

definition initiate_transfer ::
  "settings \<Rightarrow> 'w account_service_port \<Rightarrow> 'w transfer_service_port \<Rightarrow> http_request \<Rightarrow> transfer_request \<Rightarrow> (nat \<Rightarrow> readings)
   \<Rightarrow> ('w, fault, body) prog" where
  "initiate_transfer S accounts service rq b \<omega> =
     bindP (liftP (get_current_user S rq)) (\<lambda>current_user.
     thenP (call_get_account_or_403 accounts (ownership_arguments b current_user))
     (bindP (callP (ts_initiate service \<lparr>tc_from_account_id = trq_from_account_id b,
          tc_to_account_id = trq_to_account_id b, tc_amount = trq_amount b,
          tc_currency = currency_value (trq_currency b), tc_idempotency_key = trq_idempotency_key b\<rparr> \<omega>)) (\<lambda>dto.
      bindP (callP (liftP (transaction_response_of dto))) (\<lambda>t. returnP (TransactionBody t)))))"

lemma ownership_check_unbound:
  "call_get_account_or_403 A (ownership_arguments b u) =
     raiseP (Fault (TypeErr ''_get_account_or_403() takes 2 positional arguments but 3 were given''))"
proof -
  have "nat_str 2 = ''2''" "nat_str 3 = ''3''" by code_simp+
  then have "bind_positional ''_get_account_or_403'' [''account_id'', ''current_user''] (ownership_arguments b u) =
      Inl (TypeErr ''_get_account_or_403() takes 2 positional arguments but 3 were given'')"
    by (simp add: bind_positional_def ownership_arguments_def numeral_2_eq_2 numeral_3_eq_3)
  then show ?thesis
    by (simp add: call_get_account_or_403_def fun_eq_iff bindP_apply callP_def liftP_apply raiseP_apply)
qed

lemma ownership_check_bound:
  "call_get_account_or_403 A [AccountIdArgument i, UserArgument u] = get_account_or_403 A i u"
  by (simp add: call_get_account_or_403_def bind_positional_def fun_eq_iff bindP_apply callP_def liftP_apply)

text \<open>No dependency on the current user.\<close>

definition get_transaction ::
  "'w transfer_service_port \<Rightarrow> uuid \<Rightarrow> ('w, fault, body) prog" where
  "get_transaction service transaction_id =
     bindP (callP (ts_get service transaction_id)) (\<lambda>dto.
     bindP (callP (liftP (transaction_response_of dto))) (\<lambda>t. returnP (TransactionBody t)))"

definition health :: "('w, fault, body) prog" where
  "health = returnP (HealthBody ''ok'')"

text \<open>The request id of a request: the client's, or a new one; the response carries it.\<close>

definition with_request_id :: "string option \<Rightarrow> uuid \<Rightarrow> response \<Rightarrow> response" where
  "with_request_id given fresh resp =
     (let request_id = (case given of Some i \<Rightarrow> i | None \<Rightarrow> uuid_str fresh) in
      resp\<lparr>rs_headers := AList.update ''X-Request-ID'' request_id (rs_headers resp)\<rparr>)"

end
