(* ===== verification/Logging.thy ===== *)
theory Logging
  imports Settings Exceptions
begin

text \<open>
  Logging: \<open>src/infrastructure/logging/setup.py\<close>, over the part of Python's \<open>logging\<close> that it configures, and the log
  context of \<open>RequestIdMiddleware\<close>.

  \<^item> \<open>logging\<close> is the module's state: of each logger the level set on it (0: none), its handlers, and whether its records go
    on to the logger above; and structlog's processors. A logger's own level counts before its ancestors'
    (\<open>effective_level\<close>); a record reaches the handlers from its logger up to the first one that does not propagate
    (\<open>reached_handlers\<close>).
  \<^item> \<open>setup_logging\<close> changes that state; \<open>log_lines\<close> is what a log call then writes: one line per handler, at a handler
    of \<open>setup_logging\<close> an event dictionary that went through the chain of processors and was rendered by the last one.
  \<^item> The processors are structlog's; what they do to the dictionary is a parameter with the documented laws
    \<open>processor_laws\<close>. The program uses no logger before \<open>setup_logging\<close>, so none has cached another configuration.
\<close>

section \<open>Loggers and levels\<close>

datatype processor =
    MergeContextvars
  | AddLogLevel
  | AddLoggerName
  | TimeStamper string bool
  | FormatExcInfo
  | WrapForFormatter
  | RemoveProcessorsMeta
  | JSONRenderer
  | ConsoleRenderer bool

record formatter =
  fm_processors :: "processor list"
  fm_foreign_pre_chain :: "processor list"

record structlog_config =
  sc_processors :: "processor list"
  sc_logger_factory :: string
  sc_wrapper_class :: string
  sc_cache_logger_on_first_use :: bool

text \<open>A handler of \<open>setup_logging\<close>, or one that somebody else has added, for instance the web server.\<close>

datatype handler = StdoutHandler formatter | ForeignHandler string

record logging =
  lg_levels :: "string \<Rightarrow> int"
  lg_handlers :: "string \<Rightarrow> handler list"
  lg_propagate :: "string \<Rightarrow> bool"
  lg_structlog :: structlog_config

text \<open>\<open>logging._checkLevel\<close> on a text: the standard names, or ValueError.\<close>

definition check_level :: "string \<Rightarrow> exn + int" where
  "check_level name = (case map_of [(''CRITICAL'', 50), (''FATAL'', 50), (''ERROR'', 40), (''WARN'', 30), (''WARNING'', 30),
       (''INFO'', 20), (''DEBUG'', 10), (''NOTSET'', 0)] name of
     None \<Rightarrow> Inl (ValueErr (''Unknown level: '' @ quote name)) | Some n \<Rightarrow> Inr n)"

definition level_warning :: int where
  "level_warning = 30"

text \<open>The logger above: the name up to the last dot, or the root, whose name is empty here.\<close>

definition parent_name :: "string \<Rightarrow> string" where
  "parent_name name = rev (drop 1 (dropWhile (\<lambda>c. c \<noteq> CHR ''.'') (rev name)))"

lemma parent_name_shorter: "name \<noteq> [] \<Longrightarrow> length (parent_name name) < length name"
proof -
  assume "name \<noteq> []"
  then have "0 < length name" by simp
  moreover have "length (dropWhile (\<lambda>c. c \<noteq> CHR ''.'') (rev name)) \<le> length name"
    using length_dropWhile_le [of "\<lambda>c. c \<noteq> CHR ''.''" "rev name"] by simp
  ultimately show ?thesis unfolding parent_name_def by (simp del: length_greater_0_conv)
qed

function effective_level :: "(string \<Rightarrow> int) \<Rightarrow> string \<Rightarrow> int" where
  "effective_level levels name =
     (if levels name \<noteq> 0 \<or> name = [] then levels name else effective_level levels (parent_name name))"
  by auto
termination by (relation "measure (\<lambda>(levels, name). length name)") (auto intro: parent_name_shorter)

declare effective_level.simps [simp del]

function reached_handlers :: "logging \<Rightarrow> string \<Rightarrow> handler list" where
  "reached_handlers g name =
     lg_handlers g name @ (if name = [] \<or> \<not> lg_propagate g name then [] else reached_handlers g (parent_name name))"
  by auto
termination by (relation "measure (\<lambda>(g, name). length name)") (auto intro: parent_name_shorter)

declare reached_handlers.simps [simp del]

section \<open>The configuration\<close>

definition shared_processors :: "processor list" where
  "shared_processors = [MergeContextvars, AddLogLevel, AddLoggerName, TimeStamper ''iso'' True, FormatExcInfo]"

definition log_renderer :: "bool \<Rightarrow> processor" where
  "log_renderer json_logs = (if json_logs then JSONRenderer else ConsoleRenderer True)"

definition log_formatter :: "bool \<Rightarrow> formatter" where
  "log_formatter json_logs = \<lparr>fm_processors = [RemoveProcessorsMeta, log_renderer json_logs],
     fm_foreign_pre_chain = shared_processors\<rparr>"

definition structlog_configure :: "(logging, exn, unit) prog" where
  "structlog_configure = modifyP (\<lambda>g. g\<lparr>lg_structlog := \<lparr>sc_processors = shared_processors @ [WrapForFormatter],
     sc_logger_factory = ''structlog.stdlib.LoggerFactory'', sc_wrapper_class = ''structlog.stdlib.BoundLogger'',
     sc_cache_logger_on_first_use = True\<rparr>\<rparr>)"

definition set_level :: "string \<Rightarrow> int \<Rightarrow> (logging, exn, unit) prog" where
  "set_level name level = modifyP (\<lambda>g. g\<lparr>lg_levels := (lg_levels g)(name := level)\<rparr>)"

definition add_handler :: "string \<Rightarrow> handler \<Rightarrow> (logging, exn, unit) prog" where
  "add_handler name h = modifyP (\<lambda>g. g\<lparr>lg_handlers := (lg_handlers g)(name := lg_handlers g name @ [h])\<rparr>)"

definition setup_logging :: "string \<Rightarrow> bool \<Rightarrow> (logging, exn, unit) prog" where
  "setup_logging level json_logs =
     thenP structlog_configure
    (thenP (add_handler [] (StdoutHandler (log_formatter json_logs)))
    (thenP (bindP (liftP (check_level (upper_str level))) (set_level []))
    (thenP (set_level ''sqlalchemy.engine'' level_warning)
           (set_level ''uvicorn.access'' level_warning))))"

text \<open>What the application's settings can ask for.\<close>

definition log_level_value :: "log_level \<Rightarrow> string" where
  "log_level_value l = (case l of LogDebug \<Rightarrow> ''DEBUG'' | LogInfo \<Rightarrow> ''INFO'' | LogWarning \<Rightarrow> ''WARNING'' | LogError \<Rightarrow> ''ERROR'')"

definition level_number :: "log_level \<Rightarrow> int" where
  "level_number l = (case l of LogDebug \<Rightarrow> 10 | LogInfo \<Rightarrow> 20 | LogWarning \<Rightarrow> 30 | LogError \<Rightarrow> 40)"

lemma check_level_value: "check_level (upper_str (log_level_value l)) = Inr (level_number l)"
proof -
  have "check_level (upper_str (log_level_value LogDebug)) = Inr (level_number LogDebug)" by code_simp
  moreover have "check_level (upper_str (log_level_value LogInfo)) = Inr (level_number LogInfo)" by code_simp
  moreover have "check_level (upper_str (log_level_value LogWarning)) = Inr (level_number LogWarning)" by code_simp
  moreover have "check_level (upper_str (log_level_value LogError)) = Inr (level_number LogError)" by code_simp
  ultimately show ?thesis by (cases l) (simp_all only:)
qed

section \<open>Log calls\<close>

type_synonym event_dict = "string \<rightharpoonup> string"

text \<open>A call through \<open>get_logger\<close>, or a record of a library that uses \<open>logging\<close> directly.\<close>

record log_call =
  lc_logger :: string
  lc_level :: int
  lc_event :: event_dict
  lc_structlog :: bool

text \<open>\<open>get_logger(name)\<close>: its methods \<open>debug\<close>, \<open>info\<close>, \<open>warning\<close> make the call with their level.\<close>

definition get_logger :: "string \<Rightarrow> int \<Rightarrow> event_dict \<Rightarrow> log_call" where
  "get_logger name level event = \<lparr>lc_logger = name, lc_level = level, lc_event = event, lc_structlog = True\<rparr>"

text \<open>The keys of the dictionary that a processor may set or drop.\<close>

fun touched :: "processor \<Rightarrow> string set" where
  "touched AddLogLevel = {''level''}"
| "touched AddLoggerName = {''logger''}"
| "touched (TimeStamper fmt utc) = {''timestamp''}"
| "touched FormatExcInfo = {''exc_info'', ''exception''}"
| "touched RemoveProcessorsMeta = {''_record'', ''_from_structlog''}"
| "touched p = {}"

type_synonym processors = "event_dict \<Rightarrow> log_call \<Rightarrow> processor \<Rightarrow> event_dict \<Rightarrow> event_dict"

definition processor_laws :: "processors \<Rightarrow> bool" where
  "processor_laws run \<longleftrightarrow>
     (\<forall>ctx c d. run ctx c MergeContextvars d = ctx ++ d) \<and>
     (\<forall>ctx c d. run ctx c AddLoggerName d ''logger'' = Some (lc_logger c)) \<and>
     (\<forall>ctx c p d k. p \<noteq> MergeContextvars \<longrightarrow> k \<notin> touched p \<longrightarrow> run ctx c p d k = d k)"

text \<open>The chain of a call at one handler: structlog's own before the formatter's; \<open>wrap_for_formatter\<close> hands the
  dictionary over as it is.\<close>

definition call_chain :: "logging \<Rightarrow> log_call \<Rightarrow> formatter \<Rightarrow> processor list" where
  "call_chain g c f = (if lc_structlog c then sc_processors (lg_structlog g) else fm_foreign_pre_chain f) @ fm_processors f"

text \<open>A record that reaches no handler goes to Python's handler of last resort, from WARNING on.\<close>

datatype log_line = Line processor event_dict | ForeignLine string

definition log_lines :: "processors \<Rightarrow> logging \<Rightarrow> event_dict \<Rightarrow> log_call \<Rightarrow> log_line list" where
  "log_lines run g ctx c =
     (if lc_level c < effective_level (lg_levels g) (lc_logger c) then []
      else case reached_handlers g (lc_logger c) of
          [] \<Rightarrow> if lc_level c < level_warning then [] else [ForeignLine ''lastResort'']
        | hs \<Rightarrow> map (\<lambda>h. case h of
              StdoutHandler f \<Rightarrow> Line (last (call_chain g c f)) (fold (run ctx c) (call_chain g c f) (lc_event c))
            | ForeignHandler n \<Rightarrow> ForeignLine n) hs)"

section \<open>The log context of a request\<close>

text \<open>\<open>clear_contextvars\<close> and \<open>bind_contextvars\<close> at the start of \<open>dispatch\<close>.\<close>

definition request_context :: "string option \<Rightarrow> uuid \<Rightarrow> event_dict \<Rightarrow> event_dict" where
  "request_context given fresh ctx = Map.empty(''request_id'' \<mapsto> (case given of Some i \<Rightarrow> i | None \<Rightarrow> uuid_str fresh))"

section \<open>Which logger counts\<close>

definition below :: "string \<Rightarrow> string \<Rightarrow> bool" where
  "below p name \<longleftrightarrow> name = p \<or> (\<exists>s. name = p @ ''.'' @ s)"

lemma parent_name_last: "CHR ''.'' \<notin> set y \<Longrightarrow> parent_name (x @ CHR ''.'' # y) = x"
  unfolding parent_name_def by simp (subst dropWhile_append2, auto)

lemma parent_name_dots: "CHR ''.'' \<in> set y \<Longrightarrow> parent_name (x @ CHR ''.'' # y) = x @ CHR ''.'' # parent_name y"
  using split_list_last [of "CHR ''.''" y] parent_name_last [of _ "x @ CHR ''.'' # ys" for ys]
  by (auto simp: parent_name_last)

lemma parent_name_no_dot: "CHR ''.'' \<notin> set name \<Longrightarrow> parent_name name = []"
proof -
  assume "CHR ''.'' \<notin> set name"
  then have none: "dropWhile (\<lambda>c. c \<noteq> CHR ''.'') (rev name) = []" unfolding dropWhile_eq_Nil_conv by auto
  show ?thesis unfolding parent_name_def none by simp
qed

text \<open>A logger is below \<open>p\<close> exactly when it is \<open>p\<close> or its parent is below \<open>p\<close>.\<close>

lemma below_parent:
  assumes "p \<noteq> []"
  shows "below p name \<longleftrightarrow> name = p \<or> name \<noteq> [] \<and> below p (parent_name name)"
proof
  assume "below p name"
  then consider "name = p" | s where "name = p @ CHR ''.'' # s" by (auto simp: below_def)
  then show "name = p \<or> name \<noteq> [] \<and> below p (parent_name name)"
  proof cases
    case 2
    then show ?thesis
      by (cases "CHR ''.'' \<in> set s") (auto simp: parent_name_last parent_name_dots below_def)
  qed simp
next
  assume "name = p \<or> name \<noteq> [] \<and> below p (parent_name name)"
  then show "below p name"
  proof
    assume parent: "name \<noteq> [] \<and> below p (parent_name name)"
    show ?thesis
    proof (cases "CHR ''.'' \<in> set name")
      case True
      then obtain x y where n: "name = x @ CHR ''.'' # y" "CHR ''.'' \<notin> set y" by (auto dest: split_list_last)
      then have "parent_name name = x" by (simp add: parent_name_last)
      with parent n(1) show ?thesis by (auto simp: below_def)
    next
      case False
      with parent assms show ?thesis by (auto simp: parent_name_no_dot below_def)
    qed
  qed (simp add: below_def)
qed

lemma below_root: "p \<noteq> [] \<Longrightarrow> \<not> below p []"
  by (simp add: below_def)

text \<open>What counts for a logger is what is set on itself, on the loggers above it, and on the root.\<close>

lemma effective_level_path:
  assumes "\<forall>n. n \<noteq> [] \<longrightarrow> below n name \<longrightarrow> levels n = (if n \<in> set ps then l else 0)" and "levels [] = b" and "l \<noteq> 0"
    and "\<forall>p \<in> set ps. p \<noteq> []"
  shows "effective_level levels name = (if \<exists>p \<in> set ps. below p name then l else b)"
  using assms(1)
proof (induction name rule: measure_induct_rule [of length])
  case (less name)
  have own: "below name name" by (simp add: below_def)
  consider "name = []" | "name \<noteq> []" "name \<in> set ps" | "name \<noteq> []" "name \<notin> set ps" by blast
  then show ?case
  proof cases
    case 1
    with assms(2,4) below_root show ?thesis by (auto simp: effective_level.simps [of _ "[]"])
  next
    case 2
    with less.prems own have "levels name = l" by simp
    with 2 own assms(3) show ?thesis by (auto simp: effective_level.simps [of _ name])
  next
    case 3
    have up: "below n (parent_name name) \<Longrightarrow> n \<noteq> [] \<Longrightarrow> below n name" for n using below_parent [of n name] 3(1) by blast
    have "levels name = 0" using less.prems own 3 by simp
    then have "effective_level levels name = effective_level levels (parent_name name)"
      using 3 by (simp add: effective_level.simps [of _ name])
    also have "\<dots> = (if \<exists>p \<in> set ps. below p (parent_name name) then l else b)"
      by (rule less.IH) (use 3(1) less.prems up in \<open>auto simp: parent_name_shorter\<close>)
    also have "(\<exists>p \<in> set ps. below p (parent_name name)) \<longleftrightarrow> (\<exists>p \<in> set ps. below p name)"
      using below_parent [of _ name] 3 assms(4) by auto
    finally show ?thesis .
  qed
qed

lemma reached_handlers_path:
  assumes "\<forall>n. n \<noteq> [] \<longrightarrow> below n name \<longrightarrow> lg_handlers g n = [] \<and> lg_propagate g n"
  shows "reached_handlers g name = lg_handlers g []"
  using assms
proof (induction name rule: measure_induct_rule [of length])
  case (less name)
  show ?case
  proof (cases "name = []")
    case False
    have "lg_handlers g name = [] \<and> lg_propagate g name" using less.prems False by (simp add: below_def)
    moreover have "below n (parent_name name) \<Longrightarrow> n \<noteq> [] \<Longrightarrow> below n name" for n using below_parent [of n name] False by blast
    then have "reached_handlers g (parent_name name) = lg_handlers g []"
      by (intro less.IH) (use False less.prems in \<open>auto simp: parent_name_shorter\<close>)
    ultimately show ?thesis using False by (simp add: reached_handlers.simps [of g name])
  qed (simp add: reached_handlers.simps [of g "[]"])
qed

end
