(* ===== verification/Service_Logs.thy ===== *)
theory Service_Logs
  imports Simulation Http Logging
begin

text \<open>
  The log calls that TransferService and the authentication make, which their models leave out: the same code again with
  its log calls, over the state of the model and the calls made so far.

  \<^item> \<open>quietly\<close> runs a piece of the model beside the calls, \<open>say\<close> makes one. The values of a call are given by their text, the
    list of keys by \<open>str\<close> of the list.
  \<^item> \<open>transfer_logged_erases\<close>, \<open>current_user_logged_erases\<close>: without the calls it is the model of the service, so whatever
    is proved of that holds of the code with its log calls.
  \<^item> \<open>transfer_logged_shape\<close>: the calls a transfer can make, over any unit of work, lock manager and event bus.
\<close>

section \<open>Programs that log\<close>

definition quietly :: "('s, 'e, 'a) prog \<Rightarrow> ('s \<times> log_call list, 'e, 'a) prog" where
  "quietly m = (\<lambda>(s, l). case m s of (x, t) \<Rightarrow> (x, (t, l)))"

definition say :: "log_call \<Rightarrow> ('s \<times> log_call list, 'e, unit) prog" where
  "say c = modifyP (\<lambda>(s, l). (s, l @ [c]))"

definition in_uow_logged ::
  "((heap \<times> 'u) \<times> log_call list, exn, 'a) prog \<Rightarrow> (('u, 'l, 'b) world \<times> log_call list, exn, 'a) prog" where
  "in_uow_logged m = (\<lambda>(w, l). case m ((w_heap w, w_uow w), l) of (x, ((h, u), l')) \<Rightarrow> (x, (w\<lparr>w_heap := h, w_uow := u\<rparr>, l')))"

definition with_uow_logged ::
  "'u uow_port \<Rightarrow> ((heap \<times> 'u) \<times> log_call list, exn, 'a) prog \<Rightarrow> ((heap \<times> 'u) \<times> log_call list, exn, 'a) prog" where
  "with_uow_logged U body = withP (quietly (uow_enter U)) (\<lambda>_ x. quietly (uow_exit U x)) (\<lambda>_. body)"

definition with_lock_logged ::
  "'l lock_port \<Rightarrow> string list \<Rightarrow> (('u, 'l, 'b) world \<times> log_call list, exn, 'a) prog
   \<Rightarrow> (('u, 'l, 'b) world \<times> log_call list, exn, 'a) prog" where
  "with_lock_logged L keys body =
     withP (quietly (in_lock (lock_acquire L keys))) (\<lambda>acquired _. quietly (in_lock (lock_release L acquired))) (\<lambda>_. body)"

section \<open>TransferService\<close>

definition log_transfer :: "int \<Rightarrow> event_dict \<Rightarrow> log_call" where
  "log_transfer level event = get_logger ''src.application.services.transfer'' level event"

text \<open>\<open>str\<close> of a list of texts without quotes.\<close>

definition list_text :: "string list \<Rightarrow> string" where
  "list_text ks = ''['' @ join '', '' (map quote ks) @ '']''"

definition duplicate_call :: "transfer_command \<Rightarrow> uuid \<Rightarrow> log_call" where
  "duplicate_call cmd i = log_transfer 20 [''event'' \<mapsto> ''transfer_duplicate_detected'',
     ''idempotency_key'' \<mapsto> tc_idempotency_key cmd, ''existing_transaction_id'' \<mapsto> uuid_str i]"

definition acquiring_call :: "string list \<Rightarrow> log_call" where
  "acquiring_call keys = log_transfer 10 [''event'' \<mapsto> ''acquiring_distributed_lock'', ''keys'' \<mapsto> list_text keys]"

definition acquired_call :: "string list \<Rightarrow> log_call" where
  "acquired_call keys = log_transfer 10 [''event'' \<mapsto> ''lock_acquired'', ''keys'' \<mapsto> list_text keys]"

definition failed_call :: "account_id \<Rightarrow> account_id \<Rightarrow> money \<Rightarrow> uuid \<Rightarrow> exn \<Rightarrow> log_call" where
  "failed_call sender_id receiver_id amt i e = log_transfer 30 [''event'' \<mapsto> ''transfer_failed'', ''transaction_id'' \<mapsto> uuid_str i,
     ''failure_code'' \<mapsto> exn_name e, ''failure_reason'' \<mapsto> exn_str e, ''from_account'' \<mapsto> uuid_str sender_id,
     ''to_account'' \<mapsto> uuid_str receiver_id, ''amount'' \<mapsto> dec_str (amount amt)]"

definition completed_call :: "transfer_command \<Rightarrow> money \<Rightarrow> uuid \<Rightarrow> log_call" where
  "completed_call cmd amt i = log_transfer 20 [''event'' \<mapsto> ''transfer_completed'', ''transaction_id'' \<mapsto> uuid_str i,
     ''from_account'' \<mapsto> uuid_str (tc_from_account_id cmd), ''to_account'' \<mapsto> uuid_str (tc_to_account_id cmd),
     ''amount'' \<mapsto> dec_str (amount amt), ''currency'' \<mapsto> tc_currency cmd]"

definition transfer_failed_logged ::
  "'u uow_port \<Rightarrow> account_id \<Rightarrow> account_id \<Rightarrow> money \<Rightarrow> nat \<Rightarrow> (nat \<Rightarrow> readings) \<Rightarrow> exn
   \<Rightarrow> ((heap \<times> 'u) \<times> log_call list, exn, unit) prog" where
  "transfer_failed_logged U sender_id receiver_id amt tx \<omega> e =
     bindP (quietly (read_tx tx)) (\<lambda>t.
     thenP (say (failed_call sender_id receiver_id amt (entity_id t) e))
           (quietly (transfer_failed U tx \<omega> e)))"

definition transfer_in_uow_logged ::
  "'u uow_port \<Rightarrow> account_id \<Rightarrow> account_id \<Rightarrow> money \<Rightarrow> idempotency_key \<Rightarrow> (nat \<Rightarrow> readings)
   \<Rightarrow> ((heap \<times> 'u) \<times> log_call list, exn, nat \<times> nat \<times> nat) prog" where
  "transfer_in_uow_logged U sender_id receiver_id amt key \<omega> =
     bindP (quietly (load_account U sender_id)) (\<lambda>sender.
     bindP (quietly (load_account U receiver_id)) (\<lambda>receiver.
     bindP (liftP (tx_initiate sender_id receiver_id amt key TRANSFER (\<omega> 0))) (\<lambda>t.
     bindP (quietly (new_tx t)) (\<lambda>tx.
     thenP (tryP (quietly (transfer_apply sender receiver tx amt \<omega>)) (transfer_failed_logged U sender_id receiver_id amt tx \<omega>))
     (thenP (quietly (acc_update U sender))
     (thenP (quietly (acc_update U receiver))
     (thenP (quietly (tx_save U tx))
     (thenP (quietly (uow_commit U))
            (returnP (sender, receiver, tx))))))))))"

text \<open>After the locks: the events, the line, the result.\<close>

definition transfer_finish_logged ::
  "'b bus_port \<Rightarrow> transfer_command \<Rightarrow> money \<Rightarrow> nat \<times> nat \<times> nat
   \<Rightarrow> (('u, 'l, 'b) world \<times> log_call list, exn, transaction_dto) prog" where
  "transfer_finish_logged B cmd amt = (\<lambda>(sender, receiver, tx).
     thenP (quietly (transfer_publish B sender receiver tx))
     (bindP (quietly (in_uow (read_tx tx))) (\<lambda>t.
     thenP (say (completed_call cmd amt (entity_id t))) (returnP (transaction_dto_of t)))))"

definition transfer_new_logged ::
  "'u uow_port \<Rightarrow> 'l lock_port \<Rightarrow> 'b bus_port \<Rightarrow> transfer_command \<Rightarrow> (nat \<Rightarrow> readings)
   \<Rightarrow> (('u, 'l, 'b) world \<times> log_call list, exn, transaction_dto) prog" where
  "transfer_new_logged U L B cmd \<omega> =
     bindP (liftP (parse_currency (tc_currency cmd))) (\<lambda>cur.
     bindP (liftP (bindR (redecimal (tc_amount cmd)) (\<lambda>d. money_new d cur))) (\<lambda>amt.
       let keys = lock_keys (tc_from_account_id cmd) (tc_to_account_id cmd) in
     thenP (say (acquiring_call keys))
     (bindP (with_lock_logged L keys
              (thenP (say (acquired_call keys))
                (in_uow_logged (with_uow_logged U (transfer_in_uow_logged U (tc_from_account_id cmd) (tc_to_account_id cmd)
                  amt (tc_idempotency_key cmd) \<omega>))))) (transfer_finish_logged B cmd amt))))"

definition transfer_initiate_logged ::
  "'u uow_port \<Rightarrow> 'l lock_port \<Rightarrow> 'b bus_port \<Rightarrow> transfer_command \<Rightarrow> (nat \<Rightarrow> readings)
   \<Rightarrow> (('u, 'l, 'b) world \<times> log_call list, exn, transaction_dto) prog" where
  "transfer_initiate_logged U L B cmd \<omega> =
     bindP (quietly (transfer_existing U (tc_idempotency_key cmd))) (\<lambda>existing. case existing of
         Some r \<Rightarrow> bindP (quietly (in_uow (read_tx r))) (\<lambda>t.
           thenP (say (duplicate_call cmd (entity_id t))) (returnP (transaction_dto_of t)))
       | None \<Rightarrow> transfer_new_logged U L B cmd \<omega>)"

section \<open>Authentication\<close>

definition auth_call :: "string \<Rightarrow> uuid \<Rightarrow> log_call" where
  "auth_call event i = get_logger ''src.adapters.inbound.http.middleware.auth'' 10
     [''event'' \<mapsto> event, ''user_id'' \<mapsto> uuid_str i]"

definition get_current_user_logged :: "settings \<Rightarrow> http_request \<Rightarrow> ('s \<times> log_call list, fault, auth_user) prog" where
  "get_current_user_logged S rq =
     (if is_development S then
        (case rq_dev_user_id rq of
           Some (c # cs) \<Rightarrow> (case uuid_of_str (c # cs) of
               Some u \<Rightarrow> thenP (say (auth_call ''dev_auth_header'' u)) (returnP \<lparr>au_user_id = u, au_roles = [''user'']\<rparr>)
             | None \<Rightarrow> raiseP (HttpError 400 ''X-Dev-User-Id must be a valid UUID.'' []))
         | _ \<Rightarrow> (case Option.bind (rq_credentials rq) parse_dev_token of
               Some u \<Rightarrow> thenP (say (auth_call ''dev_auth_bearer'' u)) (returnP \<lparr>au_user_id = u, au_roles = [''user'']\<rparr>)
             | None \<Rightarrow> liftP (production_user rq)))
      else liftP (production_user rq))"

section \<open>Without the calls\<close>

lemma simulates_quietly [intro]: "simulates fst (quietly m) m"
  by (rule simulatesI) (auto simp: quietly_def split: prod.splits)

lemma say_apply: "say c (s, l) = (Inr (), (s, l @ [c]))"
  by (simp add: say_def modifyP_def)

lemma quietly_apply: "quietly m (s, l) = (fst (m s), (snd (m s), l))"
  by (simp add: quietly_def split: prod.splits)

lemma simulates_say [intro]: "simulates fst p q \<Longrightarrow> simulates fst (thenP (say c) p) q"
  by (auto simp: simulates_def thenP_apply say_apply)

lemma simulates_in_uow_logged [intro]: "simulates fst m n \<Longrightarrow> simulates fst (in_uow_logged m) (in_uow n)"
  by (auto simp: simulates_def in_uow_logged_def in_uow_def split: prod.splits)
    (metis fst_conv snd_conv)+

lemma simulates_with_uow_logged [intro]: "simulates fst m n \<Longrightarrow> simulates fst (with_uow_logged U m) (with_uow U n)"
  unfolding with_uow_logged_def with_uow_def by (intro simulates_withP simulates_quietly)

lemma simulates_with_lock_logged [intro]: "simulates fst m n \<Longrightarrow> simulates fst (with_lock_logged L keys m) (with_lock L keys n)"
  unfolding with_lock_logged_def with_lock_def by (intro simulates_withP simulates_quietly)

lemma read_tx_first: "bindP (read_tx r) (\<lambda>_. m) = m" "bindP (in_uow (read_tx r)) (\<lambda>t. returnP (f t)) = bindP (in_uow (read_tx r)) (\<lambda>t. returnP (f t))"
  by (auto simp: fun_eq_iff bindP_apply read_tx_def getP_apply)

lemma simulates_transfer_failed_logged [intro]:
  "simulates fst (transfer_failed_logged U sender_id receiver_id amt tx \<omega> e) (transfer_failed U tx \<omega> e)"
proof -
  have "simulates fst (transfer_failed_logged U sender_id receiver_id amt tx \<omega> e) (bindP (read_tx tx) (\<lambda>_. transfer_failed U tx \<omega> e))"
    unfolding transfer_failed_logged_def by (intro simulates_bindP simulates_quietly simulates_say)
  then show ?thesis by (simp only: read_tx_first)
qed

lemma simulates_transfer_in_uow_logged [intro]:
  "simulates fst (transfer_in_uow_logged U s r amt key \<omega>) (transfer_in_uow U s r amt key \<omega>)"
  unfolding transfer_in_uow_logged_def transfer_in_uow_def
  by (intro simulates_bindP simulates_thenP simulates_tryP simulates_quietly simulates_pure simulates_transfer_failed_logged)

lemma simulates_transfer_new_logged [intro]:
  "simulates fst (transfer_new_logged U L B cmd \<omega>) (transfer_new U L B cmd \<omega>)"
  unfolding transfer_new_logged_def transfer_new_def transfer_finish_logged_def Let_def
  by (intro simulates_bindP simulates_thenP simulates_case_prod simulates_quietly simulates_pure simulates_say
      simulates_with_lock_logged simulates_in_uow_logged simulates_with_uow_logged simulates_transfer_in_uow_logged)

lemma transfer_logged_erases:
  "simulates fst (transfer_initiate_logged U L B cmd \<omega>) (transfer_initiate U L B cmd \<omega>)"
  unfolding transfer_initiate_logged_def transfer_initiate_def
  by (intro simulates_bindP simulates_case_option simulates_quietly simulates_say simulates_pure simulates_transfer_new_logged)

lemma current_user_logged_erases:
  "simulates fst (get_current_user_logged S rq) (liftP (get_current_user S rq))"
  by (auto simp: simulates_def get_current_user_logged_def get_current_user_def liftP_apply thenP_apply say_def modifyP_def
      returnP_apply raiseP_apply split: option.split list.split)

section \<open>The calls of a transfer\<close>

text \<open>What a program adds to the calls, given its result.\<close>

definition adds :: "('e + 'a \<Rightarrow> log_call list \<Rightarrow> bool) \<Rightarrow> ('s \<times> log_call list, 'e, 'a) prog \<Rightarrow> bool" where
  "adds P m \<longleftrightarrow> (\<forall>s l. \<exists>ls. snd (snd (m (s, l))) = l @ ls \<and> P (fst (m (s, l))) ls)"

lemma adds_quietly: "adds (\<lambda>_ ls. ls = []) (quietly m)"
  by (simp add: adds_def quietly_apply)

lemma adds_mono: "adds P m \<Longrightarrow> (\<And>x ls. P x ls \<Longrightarrow> Q x ls) \<Longrightarrow> adds Q m"
  unfolding adds_def by blast

lemma adds_bind:
  assumes "adds P m" and "\<And>x ls. P (Inr x) ls \<Longrightarrow> adds (\<lambda>y ls'. Q y (ls @ ls')) (f x)" and "\<And>e ls. P (Inl e) ls \<Longrightarrow> Q (Inl e) ls"
  shows "adds Q (bindP m f)"
  unfolding adds_def
proof (intro allI)
  fix s l
  obtain x t l' where m: "m (s, l) = (x, (t, l'))" by (metis prod.exhaust)
  have "\<exists>ls. snd (snd (m (s, l))) = l @ ls \<and> P (fst (m (s, l))) ls" using assms(1) unfolding adds_def by blast
  with m obtain ls where ls: "l' = l @ ls" "P x ls" by auto
  show "\<exists>ls. snd (snd (bindP m f (s, l))) = l @ ls \<and> Q (fst (bindP m f (s, l))) ls"
  proof (cases x)
    case (Inl e)
    with m ls assms(3) show ?thesis by (simp add: bindP_apply)
  next
    case (Inr a)
    with assms(2) ls obtain ls' where "snd (snd (f a (t, l'))) = l' @ ls'" "Q (fst (f a (t, l'))) (ls @ ls')"
      unfolding adds_def by blast
    with m ls Inr show ?thesis by (simp add: bindP_apply)
  qed
qed

lemma adds_say: "adds (\<lambda>y ls. Q y (c # ls)) k \<Longrightarrow> adds Q (thenP (say c) k)"
  unfolding adds_def thenP_apply say_apply by (auto simp: append.assoc) (metis append.assoc append_Cons append_Nil)

lemma adds_try:
  assumes "adds P m" and "\<And>e ls. P (Inl e) ls \<Longrightarrow> adds (\<lambda>y ls'. Q y (ls @ ls')) (h e)" and "\<And>x ls. P (Inr x) ls \<Longrightarrow> Q (Inr x) ls"
  shows "adds Q (tryP m h)"
  unfolding adds_def
proof (intro allI)
  fix s l
  obtain x t l' where m: "m (s, l) = (x, (t, l'))" by (metis prod.exhaust)
  have "\<exists>ls. snd (snd (m (s, l))) = l @ ls \<and> P (fst (m (s, l))) ls" using assms(1) unfolding adds_def by blast
  with m obtain ls where ls: "l' = l @ ls" "P x ls" by auto
  show "\<exists>ls. snd (snd (tryP m h (s, l))) = l @ ls \<and> Q (fst (tryP m h (s, l))) ls"
  proof (cases x)
    case (Inr a)
    with m ls assms(3) show ?thesis by (simp add: tryP_apply)
  next
    case (Inl e)
    with assms(2) ls obtain ls' where "snd (snd (h e (t, l'))) = l' @ ls'" "Q (fst (h e (t, l'))) (ls @ ls')"
      unfolding adds_def by blast
    with m ls Inl show ?thesis by (simp add: tryP_apply)
  qed
qed

lemma adds_return: "Q (Inr x) [] \<Longrightarrow> adds Q (returnP x)" "Q r [] \<Longrightarrow> adds Q (liftP r)"
  by (simp_all add: adds_def returnP_apply liftP_apply)

text \<open>What \<open>async with\<close> adds: its body's calls, or none when it could not be entered; an exit can turn a result into an exception.\<close>

definition wrapped :: "('e + 'a \<Rightarrow> log_call list \<Rightarrow> bool) \<Rightarrow> 'e + 'a \<Rightarrow> log_call list \<Rightarrow> bool" where
  "wrapped P x ls = (case x of Inr y \<Rightarrow> P x ls | Inl e \<Rightarrow> ls = [] \<or> (\<exists>z. P z ls))"

lemma adds_with:
  assumes "adds P b"
  shows "adds (wrapped P) (withP (quietly p) (\<lambda>c x. quietly (q c x)) (\<lambda>_. b))"
  unfolding adds_def
proof (intro allI)
  fix s l
  let ?m = "withP (quietly p) (\<lambda>c x. quietly (q c x)) (\<lambda>_. b)"
  obtain z s' where p: "p s = (z, s')" by fastforce
  show "\<exists>ls. snd (snd (?m (s, l))) = l @ ls \<and> wrapped P (fst (?m (s, l))) ls"
  proof (cases z)
    case (Inl e)
    with p show ?thesis by (simp add: withP_apply quietly_apply wrapped_def)
  next
    case (Inr c)
    obtain x t l' where b: "b (s', l) = (x, (t, l'))" by (metis prod.exhaust)
    have "\<exists>ls. snd (snd (b (s', l))) = l @ ls \<and> P (fst (b (s', l))) ls" using assms unfolding adds_def by blast
    with b obtain ls where ls: "l' = l @ ls" "P x ls" by auto
    obtain y t' where q: "q c (case x of Inl e \<Rightarrow> Some e | Inr _ \<Rightarrow> None) t = (y, t')" by fastforce
    from p Inr b ls q show ?thesis
      by (cases x; cases y)
        (auto simp: withP_apply quietly_apply thenP_apply returnP_apply raiseP_apply wrapped_def)
  qed
qed

lemma adds_in_uow: "adds P m \<Longrightarrow> adds P (in_uow_logged m)"
  unfolding adds_def in_uow_logged_def by (simp add: split_def)

lemma transfer_failed_raises: "\<exists>e'. fst (transfer_failed U tx \<omega> e s) = Inl e'"
  by (auto simp: transfer_failed_def thenP_apply raiseP_apply split: prod.splits sum.splits)

section \<open>Shapes\<close>

definition only_failed :: "transfer_command \<Rightarrow> money \<Rightarrow> 'e + 'a \<Rightarrow> log_call list \<Rightarrow> bool" where
  "only_failed cmd amt x ls \<longleftrightarrow> ls = [] \<or>
     (\<exists>e. x = Inl e) \<and> (\<exists>i e. ls = [failed_call (tc_from_account_id cmd) (tc_to_account_id cmd) amt i e])"

lemma adds_transfer_failed:
  "adds (only_failed cmd amt) (transfer_failed_logged U (tc_from_account_id cmd) (tc_to_account_id cmd) amt tx \<omega> e)"
proof -
  have "adds (\<lambda>x ls. ls = [] \<and> (\<exists>e. x = Inl e)) (quietly (transfer_failed U tx \<omega> e))"
    using transfer_failed_raises by (fastforce simp: adds_def quietly_apply)
  then have "adds (\<lambda>x ls. only_failed cmd amt x (failed_call (tc_from_account_id cmd) (tc_to_account_id cmd) amt i e # ls))
      (quietly (transfer_failed U tx \<omega> e))" for i
    by (rule adds_mono) (auto simp: only_failed_def)
  then show ?thesis
    unfolding transfer_failed_logged_def
    by (intro adds_bind [OF adds_quietly] adds_say) (auto simp: only_failed_def)
qed

lemma adds_quiet: "adds Q k \<Longrightarrow> (\<And>e. Q (Inl e) []) \<Longrightarrow> adds Q (thenP (quietly m) k)"
  unfolding thenP_def by (rule adds_bind [OF adds_quietly]) auto

lemma adds_quiet_bind: "(\<And>x. adds Q (k x)) \<Longrightarrow> (\<And>e. Q (Inl e) []) \<Longrightarrow> adds Q (bindP (quietly m) k)"
  by (rule adds_bind [OF adds_quietly]) auto

lemma liftP_Inr: "bindP (liftP (Inr x)) k = k x"
  by (simp add: fun_eq_iff bindP_apply liftP_apply)

lemma adds_lift_bind: "(\<And>x. adds Q (k x)) \<Longrightarrow> (\<And>e. Q (Inl e) []) \<Longrightarrow> adds Q (bindP (liftP r) k)"
  by (rule adds_bind [OF adds_return(2) [where Q = "\<lambda>_ ls. ls = []"]]) auto

lemma adds_transfer_in_uow:
  "adds (only_failed cmd amt)
    (transfer_in_uow_logged U (tc_from_account_id cmd) (tc_to_account_id cmd) amt (tc_idempotency_key cmd) \<omega>)"
proof -
  let ?Q = "only_failed cmd amt"
  have quiet: "?Q x []" for x :: "exn + 'x" by (simp add: only_failed_def)
  let ?rest = "\<lambda>sender receiver tx. thenP (quietly (acc_update U sender)) (thenP (quietly (acc_update U receiver))
    (thenP (quietly (tx_save U tx)) (thenP (quietly (uow_commit U)) (returnP (sender, receiver, tx)))))"
  have rest: "adds ?Q (?rest s r tx)" for s r tx
    by (intro adds_quiet adds_return quiet)
  have "adds ?Q (thenP (tryP (quietly (transfer_apply s r tx amt \<omega>))
      (transfer_failed_logged U (tc_from_account_id cmd) (tc_to_account_id cmd) amt tx \<omega>)) (?rest s r tx))" for s r tx
    unfolding thenP_def [of "tryP m h" for m h]
  proof (rule adds_bind)
    show "adds ?Q (tryP (quietly (transfer_apply s r tx amt \<omega>))
        (transfer_failed_logged U (tc_from_account_id cmd) (tc_to_account_id cmd) amt tx \<omega>))"
      by (rule adds_try [OF adds_quietly]) (simp_all add: adds_transfer_failed quiet)
    show "adds (\<lambda>y ls'. ?Q y (ls @ ls')) (?rest s r tx)" if "?Q (Inr x) ls" for x :: unit and ls
    proof -
      have "ls = []" using that by (simp add: only_failed_def)
      with rest show ?thesis by simp
    qed
    show "?Q (Inl e) ls" if "?Q (Inl e :: exn + unit) ls" for e ls
      using that by (simp add: only_failed_def)
  qed
  then show ?thesis
    unfolding transfer_in_uow_logged_def
    by (intro adds_quiet_bind adds_lift_bind quiet)
qed

text \<open>The calls of one transfer: a duplicate, a success, a refusal, or an exception before or after the unit of work.\<close>

definition asked_amount :: "transfer_command \<Rightarrow> money \<Rightarrow> bool" where
  "asked_amount cmd amt \<longleftrightarrow> bindR (parse_currency (tc_currency cmd)) (money_new (tc_amount cmd)) = Inr amt"

definition transfer_calls :: "transfer_command \<Rightarrow> exn + transaction_dto \<Rightarrow> log_call list \<Rightarrow> bool" where
  "transfer_calls cmd x ls \<longleftrightarrow>
     (let keys = lock_keys (tc_from_account_id cmd) (tc_to_account_id cmd); trying = acquiring_call keys; inside = acquired_call keys
      in case x of
        Inr d \<Rightarrow> ls = [duplicate_call cmd (td_id d)] \<or>
          (\<exists>amt. asked_amount cmd amt \<and> ls = [trying, inside, completed_call cmd amt (td_id d)])
      | Inl e \<Rightarrow> ls \<in> {[], [trying], [trying, inside]} \<or>
          (\<exists>amt i e. asked_amount cmd amt \<and>
             ls = [trying, inside, failed_call (tc_from_account_id cmd) (tc_to_account_id cmd) amt i e]))"

lemma adds_transfer_finish:
  assumes "asked_amount cmd amt" and "keys = lock_keys (tc_from_account_id cmd) (tc_to_account_id cmd)"
  shows "adds (\<lambda>x ls. transfer_calls cmd x (acquiring_call keys # acquired_call keys # ls)) (transfer_finish_logged B cmd amt p)"
proof -
  let ?Q = "\<lambda>x ls. transfer_calls cmd x (acquiring_call keys # acquired_call keys # ls)"
  have "?Q (Inl e) []" "?Q (Inr (transaction_dto_of t)) [completed_call cmd amt (entity_id t)]" for e t
    using assms by (auto simp: transfer_calls_def transaction_dto_of_def)
  then show ?thesis
    unfolding transfer_finish_logged_def
    by (cases p) (simp only: prod.case, intro adds_quiet adds_quiet_bind adds_say adds_return)
qed

text \<open>What a unit of work under the locks can have added, when it raised.\<close>

lemma raised_calls:
  assumes "wrapped (\<lambda>x ls. \<exists>ls'. ls = acquired_call keys # ls' \<and> wrapped (only_failed cmd amt) x ls') (Inl e :: exn + 'a) ls"
    and "asked_amount cmd amt" and "keys = lock_keys (tc_from_account_id cmd) (tc_to_account_id cmd)"
  shows "transfer_calls cmd (Inl e) (acquiring_call keys # ls)"
proof -
  let ?f = "\<lambda>i e. failed_call (tc_from_account_id cmd) (tc_to_account_id cmd) amt i e"
  have "only_failed cmd amt z ls' \<Longrightarrow> ls' = [] \<or> (\<exists>i e. ls' = [?f i e])" for z :: "exn + 'a" and ls'
    by (auto simp: only_failed_def)
  then have "wrapped (only_failed cmd amt) z ls' \<Longrightarrow> ls' = [] \<or> (\<exists>i e. ls' = [?f i e])" for z :: "exn + 'a" and ls'
    by (auto simp: wrapped_def split: sum.splits)
  with assms(1) have "ls = [] \<or> ls = [acquired_call keys] \<or> (\<exists>i e. ls = [acquired_call keys, ?f i e])"
    by (fastforce simp: wrapped_def)
  with assms(2,3) show ?thesis unfolding transfer_calls_def Let_def by auto
qed

lemma adds_transfer_new: "adds (transfer_calls cmd) (transfer_new_logged U L B cmd \<omega>)"
proof -
  let ?Q = "transfer_calls cmd" and ?keys = "lock_keys (tc_from_account_id cmd) (tc_to_account_id cmd)"
  let ?locked = "\<lambda>amt. with_lock_logged L ?keys (thenP (say (acquired_call ?keys)) (in_uow_logged (with_uow_logged U
    (transfer_in_uow_logged U (tc_from_account_id cmd) (tc_to_account_id cmd) amt (tc_idempotency_key cmd) \<omega>))))"
  let ?P = "\<lambda>amt x ls. (\<exists>ls'. ls = acquired_call ?keys # ls' \<and> wrapped (only_failed cmd amt) x ls')"
  have locked: "adds (wrapped (?P amt)) (?locked amt)" for amt
    unfolding with_lock_logged_def with_uow_logged_def
    by (intro adds_with adds_say adds_in_uow adds_mono [OF adds_with [OF adds_transfer_in_uow [of cmd amt U \<omega>]]]) auto
  have made: "adds ?Q (thenP (say (acquiring_call ?keys)) (bindP (?locked amt) (transfer_finish_logged B cmd amt)))"
    if amt: "asked_amount cmd amt" for amt
  proof (rule adds_say, rule adds_bind [OF locked])
    fix x :: "nat \<times> nat \<times> nat" and ls
    assume "wrapped (?P amt) (Inr x) ls"
    then have "ls = [acquired_call ?keys]" by (auto simp: wrapped_def only_failed_def)
    with adds_transfer_finish [OF amt refl, of B x]
    show "adds (\<lambda>y ls'. ?Q y (acquiring_call ?keys # ls @ ls')) (transfer_finish_logged B cmd amt x)" by simp
  next
    fix e ls
    assume "wrapped (?P amt) (Inl e :: exn + nat \<times> nat \<times> nat) ls"
    then show "?Q (Inl e) (acquiring_call ?keys # ls)" by (rule raised_calls [OF _ amt refl])
  qed
  have early: "?Q (Inl e) []" for e by (simp add: transfer_calls_def)
  show ?thesis
  proof (cases "bindR (parse_currency (tc_currency cmd)) (money_new (tc_amount cmd))")
    case (Inr amt)
    then obtain cur where "parse_currency (tc_currency cmd) = Inr cur" "money_new (tc_amount cmd) cur = Inr amt"
      by (auto simp: bindR_Inr_iff)
    with made [of amt] Inr show ?thesis
      by (simp add: transfer_new_logged_def Let_def liftP_Inr asked_amount_def)
  next
    case (Inl e)
    then have "transfer_new_logged U L B cmd \<omega> = raiseP e"
      by (auto simp: transfer_new_logged_def bindR_Inl_iff bindP_apply liftP_apply raiseP_apply fun_eq_iff)
    with early show ?thesis by (simp add: adds_def raiseP_apply)
  qed
qed

lemma transfer_logged_shape: "adds (transfer_calls cmd) (transfer_initiate_logged U L B cmd \<omega>)"
  unfolding transfer_initiate_logged_def
proof (rule adds_quiet_bind)
  fix existing
  show "adds (transfer_calls cmd) (case existing of
       Some r \<Rightarrow> bindP (quietly (in_uow (read_tx r))) (\<lambda>t. thenP (say (duplicate_call cmd (entity_id t))) (returnP (transaction_dto_of t)))
     | None \<Rightarrow> transfer_new_logged U L B cmd \<omega>)"
  proof (cases existing)
    case (Some r)
    have "transfer_calls cmd (Inl e) []" "transfer_calls cmd (Inr (transaction_dto_of t)) [duplicate_call cmd (entity_id t)]" for e t
      by (simp_all add: transfer_calls_def transaction_dto_of_def)
    then show ?thesis unfolding Some option.case by (intro adds_quiet_bind adds_say adds_return)
  qed (simp add: adds_transfer_new)
qed (simp add: transfer_calls_def)

lemma call_levels [simp]:
  "lc_level (duplicate_call cmd i) = 20" "lc_level (acquiring_call keys) = 10" "lc_level (acquired_call keys) = 10"
  "lc_level (failed_call s r amt i e) = 30" "lc_level (completed_call cmd amt i) = 20"
  by (simp_all add: duplicate_call_def acquiring_call_def acquired_call_def failed_call_def completed_call_def
      log_transfer_def get_logger_def)

lemma transfer_calls_level:
  "transfer_calls cmd x ls \<Longrightarrow> (case x of Inr _ \<Rightarrow> length (filter (\<lambda>c. 20 \<le> lc_level c) ls) = 1
     | Inl _ \<Rightarrow> length (filter (\<lambda>c. 20 \<le> lc_level c) ls) \<le> 1)"
  by (auto simp: transfer_calls_def Let_def split: sum.splits)

end
