(* ===== verification/Service_Properties.thy ===== *)
theory Service_Properties
  imports Samples Service_Logs
begin

text \<open>
  The properties of the application services over the in-memory adapters, each with a witness: a bank
  with three accounts (uid 1 with 5.00 EUR, uid 2 with 1.00 EUR, uid 3 frozen with 0.70 EUR).
\<close>

section \<open>A small bank\<close>

definition sample_heap :: heap where
  "sample_heap = \<lparr>accounts_at = (\<lambda>r. if r = 0 then sample_account 1 500 ACTIVE
       else if r = 1 then sample_account 2 100 ACTIVE else sample_account 3 70 FROZEN),
     txs_at = (\<lambda>_. sample_tx), next_ref = 3\<rparr>"

definition sample_world :: im_world where
  "sample_world = \<lparr>w_heap = sample_heap,
     w_uow = im_empty\<lparr>im_accounts := [uid 1 \<mapsto> 0, uid 2 \<mapsto> 1, uid 3 \<mapsto> 2]\<rparr>, w_lock = {}, w_bus = []\<rparr>"

definition sample_cmd :: "nat \<Rightarrow> nat \<Rightarrow> nat \<Rightarrow> string \<Rightarrow> transfer_command" where
  "sample_cmd f t n key = \<lparr>tc_from_account_id = uid f, tc_to_account_id = uid t,
     tc_amount = Fin False n (-2), tc_currency = ''EUR'', tc_idempotency_key = key\<rparr>"

lemma sample_cmd_simps [simp]:
  "tc_from_account_id (sample_cmd f t n k) = uid f" "tc_to_account_id (sample_cmd f t n k) = uid t"
  "tc_idempotency_key (sample_cmd f t n k) = k" "tc_currency (sample_cmd f t n k) = ''EUR''"
  "tc_amount (sample_cmd f t n k) = Fin False n (-2)"
  by (simp_all add: sample_cmd_def)

lemma sample_world_simps [simp]:
  "w_heap sample_world = sample_heap" "w_lock sample_world = {}" "w_bus sample_world = []"
  "im_accounts (w_uow sample_world) = [uid 1 \<mapsto> 0, uid 2 \<mapsto> 1, uid 3 \<mapsto> 2]"
  "im_txs (w_uow sample_world) = (\<lambda>_. None)" "im_by_key (w_uow sample_world) = (\<lambda>_. None)"
  by (simp_all add: sample_world_def im_empty_def)

lemma sample_lookup [simp]: "lookup_key (w_uow sample_world) k = None"
  by (simp add: lookup_key_def)

lemma sample_heap_simps [simp]:
  "accounts_at sample_heap 0 = sample_account 1 500 ACTIVE"
  "accounts_at sample_heap (Suc 0) = sample_account 2 100 ACTIVE"
  "accounts_at sample_heap 2 = sample_account 3 70 FROZEN" "next_ref sample_heap = 3"
  by (simp_all add: sample_heap_def)

lemma sample_im_ok: "im_ok (sample_heap, w_uow sample_world)"
  by (auto simp: im_ok_def split: if_splits)

lemma sample_bank_ok [simp]: "bank_ok sample_world"
  by (auto simp: bank_ok_def sample_im_ok im_stored_def split: if_splits)

lemma sample_call_ok: "n < max_cents \<Longrightarrow> call_ok (sample_cmd f t n key) reads sample_world (eur n)"
  using parse_value_simps(1) [of EUR] by (simp add: call_ok_def money_new_eur)

lemma sample_ready:
  assumes "n < max_cents" "0 < n" and "f = 1 \<and> t = 2 \<and> r1 = 0 \<and> r2 = 1 \<or> f = 1 \<and> t = 3 \<and> r1 = 0 \<and> r2 = 2"
  shows "\<exists>tx. transfer_ready (sample_cmd f t n key) reads sample_world (eur n) r1 r2 tx"
proof -
  obtain tx where "tx_initiate (uid f) (uid t) (eur n) key TRANSFER (reads 0) = Inr tx"
    using assms by (auto simp: tx_initiate_def Let_def uid_inject)
  with assms show ?thesis using parse_value_simps(1) [of EUR]
    by (intro exI [of _ tx]) (auto simp: transfer_ready_def locks_free_def money_new_eur uid_inject sample_im_ok)
qed

text \<open>What the transfers of the samples do: one succeeds, one has too little money, one is refused by
  a frozen receiver.\<close>

lemma sample_transfer_ok:
  "\<exists>dto w'. transfer_initiate in_memory_uow in_memory_lock in_memory_bus (sample_cmd 1 2 200 ''k'') reads
     sample_world = (Inr dto, w')"
proof -
  obtain tx where ready: "transfer_ready (sample_cmd 1 2 200 ''k'') reads sample_world (eur 200) 0 1 tx"
    using sample_ready [of 200 1 2 0 1] by auto
  obtain a where a: "debit (eur 200) (entity_id tx) (reads 2) (accounts_at (w_heap sample_world) 0) = Inr a"
    by (simp add: account_defs eur_arith)
  obtain b where b: "credit (eur 200) (entity_id tx) (reads 3) (accounts_at (w_heap sample_world) 1) = Inr b"
    by (simp add: account_defs eur_arith)
  from transfer_succeeds [OF ready a b] show ?thesis by blast
qed

section \<open>TransferService\<close>

text \<open>C4: \<open>TransferService.initiate\<close> implements the abstract bank on every branch: for a valid store, a
  well-formed amount and a fresh transaction id, its answer (the reported transfer or the kind of
  refusal) and the accounts, transfers and locks it leaves are those \<open>bank_transfer\<close> specifies, and the
  store stays valid.\<close>

theorem transfer_refines_bank:
  assumes "call_ok cmd \<omega> w amt"
  shows "abs_outcome (transfer_initiate in_memory_uow in_memory_lock in_memory_bus cmd \<omega> w) =
      bank_transfer True (tc_from_account_id cmd) (tc_to_account_id cmd) (money_cents amt) (money_currency amt)
        (tc_idempotency_key cmd) (abs_bank w) \<and>
    bank_ok (snd (transfer_initiate in_memory_uow in_memory_lock in_memory_bus cmd \<omega> w))"
  using transfer_refines [OF assms] by (simp add: bank_call_def)

lemma transfer_refines_bank_witness:
  "fst (abs_outcome (transfer_initiate in_memory_uow in_memory_lock in_memory_bus (sample_cmd 1 3 200 ''k'') reads
     sample_world)) = Inl (Refused IsFrozen)"
  using transfer_refines_bank [OF sample_call_ok [of 200 1 3 "''k''"]]
  by (simp add: bank_transfer_def abs_bank_fields uid_inject account_currency_def)

text \<open>A transfer that returns moves money and makes none: the total of any group of accounts that
  contains both is what it was, and no other account changes.\<close>

theorem transfer_conserves_money:
  assumes "call_ok cmd \<omega> w amt"
    and "transfer_initiate in_memory_uow in_memory_lock in_memory_bus cmd \<omega> w = (Inr dto, w')"
    and "finite A" and "tc_from_account_id cmd \<in> A" and "tc_to_account_id cmd \<in> A"
  shows "bank_total A (abs_bank w') = bank_total A (abs_bank w) \<and>
    (\<forall>i. i \<noteq> tc_from_account_id cmd \<longrightarrow> i \<noteq> tc_to_account_id cmd \<longrightarrow>
       bk_accounts (abs_bank w') i = bk_accounts (abs_bank w) i)"
proof -
  let ?call = "bank_transfer True (tc_from_account_id cmd) (tc_to_account_id cmd) (money_cents amt) (money_currency amt)
        (tc_idempotency_key cmd) (abs_bank w)"
  have spec: "?call = (Inr (abs_dto dto), abs_bank w')"
    using transfer_refines [OF assms(1)] assms(2) by (simp add: abs_outcome_def bank_call_def)
  have "bank_total A (abs_bank w') = bank_total A (abs_bank w)"
    using bank_transfer_total [OF assms(3-5), of True "money_cents amt" "money_currency amt"
        "tc_idempotency_key cmd" "abs_bank w"] by (simp add: spec)
  moreover have "bk_accounts (abs_bank w') i = bk_accounts (abs_bank w) i"
    if "i \<noteq> tc_from_account_id cmd" "i \<noteq> tc_to_account_id cmd" for i
    using bank_transfer_others [OF that, of True "money_cents amt" "money_currency amt"
        "tc_idempotency_key cmd" "abs_bank w"] by (simp add: spec)
  ultimately show ?thesis by blast
qed

lemma transfer_conserves_money_witness:
  "\<exists>dto w'. transfer_initiate in_memory_uow in_memory_lock in_memory_bus (sample_cmd 1 2 200 ''k'') reads
      sample_world = (Inr dto, w') \<and> bank_total {uid 1, uid 2} (abs_bank w') = 600"
proof -
  obtain dto w' where r: "transfer_initiate in_memory_uow in_memory_lock in_memory_bus (sample_cmd 1 2 200 ''k'')
      reads sample_world = (Inr dto, w')" using sample_transfer_ok by blast
  have "bank_total {uid 1, uid 2} (abs_bank w') = bank_total {uid 1, uid 2} (abs_bank sample_world)"
    using transfer_conserves_money [OF sample_call_ok r, of "{uid 1, uid 2}"] by simp
  also have "\<dots> = 600" by (simp add: bank_total_def abs_bank_fields uid_inject)
  finally show ?thesis using r by blast
qed

text \<open>C11: Retrying is safe: once a call has returned, any call with the same idempotency key, whatever
  the rest of its command says, returns the very same DTO and leaves the accounts, the transfers, the
  locks and the published events as they are.\<close>

theorem transfer_retry_same:
  assumes "call_ok cmd \<omega> w amt"
    and "transfer_initiate in_memory_uow in_memory_lock in_memory_bus cmd \<omega> w = (Inr dto, w')"
    and "tc_idempotency_key cmd2 = tc_idempotency_key cmd"
  shows "\<exists>w''. transfer_initiate in_memory_uow in_memory_lock in_memory_bus cmd2 \<omega>2 w' = (Inr dto, w'') \<and>
    abs_bank w'' = abs_bank w' \<and> w_heap w'' = w_heap w' \<and> w_bus w'' = w_bus w'"
proof -
  obtain r where r: "lookup_key (w_uow w') (tc_idempotency_key cmd2) = Some r"
    "transaction_dto_of (txs_at (w_heap w') r) = dto"
    using return_stored [OF assms(1,2)] assms(3) by auto
  from transfer_initiate_known [where cmd = cmd2, OF r(1)] r(2) show ?thesis
    by (intro exI [of _ "reset_uow w'"]) (simp, simp add: reset_uow_def)
qed

lemma transfer_retry_same_witness:
  "\<exists>dto w' w''. transfer_initiate in_memory_uow in_memory_lock in_memory_bus (sample_cmd 1 2 200 ''k'') reads
      sample_world = (Inr dto, w') \<and>
    transfer_initiate in_memory_uow in_memory_lock in_memory_bus (sample_cmd 2 3 999 ''k'') reads w' = (Inr dto, w'')"
proof -
  obtain dto w' where r: "transfer_initiate in_memory_uow in_memory_lock in_memory_bus (sample_cmd 1 2 200 ''k'')
      reads sample_world = (Inr dto, w')" using sample_transfer_ok by blast
  have "tc_idempotency_key (sample_cmd 2 3 999 ''k'') = tc_idempotency_key (sample_cmd 1 2 200 ''k'')" by simp
  from transfer_retry_same [OF sample_call_ok r this] r show ?thesis by simp blast
qed

text \<open>C18: When the sender's account refuses the debit (too little money, frozen, closed, other
  currency), the caller gets that exception, no account and no published event changes, and a FAILED
  transaction is stored under the key, with the exception's class as its code and message as reason.\<close>

theorem transfer_debit_refused:
  assumes "transfer_ready cmd \<omega> w amt r1 r2 tx"
    and "debit amt (entity_id tx) (\<omega> 2) (accounts_at (w_heap w) r1) = Inl e"
  shows "\<exists>w'. transfer_initiate in_memory_uow in_memory_lock in_memory_bus cmd \<omega> w = (Inl e, w') \<and>
    accounts_at (w_heap w') = accounts_at (w_heap w) \<and> w_bus w' = w_bus w \<and>
    (\<exists>r. lookup_key (w_uow w') (tc_idempotency_key cmd) = Some r \<and>
       tx_status (txs_at (w_heap w') r) = FAILED \<and>
       failure_code (txs_at (w_heap w') r) = Some (str_replace ''ERROR'' [] (upper_str (exn_name e))) \<and>
       failure_reason (txs_at (w_heap w') r) = Some (exn_str e))"
proof -
  let ?w = "save_step (failed_tx \<omega> e tx) r1 r2 (reset_uow w)"
  have k: "idempotency_key tx = tc_idempotency_key cmd"
    using assms(1) tx_initiate_Inr(5) by (auto simp: transfer_ready_def)
  have "accounts_at (w_heap ?w) = accounts_at (w_heap w)" "w_bus ?w = w_bus w"
    by (simp_all add: save_step_def heap_defs reset_uow_def)
  moreover have "lookup_key (w_uow ?w) (tc_idempotency_key cmd) = Some (next_ref (w_heap w))"
    "txs_at (w_heap ?w) (next_ref (w_heap w)) = failed_tx \<omega> e tx"
    using saved_key [OF disjI2 [OF disjI2 [OF refl]], of "failed_tx \<omega> e tx" r1 r2 w] by (simp_all add: k)
  ultimately show ?thesis
    using transfer_debit_fails [OF assms] by (auto simp: failure_code_of_def)
qed

lemma transfer_debit_refused_witness:
  "\<exists>w' e. transfer_initiate in_memory_uow in_memory_lock in_memory_bus (sample_cmd 1 2 700 ''k'') reads sample_world
      = (Inl e, w') \<and> accounts_at (w_heap w') = accounts_at sample_heap \<and>
    (\<exists>r. failure_code (txs_at (w_heap w') r) = Some ''INSUFFICIENTFUNDS'')"
proof -
  obtain tx where ready: "transfer_ready (sample_cmd 1 2 700 ''k'') reads sample_world (eur 700) 0 1 tx"
    using sample_ready [of 700 1 2 0 1] by auto
  have d: "debit (eur 700) (entity_id tx) (reads 2) (accounts_at (w_heap sample_world) 0) =
      Inl (InsufficientFundsError (eur 500) (eur 700))"
    by (simp add: account_defs eur_arith)
  have "str_replace ''ERROR'' [] (upper_str (exn_name (InsufficientFundsError (eur 500) (eur 700)))) =
      ''INSUFFICIENTFUNDS''"
    by code_simp
  with transfer_debit_refused [OF ready d] show ?thesis by auto
qed

text \<open>When the receiver refuses the credit, this store keeps the sender's debit: the stored sender is
  the debited object, although the transfer is FAILED and raised. The amount has left the sender and
  reached nobody.\<close>

theorem transfer_credit_refused:
  assumes "transfer_ready cmd \<omega> w amt r1 r2 tx" and "bank_ok w" and "money_ok amt"
    and "debit amt (entity_id tx) (\<omega> 2) (accounts_at (w_heap w) r1) = Inr a"
    and "credit amt (entity_id tx) (\<omega> 3) (accounts_at (w_heap w) r2) = Inl e"
  shows "\<exists>w'. transfer_initiate in_memory_uow in_memory_lock in_memory_bus cmd \<omega> w = (Inl e, w') \<and>
    im_stored (w_heap w', w_uow w') (tc_from_account_id cmd) = Some a \<and>
    money_cents (balance a) = money_cents (balance (accounts_at (w_heap w) r1)) - money_cents amt \<and>
    im_stored (w_heap w', w_uow w') (tc_to_account_id cmd) =
      im_stored (w_heap w, w_uow w) (tc_to_account_id cmd) \<and>
    w_bus w' = w_bus w"
proof -
  let ?w = "account_step_at r1 a (save_step (failed_tx \<omega> e tx) r1 r2 (reset_uow w))"
  have acc: "im_accounts (w_uow w) (tc_from_account_id cmd) = Some r1"
    "im_accounts (w_uow w) (tc_to_account_id cmd) = Some r2"
    using assms(1) by (auto simp: transfer_ready_def)
  have "account_ok (accounts_at (w_heap w) r1)"
    using assms(2) acc(1) by (auto simp: bank_ok_def im_stored_def)
  then have "money_cents (balance a) = money_cents (balance (accounts_at (w_heap w) r1)) - money_cents amt"
    using assms(3,4) by (auto simp: debit_Inr account_ok_def money_sub_cents(1))
  moreover have "w_bus ?w = w_bus w" "im_stored (w_heap ?w, w_uow ?w) (tc_from_account_id cmd) = Some a"
    "im_stored (w_heap ?w, w_uow ?w) (tc_to_account_id cmd) = im_stored (w_heap w, w_uow w) (tc_to_account_id cmd)"
    using acc transfer_ready_refs [OF assms(1)]
    by (simp_all add: account_step_at_def save_step_def heap_defs reset_uow_def im_stored_def)
  ultimately show ?thesis
    using transfer_credit_fails [OF assms(1,4,5)] by blast
qed

lemma transfer_credit_refused_witness:
  "\<exists>w' e a. transfer_initiate in_memory_uow in_memory_lock in_memory_bus (sample_cmd 1 3 200 ''k'') reads sample_world
      = (Inl e, w') \<and> im_stored (w_heap w', w_uow w') (uid 1) = Some a \<and> money_cents (balance a) = 300"
proof -
  obtain tx where ready: "transfer_ready (sample_cmd 1 3 200 ''k'') reads sample_world (eur 200) 0 2 tx"
    using sample_ready [of 200 1 3 0 2] by auto
  obtain a where d: "debit (eur 200) (entity_id tx) (reads 2) (accounts_at (w_heap sample_world) 0) = Inr a"
    by (simp add: account_defs eur_arith)
  have c: "credit (eur 200) (entity_id tx) (reads 3) (accounts_at (w_heap sample_world) 2) =
      Inl (AccountFrozenError (uid 3))"
    by (simp add: account_defs)
  from transfer_credit_refused [OF ready sample_bank_ok _ d c] show ?thesis by auto
qed

text \<open>A transfer that succeeds on accounts without pending events publishes, in this order and in one
  batch, the debit, the credit and the three events of the transaction; afterwards none of the three
  aggregates has events pending, and the transaction is stored COMPLETED.\<close>

theorem transfer_publishes:
  assumes "transfer_ready cmd \<omega> w amt r1 r2 tx"
    and "transfer_initiate in_memory_uow in_memory_lock in_memory_bus cmd \<omega> w = (Inr dto, w')"
    and "pending (accounts_at (w_heap w) r1) = []" and "pending (accounts_at (w_heap w) r2) = []"
  shows "\<exists>es. w_bus w' = w_bus w @ es \<and>
      map (event_class \<circ> event_data) es = [''BalanceDebited'', ''BalanceCredited'', ''TransactionInitiated'',
        ''TransactionProcessing'', ''TransactionCompleted''] \<and>
    pending (accounts_at (w_heap w') r1) = [] \<and> pending (accounts_at (w_heap w') r2) = [] \<and>
    (\<exists>r. lookup_key (w_uow w') (tc_idempotency_key cmd) = Some r \<and> pending (txs_at (w_heap w') r) = [] \<and>
       tx_status (txs_at (w_heap w') r) = COMPLETED)"
proof -
  obtain a b where a: "debit amt (entity_id tx) (\<omega> 2) (accounts_at (w_heap w) r1) = Inr a"
    and b: "credit amt (entity_id tx) (\<omega> 3) (accounts_at (w_heap w) r2) = Inr b"
    and w': "w' = publish_step r1 r2 (next_ref (w_heap w))
       (account_step_at r2 b (account_step_at r1 a (save_step (completed_tx \<omega> tx) r1 r2 (reset_uow w))))"
    using ready_return [OF assms(1,2)] .
  let ?v = "account_step_at r2 b (account_step_at r1 a (save_step (completed_tx \<omega> tx) r1 r2 (reset_uow w)))"
  have tx: "map event_class (pending (completed_tx \<omega> tx)) =
      [''TransactionInitiated'', ''TransactionProcessing'', ''TransactionCompleted'']"
    "idempotency_key tx = tc_idempotency_key cmd"
    using assms(1) by (auto simp: transfer_ready_def completed_tx_def complete_def can_complete_def Let_def
        processing_tx_def dest: tx_initiate_Inr)
  have "map event_class (pending a) = [''BalanceDebited'']" "map event_class (pending b) = [''BalanceCredited'']"
    using a b assms(3,4) by (auto simp: debit_Inr credit_Inr)
  moreover have "accounts_at (w_heap ?v) r1 = a" "accounts_at (w_heap ?v) r2 = b" "w_bus ?v = w_bus w"
    using transfer_ready_refs [OF assms(1)]
    by (simp_all add: account_step_at_def save_step_def heap_defs reset_uow_def)
  moreover note saved_key [OF disjI1 [OF refl], of r2 b r1 a "completed_tx \<omega> tx" w]
  ultimately show ?thesis using tx
    by (auto simp: w' publish_step_def cleared_def pending_def)
qed

lemma transfer_publishes_witness:
  "\<exists>dto w'. transfer_initiate in_memory_uow in_memory_lock in_memory_bus (sample_cmd 1 2 200 ''k'') reads
      sample_world = (Inr dto, w') \<and> length (w_bus w') = 5"
proof -
  obtain dto w' where r: "transfer_initiate in_memory_uow in_memory_lock in_memory_bus (sample_cmd 1 2 200 ''k'')
      reads sample_world = (Inr dto, w')" using sample_transfer_ok by blast
  obtain tx where ready: "transfer_ready (sample_cmd 1 2 200 ''k'') reads sample_world (eur 200) 0 1 tx"
    using sample_ready [of 200 1 2 0 1] by auto
  obtain es where es: "w_bus w' = w_bus sample_world @ es" "map (event_class \<circ> event_data) es = [''BalanceDebited'',
      ''BalanceCredited'', ''TransactionInitiated'', ''TransactionProcessing'', ''TransactionCompleted'']"
    using transfer_publishes [OF ready r] by auto
  have "length es = 5" using arg_cong [OF es(2), of length] by simp
  with r es(1) show ?thesis by auto
qed

text \<open>A transfer to the sender's own account never reaches the check that names it: its two lock keys
  are the same text, so the lock manager reports a conflict with itself. The caller sees
  \<open>ConcurrencyConflictError\<close>, not \<open>SameAccountTransferError\<close>, and nothing is stored or published.\<close>

theorem self_transfer_conflicts:
  assumes "tc_to_account_id cmd = tc_from_account_id cmd"
    and "lookup_key (w_uow w) (tc_idempotency_key cmd) = None" and "call_ok cmd \<omega> w amt"
  shows "transfer_initiate in_memory_uow in_memory_lock in_memory_bus cmd \<omega> w =
      (Inl (ConcurrencyConflictError (uuid_str (tc_from_account_id cmd))), reset_uow w)"
proof -
  obtain cur where arg: "parse_currency (tc_currency cmd) = Inr cur" "money_new (tc_amount cmd) cur = Inr amt"
    using assms(3) by (auto simp: call_ok_def)
  let ?ks = "lock_keys (tc_from_account_id cmd) (tc_to_account_id cmd)"
  have "\<not> distinct ?ks \<or> set ?ks \<inter> w_lock (reset_uow w) \<noteq> {}" using assms(1) by simp
  then have "with_lock in_memory_lock ?ks body (reset_uow w) =
      (Inl (ConcurrencyConflictError (uuid_str (tc_from_account_id cmd))), reset_uow w)"
    for body :: "(im_world, exn, nat \<times> nat \<times> nat) prog"
    by (rule with_lock_refused) (use assms(1) in auto)
  then show ?thesis
    using arg by (simp add: transfer_initiate_fresh [OF assms(2)] transfer_new_def bindP_apply liftP_apply)
qed

lemma self_transfer_conflicts_witness:
  "transfer_initiate in_memory_uow in_memory_lock in_memory_bus (sample_cmd 1 1 200 ''k'') reads sample_world =
      (Inl (ConcurrencyConflictError (uuid_str (uid 1))), reset_uow sample_world)"
  using self_transfer_conflicts [OF _ _ sample_call_ok [of 200 1 1 "''k''"]] by simp

text \<open>C17: Over any sequence of transfers, whatever their outcomes, the store stays valid, no money appears
  (the total of any group of accounts holding all those named never grows), and what has been recorded
  under a key is never overwritten: first outcome wins.\<close>

theorem transfer_sequence_safe:
  assumes "bank_ok w" and "calls_ok cs w" and "finite A"
    and "\<forall>c \<in> set cs. tc_from_account_id (fst c) \<in> A \<and> tc_to_account_id (fst c) \<in> A"
  shows "bank_ok (run_calls cs w) \<and> bank_total A (abs_bank (run_calls cs w)) \<le> bank_total A (abs_bank w) \<and>
    (\<forall>k e. bk_transfers (abs_bank w) k = Some e \<longrightarrow> bk_transfers (abs_bank (run_calls cs w)) k = Some e)"
  using run_calls_safe [OF assms(1,2)] run_calls_total [OF assms] by blast

text \<open>Two calls: a transfer, and another one under a key of its own.\<close>

definition sample_calls :: "(transfer_command \<times> (nat \<Rightarrow> readings)) list" where
  "sample_calls = [(sample_cmd 1 2 200 ''k'', reads), (sample_cmd 2 1 50 ''l'', \<lambda>n. reads (n + 5))]"

lemma sample_calls_ok: "calls_ok sample_calls sample_world"
proof -
  obtain dto w' where r: "transfer_initiate in_memory_uow in_memory_lock in_memory_bus (sample_cmd 1 2 200 ''k'')
      reads sample_world = (Inr dto, w')" using sample_transfer_ok by blast
  obtain tx where ready: "transfer_ready (sample_cmd 1 2 200 ''k'') reads sample_world (eur 200) 0 1 tx"
    using sample_ready [of 200 1 2 0 1] by auto
  obtain a b where w': "w' = publish_step 0 1 (next_ref (w_heap sample_world)) (account_step_at 1 b
      (account_step_at 0 a (save_step (completed_tx reads tx) 0 1 (reset_uow sample_world))))"
    using ready_return [OF ready r] .
  have "entity_id tx = uid 1"
    using ready by (auto simp: transfer_ready_def dest: tx_initiate_Inr(6))
  then have "im_txs (w_uow w') (uid 501) = None"
    by (simp add: w' publish_step_def account_step_at_def save_step_def heap_defs reset_uow_def uid_inject)
  moreover have "bank_ok w'" using transfer_refines [OF sample_call_ok, of 200 1 2 "''k''"] r by simp
  ultimately have "call_ok (sample_cmd 2 1 50 ''l'') (\<lambda>n. reads (n + 5)) w' (eur 50)"
    using parse_value_simps(1) [of EUR] by (simp add: call_ok_def money_new_eur)
  with sample_call_ok [of 200 1 2 "''k''"] r show ?thesis
    by (simp add: sample_calls_def) blast
qed

lemma transfer_sequence_safe_witness:
  "bank_ok (run_calls sample_calls sample_world) \<and>
   bank_total {uid 1, uid 2} (abs_bank (run_calls sample_calls sample_world)) \<le> 600"
proof -
  have "\<forall>c \<in> set sample_calls. tc_from_account_id (fst c) \<in> {uid 1, uid 2} \<and> tc_to_account_id (fst c) \<in> {uid 1, uid 2}"
    by (simp add: sample_calls_def)
  from transfer_sequence_safe [OF sample_bank_ok sample_calls_ok _ this]
  show ?thesis by (simp add: bank_total_def abs_bank_fields uid_inject)
qed

section \<open>Locks\<close>

text \<open>Whatever \<open>TransferService.initiate\<close> does, with any unit of work and any event bus and however
  it ends, the locks held afterwards are exactly those held before the call.\<close>

theorem transfer_releases_locks:
  "w_lock (snd (transfer_initiate U in_memory_lock B cmd \<omega> w)) = w_lock w"
  by (rule keepsD [OF transfer_locks])

text \<open>The lock manager takes all the keys or none: it succeeds exactly when the keys are distinct and
  all free, and then holds them in addition; a refusal names a key that was asked for and leaves the
  held set as it was.\<close>

theorem lock_all_or_nothing:
  "case lock_acquire in_memory_lock ks held of
     (Inr acquired, held') \<Rightarrow> acquired = ks \<and> distinct ks \<and> set ks \<inter> held = {} \<and> held' = held \<union> set ks
   | (Inl e, held') \<Rightarrow> held' = held \<and> (\<exists>k \<in> set ks. e = ConcurrencyConflictError k) \<and>
       \<not> (distinct ks \<and> set ks \<inter> held = {})"
proof -
  obtain x held' where r: "im_acquire_loop ks [] held = (x, held')" by (cases "im_acquire_loop ks [] held")
  from im_acquire_loop_cases [OF r] r show ?thesis by auto
qed

section \<open>AccountService\<close>

text \<open>Opening an account and asking for it gives the same DTO; the account is stored ACTIVE with the
  amount asked for, rounded to cents, and no other account changes.\<close>

theorem account_create_then_get:
  fixes w :: im_world
  assumes "im_ok (w_heap w, w_uow w)" and "account_service_create in_memory_uow cmd r w = (Inr dto, w')"
  shows "(\<exists>w''. account_service_get in_memory_uow (ad_id dto) w' = (Inr dto, w'')) \<and>
    ad_status dto = ''active'' \<and> ad_owner_id dto = cac_owner_id cmd \<and> ad_currency dto = cac_currency cmd \<and>
    (\<forall>i. i \<noteq> ad_id dto \<longrightarrow> im_stored (w_heap w', w_uow w') i = im_stored (w_heap w, w_uow w) i)"
proof -
  obtain cur m a where cur: "parse_currency (cac_currency cmd) = Inr cur"
    and a: "account_create (cac_owner_id cmd) cur (Some m) r = Inr a"
    and dto: "dto = account_dto_of a" and w': "w' = opened a w"
    using assms(2) by (auto simp: account_service_create_in_memory bindR_Inr_iff split: sum.splits)
  have "account_status a = ACTIVE" "owner_id a = cac_owner_id cmd" "money_currency (balance a) = cur"
    using a by (auto simp: account_create_def Let_def split: if_splits)
  moreover have "cac_currency cmd = currency_value cur"
    using cur currency.of_value_iff [folded currency_of_value_def]
    by (auto simp: parse_currency_def split: option.splits)
  moreover have "\<exists>w''. account_service_get in_memory_uow (entity_id a) w' = (Inr (account_dto_of a), w'')"
    using im_store.service_get [OF opened_ok [OF assms(1)], of "entity_id a" a] opened_stored(1) [of a w]
    by (auto simp: w')
  ultimately show ?thesis
    using opened_stored(2) [OF assms(1)] by (auto simp: dto w' account_dto_of_def)
qed

lemma account_create_then_get_witness:
  "\<exists>dto w' w''. account_service_create in_memory_uow \<lparr>cac_owner_id = uid 9, cac_currency = ''EUR'',
      cac_initial_balance = Fin False 1000 (-2)\<rparr> (reads 1) sample_world = (Inr dto, w') \<and>
    account_service_get in_memory_uow (ad_id dto) w' = (Inr dto, w'')"
proof -
  let ?cmd = "\<lparr>cac_owner_id = uid 9, cac_currency = ''EUR'', cac_initial_balance = Fin False 1000 (-2)\<rparr>"
  obtain a where "account_create (uid 9) EUR (Some (eur 1000)) (reads 1) = Inr a"
    by (simp add: account_create_def Let_def)
  then obtain dto w' where r: "account_service_create in_memory_uow ?cmd (reads 1) sample_world = (Inr dto, w')"
    using parse_value_simps(1) [of EUR] by (simp add: account_service_create_in_memory money_new_eur)
  have "im_ok (w_heap sample_world, w_uow sample_world)" by (simp add: sample_im_ok)
  from account_create_then_get [OF this r] r show ?thesis by blast
qed

text \<open>\<open>AccountService.get\<close> reports the stored account of an id, or \<open>ResourceNotFoundError\<close> when there
  is none, and leaves every stored account, the locks and the published events as they are.\<close>

theorem account_get_reports:
  fixes w :: im_world
  assumes "im_ok (w_heap w, w_uow w)"
  shows "\<exists>w'. account_service_get in_memory_uow i w =
      ((case im_stored (w_heap w, w_uow w) i of
          None \<Rightarrow> Inl (ResourceNotFoundError ''Account'' i) | Some a \<Rightarrow> Inr (account_dto_of a)), w') \<and>
    im_stored (w_heap w', w_uow w') = im_stored (w_heap w, w_uow w) \<and> w_lock w' = w_lock w \<and> w_bus w' = w_bus w"
  using assms by (rule im_store.service_get)

lemma account_get_reports_witness:
  "\<exists>w'. account_service_get in_memory_uow (uid 5) sample_world = (Inl (ResourceNotFoundError ''Account'' (uid 5)), w')"
  using account_get_reports [of sample_world "uid 5"] by (auto simp: sample_im_ok im_stored_def uid_inject)

section \<open>Log calls\<close>

text \<open>C36: \<open>TransferService.initiate\<close> with its log calls, over any unit of work, lock manager and event bus, returns
  what its model without them returns and leaves the state that leaves; and the calls it makes tell the result: a
  success says that it was a duplicate or that the transfer was completed, with the id of the returned transaction; an
  exception is told as a failed transfer or not at all; and at level INFO a transfer has one line when it
  returns and at most one when it raises.\<close>

theorem transfer_logs_exact:
  "\<exists>ls. transfer_initiate_logged U L B cmd \<omega> (w, l) =
      (fst (transfer_initiate U L B cmd \<omega> w), (snd (transfer_initiate U L B cmd \<omega> w), l @ ls)) \<and>
    transfer_calls cmd (fst (transfer_initiate U L B cmd \<omega> w)) ls \<and>
    (let n = length (filter (\<lambda>c. 20 \<le> lc_level c) ls)
     in case fst (transfer_initiate U L B cmd \<omega> w) of Inr _ \<Rightarrow> n = 1 | Inl _ \<Rightarrow> n \<le> 1)"
proof -
  let ?m = "transfer_initiate_logged U L B cmd \<omega> (w, l)" and ?x = "fst (transfer_initiate U L B cmd \<omega> w)"
  have same: "transfer_initiate U L B cmd \<omega> w = (fst ?m, fst (snd ?m))"
    using simulatesD [OF transfer_logged_erases, of U L B cmd \<omega> "(w, l)"] by simp
  obtain ls where ls: "snd (snd ?m) = l @ ls" "transfer_calls cmd (fst ?m) ls"
    using transfer_logged_shape [of cmd U L B \<omega>] unfolding adds_def by blast
  moreover have "case ?x of Inr _ \<Rightarrow> length (filter (\<lambda>c. 20 \<le> lc_level c) ls) = 1
      | Inl _ \<Rightarrow> length (filter (\<lambda>c. 20 \<le> lc_level c) ls) \<le> 1"
    using transfer_calls_level [OF ls(2)] by (simp add: same)
  ultimately show ?thesis
    using same by (intro exI [of _ ls]) (simp add: Let_def prod_eq_iff)
qed

end
