(* ===== verification/Postgres.thy ===== *)
theory Postgres
  imports Simulation
begin

text \<open>
  The database adapters: \<open>sqlalchemy_unit_of_work.py\<close>, \<open>postgres_account_repository.py\<close> and
  \<open>postgres_transaction_repository.py\<close>.

  \<^item> The SQLAlchemy session is third-party code: \<open>session_port\<close> is a parameter with one field per call
    the adapters make. \<open>session_laws\<close> says what they rely on, through an abstraction of the session
    to what the database has stored, what the session's loaded rows look like and what was added:
    statements read the stored rows with the changes made to loaded rows (the factory sets
    \<open>autoflush=False\<close>, so added rows are not seen), \<open>commit\<close> stores everything or raises and stores
    nothing, \<open>rollback\<close> and \<open>close\<close> drop what was not committed.
  \<^item> \<open>reference_session\<close> is the session whose state is that abstraction; \<open>sql_simulates\<close> states that
    over any lawful session the adapters behave as over the reference session.
  \<^item> The rows are those of theory Mappers; amounts are stored as the columns' \<open>Numeric(19, 4)\<close>.
\<close>

section \<open>The database\<close>

record db =
  db_accounts :: "account_orm list"
  db_txs :: "transaction_orm list"
  db_outbox :: "outbox_orm list"

definition find_account :: "uuid \<Rightarrow> db \<Rightarrow> account_orm option" where
  "find_account i d = find (\<lambda>r. ao_id r = i) (db_accounts d)"

definition find_tx :: "uuid \<Rightarrow> db \<Rightarrow> transaction_orm option" where
  "find_tx i d = find (\<lambda>r. to_id r = i) (db_txs d)"

definition find_tx_by_key :: "string \<Rightarrow> db \<Rightarrow> transaction_orm option" where
  "find_tx_by_key k d = find (\<lambda>r. to_idempotency_key r = k) (db_txs d)"

definition put_account :: "account_orm \<Rightarrow> db \<Rightarrow> db" where
  "put_account row d = d\<lparr>db_accounts := map (\<lambda>r. if ao_id r = ao_id row then row else r) (db_accounts d)\<rparr>"

definition put_tx :: "transaction_orm \<Rightarrow> db \<Rightarrow> db" where
  "put_tx row d = d\<lparr>db_txs := map (\<lambda>r. if to_id r = to_id row then row else r) (db_txs d)\<rparr>"

text \<open>A value of a \<open>Numeric(19, 4)\<close> column: four decimal places, no sign on zero, at most 19 digits.\<close>

fun numeric4 :: "decimal \<Rightarrow> decimal" where
  "numeric4 (Fin s c e) = (if -4 \<le> e then Fin (s \<and> c \<noteq> 0) (c * 10 ^ nat (e + 4)) (-4) else Fin s c e)"
| "numeric4 d = d"

fun fits_numeric :: "decimal \<Rightarrow> bool" where
  "fits_numeric (Fin s c e) = (e = -4 \<and> c < 10 ^ 19 \<and> (s \<longrightarrow> c \<noteq> 0))"
| "fits_numeric d = False"

text \<open>The columns' types and the unique constraints.\<close>

definition column_account :: "account_orm \<Rightarrow> account_orm" where
  "column_account r = r\<lparr>ao_balance := numeric4 (ao_balance r)\<rparr>"

definition column_tx :: "transaction_orm \<Rightarrow> transaction_orm" where
  "column_tx r = r\<lparr>to_amount := numeric4 (to_amount r)\<rparr>"

definition account_fits :: "account_orm \<Rightarrow> bool" where
  "account_fits r \<longleftrightarrow> fits_numeric (ao_balance r) \<and> length (ao_account_number r) \<le> 34"

definition tx_fits :: "transaction_orm \<Rightarrow> bool" where
  "tx_fits r \<longleftrightarrow> fits_numeric (to_amount r) \<and> length (to_idempotency_key r) \<le> 255 \<and>
     (case to_failure_code r of None \<Rightarrow> True | Some c \<Rightarrow> length c \<le> 64)"

definition db_columns :: "db \<Rightarrow> db" where
  "db_columns d = d\<lparr>db_accounts := map column_account (db_accounts d), db_txs := map column_tx (db_txs d)\<rparr>"

definition db_valid :: "db \<Rightarrow> bool" where
  "db_valid d \<longleftrightarrow>
     distinct (map ao_id (db_accounts d)) \<and> distinct (map ao_account_number (db_accounts d)) \<and>
     distinct (map to_id (db_txs d)) \<and> distinct (map to_idempotency_key (db_txs d)) \<and>
     list_all account_fits (db_accounts d) \<and> list_all tx_fits (db_txs d)"

section \<open>The session\<close>

record 'd session_port =
  s_open :: "('d, exn, unit) prog"
  s_select_account :: "bool \<Rightarrow> uuid \<Rightarrow> ('d, exn, account_orm option) prog"
  s_select_tx :: "uuid \<Rightarrow> ('d, exn, transaction_orm option) prog"
  s_select_tx_by_key :: "string \<Rightarrow> ('d, exn, transaction_orm option) prog"
  s_get_account :: "uuid \<Rightarrow> ('d, exn, account_orm option) prog"
  s_get_tx :: "uuid \<Rightarrow> ('d, exn, transaction_orm option) prog"
  s_add_account :: "account_orm \<Rightarrow> ('d, exn, unit) prog"
  s_add_tx :: "transaction_orm \<Rightarrow> ('d, exn, unit) prog"
  s_add_outbox :: "outbox_orm \<Rightarrow> ('d, exn, unit) prog"
  s_set_account :: "account_orm \<Rightarrow> ('d, exn, unit) prog"
  s_set_tx :: "transaction_orm \<Rightarrow> ('d, exn, unit) prog"
  s_commit :: "('d, exn, unit) prog"
  s_rollback :: "('d, exn, unit) prog"
  s_close :: "('d, exn, unit) prog"

record session =
  ss_stored :: db
  ss_seen :: db
  ss_new :: db

definition empty_db :: db where
  "empty_db = \<lparr>db_accounts = [], db_txs = [], db_outbox = []\<rparr>"

definition fresh_session :: "db \<Rightarrow> session" where
  "fresh_session d = \<lparr>ss_stored = d, ss_seen = d, ss_new = empty_db\<rparr>"

text \<open>What a commit writes: the changed rows and the added ones, in the columns' types.\<close>

definition session_result :: "session \<Rightarrow> db" where
  "session_result s = db_columns \<lparr>
     db_accounts = db_accounts (ss_seen s) @ db_accounts (ss_new s),
     db_txs = db_txs (ss_seen s) @ db_txs (ss_new s),
     db_outbox = db_outbox (ss_seen s) @ db_outbox (ss_new s)\<rparr>"

text \<open>\<open>refuse\<close> says which exception a commit raises when a constraint refuses its rows.\<close>

definition reference_session :: "(db \<Rightarrow> exn) \<Rightarrow> session session_port" where
  "reference_session refuse = \<lparr>
     s_open = modifyP (\<lambda>s. fresh_session (ss_stored s)),
     s_select_account = (\<lambda>for_update i. getP (\<lambda>s. find_account i (ss_seen s))),
     s_select_tx = (\<lambda>i. getP (\<lambda>s. find_tx i (ss_seen s))),
     s_select_tx_by_key = (\<lambda>k. getP (\<lambda>s. find_tx_by_key k (ss_seen s))),
     s_get_account = (\<lambda>i. getP (\<lambda>s. find_account i (ss_seen s))),
     s_get_tx = (\<lambda>i. getP (\<lambda>s. find_tx i (ss_seen s))),
     s_add_account = (\<lambda>r. modifyP (\<lambda>s. s\<lparr>ss_new := (ss_new s)\<lparr>db_accounts := db_accounts (ss_new s) @ [r]\<rparr>\<rparr>)),
     s_add_tx = (\<lambda>r. modifyP (\<lambda>s. s\<lparr>ss_new := (ss_new s)\<lparr>db_txs := db_txs (ss_new s) @ [r]\<rparr>\<rparr>)),
     s_add_outbox = (\<lambda>r. modifyP (\<lambda>s. s\<lparr>ss_new := (ss_new s)\<lparr>db_outbox := db_outbox (ss_new s) @ [r]\<rparr>\<rparr>)),
     s_set_account = (\<lambda>r. modifyP (\<lambda>s. s\<lparr>ss_seen := put_account r (ss_seen s)\<rparr>)),
     s_set_tx = (\<lambda>r. modifyP (\<lambda>s. s\<lparr>ss_seen := put_tx r (ss_seen s)\<rparr>)),
     s_commit = (\<lambda>s. if db_valid (session_result s) then (Inr (), fresh_session (session_result s))
                     else (Inl (refuse (session_result s)), s)),
     s_rollback = modifyP (\<lambda>s. fresh_session (ss_stored s)),
     s_close = modifyP (\<lambda>s. fresh_session (ss_stored s))\<rparr>"

text \<open>The documented behaviour of a session and its database, through an abstraction \<open>f\<close> of its state.\<close>

definition session_laws :: "(db \<Rightarrow> exn) \<Rightarrow> 'd session_port \<Rightarrow> ('d \<Rightarrow> session) \<Rightarrow> bool" where
  "session_laws refuse S f \<longleftrightarrow>
     simulates f (s_open S) (s_open (reference_session refuse)) \<and>
     (\<forall>b i. simulates f (s_select_account S b i) (s_select_account (reference_session refuse) b i)) \<and>
     (\<forall>i. simulates f (s_select_tx S i) (s_select_tx (reference_session refuse) i)) \<and>
     (\<forall>k. simulates f (s_select_tx_by_key S k) (s_select_tx_by_key (reference_session refuse) k)) \<and>
     (\<forall>i. simulates f (s_get_account S i) (s_get_account (reference_session refuse) i)) \<and>
     (\<forall>i. simulates f (s_get_tx S i) (s_get_tx (reference_session refuse) i)) \<and>
     (\<forall>r. simulates f (s_add_account S r) (s_add_account (reference_session refuse) r)) \<and>
     (\<forall>r. simulates f (s_add_tx S r) (s_add_tx (reference_session refuse) r)) \<and>
     (\<forall>r. simulates f (s_add_outbox S r) (s_add_outbox (reference_session refuse) r)) \<and>
     (\<forall>r. simulates f (s_set_account S r) (s_set_account (reference_session refuse) r)) \<and>
     (\<forall>r. simulates f (s_set_tx S r) (s_set_tx (reference_session refuse) r)) \<and>
     simulates f (s_commit S) (s_commit (reference_session refuse)) \<and>
     simulates f (s_rollback S) (s_rollback (reference_session refuse)) \<and>
     simulates f (s_close S) (s_close (reference_session refuse))"

section \<open>The unit of work\<close>

text \<open>The adapter's state: the current session with its database, and the two \<open>seen\<close> lists.\<close>

record 'd sql_uow =
  sq_db :: 'd
  sq_accounts_seen :: "nat list"
  sq_txs_seen :: "nat list"

definition on_db :: "('d, exn, 'a) prog \<Rightarrow> ('d sql_uow, 'a) uow_prog" where
  "on_db m = (\<lambda>(h, u). case m (sq_db u) of (x, d) \<Rightarrow> (x, (h, u\<lparr>sq_db := d\<rparr>)))"

definition see_account :: "nat \<Rightarrow> ('d sql_uow, unit) uow_prog" where
  "see_account r = modifyP (\<lambda>(h, u). (h, u\<lparr>sq_accounts_seen := sq_accounts_seen u @ [r]\<rparr>))"

definition see_tx :: "nat \<Rightarrow> ('d sql_uow, unit) uow_prog" where
  "see_tx r = modifyP (\<lambda>(h, u). (h, u\<lparr>sq_txs_seen := sq_txs_seen u @ [r]\<rparr>))"

text \<open>\<open>scalar_one_or_none\<close>, then the mapper, then \<open>seen\<close>.\<close>

definition sql_load_account :: "'d session_port \<Rightarrow> bool \<Rightarrow> account_id \<Rightarrow> ('d sql_uow, nat option) uow_prog" where
  "sql_load_account S for_update i =
     bindP (on_db (s_select_account S for_update i)) (\<lambda>orm. case orm of
         None \<Rightarrow> returnP None
       | Some row \<Rightarrow>
           bindP (liftP (account_to_domain row)) (\<lambda>a.
           bindP (new_account a) (\<lambda>r.
           thenP (see_account r) (returnP (Some r)))))"

definition sql_acc_get :: "'d session_port \<Rightarrow> account_id \<Rightarrow> ('d sql_uow, nat option) uow_prog" where
  "sql_acc_get S i = sql_load_account S False i"

definition sql_acc_get_with_lock :: "'d session_port \<Rightarrow> account_id \<Rightarrow> ('d sql_uow, nat option) uow_prog" where
  "sql_acc_get_with_lock S i = sql_load_account S True i"

definition sql_acc_save :: "'d session_port \<Rightarrow> nat \<Rightarrow> ('d sql_uow, unit) uow_prog" where
  "sql_acc_save S r =
     bindP (read_account r) (\<lambda>a.
     bindP (on_db (s_get_account S (entity_id a))) (\<lambda>orm. case orm of
         None \<Rightarrow> on_db (s_add_account S (account_to_new_orm a))
       | Some row \<Rightarrow> on_db (s_set_account S (account_update_orm row a))))"

text \<open>\<open>scalar_one\<close> raises when there is no row.\<close>

definition no_row :: exn where
  "no_row = ExternalError ''NoResultFound'' ''No row was found when one was required''"

definition sql_acc_update :: "'d session_port \<Rightarrow> nat \<Rightarrow> ('d sql_uow, unit) uow_prog" where
  "sql_acc_update S r =
     bindP (read_account r) (\<lambda>a.
     bindP (on_db (s_select_account S True (entity_id a))) (\<lambda>orm. case orm of
         None \<Rightarrow> raiseP no_row
       | Some row \<Rightarrow> on_db (s_set_account S (account_update_orm row a))))"

definition sql_acc_exists :: "'d session_port \<Rightarrow> account_id \<Rightarrow> ('d sql_uow, bool) uow_prog" where
  "sql_acc_exists S i =
     bindP (on_db (s_select_account S False i)) (\<lambda>orm. returnP (orm \<noteq> None))"

definition sql_tx_get :: "'d session_port \<Rightarrow> transaction_id \<Rightarrow> ('d sql_uow, nat option) uow_prog" where
  "sql_tx_get S i =
     bindP (on_db (s_select_tx S i)) (\<lambda>orm. case orm of
         None \<Rightarrow> returnP None
       | Some row \<Rightarrow>
           bindP (liftP (tx_to_domain row)) (\<lambda>t.
           bindP (new_tx t) (\<lambda>r.
           thenP (see_tx r) (returnP (Some r)))))"

definition sql_tx_get_by_idempotency_key ::
  "'d session_port \<Rightarrow> idempotency_key \<Rightarrow> ('d sql_uow, nat option) uow_prog" where
  "sql_tx_get_by_idempotency_key S k =
     bindP (on_db (s_select_tx_by_key S k)) (\<lambda>orm. case orm of
         None \<Rightarrow> returnP None
       | Some row \<Rightarrow>
           bindP (liftP (tx_to_domain row)) (\<lambda>t.
           bindP (new_tx t) (\<lambda>r. returnP (Some r))))"

definition sql_tx_save :: "'d session_port \<Rightarrow> nat \<Rightarrow> ('d sql_uow, unit) uow_prog" where
  "sql_tx_save S r =
     bindP (read_tx r) (\<lambda>t.
     bindP (on_db (s_get_tx S (entity_id t))) (\<lambda>orm. case orm of
         None \<Rightarrow> on_db (s_add_tx S (tx_to_new_orm t))
       | Some row \<Rightarrow> on_db (s_set_tx S (tx_update_orm row t))))"

text \<open>\<open>session.get\<close> may return None, and then the mapper's first assignment raises.\<close>

definition sql_tx_update :: "'d session_port \<Rightarrow> nat \<Rightarrow> ('d sql_uow, unit) uow_prog" where
  "sql_tx_update S r =
     bindP (read_tx r) (\<lambda>t.
     bindP (on_db (s_get_tx S (entity_id t))) (\<lambda>orm. case orm of
         None \<Rightarrow> raiseP (AttributeErr (quote ''NoneType'' @ '' object has no attribute '' @ quote ''status''))
       | Some row \<Rightarrow> on_db (s_set_tx S (tx_update_orm row t))))"

definition sql_enter :: "'d session_port \<Rightarrow> ('d sql_uow, unit) uow_prog" where
  "sql_enter S =
     thenP (on_db (s_open S))
       (modifyP (\<lambda>(h, u). (h, u\<lparr>sq_accounts_seen := [], sq_txs_seen := []\<rparr>)))"

definition sql_rollback :: "'d session_port \<Rightarrow> ('d sql_uow, unit) uow_prog" where
  "sql_rollback S = on_db (s_rollback S)"

definition sql_exit :: "'d session_port \<Rightarrow> exn option \<Rightarrow> ('d sql_uow, unit) uow_prog" where
  "sql_exit S e =
     thenP (case e of None \<Rightarrow> returnP () | Some _ \<Rightarrow> sql_rollback S) (on_db (s_close S))"

definition store_events :: "'d session_port \<Rightarrow> domain_event list \<Rightarrow> ('d sql_uow, unit) uow_prog" where
  "store_events S es = forP (\<lambda>e. on_db (s_add_outbox S (outbox_of_event e))) es"

definition collect_and_store_events :: "'d session_port \<Rightarrow> ('d sql_uow, unit) uow_prog" where
  "collect_and_store_events S =
     bindP (getP (\<lambda>(h, u). (sq_accounts_seen u, sq_txs_seen u))) (\<lambda>(accounts, txs).
       thenP (forP (\<lambda>r. bindP (collect_account r) (store_events S)) accounts)
             (forP (\<lambda>r. bindP (collect_tx r) (store_events S)) txs))"

definition sql_commit :: "'d session_port \<Rightarrow> ('d sql_uow, unit) uow_prog" where
  "sql_commit S =
     tryP (thenP (collect_and_store_events S) (on_db (s_commit S)))
          (\<lambda>e. thenP (on_db (s_rollback S)) (raiseP e))"

definition sql_account_repository :: "'d session_port \<Rightarrow> 'd sql_uow account_repository" where
  "sql_account_repository S = \<lparr>ar_get = sql_acc_get S, ar_get_with_lock = sql_acc_get_with_lock S, ar_save = sql_acc_save S,
     ar_update = sql_acc_update S, ar_exists = sql_acc_exists S\<rparr>"

definition sql_transaction_repository :: "'d session_port \<Rightarrow> 'd sql_uow transaction_repository" where
  "sql_transaction_repository S = \<lparr>tr_get = sql_tx_get S, tr_get_by_idempotency_key = sql_tx_get_by_idempotency_key S,
     tr_save = sql_tx_save S, tr_update = sql_tx_update S\<rparr>"

definition sqlalchemy_uow :: "'d session_port \<Rightarrow> 'd sql_uow uow_port" where
  "sqlalchemy_uow S = \<lparr>uow_accounts = sql_account_repository S, uow_transactions = sql_transaction_repository S, uow_enter = sql_enter S,
     uow_exit = sql_exit S, uow_commit = sql_commit S, uow_rollback = sql_rollback S\<rparr>"

lemma sqlalchemy_uow_simps [simp]:
  "uow_enter (sqlalchemy_uow S) = sql_enter S" "uow_exit (sqlalchemy_uow S) = sql_exit S"
  "uow_commit (sqlalchemy_uow S) = sql_commit S" "uow_rollback (sqlalchemy_uow S) = sql_rollback S"
  "acc_get (sqlalchemy_uow S) = sql_acc_get S" "acc_get_with_lock (sqlalchemy_uow S) = sql_acc_get_with_lock S"
  "acc_save (sqlalchemy_uow S) = sql_acc_save S" "acc_update (sqlalchemy_uow S) = sql_acc_update S"
  "acc_exists (sqlalchemy_uow S) = sql_acc_exists S" "tx_get (sqlalchemy_uow S) = sql_tx_get S"
  "tx_get_by_idempotency_key (sqlalchemy_uow S) = sql_tx_get_by_idempotency_key S"
  "tx_save (sqlalchemy_uow S) = sql_tx_save S" "tx_update (sqlalchemy_uow S) = sql_tx_update S"
  by (simp_all add: sqlalchemy_uow_def sql_account_repository_def sql_transaction_repository_def)

section \<open>Every lawful session behaves as the reference session\<close>

definition abs_session_uow :: "('d \<Rightarrow> session) \<Rightarrow> 'd sql_uow \<Rightarrow> session sql_uow" where
  "abs_session_uow f u = \<lparr>sq_db = f (sq_db u), sq_accounts_seen = sq_accounts_seen u, sq_txs_seen = sq_txs_seen u\<rparr>"

lemma simulates_on_db [intro]:
  assumes "simulates f m m'"
  shows "simulates (abs_uow_state (abs_session_uow f)) (on_db m) (on_db m')"
proof (rule simulatesI)
  fix s
  show "on_db m' (abs_uow_state (abs_session_uow f) s) =
      (fst (on_db m s), abs_uow_state (abs_session_uow f) (snd (on_db m s)))"
    using simulatesD [OF assms, of "sq_db (snd s)"]
    by (cases s; cases "m (sq_db (snd s))") (auto simp: on_db_def abs_uow_state_def abs_session_uow_def)
qed

lemma simulates_seen [intro]:
  "simulates (abs_uow_state (abs_session_uow f)) (see_account r) (see_account r)"
  "simulates (abs_uow_state (abs_session_uow f)) (see_tx r) (see_tx r)"
  "simulates (abs_uow_state (abs_session_uow f)) (modifyP (\<lambda>(h, u). (h, u\<lparr>sq_accounts_seen := [], sq_txs_seen := []\<rparr>)))
     (modifyP (\<lambda>(h, u). (h, u\<lparr>sq_accounts_seen := [], sq_txs_seen := []\<rparr>)))"
  "simulates (abs_uow_state (abs_session_uow f)) (getP (\<lambda>(h, u). (sq_accounts_seen u, sq_txs_seen u)))
     (getP (\<lambda>(h, u). (sq_accounts_seen u, sq_txs_seen u)))"
  by (auto intro!: simulatesI simp: abs_uow_state_def see_account_def see_tx_def modifyP_apply getP_apply abs_session_uow_def)

lemmas sql_op_defs = sql_enter_def sql_exit_def sql_commit_def sql_rollback_def sql_acc_get_def
  sql_acc_get_with_lock_def sql_load_account_def sql_acc_save_def sql_acc_update_def sql_acc_exists_def
  sql_tx_get_def sql_tx_get_by_idempotency_key_def sql_tx_save_def sql_tx_update_def
  collect_and_store_events_def store_events_def

lemma sql_simulates:
  assumes laws: "session_laws refuse S f"
  shows "uow_simulates (abs_session_uow f) (sqlalchemy_uow S) (sqlalchemy_uow (reference_session refuse))"
proof -
  let ?R = "reference_session refuse"
  have law: "simulates f (s_open S) (s_open ?R)" "simulates f (s_select_account S b i) (s_select_account ?R b i)"
    "simulates f (s_select_tx S i) (s_select_tx ?R i)" "simulates f (s_select_tx_by_key S k) (s_select_tx_by_key ?R k)"
    "simulates f (s_get_account S i) (s_get_account ?R i)" "simulates f (s_get_tx S i) (s_get_tx ?R i)"
    "simulates f (s_add_account S ra) (s_add_account ?R ra)" "simulates f (s_add_tx S rt) (s_add_tx ?R rt)"
    "simulates f (s_add_outbox S ro) (s_add_outbox ?R ro)" "simulates f (s_set_account S ra) (s_set_account ?R ra)"
    "simulates f (s_set_tx S rt) (s_set_tx ?R rt)" "simulates f (s_commit S) (s_commit ?R)"
    "simulates f (s_rollback S) (s_rollback ?R)" "simulates f (s_close S) (s_close ?R)" for b i k ra rt ro
    using laws by (simp_all add: session_laws_def)
  note intros = simulates_pure simulates_bindP simulates_thenP simulates_tryP simulates_objects simulates_forP
    simulates_case_option simulates_case_prod simulates_on_db simulates_seen law
  show ?thesis
    unfolding uow_simulates_def sqlalchemy_uow_simps sql_op_defs
    by (intro conjI allI intros)
qed

section \<open>The adapters over the reference session\<close>

type_synonym sql_state = "session sql_uow"

lemma reference_session_simps [simp]:
  "s_open (reference_session refuse) s = (Inr (), fresh_session (ss_stored s))"
  "s_select_account (reference_session refuse) b i s = (Inr (find_account i (ss_seen s)), s)"
  "s_select_tx (reference_session refuse) i s = (Inr (find_tx i (ss_seen s)), s)"
  "s_select_tx_by_key (reference_session refuse) k s = (Inr (find_tx_by_key k (ss_seen s)), s)"
  "s_get_account (reference_session refuse) i s = (Inr (find_account i (ss_seen s)), s)"
  "s_get_tx (reference_session refuse) i s = (Inr (find_tx i (ss_seen s)), s)"
  "s_add_account (reference_session refuse) ra s =
     (Inr (), s\<lparr>ss_new := (ss_new s)\<lparr>db_accounts := db_accounts (ss_new s) @ [ra]\<rparr>\<rparr>)"
  "s_add_tx (reference_session refuse) rt s =
     (Inr (), s\<lparr>ss_new := (ss_new s)\<lparr>db_txs := db_txs (ss_new s) @ [rt]\<rparr>\<rparr>)"
  "s_add_outbox (reference_session refuse) ro s =
     (Inr (), s\<lparr>ss_new := (ss_new s)\<lparr>db_outbox := db_outbox (ss_new s) @ [ro]\<rparr>\<rparr>)"
  "s_set_account (reference_session refuse) ra s = (Inr (), s\<lparr>ss_seen := put_account ra (ss_seen s)\<rparr>)"
  "s_set_tx (reference_session refuse) rt s = (Inr (), s\<lparr>ss_seen := put_tx rt (ss_seen s)\<rparr>)"
  "s_commit (reference_session refuse) s =
     (if db_valid (session_result s) then (Inr (), fresh_session (session_result s))
      else (Inl (refuse (session_result s)), s))"
  "s_rollback (reference_session refuse) s = (Inr (), fresh_session (ss_stored s))"
  "s_close (reference_session refuse) s = (Inr (), fresh_session (ss_stored s))"
  by (simp_all add: reference_session_def modifyP_apply getP_apply)

lemma fresh_session_simps [simp]:
  "ss_stored (fresh_session d) = d" "ss_seen (fresh_session d) = d" "ss_new (fresh_session d) = empty_db"
  by (simp_all add: fresh_session_def)

lemma empty_db_simps [simp]: "db_accounts empty_db = []" "db_txs empty_db = []" "db_outbox empty_db = []"
  by (simp_all add: empty_db_def)

lemma reference_session_lawful: "session_laws refuse (reference_session refuse) (\<lambda>s. s)"
  by (simp add: session_laws_def simulates_def)

lemma on_db_apply: "on_db m (h, u) = (case m (sq_db u) of (x, d) \<Rightarrow> (x, (h, u\<lparr>sq_db := d\<rparr>)))"
  by (simp add: on_db_def)

text \<open>Collecting events adds one outbox row per event and clears the aggregates.\<close>

definition add_outbox :: "domain_event list \<Rightarrow> session \<Rightarrow> session" where
  "add_outbox es s = s\<lparr>ss_new := (ss_new s)\<lparr>db_outbox := db_outbox (ss_new s) @ map outbox_of_event es\<rparr>\<rparr>"

definition drained :: "nat list \<Rightarrow> heap \<Rightarrow> heap" where
  "drained rs h = h\<lparr>accounts_at := (\<lambda>r. if r \<in> set rs then (accounts_at h r)\<lparr>domain_events := []\<rparr> else accounts_at h r)\<rparr>"

lemma store_events_reference:
  "store_events (reference_session refuse) es (h, u) = (Inr (), (h, u\<lparr>sq_db := add_outbox es (sq_db u)\<rparr>))"
  by (induction es arbitrary: u) (simp_all add: store_events_def thenP_apply returnP_apply on_db_apply add_outbox_def)

lemma add_outbox_add_outbox [simp]: "add_outbox es (add_outbox fs s) = add_outbox (fs @ es) s"
  by (simp add: add_outbox_def)

lemma collect_accounts_reference:
  assumes "distinct rs"
  shows "forP (\<lambda>r. bindP (collect_account r) (store_events (reference_session refuse))) rs (h, u) =
    (Inr (), (drained rs h, u\<lparr>sq_db := add_outbox (concat (map (\<lambda>r. domain_events (accounts_at h r)) rs)) (sq_db u)\<rparr>))"
  using assms
proof (induction rs arbitrary: h u)
  case Nil
  then show ?case by (simp add: returnP_apply drained_def add_outbox_def)
next
  case (Cons r rs)
  let ?h = "h\<lparr>accounts_at := (accounts_at h)(r := (accounts_at h r)\<lparr>domain_events := []\<rparr>)\<rparr>"
  have ev: "map (\<lambda>r. domain_events (accounts_at ?h r)) rs = map (\<lambda>r. domain_events (accounts_at h r)) rs"
    using Cons.prems by auto
  have dr: "drained rs ?h = drained (r # rs) h" by (auto simp: drained_def fun_eq_iff)
  have head: "bindP (collect_account r) (store_events (reference_session refuse)) (h, u) =
      (Inr (), (?h, u\<lparr>sq_db := add_outbox (domain_events (accounts_at h r)) (sq_db u)\<rparr>))"
    by (simp add: bindP_apply collect_account_def collect_events_def store_events_reference)
  show ?case
    using Cons.prems Cons.IH [of ?h "u\<lparr>sq_db := add_outbox (domain_events (accounts_at h r)) (sq_db u)\<rparr>", unfolded ev dr]
    by (simp add: thenP_apply head)
qed

lemma sql_commit_reference:
  assumes "distinct (sq_accounts_seen u)" and "sq_txs_seen u = []"
  shows "sql_commit (reference_session refuse) (h, u) =
    (let s = add_outbox (concat (map (\<lambda>r. domain_events (accounts_at h r)) (sq_accounts_seen u))) (sq_db u);
         h' = drained (sq_accounts_seen u) h
     in if db_valid (session_result s) then (Inr (), (h', u\<lparr>sq_db := fresh_session (session_result s)\<rparr>))
        else (Inl (refuse (session_result s)), (h', u\<lparr>sq_db := fresh_session (ss_stored (sq_db u))\<rparr>)))"
  using assms
  by (simp add: sql_commit_def collect_and_store_events_def tryP_apply thenP_apply bindP_apply getP_apply
      collect_accounts_reference returnP_apply on_db_apply raiseP_apply Let_def)
    (simp add: add_outbox_def)

lemma with_uow_reference:
  "with_uow (sqlalchemy_uow (reference_session refuse)) body (h, u) =
    (case body (h, \<lparr>sq_db = fresh_session (ss_stored (sq_db u)), sq_accounts_seen = [], sq_txs_seen = []\<rparr>) of
       (x, (h', u')) \<Rightarrow> (x, (h', u'\<lparr>sq_db := fresh_session (ss_stored (sq_db u'))\<rparr>)))"
  by (cases u)
    (simp add: with_uow_def withP_apply sql_enter_def sql_exit_def sql_rollback_def thenP_apply on_db_apply modifyP_apply returnP_apply
      raiseP_apply split: prod.splits sum.splits)

end
