(* ===== verification/Sql_Transfer.thy ===== *)
theory Sql_Transfer
  imports Postgres Transfer_Run
begin

text \<open>
  What \<open>TransferService.initiate\<close> does over the SQLAlchemy unit of work, on every branch, over the
  reference session; by theory Postgres any lawful session does the same.

  \<^item> \<open>sql_ok\<close> is the invariant of the stored database: the constraints hold and every row is the row
    of a valid account or of a transaction.
  \<^item> \<open>abs_sql_bank\<close> reads the stored rows as the abstract bank of theory Transfer_Run, and
    \<open>sql_transfer_refines\<close> states that the service implements its transactional variant, or that the
    commit was refused and nothing was stored.
\<close>

section \<open>Rows\<close>

lemma numeric4_cents: "numeric4 (Fin s c (-2)) = Fin (s \<and> c \<noteq> 0) (c * 100) (-4)"
  by simp

lemma numeric4_fits: "fits_numeric d \<Longrightarrow> numeric4 (numeric4 d) = numeric4 d"
  by (cases d) auto

lemma numeric4_twice [simp]: "numeric4 (numeric4 d) = numeric4 d"
  by (cases d) auto

lemma money_new_numeric4:
  assumes "money_ok m"
  shows "\<exists>m'. money_new (numeric4 (amount m)) cur = Inr m' \<and> money_ok m' \<and> money_cents m' = money_cents m \<and>
    money_currency m' = cur"
proof -
  obtain s c where a: "amount m = Fin s c (-2)" and c: "c < max_cents" and s: "s \<longrightarrow> c = 0"
    and v: "money_cents m = int c"
    using assms by (elim money_okE)
  have q: "quantize_cents (Fin False (c * 100) (-4)) = Inr (Fin False c (-2))"
    using quantize_scaled [of c False 2] c by simp
  have "money_new (Fin False (c * 100) (-4)) cur = money_new (Fin False c (-2)) cur"
    unfolding money_new_def money_post_init_def using c by (simp add: q del: quantize_cents.simps)
  also have "\<dots> = Inr \<lparr>amount = Fin False c (-2), money_currency = cur\<rparr>"
    using c by (simp add: money_new_cents)
  finally show ?thesis
    using s c v unfolding a numeric4_cents
    by (intro exI [of _ "\<lparr>amount = Fin False c (-2), money_currency = cur\<rparr>"])
      (auto simp: money_ok_def money_cents_def)
qed

definition row_ledger :: "account_orm \<Rightarrow> ledger option" where
  "row_ledger r = (case account_to_domain r of Inl _ \<Rightarrow> None | Inr a \<Rightarrow> Some (abs_account a))"

definition row_entry :: "transaction_orm \<Rightarrow> transfer_entry option" where
  "row_entry r = (case tx_to_domain r of Inl _ \<Rightarrow> None | Inr t \<Rightarrow> Some (abs_dto (transaction_dto_of t)))"

definition account_row_ok :: "account_orm \<Rightarrow> bool" where
  "account_row_ok r = (case account_to_domain r of Inl _ \<Rightarrow> False | Inr a \<Rightarrow> account_ok a)"

definition tx_row_ok :: "transaction_orm \<Rightarrow> bool" where
  "tx_row_ok r = (case tx_to_domain r of Inl _ \<Rightarrow> False | Inr t \<Rightarrow> True)"

text \<open>The row of a valid account, new or updated, stored in the columns' types, is its row again.\<close>

lemma stored_account_row:
  assumes "account_ok a" and "ao_balance r = amount (balance a)"
    and "ao_currency r = currency_value (money_currency (balance a))"
    and "ao_status r = account_status_value (account_status a)"
  shows "row_ledger (column_account r) = Some (abs_account a)" and "account_row_ok (column_account r)"
proof -
  obtain m where m: "money_new (numeric4 (amount (balance a))) (money_currency (balance a)) = Inr m"
    "money_ok m" "money_cents m = money_cents (balance a)" "money_currency m = money_currency (balance a)"
    using money_new_numeric4 assms(1) unfolding account_ok_def by blast
  have d: "account_to_domain (column_account r) = Inr (account_reconstitute (ao_id r) (ao_owner_id r)
      (ao_account_number r) m (account_status a) (ao_created_at r) (ao_updated_at r))"
    using assms(2-4) m(1) by (simp add: account_to_domain_def column_account_def)
  show "row_ledger (column_account r) = Some (abs_account a)"
    using m(3,4) by (simp add: row_ledger_def d abs_account_def account_reconstitute_def account_currency_def)
  show "account_row_ok (column_account r)"
    using m(2,3) assms(1)
    by (auto simp: account_row_ok_def d account_ok_def account_reconstitute_def is_zero_iff)
qed

lemma stored_tx_row:
  assumes "money_ok (tx_amount t)"
  shows "row_entry (column_tx (tx_to_new_orm t)) = Some (abs_dto (transaction_dto_of t))"
    and "tx_row_ok (column_tx (tx_to_new_orm t))"
proof -
  obtain m where m: "money_new (numeric4 (amount (tx_amount t))) (money_currency (tx_amount t)) = Inr m"
    "money_cents m = money_cents (tx_amount t)" "money_currency m = money_currency (tx_amount t)"
    using money_new_numeric4 [OF assms] by blast
  have "tx_to_domain (column_tx (tx_to_new_orm t)) =
      Inr (t\<lparr>domain_events := [], rollback_required := False, tx_amount := m\<rparr>)"
    using m(1) by (simp add: tx_to_domain_def column_tx_def tx_to_new_orm_def tx_reconstitute_def)
  then show "row_entry (column_tx (tx_to_new_orm t)) = Some (abs_dto (transaction_dto_of t))"
    and "tx_row_ok (column_tx (tx_to_new_orm t))"
    using m(2,3) by (simp_all add: row_entry_def tx_row_ok_def abs_dto_def transaction_dto_of_def money_cents_def)
qed

text \<open>A stored database is in the columns' types already.\<close>

lemma fits_numeric4: "fits_numeric d \<Longrightarrow> numeric4 d = d"
  by (cases d) auto

lemma fits_column: "account_fits r \<Longrightarrow> column_account r = r" "tx_fits t \<Longrightarrow> column_tx t = t"
  by (simp_all add: column_account_def column_tx_def account_fits_def tx_fits_def fits_numeric4)

lemma column_twice [simp]:
  "column_account (column_account r) = column_account r" "column_tx (column_tx t) = column_tx t"
  "ao_id (column_account r) = ao_id r" "to_id (column_tx t) = to_id t"
  "to_idempotency_key (column_tx t) = to_idempotency_key t"
  by (simp_all add: column_account_def column_tx_def)

section \<open>The stored database\<close>

text \<open>The database with a transaction and outbox rows added, as a commit stores it.\<close>

definition sql_recorded :: "db \<Rightarrow> transaction \<Rightarrow> domain_event list \<Rightarrow> db" where
  "sql_recorded d t es = db_columns (d\<lparr>db_txs := db_txs d @ [tx_to_new_orm t],
     db_outbox := db_outbox d @ map outbox_of_event es\<rparr>)"

definition sql_ok :: "db \<Rightarrow> bool" where
  "sql_ok d \<longleftrightarrow> db_valid d \<and> list_all account_row_ok (db_accounts d) \<and> list_all tx_row_ok (db_txs d)"

lemma sql_ok_columns:
  assumes "sql_ok d"
  shows "map column_account (db_accounts d) = db_accounts d" "map column_tx (db_txs d) = db_txs d"
    "db_columns d = d"
proof -
  show a: "map column_account (db_accounts d) = db_accounts d" "map column_tx (db_txs d) = db_txs d"
    using assms by (auto simp: sql_ok_def db_valid_def list_all_iff fits_column intro!: map_idI)
  then show "db_columns d = d" by (simp add: db_columns_def)
qed

lemma find_map: "(\<And>x. P (f x) = P x) \<Longrightarrow> find P (map f xs) = map_option f (find P xs)"
  by (induction xs) auto

lemma find_append: "find P (xs @ ys) = (case find P xs of None \<Rightarrow> find P ys | Some x \<Rightarrow> Some x)"
  by (induction xs) auto

lemma find_recorded:
  "find_account i (sql_recorded d t es) = map_option column_account (find_account i d)"
  "find_tx_by_key k (sql_recorded d t es) = (case find_tx_by_key k d of
     Some r \<Rightarrow> Some (column_tx r)
   | None \<Rightarrow> if k = idempotency_key t then Some (column_tx (tx_to_new_orm t)) else None)"
  by (auto simp: sql_recorded_def db_columns_def find_account_def find_tx_by_key_def find_map find_append
      tx_to_new_orm_def simp del: map_append map_map split: option.splits)

lemma find_put_account:
  "find_account i (put_account r d) =
     (if i = ao_id r then map_option (\<lambda>_. r) (find_account i d) else find_account i d)"
proof -
  have "find (\<lambda>r. ao_id r = i) (map (\<lambda>x. if ao_id x = ao_id r then r else x) xs) =
      (if i = ao_id r then map_option (\<lambda>_. r) (find (\<lambda>r. ao_id r = i) xs) else find (\<lambda>r. ao_id r = i) xs)" for xs
    by (induction xs) auto
  then show ?thesis by (simp add: find_account_def put_account_def)
qed

lemma find_account_id: "find_account i d = Some r \<Longrightarrow> ao_id r = i \<and> r \<in> set (db_accounts d)"
  by (auto simp: find_account_def find_Some_iff)

lemma put_account_simps [simp]:
  "db_txs (put_account r d) = db_txs d" "db_outbox (put_account r d) = db_outbox d"
  "find_tx_by_key k (put_account r d) = find_tx_by_key k d" "find_tx i (put_account r d) = find_tx i d"
  by (simp_all add: put_account_def find_tx_by_key_def find_tx_def)

section \<open>The abstract bank of a database\<close>

definition abs_sql_bank :: "db \<Rightarrow> string set \<Rightarrow> bank" where
  "abs_sql_bank d held = \<lparr>
     bk_accounts = (\<lambda>i. Option.bind (find_account i d) row_ledger),
     bk_transfers = (\<lambda>k. Option.bind (find_tx_by_key k d) row_entry),
     bk_busy = (\<lambda>i. uuid_str i \<in> held)\<rparr>"

lemma sql_ok_found:
  "sql_ok d \<Longrightarrow> find_account i d = Some r \<Longrightarrow> column_account r = r \<and> account_row_ok r"
  "sql_ok d \<Longrightarrow> find_tx_by_key k d = Some tr \<Longrightarrow> column_tx tr = tr \<and> tx_row_ok tr"
  by (auto simp: sql_ok_def db_valid_def list_all_iff fits_column find_account_def find_tx_by_key_def find_Some_iff)

text \<open>Recording a transfer under a new key, with the two accounts' rows updated or not.\<close>

lemma recorded_transfers:
  assumes "sql_ok d" and "db_txs d' = db_txs d" and "find_tx_by_key (idempotency_key t) d = None"
    and "money_ok (tx_amount t)"
  shows "bk_transfers (abs_sql_bank (sql_recorded d' t es) held) =
    (bk_transfers (abs_sql_bank d held))(idempotency_key t \<mapsto> abs_dto (transaction_dto_of t))"
proof
  fix k
  have "find_tx_by_key k d' = find_tx_by_key k d" using assms(2) by (simp add: find_tx_by_key_def)
  then show "bk_transfers (abs_sql_bank (sql_recorded d' t es) held) k =
    ((bk_transfers (abs_sql_bank d held))(idempotency_key t \<mapsto> abs_dto (transaction_dto_of t))) k"
    using assms(3) stored_tx_row(1) [OF assms(4)] sql_ok_found(2) [OF assms(1)]
    by (cases "find_tx_by_key k d") (auto simp: abs_sql_bank_def find_recorded)
qed

lemma recorded_accounts:
  assumes "sql_ok d"
  shows "bk_accounts (abs_sql_bank (sql_recorded d t es) held) = bk_accounts (abs_sql_bank d held)"
proof
  fix i
  show "bk_accounts (abs_sql_bank (sql_recorded d t es) held) i = bk_accounts (abs_sql_bank d held) i"
    using sql_ok_found(1) [OF assms] by (cases "find_account i d") (auto simp: abs_sql_bank_def find_recorded)
qed

definition updated_accounts :: "account_orm \<Rightarrow> account \<Rightarrow> account_orm \<Rightarrow> account \<Rightarrow> db \<Rightarrow> db" where
  "updated_accounts ra a rb b d =
     put_account (account_update_orm rb b) (put_account (account_update_orm ra a) d)"

lemma updated_accounts_txs [simp]: "db_txs (updated_accounts ra a rb b d) = db_txs d"
  by (simp add: updated_accounts_def)

lemma update_orm_id [simp]: "ao_id (account_update_orm r a) = ao_id r"
  by (simp add: account_update_orm_def)

lemma updated_row:
  assumes "account_ok a"
  shows "row_ledger (column_account (account_update_orm r a)) = Some (abs_account a)"
    and "account_row_ok (column_account (account_update_orm r a))"
  using stored_account_row [OF assms, of "account_update_orm r a"] by (simp_all add: account_update_orm_def)

lemma recorded_updated_accounts:
  assumes "sql_ok d" and "find_account f d = Some ra" and "find_account g d = Some rb" and "f \<noteq> g"
    and "account_ok a" and "account_ok b"
  shows "bk_accounts (abs_sql_bank (sql_recorded (updated_accounts ra a rb b d) t es) held) =
    (bk_accounts (abs_sql_bank d held))(f \<mapsto> abs_account a, g \<mapsto> abs_account b)"
proof
  fix i
  have "ao_id ra = f" "ao_id rb = g" using assms(2,3) find_account_id by blast+
  then show "bk_accounts (abs_sql_bank (sql_recorded (updated_accounts ra a rb b d) t es) held) i =
    ((bk_accounts (abs_sql_bank d held))(f \<mapsto> abs_account a, g \<mapsto> abs_account b)) i"
    using sql_ok_found(1) [OF assms(1), of i] assms(2-4) updated_row [OF assms(5)] updated_row [OF assms(6)]
    by (cases "find_account i d")
      (auto simp: abs_sql_bank_def find_recorded updated_accounts_def find_put_account)
qed

text \<open>When a commit is accepted: the key, the amounts and the failure code fit their columns.\<close>

definition column_cents :: nat where
  "column_cents = 10 ^ 17"

lemma money_fits:
  assumes "money_ok m" and "money_cents m < int column_cents"
  shows "fits_numeric (numeric4 (amount m))"
proof -
  obtain s c where a: "amount m = Fin s c (-2)" and c: "s \<longrightarrow> c = 0" and v: "money_cents m = int c"
    using assms(1) by (elim money_okE)
  have "c * 100 < 10 ^ 17 * 100" using assms(2) v by (simp add: column_cents_def)
  with a c show ?thesis by simp
qed

lemma fits_cents:
  assumes "fits_numeric d" and "money_new d cur = Inr m"
  shows "money_cents m \<le> int column_cents"
proof -
  obtain s c where d: "d = Fin s c (-4)" and c: "c < 10 ^ 19" using assms(1) by (cases d) auto
  have q: "quantize_cents (Fin s c (-4)) = Inr (amount m)"
    using assms(2) by (auto simp: d money_new_def money_post_init_def bindR_Inr_iff raise_dec_def
        simp del: quantize_cents.simps split: sum.splits if_splits)
  then have a: "amount m = Fin s (round_half_up c 2) (-2)" by (auto simp: Let_def split: if_splits)
  have "round_half_up c 2 \<le> column_cents" using c by (simp add: round_half_up_def column_cents_def)
  moreover have "money_ok m" using assms(2) money_new_ok by blast
  then obtain s' c' where "amount m = Fin s' c' (-2)" "money_cents m = int c'" by (elim money_okE)
  ultimately show ?thesis using a by simp
qed

definition tx_room :: "transaction \<Rightarrow> db \<Rightarrow> bool" where
  "tx_room t d \<longleftrightarrow> money_ok (tx_amount t) \<and> money_cents (tx_amount t) < int column_cents \<and>
     length (idempotency_key t) \<le> 255 \<and> (\<forall>c. failure_code t = Some c \<longrightarrow> length c \<le> 64) \<and>
     find_tx (entity_id t) d = None \<and> find_tx_by_key (idempotency_key t) d = None"

lemma tx_room_fits:
  assumes "tx_room t d"
  shows "tx_fits (column_tx (tx_to_new_orm t))"
  using assms money_fits [of "tx_amount t"]
  by (auto simp: tx_room_def tx_fits_def column_tx_def tx_to_new_orm_def split: option.splits)

lemma find_none_notin:
  "find_tx i d = None \<Longrightarrow> i \<notin> to_id ` set (db_txs d)"
  "find_tx_by_key k d = None \<Longrightarrow> k \<notin> to_idempotency_key ` set (db_txs d)"
  by (auto simp: find_tx_def find_tx_by_key_def find_None_iff)

lemma recorded_valid:
  assumes "sql_ok d" and "tx_room t d"
  shows "db_valid (sql_recorded d t es)"
  using assms tx_room_fits [OF assms(2)] sql_ok_columns(1,2) [OF assms(1)] find_none_notin
  by (auto simp: db_valid_def sql_recorded_def db_columns_def tx_room_def sql_ok_def tx_to_new_orm_def column_tx_def)

lemma put_account_valid:
  assumes "db_valid d" and "find_account i d = Some r" and "ao_id r' = ao_id r"
    and "ao_account_number r' = ao_account_number r" and "account_fits (column_account r')"
  shows "db_valid (db_columns (put_account r' d))"
proof -
  have i: "ao_id r = i" "r \<in> set (db_accounts d)" using find_account_id [OF assms(2)] by simp_all
  have only: "x = r" if "x \<in> set (db_accounts d)" "ao_id x = ao_id r" for x
    using assms(1) i(2) that by (auto simp: db_valid_def distinct_map dest: inj_onD)
  have cols: "map column_account (db_accounts d) = db_accounts d" "map column_tx (db_txs d) = db_txs d"
    using assms(1) by (auto simp: db_valid_def list_all_iff fits_column intro!: map_idI)
  let ?upd = "\<lambda>x. column_account (if ao_id x = ao_id r' then r' else x)"
  have "map ao_id (map ?upd (db_accounts d)) = map ao_id (db_accounts d)"
    using assms(3) by (auto simp: column_account_def)
  moreover have "map ao_account_number (map ?upd (db_accounts d)) = map ao_account_number (db_accounts d)"
    using assms(3,4) only by (auto simp: column_account_def)
  moreover have "list_all account_fits (map ?upd (db_accounts d))"
    using assms(1,5) by (auto simp: db_valid_def list_all_iff fits_column)
  moreover have "db_accounts (db_columns (put_account r' d)) = map ?upd (db_accounts d)"
    "db_txs (db_columns (put_account r' d)) = db_txs d"
    using cols(2) by (simp_all add: put_account_def db_columns_def)
  ultimately show ?thesis
    using assms(1) by (simp only: db_valid_def)
qed

text \<open>Both accounts' rows and the transaction's are stored together.\<close>

lemma recorded_updated_valid:
  assumes "sql_ok d" and "tx_room t d" and "find_account f d = Some ra" and "find_account g d = Some rb" and "f \<noteq> g"
    and "account_fits (column_account (account_update_orm ra a))" and "account_fits (column_account (account_update_orm rb b))"
  shows "db_valid (sql_recorded (updated_accounts ra a rb b d) t es)"
proof -
  let ?d1 = "db_columns (put_account (account_update_orm ra a) d)"
  let ?d2 = "db_columns (put_account (account_update_orm rb b) ?d1)"
  have ids: "ao_id ra = f" "ao_id rb = g" using assms(3,4) find_account_id by blast+
  have upd: "ao_id (account_update_orm r x) = ao_id r" "ao_account_number (account_update_orm r x) = ao_account_number r" for r x
    by (simp_all add: account_update_orm_def)
  have v1: "db_valid ?d1"
    using assms(1,6) put_account_valid [OF _ assms(3) upd] by (simp add: sql_ok_def)
  have cols: "column_account rb = rb" using sql_ok_found(1) [OF assms(1,4)] by simp
  have "find_account g ?d1 = map_option column_account (find_account g (put_account (account_update_orm ra a) d))"
    by (simp add: find_account_def db_columns_def find_map del: map_map)
  then have fg: "find_account g ?d1 = Some rb"
    using assms(4,5) ids cols by (simp add: find_put_account upd)
  from put_account_valid [OF v1 fg upd assms(7)] have v2: "db_valid ?d2" .
  have eq: "db_accounts (sql_recorded (updated_accounts ra a rb b d) t es) = db_accounts ?d2"
    "db_txs (sql_recorded (updated_accounts ra a rb b d) t es) = db_txs (sql_recorded d t es)"
    using assms(5) ids
    by (auto simp: sql_recorded_def db_columns_def updated_accounts_def put_account_def upd column_account_def account_update_orm_def)
  show ?thesis
    using v2 recorded_valid [OF assms(1,2), of es] unfolding db_valid_def eq by blast
qed

text \<open>What a commit stores keeps the invariant.\<close>

lemma recorded_ok:
  assumes "sql_ok d" and "db_valid (sql_recorded d t es)" and "money_ok (tx_amount t)"
  shows "sql_ok (sql_recorded d t es)"
  using assms sql_ok_columns [OF assms(1)] stored_tx_row(2) [OF assms(3)]
  by (auto simp: sql_ok_def sql_recorded_def db_columns_def)

lemma recorded_updated_ok:
  assumes "sql_ok d" and "db_valid (sql_recorded (updated_accounts ra a rb b d) t es)" and "money_ok (tx_amount t)"
    and "account_ok a" and "account_ok b"
  shows "sql_ok (sql_recorded (updated_accounts ra a rb b d) t es)"
proof -
  have "account_row_ok r \<and> column_account r = r" if "r \<in> set (db_accounts d)" for r
    using that assms(1) by (auto simp: sql_ok_def db_valid_def list_all_iff fits_column)
  then have "list_all account_row_ok (db_accounts (sql_recorded (updated_accounts ra a rb b d) t es))"
    using updated_row(2) [OF assms(4)] updated_row(2) [OF assms(5)]
    by (auto simp: sql_recorded_def db_columns_def updated_accounts_def put_account_def list_all_iff)
  with assms(1,2) sql_ok_columns(2) [OF assms(1)] stored_tx_row(2) [OF assms(3)] show ?thesis
    by (simp add: sql_ok_def sql_recorded_def db_columns_def updated_accounts_def)
qed

section \<open>The unit of work's part\<close>

definition sql_start :: "db \<Rightarrow> session sql_uow" where
  "sql_start d = \<lparr>sq_db = fresh_session d, sq_accounts_seen = [], sq_txs_seen = []\<rparr>"

text \<open>The two loaded accounts and the new transaction of a unit of work.\<close>

definition sql_uow_ready ::
  "account_id \<Rightarrow> account_id \<Rightarrow> money \<Rightarrow> idempotency_key \<Rightarrow> (nat \<Rightarrow> readings) \<Rightarrow> db \<Rightarrow> account_orm \<Rightarrow> account
   \<Rightarrow> account_orm \<Rightarrow> account \<Rightarrow> transaction \<Rightarrow> bool" where
  "sql_uow_ready f t amt key \<omega> d ra a rb b tx \<longleftrightarrow>
     find_account f d = Some ra \<and> account_to_domain ra = Inr a \<and>
     find_account t d = Some rb \<and> account_to_domain rb = Inr b \<and> f \<noteq> t \<and>
     tx_initiate f t amt key TRANSFER (\<omega> 0) = Inr tx \<and> find_tx (entity_id tx) d = None"

lemma sql_load:
  "load_account (sqlalchemy_uow (reference_session refuse)) i (h, u) =
     (case find_account i (ss_seen (sq_db u)) of
        None \<Rightarrow> (Inl (ResourceNotFoundError ''Account'' i), (h, u))
      | Some row \<Rightarrow> (case account_to_domain row of
          Inl e \<Rightarrow> (Inl e, (h, u))
        | Inr a \<Rightarrow> (Inr (next_ref h), (snd (alloc_account a h),
             u\<lparr>sq_accounts_seen := sq_accounts_seen u @ [next_ref h]\<rparr>))))"
  by (auto simp: load_account_def sql_acc_get_with_lock_def sql_load_account_def bindP_apply thenP_apply on_db_apply
      liftP_apply new_account_def alloc_account_def see_account_def modifyP_apply returnP_apply raiseP_apply
      split: option.splits sum.splits)

lemma sql_save_new:
  "find_tx (entity_id (txs_at h r)) (ss_seen (sq_db u)) = None \<Longrightarrow>
   sql_tx_save (reference_session refuse) r (h, u) =
     (Inr (), (h, u\<lparr>sq_db := (sq_db u)\<lparr>ss_new := (ss_new (sq_db u))
        \<lparr>db_txs := db_txs (ss_new (sq_db u)) @ [tx_to_new_orm (txs_at h r)]\<rparr>\<rparr>\<rparr>))"
  by (simp add: sql_tx_save_def bindP_apply read_tx_def getP_apply on_db_apply)

lemma sql_update_found:
  "find_account (entity_id (accounts_at h r)) (ss_seen (sq_db u)) = Some row \<Longrightarrow>
   sql_acc_update (reference_session refuse) r (h, u) =
     (Inr (), (h, u\<lparr>sq_db := (sq_db u)\<lparr>ss_seen :=
        put_account (account_update_orm row (accounts_at h r)) (ss_seen (sq_db u))\<rparr>\<rparr>))"
  by (simp add: sql_acc_update_def bindP_apply read_account_def getP_apply on_db_apply)

lemma to_domain_no_events: "account_to_domain r = Inr a \<Longrightarrow> domain_events a = [] \<and> entity_id a = ao_id r"
  by (auto simp: account_to_domain_def bindR_Inr_iff account_reconstitute_def)

lemma sql_uow_ready_facts:
  assumes "sql_uow_ready f t amt key \<omega> d ra a rb b tx"
  shows "tx_status tx = PENDING" "domain_events a = []" "domain_events b = []" "entity_id a = f" "entity_id b = t"
    "ao_id ra = f" "ao_id rb = t" "idempotency_key tx = key" "tx_amount tx = amt" "t \<noteq> f"
  using assms to_domain_no_events [of ra a] to_domain_no_events [of rb b] tx_initiate_Inr [of f t amt key TRANSFER "\<omega> 0" tx]
    find_account_id [of f d ra] find_account_id [of t d rb]
  by (auto simp: sql_uow_ready_def)

lemma session_result_simps:
  "session_result (fresh_session d\<lparr>ss_new := empty_db\<lparr>db_txs := [r], db_outbox := os\<rparr>\<rparr>) =
     db_columns (d\<lparr>db_txs := db_txs d @ [r], db_outbox := db_outbox d @ os\<rparr>)"
  "session_result (fresh_session d\<lparr>ss_seen := d', ss_new := empty_db\<lparr>db_txs := [r], db_outbox := os\<rparr>\<rparr>) =
     db_columns (d'\<lparr>db_txs := db_txs d' @ [r], db_outbox := db_outbox d' @ os\<rparr>)"
  by (simp_all add: session_result_def db_columns_def)

lemmas sql_run_simps = transfer_in_uow_def sql_start_def sql_load bindP_apply thenP_apply liftP_apply returnP_apply
  raiseP_apply object_defs tryP_apply transfer_apply_def transfer_failed_def getP_apply mark_processing_pending
  fail_processing complete_processing sql_save_new sql_update_found sql_commit_reference Let_def add_outbox_def

lemma sql_debit_fails:
  assumes ready: "sql_uow_ready f t amt key \<omega> d ra a rb b tx"
    and "debit amt (entity_id tx) (\<omega> 2) a = Inl e"
  defines "D \<equiv> sql_recorded d (failed_tx \<omega> e tx) []"
  shows "\<exists>h' u'. transfer_in_uow (sqlalchemy_uow (reference_session refuse)) f t amt key \<omega> (h, sql_start d) =
      (Inl (if db_valid D then e else refuse D), (h', u')) \<and> ss_stored (sq_db u') = (if db_valid D then D else d)"
  using assms(1,2) sql_uow_ready_facts [OF ready] unfolding sql_uow_ready_def D_def sql_recorded_def
  by (simp add: sql_run_simps session_result_simps)

lemma sql_credit_fails:
  assumes ready: "sql_uow_ready f t amt key \<omega> d ra a rb b tx"
    and "debit amt (entity_id tx) (\<omega> 2) a = Inr a'" and "credit amt (entity_id tx) (\<omega> 3) b = Inl e"
  defines "D \<equiv> sql_recorded d (failed_tx \<omega> e tx) (domain_events a')"
  shows "\<exists>h' u'. transfer_in_uow (sqlalchemy_uow (reference_session refuse)) f t amt key \<omega> (h, sql_start d) =
      (Inl (if db_valid D then e else refuse D), (h', u')) \<and> ss_stored (sq_db u') = (if db_valid D then D else d)"
  using assms(1-3) sql_uow_ready_facts [OF ready] unfolding sql_uow_ready_def D_def sql_recorded_def
  by (simp add: sql_run_simps session_result_simps)

lemma sql_succeeds:
  assumes ready: "sql_uow_ready f t amt key \<omega> d ra a rb b tx"
    and "debit amt (entity_id tx) (\<omega> 2) a = Inr a'" and "credit amt (entity_id tx) (\<omega> 3) b = Inr b'"
    and "entity_id a' = f" and "entity_id b' = t"
  defines "D \<equiv> sql_recorded (updated_accounts ra a' rb b' d) (completed_tx \<omega> tx) (domain_events a' @ domain_events b')"
  shows "\<exists>h' u'. transfer_in_uow (sqlalchemy_uow (reference_session refuse)) f t amt key \<omega> (h, sql_start d) =
      (if db_valid D then Inr (next_ref h, next_ref h + 1, next_ref h + 2) else Inl (refuse D), (h', u')) \<and>
    ss_stored (sq_db u') = (if db_valid D then D else d) \<and>
    domain_events (accounts_at h' (next_ref h)) = [] \<and> domain_events (accounts_at h' (next_ref h + 1)) = [] \<and>
    txs_at h' (next_ref h + 2) = completed_tx \<omega> tx"
  using assms(1-5) sql_uow_ready_facts [OF ready] unfolding sql_uow_ready_def D_def sql_recorded_def updated_accounts_def
  by (simp add: sql_run_simps session_result_simps find_put_account drained_def)

section \<open>The whole call\<close>

type_synonym sql_world = "(session sql_uow, string set, domain_event list) world"

definition sql_stored :: "sql_world \<Rightarrow> db" where
  "sql_stored w = ss_stored (sq_db (w_uow w))"

definition sql_begin :: "sql_world \<Rightarrow> sql_world" where
  "sql_begin w = w\<lparr>w_uow := sql_start (sql_stored w)\<rparr>"

definition abs_sql :: "sql_world \<Rightarrow> bank" where
  "abs_sql w = abs_sql_bank (sql_stored w) (w_lock w)"

lemma sql_begin_simps [simp]:
  "sql_stored (sql_begin w) = sql_stored w" "w_heap (sql_begin w) = w_heap w" "w_lock (sql_begin w) = w_lock w"
  "w_bus (sql_begin w) = w_bus w" "w_uow (sql_begin w) = sql_start (sql_stored w)"
  "sql_begin (sql_begin w) = sql_begin w" "abs_sql (sql_begin w) = abs_sql w"
  by (simp_all add: sql_begin_def sql_stored_def sql_start_def abs_sql_def)

lemma sql_with_uow:
  assumes "body (w_heap w, sql_start (sql_stored w)) = (x, (h', u'))"
  shows "\<exists>v. in_uow (with_uow (sqlalchemy_uow (reference_session refuse)) body) w = (x, v) \<and>
    sql_stored v = ss_stored (sq_db u') \<and> w_heap v = h' \<and> w_lock v = w_lock w \<and> w_bus v = w_bus w"
  using assms by (simp add: in_uow_def with_uow_reference sql_start_def sql_stored_def)

lemma sql_existing_none:
  assumes "find_tx_by_key key (sql_stored w) = None"
  shows "transfer_existing (sqlalchemy_uow (reference_session refuse)) key w = (Inr None, sql_begin w)"
  using assms by (simp add: transfer_existing_def in_uow_def with_uow_reference sql_tx_get_by_idempotency_key_def
      bindP_apply on_db_apply returnP_apply sql_begin_def sql_start_def sql_stored_def)

text \<open>A known key: the stored row is reported.\<close>

lemma sql_known:
  assumes "find_tx_by_key (tc_idempotency_key cmd) (sql_stored w) = Some row" and "tx_to_domain row = Inr t"
  shows "\<exists>w'. transfer_initiate (sqlalchemy_uow (reference_session refuse)) L B cmd \<omega> w =
      (Inr (transaction_dto_of t), w') \<and> sql_stored w' = sql_stored w \<and> w_lock w' = w_lock w \<and> w_bus w' = w_bus w"
  using assms by (simp add: transfer_initiate_def transfer_existing_def in_uow_def with_uow_reference
      sql_tx_get_by_idempotency_key_def bindP_apply on_db_apply returnP_apply liftP_apply object_defs getP_apply
      sql_stored_def)

text \<open>A call whose unit of work raises: the exception goes to the caller, the locks are released.\<close>

definition sql_arg :: "transfer_command \<Rightarrow> money \<Rightarrow> bool" where
  "sql_arg cmd amt \<longleftrightarrow> (\<exists>cur. parse_currency (tc_currency cmd) = Inr cur \<and> money_new (tc_amount cmd) cur = Inr amt)"

lemma sql_call:
  assumes "find_tx_by_key (tc_idempotency_key cmd) (sql_stored w) = None" and "sql_arg cmd amt"
    and "locks_free (tc_from_account_id cmd) (tc_to_account_id cmd) w"
    and "transfer_in_uow (sqlalchemy_uow (reference_session refuse)) (tc_from_account_id cmd) (tc_to_account_id cmd)
      amt (tc_idempotency_key cmd) \<omega> (w_heap w, sql_start (sql_stored w)) = (x, (h', u'))"
  shows "\<exists>v. sql_stored v = ss_stored (sq_db u') \<and> w_heap v = h' \<and> w_lock v = w_lock w \<and> w_bus v = w_bus w \<and>
    transfer_initiate (sqlalchemy_uow (reference_session refuse)) in_memory_lock B cmd \<omega> w =
    (case x of Inl e \<Rightarrow> (Inl e, v)
     | Inr (s, r, tx) \<Rightarrow> thenP (transfer_publish B s r tx)
         (bindP (in_uow (read_tx tx)) (\<lambda>t. returnP (transaction_dto_of t))) v)"
proof -
  obtain cur where arg: "parse_currency (tc_currency cmd) = Inr cur" "money_new (tc_amount cmd) cur = Inr amt"
    using assms(2) by (auto simp: sql_arg_def)
  have free: "locks_free (tc_from_account_id cmd) (tc_to_account_id cmd) (sql_begin w)"
    using assms(3) by (simp add: locks_free_def)
  let ?m = "transfer_in_uow (sqlalchemy_uow (reference_session refuse)) (tc_from_account_id cmd)
      (tc_to_account_id cmd) amt (tc_idempotency_key cmd) \<omega>"
  obtain v where v: "in_uow (with_uow (sqlalchemy_uow (reference_session refuse)) ?m) (sql_begin w) = (x, v)"
    "sql_stored v = ss_stored (sq_db u')" "w_heap v = h'" "w_lock v = w_lock w" "w_bus v = w_bus w"
    using sql_with_uow [of ?m "sql_begin w" x h' u' refuse] assms(4) by auto
  then show ?thesis
    by (intro exI [of _ v]) (auto simp: transfer_initiate_def bindP_apply sql_existing_none [OF assms(1)]
        transfer_new_locked [OF arg free] split: sum.splits)
qed

section \<open>The service over the database implements the transactional bank\<close>

definition sql_call_ok :: "transfer_command \<Rightarrow> (nat \<Rightarrow> readings) \<Rightarrow> sql_world \<Rightarrow> money \<Rightarrow> bool" where
  "sql_call_ok cmd \<omega> w amt \<longleftrightarrow> sql_ok (sql_stored w) \<and> sql_arg cmd amt \<and>
     find_tx (rd_uuid (\<omega> 0) 1) (sql_stored w) = None"

definition sql_bank_call :: "transfer_command \<Rightarrow> money \<Rightarrow> bank \<Rightarrow> (bank_failure + transfer_entry) \<times> bank" where
  "sql_bank_call cmd amt = bank_transfer False (tc_from_account_id cmd) (tc_to_account_id cmd) (money_cents amt)
     (money_currency amt) (tc_idempotency_key cmd)"

text \<open>What the columns must have room for: the key, the amount and the receiver's new balance.\<close>

definition sql_room :: "transfer_command \<Rightarrow> money \<Rightarrow> db \<Rightarrow> bool" where
  "sql_room cmd amt d \<longleftrightarrow> length (tc_idempotency_key cmd) \<le> 255 \<and> money_cents amt < int column_cents \<and>
     (\<forall>r l. find_account (tc_to_account_id cmd) d = Some r \<longrightarrow> row_ledger r = Some l \<longrightarrow>
        l_cents l + money_cents amt < int column_cents)"

text \<open>The answer and the stored database are the bank's, or a refused commit has stored nothing.\<close>

definition sql_outcome ::
  "(db \<Rightarrow> exn) \<Rightarrow> transfer_command \<Rightarrow> money \<Rightarrow> sql_world \<Rightarrow> exn + transaction_dto \<Rightarrow> sql_world \<Rightarrow> bool" where
  "sql_outcome refuse cmd amt w x w' \<longleftrightarrow>
     (map_sum abs_failure abs_dto x, abs_sql w') = sql_bank_call cmd amt (abs_sql w) \<and> sql_ok (sql_stored w') \<or>
     \<not> sql_room cmd amt (sql_stored w) \<and>
     (\<exists>D. \<not> db_valid D \<and> x = Inl (refuse D) \<and> sql_stored w' = sql_stored w \<and> w_bus w' = w_bus w)"

lemma bank_transfer_ready:
  assumes "bk_transfers b key = None" "f \<noteq> t" "\<not> bk_busy b f" "\<not> bk_busy b t" "n \<noteq> 0"
    and "bk_accounts b f = Some s" "bk_accounts b t = Some r"
  shows "bank_transfer shared f t n cur key b =
    (case ledger_step (LDebit n cur) s of
       Inl x \<Rightarrow> (Inl (Refused x), bank_record key (bank_entry f t n cur FAILED) b)
     | Inr s' \<Rightarrow> (case ledger_step (LCredit n cur) r of
         Inl x \<Rightarrow> (Inl (Refused x), (if shared then bank_set f s' else id) (bank_record key (bank_entry f t n cur FAILED) b))
       | Inr r' \<Rightarrow> (Inr (bank_entry f t n cur COMPLETED),
           bank_set t r' (bank_set f s' (bank_record key (bank_entry f t n cur COMPLETED) b)))))"
  using assms by (simp add: bank_transfer_def del: ledger_step.simps)

lemma bank_eqI: "bk_accounts a = bk_accounts b \<Longrightarrow> bk_transfers a = bk_transfers b \<Longrightarrow> bk_busy a = bk_busy b \<Longrightarrow> a = (b :: bank)"
  by (cases a; cases b) simp

lemma abs_sql_fields:
  "bk_accounts (abs_sql w) i = Option.bind (find_account i (sql_stored w)) row_ledger"
  "bk_transfers (abs_sql w) k = Option.bind (find_tx_by_key k (sql_stored w)) row_entry"
  "bk_busy (abs_sql w) i = (uuid_str i \<in> w_lock w)"
  by (simp_all add: abs_sql_def abs_sql_bank_def)

lemma abs_sql_bank_busy [simp]: "bk_busy (abs_sql_bank d held) = (\<lambda>i. uuid_str i \<in> held)"
  by (simp add: abs_sql_bank_def)

lemma row_ok_cases:
  assumes "account_row_ok r"
  obtains a where "account_to_domain r = Inr a" and "account_ok a" and "row_ledger r = Some (abs_account a)"
  using assms by (auto simp: account_row_ok_def row_ledger_def split: sum.splits)

text \<open>What the three outcomes of a call with two accounts store, as the bank.\<close>

lemma stored_failed:
  assumes "sql_ok d" and "find_tx_by_key (idempotency_key t) d = None" and "money_ok (tx_amount t)"
  shows "abs_sql_bank (sql_recorded d t es) held =
    bank_record (idempotency_key t) (abs_dto (transaction_dto_of t)) (abs_sql_bank d held)"
  by (rule bank_eqI) (simp_all add: recorded_accounts assms recorded_transfers)

lemma stored_moved:
  assumes "sql_ok d" and "find_tx_by_key (idempotency_key t) d = None" and "money_ok (tx_amount t)"
    and "find_account f d = Some ra" and "find_account g d = Some rb" and "f \<noteq> g" and "account_ok a" and "account_ok b"
  shows "abs_sql_bank (sql_recorded (updated_accounts ra a rb b d) t es) held =
    bank_set g (abs_account b) (bank_set f (abs_account a)
      (bank_record (idempotency_key t) (abs_dto (transaction_dto_of t)) (abs_sql_bank d held)))"
  using assms
  by (intro bank_eqI) (simp_all add: recorded_updated_accounts recorded_transfers)

text \<open>A fresh key, free locks, two stored accounts and a new transaction.\<close>

definition sql_ready ::
  "transfer_command \<Rightarrow> (nat \<Rightarrow> readings) \<Rightarrow> sql_world \<Rightarrow> money \<Rightarrow> account_orm \<Rightarrow> account \<Rightarrow> account_orm \<Rightarrow> account
   \<Rightarrow> transaction \<Rightarrow> bool" where
  "sql_ready cmd \<omega> w amt ra a rb b tx \<longleftrightarrow>
     sql_call_ok cmd \<omega> w amt \<and> find_tx_by_key (tc_idempotency_key cmd) (sql_stored w) = None \<and>
     locks_free (tc_from_account_id cmd) (tc_to_account_id cmd) w \<and>
     sql_uow_ready (tc_from_account_id cmd) (tc_to_account_id cmd) amt (tc_idempotency_key cmd) \<omega>
      (sql_stored w) ra a rb b tx"

lemma sql_ready_facts:
  assumes "sql_ready cmd \<omega> w amt ra a rb b tx"
  shows "sql_ok (sql_stored w)" "sql_arg cmd amt" "money_ok amt" "money_cents amt \<noteq> 0"
    "find_tx_by_key (tc_idempotency_key cmd) (sql_stored w) = None"
    "find_account (tc_from_account_id cmd) (sql_stored w) = Some ra"
    "find_account (tc_to_account_id cmd) (sql_stored w) = Some rb"
    "tc_from_account_id cmd \<noteq> tc_to_account_id cmd"
    "account_ok a" "row_ledger ra = Some (abs_account a)" "account_ok b" "row_ledger rb = Some (abs_account b)"
    "idempotency_key tx = tc_idempotency_key cmd" "tx_amount tx = amt"
    "entity_id a = tc_from_account_id cmd" "entity_id b = tc_to_account_id cmd"
    "tx_initiate (tc_from_account_id cmd) (tc_to_account_id cmd) amt (tc_idempotency_key cmd) TRANSFER (\<omega> 0) = Inr tx"
proof -
  note r = assms [unfolded sql_ready_def sql_call_ok_def]
  have u: "sql_uow_ready (tc_from_account_id cmd) (tc_to_account_id cmd) amt (tc_idempotency_key cmd) \<omega>
      (sql_stored w) ra a rb b tx" using r by blast
  note found = u [unfolded sql_uow_ready_def]
  show ok: "sql_ok (sql_stored w)" "sql_arg cmd amt" using r by blast+
  show "find_tx_by_key (tc_idempotency_key cmd) (sql_stored w) = None" using r by blast
  show amt: "money_ok amt" using ok(2) money_new_ok by (auto simp: sql_arg_def)
  show "tc_from_account_id cmd \<noteq> tc_to_account_id cmd" using found by blast
  show fa: "find_account (tc_from_account_id cmd) (sql_stored w) = Some ra" and
    fb: "find_account (tc_to_account_id cmd) (sql_stored w) = Some rb" using found by blast+
  show "account_ok a" "row_ledger ra = Some (abs_account a)" "account_ok b" "row_ledger rb = Some (abs_account b)"
    using sql_ok_found(1) [OF ok(1) fa] sql_ok_found(1) [OF ok(1) fb] found
    by (auto simp: account_row_ok_def row_ledger_def)
  show tx: "tx_initiate (tc_from_account_id cmd) (tc_to_account_id cmd) amt (tc_idempotency_key cmd) TRANSFER (\<omega> 0)
      = Inr tx" using found by blast
  show "money_cents amt \<noteq> 0" using tx_initiate_Inr(11) [OF tx] amt by (simp add: is_zero_iff)
  show "idempotency_key tx = tc_idempotency_key cmd" "tx_amount tx = amt"
    "entity_id a = tc_from_account_id cmd" "entity_id b = tc_to_account_id cmd"
    using sql_uow_ready_facts [OF u] by blast+
qed

lemma sql_ready_spec:
  assumes ready: "sql_ready cmd \<omega> w amt ra a rb b tx"
  shows "sql_bank_call cmd amt (abs_sql w) =
    (let f = tc_from_account_id cmd; t = tc_to_account_id cmd; n = money_cents amt; cur = money_currency amt;
         key = tc_idempotency_key cmd; failed = bank_record key (bank_entry f t n cur FAILED) (abs_sql w)
     in case ledger_step (LDebit n cur) (abs_account a) of
       Inl y \<Rightarrow> (Inl (Refused y), failed)
     | Inr s' \<Rightarrow> (case ledger_step (LCredit n cur) (abs_account b) of
         Inl y \<Rightarrow> (Inl (Refused y), failed)
       | Inr r' \<Rightarrow> (Inr (bank_entry f t n cur COMPLETED),
           bank_set t r' (bank_set f s' (bank_record key (bank_entry f t n cur COMPLETED) (abs_sql w))))))"
proof -
  note facts = sql_ready_facts [OF ready]
  have free: "locks_free (tc_from_account_id cmd) (tc_to_account_id cmd) w"
    using ready by (simp add: sql_ready_def)
  have "bk_transfers (abs_sql w) (tc_idempotency_key cmd) = None"
    "bk_accounts (abs_sql w) (tc_from_account_id cmd) = Some (abs_account a)"
    "bk_accounts (abs_sql w) (tc_to_account_id cmd) = Some (abs_account b)"
    "\<not> bk_busy (abs_sql w) (tc_from_account_id cmd)" "\<not> bk_busy (abs_sql w) (tc_to_account_id cmd)"
    using facts free by (simp_all add: abs_sql_fields locks_free_def)
  from bank_transfer_ready [OF this(1) facts(8) this(4,5) facts(4) this(2,3)] show ?thesis
    unfolding sql_bank_call_def Let_def
    by (simp del: ledger_step.simps split: sum.splits)
qed

text \<open>With room in the columns, the commit is accepted.\<close>

lemma str_replace_shorter: "length (str_replace old [] s) \<le> length s"
proof (induction old "[] :: string" s rule: str_replace.induct)
  case (1 old s)
  show ?case
  proof (cases s)
    case (Cons c cs)
    show ?thesis
    proof (cases "old \<noteq> [] \<and> starts_with old s")
      case True
      have "length (str_replace old [] (drop (length old) s)) \<le> length (drop (length old) s)" by (rule 1(1) [OF Cons True])
      with True Cons show ?thesis by (simp add: str_replace_Cons)
    next
      case False
      from 1(2) [OF Cons this] False Cons show ?thesis by (auto simp: str_replace_Cons)
    qed
  qed simp
qed

lemma failure_code_short:
  "abs_exn e \<noteq> Unexpected \<Longrightarrow> length (failure_code_of e) \<le> 64"
proof -
  assume e: "abs_exn e \<noteq> Unexpected"
  have "length (failure_code_of e) \<le> length (exn_name e)"
    using str_replace_shorter [of "''ERROR''" "upper_str (exn_name e)"]
    by (simp add: failure_code_of_def upper_str_def)
  moreover have "length (exn_name e) \<le> 64"
    using e by (cases e) (auto simp: abs_exn_def split: dec_signal.splits)
  ultimately show ?thesis by simp
qed

lemma sql_room_tx:
  assumes ready: "sql_ready cmd \<omega> w amt ra a rb b tx" and room: "sql_room cmd amt (sql_stored w)"
    and "entity_id t = entity_id tx" "idempotency_key t = idempotency_key tx" "tx_amount t = tx_amount tx"
    and "\<forall>c. failure_code t = Some c \<longrightarrow> length c \<le> 64"
  shows "tx_room t (sql_stored w)"
  using assms sql_ready_facts [OF ready]
  by (simp add: tx_room_def sql_room_def sql_ready_def sql_uow_ready_def)

lemma completed_no_code [simp]: "failure_code (completed_tx \<omega> tx) = failure_code tx"
  by (simp add: completed_tx_def complete_def can_complete_def processing_tx_def mark_processing_def Let_def)

lemma sql_room_failed:
  assumes "sql_ready cmd \<omega> w amt ra a rb b tx" and "sql_room cmd amt (sql_stored w)" and "abs_exn e \<noteq> Unexpected"
  shows "db_valid (sql_recorded (sql_stored w) (failed_tx \<omega> e tx) es)"
  by (rule recorded_valid [OF sql_ready_facts(1) [OF assms(1)] sql_room_tx [OF assms(1,2)]])
    (use failure_code_short [OF assms(3)] in simp_all)

lemma account_fits_update:
  assumes "account_fits r" and "account_ok a" and "money_cents (balance a) < int column_cents"
  shows "account_fits (column_account (account_update_orm r a))"
  using assms money_fits [of "balance a"]
  by (simp add: account_fits_def column_account_def account_update_orm_def account_ok_def)

lemma sql_room_moved:
  assumes ready: "sql_ready cmd \<omega> w amt ra a rb b tx" and room: "sql_room cmd amt (sql_stored w)"
    and a': "account_ok a'" "ledger_step (LDebit (money_cents amt) (money_currency amt)) (abs_account a) = Inr (abs_account a')"
    and b': "account_ok b'" "ledger_step (LCredit (money_cents amt) (money_currency amt)) (abs_account b) = Inr (abs_account b')"
  shows "db_valid (sql_recorded (updated_accounts ra a' rb b' (sql_stored w)) (completed_tx \<omega> tx) es)"
proof -
  note facts = sql_ready_facts [OF ready]
  have fits: "account_fits ra" "account_fits rb"
    using facts(1,6,7) by (auto simp: sql_ok_def db_valid_def list_all_iff find_account_def find_Some_iff)
  have dom: "account_to_domain ra = Inr a" using ready by (simp add: sql_ready_def sql_uow_ready_def)
  have "money_cents (balance a) \<le> int column_cents"
    using dom fits(1) fits_cents by (auto simp: account_to_domain_def bindR_Inr_iff account_reconstitute_def account_fits_def)
  moreover have "money_cents (balance a') = money_cents (balance a) - money_cents amt"
    "money_cents (balance b') = money_cents (balance b) + money_cents amt"
    using a'(2) b'(2) by (auto simp: abs_account_def split: if_splits)
  moreover have "0 < money_cents amt" using facts(3,4) money_okE by fastforce
  moreover have "money_cents (balance b) + money_cents amt < int column_cents"
    using room facts(7,12) by (simp add: sql_room_def)
  ultimately have "money_cents (balance a') < int column_cents" "money_cents (balance b') < int column_cents" by simp_all
  then have fit': "account_fits (column_account (account_update_orm ra a'))"
    "account_fits (column_account (account_update_orm rb b'))"
    using account_fits_update fits a'(1) b'(1) by blast+
  have "tx_room (completed_tx \<omega> tx) (sql_stored w)"
    by (rule sql_room_tx [OF ready room]) (use tx_initiate_Inr [OF facts(17)] in simp_all)
  from recorded_updated_valid [OF facts(1) this facts(6,7,8) fit'] show ?thesis .
qed

text \<open>A refused call: the failed transaction is stored, or the commit refuses it.\<close>

lemma sql_failed_outcome:
  assumes ready: "sql_ready cmd \<omega> w amt ra a rb b tx"
    and D: "D = sql_recorded (sql_stored w) (failed_tx \<omega> e tx) es"
    and body: "\<exists>h' u'. transfer_in_uow (sqlalchemy_uow (reference_session refuse)) (tc_from_account_id cmd)
        (tc_to_account_id cmd) amt (tc_idempotency_key cmd) \<omega> (w_heap w, sql_start (sql_stored w)) =
      (Inl (if db_valid D then e else refuse D), (h', u')) \<and>
      ss_stored (sq_db u') = (if db_valid D then D else sql_stored w)"
    and spec: "sql_bank_call cmd amt (abs_sql w) = (Inl (abs_failure e), bank_record (tc_idempotency_key cmd)
      (bank_entry (tc_from_account_id cmd) (tc_to_account_id cmd) (money_cents amt) (money_currency amt) FAILED) (abs_sql w))"
    and expected: "abs_exn e \<noteq> Unexpected"
    and run: "transfer_initiate (sqlalchemy_uow (reference_session refuse)) in_memory_lock B cmd \<omega> w = (x, w')"
  shows "sql_outcome refuse cmd amt w x w' \<and> w_bus w' = w_bus w \<and> (db_valid D \<longrightarrow> sql_stored w' = D)"
proof -
  note facts = sql_ready_facts [OF ready]
  have free: "locks_free (tc_from_account_id cmd) (tc_to_account_id cmd) w"
    using ready by (simp add: sql_ready_def)
  obtain h' u' where b: "transfer_in_uow (sqlalchemy_uow (reference_session refuse)) (tc_from_account_id cmd)
        (tc_to_account_id cmd) amt (tc_idempotency_key cmd) \<omega> (w_heap w, sql_start (sql_stored w)) =
      (Inl (if db_valid D then e else refuse D), (h', u'))"
    and u': "ss_stored (sq_db u') = (if db_valid D then D else sql_stored w)"
    using body by blast
  have x: "x = Inl (if db_valid D then e else refuse D)" "sql_stored w' = (if db_valid D then D else sql_stored w)"
    "w_lock w' = w_lock w" "w_bus w' = w_bus w"
    using sql_call [OF facts(5,2) free b, of B] run u' by auto
  show ?thesis
  proof (cases "db_valid D")
    case True
    have t: "idempotency_key (failed_tx \<omega> e tx) = tc_idempotency_key cmd" "money_ok (tx_amount (failed_tx \<omega> e tx))"
      using facts by simp_all
    have "abs_sql w' = bank_record (tc_idempotency_key cmd) (abs_dto (transaction_dto_of (failed_tx \<omega> e tx))) (abs_sql w)"
      using stored_failed [OF facts(1) _ t(2), of es "w_lock w"] facts(5) x True by (simp add: abs_sql_def D t(1) facts(13))
    moreover have "sql_ok (sql_stored w')"
      using recorded_ok [OF facts(1) _ t(2), of es] x True by (simp add: D)
    ultimately show ?thesis
      using x True spec by (simp add: sql_outcome_def abs_recorded(2) [OF facts(17)])
  next
    case False
    with sql_room_failed [OF ready _ expected, of es] x show ?thesis by (auto simp: sql_outcome_def D)
  qed
qed

text \<open>An accepted call: both rows are updated, the transaction and the accounts' events are stored, the
  transaction's events are published; or the commit refuses everything.\<close>

lemma sql_moved_outcome:
  assumes ready: "sql_ready cmd \<omega> w amt ra a rb b tx"
    and deb: "debit amt (entity_id tx) (\<omega> 2) a = Inr a'" and cre: "credit amt (entity_id tx) (\<omega> 3) b = Inr b'"
    and ok: "account_ok a'" "account_ok b'" "entity_id a' = entity_id a" "entity_id b' = entity_id b"
    and D: "D = sql_recorded (updated_accounts ra a' rb b' (sql_stored w)) (completed_tx \<omega> tx)
      (domain_events a' @ domain_events b')"
    and run: "transfer_initiate (sqlalchemy_uow (reference_session refuse)) in_memory_lock in_memory_bus cmd \<omega> w = (x, w')"
  shows "if db_valid D then x = Inr (transaction_dto_of (completed_tx \<omega> tx)) \<and> sql_stored w' = D \<and> w_lock w' = w_lock w \<and>
      w_bus w' = w_bus w @ domain_events (completed_tx \<omega> tx)
    else x = Inl (refuse D) \<and> sql_stored w' = sql_stored w \<and> w_lock w' = w_lock w \<and> w_bus w' = w_bus w"
proof -
  note facts = sql_ready_facts [OF ready]
  have free: "locks_free (tc_from_account_id cmd) (tc_to_account_id cmd) w"
    and ur: "sql_uow_ready (tc_from_account_id cmd) (tc_to_account_id cmd) amt (tc_idempotency_key cmd) \<omega>
      (sql_stored w) ra a rb b tx" using ready by (simp_all add: sql_ready_def)
  let ?n = "next_ref (w_heap w)"
  obtain h' u' where body: "transfer_in_uow (sqlalchemy_uow (reference_session refuse)) (tc_from_account_id cmd)
        (tc_to_account_id cmd) amt (tc_idempotency_key cmd) \<omega> (w_heap w, sql_start (sql_stored w)) =
      (if db_valid D then Inr (?n, ?n + 1, ?n + 2) else Inl (refuse D), (h', u'))"
    and u': "ss_stored (sq_db u') = (if db_valid D then D else sql_stored w)"
      "domain_events (accounts_at h' ?n) = []" "domain_events (accounts_at h' (?n + 1)) = []"
      "txs_at h' (?n + 2) = completed_tx \<omega> tx"
    using sql_succeeds [OF ur deb cre, of refuse "w_heap w"] ok(3,4) facts(15,16) unfolding D by auto
  obtain v where v: "sql_stored v = ss_stored (sq_db u')" "w_heap v = h'" "w_lock v = w_lock w" "w_bus v = w_bus w"
    "(x, w') = (case if db_valid D then Inr (?n, ?n + 1, ?n + 2) else Inl (refuse D) of Inl e \<Rightarrow> (Inl e, v)
     | Inr (s, r, tx) \<Rightarrow> thenP (transfer_publish in_memory_bus s r tx)
         (bindP (in_uow (read_tx tx)) (\<lambda>t. returnP (transaction_dto_of t))) v)"
    using sql_call [OF facts(5,2) free body, of in_memory_bus] run by auto
  have dto: "transaction_dto_of ((completed_tx \<omega> tx)\<lparr>domain_events := []\<rparr>) = transaction_dto_of (completed_tx \<omega> tx)"
    by (simp add: transaction_dto_of_def)
  show ?thesis
  proof (cases "db_valid D")
    case False
    with v(5) have "x = Inl (refuse D) \<and> w' = v" by simp
    with False show ?thesis using v(1,3,4) u'(1) by simp
  next
    case True
    have events: "domain_events (accounts_at (w_heap v) ?n) = []" "domain_events (accounts_at (w_heap v) (?n + 1)) = []"
      "txs_at (w_heap v) (?n + 2) = completed_tx \<omega> tx" using u' v(2) by simp_all
    have publish: "transfer_publish in_memory_bus ?n (?n + 1) (?n + 2) v =
        (Inr (), v\<lparr>w_heap := cleared ?n (?n + 1) (?n + 2) (w_heap v),
          w_bus := w_bus v @ domain_events (completed_tx \<omega> tx)\<rparr>)"
      using transfer_publish_in_memory [of ?n "?n + 1" "?n + 2" v] events by simp
    have "txs_at (cleared ?n (?n + 1) (?n + 2) (w_heap v)) (?n + 2) = (completed_tx \<omega> tx)\<lparr>domain_events := []\<rparr>"
      using events by (simp add: cleared_def)
    with v(5) True publish have "x = Inr (transaction_dto_of (completed_tx \<omega> tx)) \<and>
        w' = v\<lparr>w_heap := cleared ?n (?n + 1) (?n + 2) (w_heap v), w_bus := w_bus v @ domain_events (completed_tx \<omega> tx)\<rparr>"
      by (simp add: thenP_apply bindP_apply in_uow_def read_tx_def getP_apply returnP_apply dto)
    with True show ?thesis using v(1,3,4) u'(1) by (simp add: sql_stored_def)
  qed
qed

lemma sql_ready_outcome:
  assumes ready: "sql_ready cmd \<omega> w amt ra a rb b tx"
    and run: "transfer_initiate (sqlalchemy_uow (reference_session refuse)) in_memory_lock in_memory_bus cmd \<omega> w = (x, w')"
  shows "sql_outcome refuse cmd amt w x w'"
proof -
  note facts = sql_ready_facts [OF ready] and spec = sql_ready_spec [OF ready, unfolded Let_def]
  have ur: "sql_uow_ready (tc_from_account_id cmd) (tc_to_account_id cmd) amt (tc_idempotency_key cmd) \<omega>
      (sql_stored w) ra a rb b tx" using ready by (simp add: sql_ready_def)
  show ?thesis
  proof (rule account_step_cases [OF facts(9), of "Debit amt (entity_id tx) (\<omega> 2)"])
    fix e
    assume d: "account_step (Debit amt (entity_id tx) (\<omega> 2)) a = Inl e"
      "ledger_step (abs_op (Debit amt (entity_id tx) (\<omega> 2))) (abs_account a) = Inl (abs_exn e)"
      "abs_failure e = Refused (abs_exn e)"
    from d have "debit amt (entity_id tx) (\<omega> 2) a = Inl e" by simp
    from sql_failed_outcome [OF ready refl sql_debit_fails [OF ur this] _ ledger_step_expected [OF d(2)] run] d spec show ?thesis
      by (simp del: ledger_step.simps)
  next
    fix a'
    assume d: "account_step (Debit amt (entity_id tx) (\<omega> 2)) a = Inr a'"
      "ledger_step (abs_op (Debit amt (entity_id tx) (\<omega> 2))) (abs_account a) = Inr (abs_account a')"
      "account_ok a'" "entity_id a' = entity_id a"
    then have deb: "debit amt (entity_id tx) (\<omega> 2) a = Inr a'" by simp
    show ?thesis
    proof (rule account_step_cases [OF facts(11), of "Credit amt (entity_id tx) (\<omega> 3)"])
      fix e
      assume c: "account_step (Credit amt (entity_id tx) (\<omega> 3)) b = Inl e"
        "ledger_step (abs_op (Credit amt (entity_id tx) (\<omega> 3))) (abs_account b) = Inl (abs_exn e)"
        "abs_failure e = Refused (abs_exn e)"
      from c have "credit amt (entity_id tx) (\<omega> 3) b = Inl e" by simp
      from sql_failed_outcome [OF ready refl sql_credit_fails [OF ur deb this] _ ledger_step_expected [OF c(2)] run] c d spec show ?thesis
        by (simp del: ledger_step.simps)
    next
      fix b'
      assume c: "account_step (Credit amt (entity_id tx) (\<omega> 3)) b = Inr b'"
        "ledger_step (abs_op (Credit amt (entity_id tx) (\<omega> 3))) (abs_account b) = Inr (abs_account b')"
        "account_ok b'" "entity_id b' = entity_id b"
      then have cre: "credit amt (entity_id tx) (\<omega> 3) b = Inr b'" by simp
      let ?D = "sql_recorded (updated_accounts ra a' rb b' (sql_stored w)) (completed_tx \<omega> tx)
        (domain_events a' @ domain_events b')"
      have t: "idempotency_key (completed_tx \<omega> tx) = tc_idempotency_key cmd" "money_ok (tx_amount (completed_tx \<omega> tx))"
        using facts by simp_all
      note moved = sql_moved_outcome [OF ready deb cre d(3) c(3) d(4) c(4) refl run]
      show ?thesis
        using moved stored_moved [OF facts(1) _ t(2) facts(6,7,8) d(3) c(3),
            of "domain_events a' @ domain_events b'" "w_lock w"] facts(5) spec c d
          sql_room_moved [OF ready _ d(3) _ c(3), of "domain_events a' @ domain_events b'"]
          recorded_updated_ok [OF facts(1) _ t(2) d(3) c(3), of ra rb "domain_events a' @ domain_events b'"]
        by (auto simp: sql_outcome_def abs_sql_def abs_recorded(1) [OF facts(17)] t(1) facts(13)
            simp del: ledger_step.simps split: if_splits)
    qed (use facts in simp)
  qed (use facts in simp)
qed

text \<open>Refused before a transaction exists: nothing is stored.\<close>

lemma sql_uow_refused:
  fixes refuse :: "db \<Rightarrow> exn"
  defines "run \<equiv> \<lambda>f t amt key \<omega> h d. transfer_in_uow (sqlalchemy_uow (reference_session refuse)) f t amt key \<omega> (h, sql_start d)"
  shows "find_account f d = None \<Longrightarrow>
      \<exists>h' u'. run f t amt key \<omega> h d = (Inl (ResourceNotFoundError ''Account'' f), (h', u')) \<and> ss_stored (sq_db u') = d"
    and "find_account f d = Some ra \<Longrightarrow> account_to_domain ra = Inr a \<Longrightarrow> find_account t d = None \<Longrightarrow>
      \<exists>h' u'. run f t amt key \<omega> h d = (Inl (ResourceNotFoundError ''Account'' t), (h', u')) \<and> ss_stored (sq_db u') = d"
    and "find_account f d = Some ra \<Longrightarrow> account_to_domain ra = Inr a \<Longrightarrow> find_account t d = Some rb \<Longrightarrow>
      account_to_domain rb = Inr b \<Longrightarrow> is_zero amt \<Longrightarrow>
      \<exists>h' u'. run f t amt key \<omega> h d = (Inl (InvalidTransferAmountError amt), (h', u')) \<and> ss_stored (sq_db u') = d"
  unfolding run_def
  by (simp_all add: transfer_in_uow_def sql_start_def sql_load bindP_apply liftP_apply tx_initiate_def)

lemma sql_refused_outcome:
  assumes call: "sql_call_ok cmd \<omega> w amt" and key: "find_tx_by_key (tc_idempotency_key cmd) (sql_stored w) = None"
    and free: "locks_free (tc_from_account_id cmd) (tc_to_account_id cmd) w"
    and r: "\<exists>h' u'. transfer_in_uow (sqlalchemy_uow (reference_session refuse)) (tc_from_account_id cmd)
        (tc_to_account_id cmd) amt (tc_idempotency_key cmd) \<omega> (w_heap w, sql_start (sql_stored w)) = (Inl e, (h', u')) \<and>
      ss_stored (sq_db u') = sql_stored w"
    and spec: "sql_bank_call cmd amt (abs_sql w) = (Inl (abs_failure e), abs_sql w)"
    and run: "transfer_initiate (sqlalchemy_uow (reference_session refuse)) in_memory_lock in_memory_bus cmd \<omega> w = (x, w')"
  shows "sql_outcome refuse cmd amt w x w'"
proof -
  obtain h' u' where b: "transfer_in_uow (sqlalchemy_uow (reference_session refuse)) (tc_from_account_id cmd)
        (tc_to_account_id cmd) amt (tc_idempotency_key cmd) \<omega> (w_heap w, sql_start (sql_stored w)) = (Inl e, (h', u'))"
    and u': "ss_stored (sq_db u') = sql_stored w" using r by blast
  have arg: "sql_arg cmd amt" "sql_ok (sql_stored w)" using call by (simp_all add: sql_call_ok_def)
  have "x = Inl e" "sql_stored w' = sql_stored w" "w_lock w' = w_lock w"
    using sql_call [OF key arg(1) free b, of in_memory_bus] run u' by auto
  with spec arg(2) show ?thesis by (simp add: sql_outcome_def abs_sql_def)
qed

lemma sql_free_outcome:
  assumes call: "sql_call_ok cmd \<omega> w amt" and key: "find_tx_by_key (tc_idempotency_key cmd) (sql_stored w) = None"
    and free: "locks_free (tc_from_account_id cmd) (tc_to_account_id cmd) w"
    and run: "transfer_initiate (sqlalchemy_uow (reference_session refuse)) in_memory_lock in_memory_bus cmd \<omega> w = (x, w')"
  shows "sql_outcome refuse cmd amt w x w'"
proof -
  let ?f = "tc_from_account_id cmd" and ?t = "tc_to_account_id cmd"
  have ok: "sql_ok (sql_stored w)" and amt: "money_ok amt"
    using call money_new_ok by (auto simp: sql_call_ok_def sql_arg_def)
  have row: "\<exists>a. account_to_domain r = Inr a \<and> row_ledger r = Some (abs_account a)" if "find_account i (sql_stored w) = Some r" for i r
    using sql_ok_found(1) [OF ok that] row_ok_cases by blast
  note refused = sql_refused_outcome [OF call key free _ _ run]
  note spec = sql_bank_call_def bank_transfer_def abs_sql_fields abs_failure_def
  have nb: "?f \<noteq> ?t" "uuid_str ?f \<notin> w_lock w" "uuid_str ?t \<notin> w_lock w" using free by (auto simp: locks_free_def)
  show ?thesis
  proof (cases "find_account ?f (sql_stored w)")
    case None
    show ?thesis
      by (rule refused [OF sql_uow_refused(1) [OF None]]) (use None key nb in \<open>simp add: spec\<close>)
  next
    case sender: (Some ra)
    obtain a where a: "account_to_domain ra = Inr a" "row_ledger ra = Some (abs_account a)" using row [OF sender] by blast
    show ?thesis
    proof (cases "find_account ?t (sql_stored w)")
      case None
      show ?thesis
        by (rule refused [OF sql_uow_refused(2) [OF sender a(1) None]]) (use None sender a key nb in \<open>simp add: spec\<close>)
    next
      case receiver: (Some rb)
      obtain b where b: "account_to_domain rb = Inr b" "row_ledger rb = Some (abs_account b)" using row [OF receiver] by blast
      show ?thesis
      proof (cases "is_zero amt")
        case True
        show ?thesis
          by (rule refused [OF sql_uow_refused(3) [OF sender a(1) receiver b(1) True]])
            (use sender receiver a b key nb True amt in \<open>simp add: spec is_zero_iff\<close>)
      next
        case False
        then obtain tx where tx: "tx_initiate ?f ?t amt (tc_idempotency_key cmd) TRANSFER (\<omega> 0) = Inr tx"
          using nb by (auto simp: tx_initiate_def Let_def)
        have "find_tx (entity_id tx) (sql_stored w) = None"
          using call tx_initiate_Inr(6) [OF tx] by (simp add: sql_call_ok_def)
        with sender receiver a b nb tx call key free have "sql_ready cmd \<omega> w amt ra a rb b tx"
          by (simp add: sql_ready_def sql_uow_ready_def)
        from sql_ready_outcome [OF this run] show ?thesis .
      qed
    qed
  qed
qed

lemma sql_transfer_outcome:
  assumes call: "sql_call_ok cmd \<omega> w amt"
    and run: "transfer_initiate (sqlalchemy_uow (reference_session refuse)) in_memory_lock in_memory_bus cmd \<omega> w = (x, w')"
  shows "sql_outcome refuse cmd amt w x w'"
proof -
  let ?f = "tc_from_account_id cmd" and ?t = "tc_to_account_id cmd" and ?key = "tc_idempotency_key cmd"
  have ok: "sql_ok (sql_stored w)" using call by (simp add: sql_call_ok_def)
  show ?thesis
  proof (cases "find_tx_by_key ?key (sql_stored w)")
    case (Some row)
    then obtain t where t: "tx_to_domain row = Inr t" "row_entry row = Some (abs_dto (transaction_dto_of t))"
      using sql_ok_found(2) [OF ok Some] by (auto simp: tx_row_ok_def row_entry_def split: sum.splits)
    then have "x = Inr (transaction_dto_of t)" "sql_stored w' = sql_stored w" "w_lock w' = w_lock w"
      using sql_known [OF Some t(1), of refuse in_memory_lock in_memory_bus \<omega>] run by auto
    moreover have "sql_bank_call cmd amt (abs_sql w) = (Inr (abs_dto (transaction_dto_of t)), abs_sql w)"
      using Some t by (simp add: sql_bank_call_def bank_transfer_def abs_sql_fields)
    ultimately show ?thesis using ok by (simp add: sql_outcome_def abs_sql_def)
  next
    case key: None
    show ?thesis
    proof (cases "locks_free ?f ?t w")
      case True
      from sql_free_outcome [OF call key this run] show ?thesis .
    next
      case busy: False
      obtain cur where arg: "parse_currency (tc_currency cmd) = Inr cur" "money_new (tc_amount cmd) cur = Inr amt"
        using call by (auto simp: sql_call_ok_def sql_arg_def)
      from busy have "\<not> locks_free ?f ?t (sql_begin w)" by (simp add: locks_free_def)
      from transfer_new_busy [OF arg this] obtain k
        where "transfer_new (sqlalchemy_uow (reference_session refuse)) in_memory_lock in_memory_bus cmd \<omega> (sql_begin w) =
          (Inl (ConcurrencyConflictError k), sql_begin w)" by blast
      with run have "x = Inl (ConcurrencyConflictError k)" "w' = sql_begin w"
        by (simp_all add: transfer_initiate_def bindP_apply sql_existing_none [OF key])
      with key busy ok show ?thesis
        by (auto simp: sql_outcome_def sql_bank_call_def bank_transfer_def abs_sql_fields abs_failure_def locks_free_def)
    qed
  qed
qed

section \<open>Any lawful session\<close>

text \<open>The world over a session \<open>S\<close>, seen through its abstraction \<open>f\<close>.\<close>

abbreviation sql_view :: "('d \<Rightarrow> session) \<Rightarrow> ('d sql_uow, 'l, 'b) world \<Rightarrow> (session sql_uow, 'l, 'b) world" where
  "sql_view f \<equiv> abs_world (abs_session_uow f)"

lemma lawful_transfer:
  assumes "session_laws refuse S f" and "transfer_initiate (sqlalchemy_uow S) L B cmd \<omega> w = (x, w')"
  shows "transfer_initiate (sqlalchemy_uow (reference_session refuse)) L B cmd \<omega> (sql_view f w) = (x, sql_view f w')"
  using simulatesD [OF transfer_service_simulates(1) [OF sql_simulates [OF assms(1)]], of L B cmd \<omega> w] assms(2) by simp

lemma lawful_account_create:
  assumes "session_laws refuse S f" and "account_service_create (sqlalchemy_uow S) cmd r w = (x, w')"
  shows "account_service_create (sqlalchemy_uow (reference_session refuse)) cmd r (sql_view f w) = (x, sql_view f w')"
  using simulatesD [OF account_service_simulates(1) [OF sql_simulates [OF assms(1)]], of cmd r w] assms(2) by simp

lemma lawful_account_get:
  assumes "session_laws refuse S f" and "account_service_get (sqlalchemy_uow S) i w = (x, w')"
  shows "account_service_get (sqlalchemy_uow (reference_session refuse)) i (sql_view f w) = (x, sql_view f w')"
  using simulatesD [OF account_service_simulates(2) [OF sql_simulates [OF assms(1)]], of i w] assms(2) by simp

section \<open>Opening an account\<close>

text \<open>\<open>save\<close> does not add the account to \<open>seen\<close>: its event is not collected.\<close>

definition sql_opened :: "account \<Rightarrow> db \<Rightarrow> db" where
  "sql_opened a d = db_columns (d\<lparr>db_accounts := db_accounts d @ [account_to_new_orm a]\<rparr>)"

lemma session_result_added:
  "session_result (fresh_session d\<lparr>ss_new := empty_db\<lparr>db_accounts := [r], db_outbox := []\<rparr>\<rparr>) =
     db_columns (d\<lparr>db_accounts := db_accounts d @ [r]\<rparr>)"
  by (simp add: session_result_def db_columns_def)

lemma drained_none [simp]: "drained [] h = h"
  by (simp add: drained_def)

lemma sql_account_create:
  assumes "parse_currency (cac_currency cmd) = Inr cur" and "money_new (cac_initial_balance cmd) cur = Inr m"
    and "account_create (cac_owner_id cmd) cur (Some m) r = Inr a" and "find_account (entity_id a) (sql_stored w) = None"
  defines "D \<equiv> sql_opened a (sql_stored w)"
  shows "\<exists>v. account_service_create (sqlalchemy_uow (reference_session refuse)) cmd r w =
      (if db_valid D then Inr (account_dto_of a) else Inl (refuse D), v) \<and>
    sql_stored v = (if db_valid D then D else sql_stored w) \<and> w_lock v = w_lock w \<and> w_bus v = w_bus w"
  using assms(1-4) unfolding D_def sql_opened_def
  by (cases w) (simp add: account_service_create_def bindP_apply liftP_apply thenP_apply in_uow_def object_defs
      with_uow_reference sql_acc_save_def on_db_apply sql_stored_def getP_apply returnP_apply sql_commit_reference
      add_outbox_def session_result_added Let_def)

text \<open>What is read: the account of the row, in any session.\<close>

lemma sql_account_get:
  "\<exists>v. account_service_get (sqlalchemy_uow (reference_session refuse)) i w =
      (case find_account i (sql_stored w) of
         None \<Rightarrow> Inl (ResourceNotFoundError ''Account'' i)
       | Some row \<Rightarrow> map_sum id account_dto_of (account_to_domain row), v) \<and>
    sql_stored v = sql_stored w \<and> w_lock v = w_lock w \<and> w_bus v = w_bus w"
  by (cases w) (auto simp: account_service_get_def bindP_apply liftP_apply thenP_apply in_uow_def object_defs
      with_uow_reference sql_acc_get_def sql_load_account_def see_account_def modifyP_apply on_db_apply sql_stored_def
      getP_apply returnP_apply raiseP_apply split: option.splits sum.splits)

text \<open>A new account's row has room in its columns and is the row of a valid account.\<close>

lemma sql_opened_valid:
  assumes "sql_ok d" and "account_ok a" and "money_cents (balance a) < int column_cents" and "length (account_number a) \<le> 34"
    and "find_account (entity_id a) d = None" and "\<forall>r \<in> set (db_accounts d). ao_account_number r \<noteq> account_number a"
  shows "sql_ok (sql_opened a d)"
proof -
  have fits: "account_fits (column_account (account_to_new_orm a))"
    using assms(2-4) money_fits [of "balance a"]
    by (simp add: account_fits_def column_account_def account_to_new_orm_def account_ok_def)
  have row: "account_row_ok (column_account (account_to_new_orm a))"
    using stored_account_row(2) [OF assms(2), of "account_to_new_orm a"] by (simp add: account_to_new_orm_def)
  have "entity_id a \<notin> ao_id ` set (db_accounts d)"
    using assms(5) by (auto simp: find_account_def find_None_iff)
  with assms(1,6) fits row sql_ok_columns(1,2) [OF assms(1)] show ?thesis
    by (auto simp: sql_ok_def db_valid_def sql_opened_def db_columns_def account_to_new_orm_def column_account_def)
qed

lemma sql_opened_found:
  assumes "find_account (entity_id a) d = None"
  shows "find_account (entity_id a) (sql_opened a d) = Some (column_account (account_to_new_orm a))"
  using assms by (simp add: find_account_def sql_opened_def db_columns_def find_map find_append account_to_new_orm_def
      del: map_append map_map)

end
