(* ===== verification/Sql_Properties.thy ===== *)
theory Sql_Properties
  imports Samples Sql_Transfer
begin

text \<open>
  The properties of the services over the SQLAlchemy unit of work and the Postgres repositories, for
  every lawful session, each with a witness: a database with three accounts (uid 1 with 5.00 EUR, uid 2
  with 1.00 EUR, uid 3 frozen with 0.70 EUR) behind a session that also counts its statements.
\<close>

section \<open>A session and a database\<close>

definition counted :: "(session, exn, 'a) prog \<Rightarrow> (nat \<times> session, exn, 'a) prog" where
  "counted m = (\<lambda>(n, s). case m s of (x, s') \<Rightarrow> (x, (n + 1, s')))"

definition counting_session :: "(db \<Rightarrow> exn) \<Rightarrow> (nat \<times> session) session_port" where
  "counting_session refuse = (let S = reference_session refuse in \<lparr>
     s_open = counted (s_open S), s_select_account = (\<lambda>b i. counted (s_select_account S b i)),
     s_select_tx = (\<lambda>i. counted (s_select_tx S i)), s_select_tx_by_key = (\<lambda>k. counted (s_select_tx_by_key S k)),
     s_get_account = (\<lambda>i. counted (s_get_account S i)), s_get_tx = (\<lambda>i. counted (s_get_tx S i)),
     s_add_account = (\<lambda>r. counted (s_add_account S r)), s_add_tx = (\<lambda>r. counted (s_add_tx S r)),
     s_add_outbox = (\<lambda>r. counted (s_add_outbox S r)), s_set_account = (\<lambda>r. counted (s_set_account S r)),
     s_set_tx = (\<lambda>r. counted (s_set_tx S r)), s_commit = counted (s_commit S),
     s_rollback = counted (s_rollback S), s_close = counted (s_close S)\<rparr>)"

lemma simulates_counted: "simulates snd (counted m) m"
  by (rule simulatesI) (simp add: counted_def split: prod.splits)

lemma counting_session_lawful: "session_laws refuse (counting_session refuse) snd"
  by (simp add: session_laws_def counting_session_def Let_def simulates_counted)

text \<open>The exception of a refused commit in the samples.\<close>

definition sample_refuse :: "db \<Rightarrow> exn" where
  "sample_refuse D = ExternalError ''IntegrityError'' ''constraint violated''"

definition sample_row :: "nat \<Rightarrow> nat \<Rightarrow> account_status \<Rightarrow> account_orm" where
  "sample_row i n st = column_account ((account_to_new_orm (sample_account i n st))\<lparr>ao_account_number := [char_of i]\<rparr>)"

definition sample_db :: db where
  "sample_db = \<lparr>db_accounts = [sample_row 1 500 ACTIVE, sample_row 2 100 ACTIVE, sample_row 3 70 FROZEN],
     db_txs = [], db_outbox = []\<rparr>"

definition counting_world :: "((nat \<times> session) sql_uow, string set, domain_event list) world" where
  "counting_world = \<lparr>w_heap = \<lparr>accounts_at = (\<lambda>_. sample_account 1 500 ACTIVE), txs_at = (\<lambda>_. sample_tx), next_ref = 0\<rparr>,
     w_uow = \<lparr>sq_db = (0, fresh_session sample_db), sq_accounts_seen = [], sq_txs_seen = []\<rparr>, w_lock = {}, w_bus = []\<rparr>"

abbreviation counting_uow :: "(nat \<times> session) sql_uow uow_port" where
  "counting_uow \<equiv> sqlalchemy_uow (counting_session sample_refuse)"

definition sample_order :: "nat \<Rightarrow> nat \<Rightarrow> nat \<Rightarrow> string \<Rightarrow> transfer_command" where
  "sample_order f t n key = \<lparr>tc_from_account_id = uid f, tc_to_account_id = uid t,
     tc_amount = Fin False n (-2), tc_currency = ''EUR'', tc_idempotency_key = key\<rparr>"

lemma sample_order_simps [simp]:
  "tc_from_account_id (sample_order f t n k) = uid f" "tc_to_account_id (sample_order f t n k) = uid t"
  "tc_idempotency_key (sample_order f t n k) = k" "tc_currency (sample_order f t n k) = ''EUR''"
  "tc_amount (sample_order f t n k) = Fin False n (-2)"
  by (simp_all add: sample_order_def)

lemma sample_row_domain:
  assumes "n < max_cents"
  shows "st \<noteq> CLOSED \<Longrightarrow> row_ledger (sample_row i n st) = Some (abs_account (sample_account i n st))"
    and "st \<noteq> CLOSED \<Longrightarrow> account_row_ok (sample_row i n st)"
    and "ao_id (sample_row i n st) = uid i" and "ao_account_number (sample_row i n st) = [char_of i]"
    and "n < column_cents \<Longrightarrow> account_fits (sample_row i n st)"
proof -
  let ?r = "(account_to_new_orm (sample_account i n st))\<lparr>ao_account_number := [char_of i]\<rparr>"
  have fields: "ao_balance ?r = amount (eur n)" "ao_currency ?r = currency_value EUR" "ao_status ?r = account_status_value st"
    "ao_id ?r = uid i"
    by (simp_all add: account_to_new_orm_def)
  show "ao_id (sample_row i n st) = uid i" "ao_account_number (sample_row i n st) = [char_of i]"
    by (simp_all add: sample_row_def column_account_def account_to_new_orm_def)
  show "account_fits (sample_row i n st)" if "n < column_cents"
    using that by (simp add: sample_row_def account_fits_def column_account_def fields column_cents_def)
  show "account_row_ok (sample_row i n st)" if "st \<noteq> CLOSED"
    using stored_account_row(2) [of "sample_account i n st" ?r] assms that by (simp add: sample_row_def fields)
  show "row_ledger (sample_row i n st) = Some (abs_account (sample_account i n st))" if "st \<noteq> CLOSED"
    using stored_account_row(1) [of "sample_account i n st" ?r] assms that by (simp add: sample_row_def fields)
qed

lemma counting_world_simps [simp]:
  "sql_stored (sql_view snd counting_world) = sample_db" "w_lock (sql_view snd counting_world) = {}"
  "w_bus counting_world = []" "w_lock counting_world = {}"
  "ss_stored (snd (sq_db (w_uow counting_world))) = sample_db"
  by (simp_all add: counting_world_def sql_stored_def abs_session_uow_def)

lemma column_cents_big [simp]: "n \<le> 1000000 \<Longrightarrow> n < column_cents"
  by (simp add: column_cents_def)

lemma sample_find [simp]:
  "find_account (uid 1) sample_db = Some (sample_row 1 500 ACTIVE)"
  "find_account (uid (Suc 0)) sample_db = Some (sample_row 1 500 ACTIVE)"
  "find_account (uid 2) sample_db = Some (sample_row 2 100 ACTIVE)"
  "find_account (uid 3) sample_db = Some (sample_row 3 70 FROZEN)"
  "find_tx i sample_db = None" "find_tx_by_key k sample_db = None" "db_outbox sample_db = []"
  by (simp_all add: find_account_def find_tx_def find_tx_by_key_def sample_db_def sample_row_domain uid_inject)

lemma sample_sql_ok: "sql_ok sample_db"
  by (simp add: sql_ok_def db_valid_def sample_db_def sample_row_domain uid_inject)

lemma sample_sql_call:
  "n < max_cents \<Longrightarrow> sql_call_ok (sample_order f t n key) reads (sql_view snd counting_world) (eur n)"
  using parse_value_simps(1) [of EUR] by (simp add: sql_call_ok_def sql_arg_def money_new_eur sample_sql_ok)

section \<open>Transfers\<close>

text \<open>Over any lawful session \<open>TransferService.initiate\<close> implements the transactional bank on every branch:
  its answer and the stored accounts and transfers are those \<open>bank_transfer\<close> specifies without sharing, so a
  refused credit leaves both accounts alone, and every stored row stays the row of a valid account or
  transaction. The one exception is a commit the database refuses, which happens only when the key, the
  amount or the receiver's new balance does not fit its column: then the caller gets that exception and
  nothing is stored or published.\<close>

theorem sql_transfer_refines_bank:
  assumes "session_laws refuse S f" and "sql_call_ok cmd \<omega> (sql_view f w) amt"
    and "transfer_initiate (sqlalchemy_uow S) in_memory_lock in_memory_bus cmd \<omega> w = (x, w')"
  shows "(map_sum abs_failure abs_dto x, abs_sql (sql_view f w')) =
        bank_transfer False (tc_from_account_id cmd) (tc_to_account_id cmd) (money_cents amt) (money_currency amt)
          (tc_idempotency_key cmd) (abs_sql (sql_view f w)) \<and> sql_ok (sql_stored (sql_view f w')) \<or>
    \<not> sql_room cmd amt (sql_stored (sql_view f w)) \<and>
      (\<exists>D. \<not> db_valid D \<and> x = Inl (refuse D) \<and> sql_stored (sql_view f w') = sql_stored (sql_view f w) \<and> w_bus w' = w_bus w)"
  using sql_transfer_outcome [OF assms(2) lawful_transfer [OF assms(1,3)]]
  by (auto simp: sql_outcome_def sql_bank_call_def)

lemma sql_transfer_refines_bank_witness:
  "fst (transfer_initiate counting_uow in_memory_lock in_memory_bus (sample_order 1 3 200 ''k'') reads counting_world)
     \<in> {Inl e |e. abs_failure e = Refused IsFrozen}"
proof -
  obtain x w' where r: "transfer_initiate counting_uow in_memory_lock in_memory_bus (sample_order 1 3 200 ''k'') reads
      counting_world = (x, w')" by fastforce
  have room: "sql_room (sample_order 1 3 200 ''k'') (eur 200) sample_db"
    by (simp add: sql_room_def sample_row_domain abs_account_def column_cents_def)
  from sql_transfer_refines_bank [OF counting_session_lawful sample_sql_call r] room
  have "map_sum abs_failure abs_dto x = Inl (Refused IsFrozen)"
    by (simp add: bank_transfer_def abs_sql_fields uid_inject sample_row_domain account_currency_def abs_account_def)
  with r show ?thesis by (cases x) auto
qed

text \<open>The database adapters do not depend on which session serves them: over any two lawful sessions that
  stand for the same database, whatever else their states hold, a transfer gives the same answer and the same
  events, and leaves the same objects, locks and database.\<close>

theorem sql_sessions_equivalent:
  assumes "session_laws refuse S f" and "session_laws refuse T g" and "sql_view f v = sql_view g w"
    and "transfer_initiate (sqlalchemy_uow S) L B cmd \<omega> v = (x, v')"
    and "transfer_initiate (sqlalchemy_uow T) L B cmd \<omega> w = (y, w')"
  shows "x = y \<and> sql_view f v' = sql_view g w'"
  using lawful_transfer [OF assms(1,4)] lawful_transfer [OF assms(2,5)] assms(3) by simp

lemma sql_sessions_equivalent_witness:
  "\<exists>x v' w'. transfer_initiate counting_uow in_memory_lock in_memory_bus (sample_order 1 2 200 ''k'') reads counting_world
      = (x, v') \<and>
    transfer_initiate (sqlalchemy_uow (reference_session sample_refuse)) in_memory_lock in_memory_bus
      (sample_order 1 2 200 ''k'') reads (sql_view snd counting_world) = (x, w') \<and> sql_view snd v' = sql_view (\<lambda>s. s) w'"
proof -
  obtain x v' where v: "transfer_initiate counting_uow in_memory_lock in_memory_bus (sample_order 1 2 200 ''k'') reads
      counting_world = (x, v')" by fastforce
  obtain y w' where w: "transfer_initiate (sqlalchemy_uow (reference_session sample_refuse)) in_memory_lock in_memory_bus
      (sample_order 1 2 200 ''k'') reads (sql_view snd counting_world) = (y, w')" by fastforce
  have "sql_view snd counting_world = sql_view (\<lambda>s. s) (sql_view snd counting_world)"
    by (simp add: abs_world_def abs_session_uow_def)
  from sql_sessions_equivalent [OF counting_session_lawful reference_session_lawful this v w] v w show ?thesis by blast
qed

text \<open>C7: Behind the database no transfer makes or loses money, whatever happens: for every outcome, refused
  credits, refused commits and repeated keys included, the total of any group of accounts that contains both
  is what it was.\<close>

theorem sql_money_conserved:
  assumes "session_laws refuse S f" and "sql_call_ok cmd \<omega> (sql_view f w) amt"
    and "transfer_initiate (sqlalchemy_uow S) in_memory_lock in_memory_bus cmd \<omega> w = (x, w')"
    and "finite A" and "tc_from_account_id cmd \<in> A" and "tc_to_account_id cmd \<in> A"
  shows "bank_total A (abs_sql (sql_view f w')) = bank_total A (abs_sql (sql_view f w))"
proof -
  let ?call = "bank_transfer False (tc_from_account_id cmd) (tc_to_account_id cmd) (money_cents amt) (money_currency amt)
      (tc_idempotency_key cmd) (abs_sql (sql_view f w))"
  have "(map_sum abs_failure abs_dto x, abs_sql (sql_view f w')) = ?call \<or>
      sql_stored (sql_view f w') = sql_stored (sql_view f w)"
    using sql_transfer_outcome [OF assms(2) lawful_transfer [OF assms(1,3)]]
    unfolding sql_outcome_def sql_bank_call_def by blast
  then show ?thesis
  proof
    assume "(map_sum abs_failure abs_dto x, abs_sql (sql_view f w')) = ?call"
    from arg_cong [OF this, of snd] have "abs_sql (sql_view f w') = snd ?call" by simp
    with bank_transfer_total [OF assms(4-6), of False] show ?thesis by simp
  next
    assume "sql_stored (sql_view f w') = sql_stored (sql_view f w)"
    then show ?thesis by (simp add: bank_total_def abs_sql_fields)
  qed
qed

lemma sql_money_conserved_witness:
  "\<exists>x w'. transfer_initiate counting_uow in_memory_lock in_memory_bus (sample_order 1 3 200 ''k'') reads counting_world
      = (x, w') \<and> bank_total {uid 1, uid 3} (abs_sql (sql_view snd w')) = 570"
proof -
  obtain x w' where r: "transfer_initiate counting_uow in_memory_lock in_memory_bus (sample_order 1 3 200 ''k'') reads
      counting_world = (x, w')" by fastforce
  have "bank_total {uid 1, uid 3} (abs_sql (sql_view snd w')) = bank_total {uid 1, uid 3} (abs_sql (sql_view snd counting_world))"
    by (rule sql_money_conserved [OF counting_session_lawful sample_sql_call r]) simp_all
  also have "\<dots> = 570"
    by (simp add: bank_total_def abs_sql_fields uid_inject sample_row_domain abs_account_def)
  finally show ?thesis using r by blast
qed

section \<open>Events\<close>

text \<open>The two accounts' events and the transaction's, from objects loaded from rows.\<close>

lemma loaded_events:
  assumes ready: "sql_ready cmd \<omega> w amt ra a rb b tx"
  shows "debit amt (entity_id tx) (\<omega> 2) a = Inr a' \<Longrightarrow> map event_type (domain_events a') = [''BalanceDebited'']"
    and "credit amt (entity_id tx) (\<omega> 3) b = Inr b' \<Longrightarrow> map event_type (domain_events b') = [''BalanceCredited'']"
    and "map event_type (domain_events (completed_tx \<omega> tx)) =
      [''TransactionInitiated'', ''TransactionProcessing'', ''TransactionCompleted'']"
proof -
  have "sql_uow_ready (tc_from_account_id cmd) (tc_to_account_id cmd) amt (tc_idempotency_key cmd) \<omega> (sql_stored w) ra a rb b tx"
    using ready by (simp add: sql_ready_def)
  note u = sql_uow_ready_facts(2,3) [OF this]
  show "debit amt (entity_id tx) (\<omega> 2) a = Inr a' \<Longrightarrow> map event_type (domain_events a') = [''BalanceDebited'']"
    "credit amt (entity_id tx) (\<omega> 3) b = Inr b' \<Longrightarrow> map event_type (domain_events b') = [''BalanceCredited'']"
    using u by (auto simp: debit_Inr credit_Inr record_event_def event_type_def new_event_def)
  have "map event_class (pending tx) = [''TransactionInitiated'']"
    using tx_initiate_Inr [OF sql_ready_facts(17) [OF ready]] by simp
  then have "map event_class (pending (completed_tx \<omega> tx)) =
      [''TransactionInitiated'', ''TransactionProcessing'', ''TransactionCompleted'']"
    by (simp add: completed_tx_def complete_def can_complete_def Let_def processing_tx_def)
  then show "map event_type (domain_events (completed_tx \<omega> tx)) =
      [''TransactionInitiated'', ''TransactionProcessing'', ''TransactionCompleted'']"
    by (simp add: pending_def event_type_def [abs_def] comp_def)
qed

lemma recorded_outbox:
  "map ob_event_type (db_outbox (sql_recorded d t es)) = map ob_event_type (db_outbox d) @ map event_type es"
  by (simp add: sql_recorded_def db_columns_def outbox_of_event_def comp_def)

text \<open>C19: A transfer that succeeds over the database splits its events: the outbox gets only the events of the two
  accounts, which the commit has taken off the objects, so the event bus gets only the three events of the
  transaction, which the outbox never sees.\<close>

theorem sql_success_splits_events:
  assumes "session_laws refuse S f" and "sql_ready cmd \<omega> (sql_view f w) amt ra a rb b tx"
    and "debit amt (entity_id tx) (\<omega> 2) a = Inr a'" and "credit amt (entity_id tx) (\<omega> 3) b = Inr b'"
    and "sql_room cmd amt (sql_stored (sql_view f w))"
    and "transfer_initiate (sqlalchemy_uow S) in_memory_lock in_memory_bus cmd \<omega> w = (x, w')"
  shows "x = Inr (transaction_dto_of (completed_tx \<omega> tx)) \<and>
    map ob_event_type (db_outbox (sql_stored (sql_view f w'))) =
      map ob_event_type (db_outbox (sql_stored (sql_view f w))) @ [''BalanceDebited'', ''BalanceCredited''] \<and>
    (\<exists>es. w_bus w' = w_bus w @ es \<and>
      map event_type es = [''TransactionInitiated'', ''TransactionProcessing'', ''TransactionCompleted''])"
proof -
  note facts = sql_ready_facts [OF assms(2)]
  have a': "account_ok a'" "entity_id a' = entity_id a"
      "ledger_step (LDebit (money_cents amt) (money_currency amt)) (abs_account a) = Inr (abs_account a')"
    using account_step_cases [OF facts(9), of "Debit amt (entity_id tx) (\<omega> 2)"] assms(3) facts(3)
    by (auto simp del: ledger_step.simps)
  have b': "account_ok b'" "entity_id b' = entity_id b"
      "ledger_step (LCredit (money_cents amt) (money_currency amt)) (abs_account b) = Inr (abs_account b')"
    using account_step_cases [OF facts(11), of "Credit amt (entity_id tx) (\<omega> 3)"] assms(4) facts(3)
    by (auto simp del: ledger_step.simps)
  let ?es = "domain_events a' @ domain_events b'"
  note valid = sql_room_moved [OF assms(2,5) a'(1,3) b'(1,3), of ?es]
  have "x = Inr (transaction_dto_of (completed_tx \<omega> tx)) \<and>
      sql_stored (sql_view f w') = sql_recorded (updated_accounts ra a' rb b' (sql_stored (sql_view f w))) (completed_tx \<omega> tx) ?es \<and>
      w_bus w' = w_bus w @ domain_events (completed_tx \<omega> tx)"
    using sql_moved_outcome [OF assms(2-4) a'(1) b'(1) a'(2) b'(2) refl lawful_transfer [OF assms(1,6)]] valid by simp
  moreover have "db_outbox (updated_accounts ra a' rb b' d) = db_outbox d" for d
    by (simp add: updated_accounts_def)
  ultimately show ?thesis
    using loaded_events(1) [OF assms(2,3)] loaded_events(2) [OF assms(2,4)] loaded_events(3) [OF assms(2)]
    by (simp add: recorded_outbox)
qed

text \<open>Loaded accounts accept what their ledgers accept.\<close>

lemma loaded_accepts:
  assumes "sql_ready cmd \<omega> w amt ra a rb b tx"
  shows "ledger_step (LDebit (money_cents amt) (money_currency amt)) (abs_account a) = Inr l \<Longrightarrow>
      \<exists>a'. debit amt (entity_id tx) (\<omega> 2) a = Inr a'"
    and "ledger_step (LCredit (money_cents amt) (money_currency amt)) (abs_account b) = Inr l \<Longrightarrow>
      \<exists>b'. credit amt (entity_id tx) (\<omega> 3) b = Inr b'"
    and "ledger_step (LCredit (money_cents amt) (money_currency amt)) (abs_account b) = Inl y \<Longrightarrow>
      \<exists>e. credit amt (entity_id tx) (\<omega> 3) b = Inl e"
  using sql_ready_facts(3,9,11) [OF assms]
    account_step_cases [of a "Debit amt (entity_id tx) (\<omega> 2)"] account_step_cases [of b "Credit amt (entity_id tx) (\<omega> 3)"]
  by (fastforce simp del: ledger_step.simps)+

lemma sample_sql_ready:
  assumes "n < max_cents" "0 < n" and "f = 1 \<and> t = 2 \<and> rb = sample_row 2 100 ACTIVE \<or> f = 1 \<and> t = 3 \<and> rb = sample_row 3 70 FROZEN"
  obtains a b tx where "sql_ready (sample_order f t n key) reads (sql_view snd counting_world) (eur n) (sample_row 1 500 ACTIVE) a rb b tx"
proof -
  obtain tx where "tx_initiate (uid f) (uid t) (eur n) key TRANSFER (reads 0) = Inr tx"
    using assms by (auto simp: tx_initiate_def Let_def uid_inject)
  moreover obtain a where "account_to_domain (sample_row 1 500 ACTIVE) = Inr a"
    using sample_row_domain(2) [of 500 ACTIVE 1] by (auto elim: row_ok_cases)
  moreover obtain b where "account_to_domain rb = Inr b"
    using assms(3) sample_row_domain(2) [of 100 ACTIVE 2] sample_row_domain(2) [of 70 FROZEN 3] by (auto elim: row_ok_cases)
  ultimately show thesis
    using assms sample_sql_call [of n f t key] by (intro that [of a b tx])
      (auto simp: sql_ready_def sql_uow_ready_def locks_free_def uid_inject)
qed

lemma sample_ledgers:
  assumes "sql_ready (sample_order 1 t n key) reads (sql_view snd counting_world) (eur n) (sample_row 1 500 ACTIVE) a rb b tx"
  shows "abs_account a = \<lparr>l_cents = 500, l_currency = EUR, l_status = ACTIVE\<rparr>"
    and "t = 2 \<Longrightarrow> abs_account b = \<lparr>l_cents = 100, l_currency = EUR, l_status = ACTIVE\<rparr>"
    and "t = 3 \<Longrightarrow> abs_account b = \<lparr>l_cents = 70, l_currency = EUR, l_status = FROZEN\<rparr>"
  using sql_ready_facts(7,10,12) [OF assms]
  by (auto simp: sample_row_domain abs_account_def account_currency_def)

lemma sql_success_splits_events_witness:
  "\<exists>x w'. transfer_initiate counting_uow in_memory_lock in_memory_bus (sample_order 1 2 200 ''k'') reads counting_world
      = (x, w') \<and> map ob_event_type (db_outbox (sql_stored (sql_view snd w'))) = [''BalanceDebited'', ''BalanceCredited''] \<and>
    length (w_bus w') = 3"
proof -
  obtain a b tx where ready: "sql_ready (sample_order 1 2 200 ''k'') reads (sql_view snd counting_world) (eur 200)
      (sample_row 1 500 ACTIVE) a (sample_row 2 100 ACTIVE) b tx"
    by (rule sample_sql_ready [of 200 1 2 "sample_row 2 100 ACTIVE" "''k''"]) auto
  note ledgers = sample_ledgers [OF ready]
  obtain a' where a': "debit (eur 200) (entity_id tx) (reads 2) a = Inr a'"
    using loaded_accepts(1) [OF ready] by (auto simp: ledgers)
  obtain b' where b': "credit (eur 200) (entity_id tx) (reads 3) b = Inr b'"
    using loaded_accepts(2) [OF ready] by (auto simp: ledgers max_cents_def)
  obtain x w' where r: "transfer_initiate counting_uow in_memory_lock in_memory_bus (sample_order 1 2 200 ''k'') reads
      counting_world = (x, w')" by fastforce
  have room: "sql_room (sample_order 1 2 200 ''k'') (eur 200) (sql_stored (sql_view snd counting_world))"
    by (simp add: sql_room_def sample_row_domain abs_account_def column_cents_def)
  from sql_success_splits_events [OF counting_session_lawful ready a' b' room r]
  obtain es where "map ob_event_type (db_outbox (sql_stored (sql_view snd w'))) = [''BalanceDebited'', ''BalanceCredited'']"
    "w_bus w' = es" "map event_type es = [''TransactionInitiated'', ''TransactionProcessing'', ''TransactionCompleted'']"
    by auto
  moreover from this(3) have "length es = 3" using arg_cong [of _ _ length] by force
  ultimately show ?thesis using r by auto
qed

text \<open>C27: When the receiver refuses the credit, the database keeps both accounts as they were, but the commit that
  stores the FAILED transaction also stores the event of the debit that never happened: the outbox gains a
  \<open>BalanceDebited\<close> row, and nothing is published on the bus.\<close>

theorem sql_refused_credit_phantom_event:
  assumes "session_laws refuse S f" and "sql_ready cmd \<omega> (sql_view f w) amt ra a rb b tx"
    and "debit amt (entity_id tx) (\<omega> 2) a = Inr a'" and "credit amt (entity_id tx) (\<omega> 3) b = Inl e"
    and "sql_room cmd amt (sql_stored (sql_view f w))"
    and "transfer_initiate (sqlalchemy_uow S) in_memory_lock in_memory_bus cmd \<omega> w = (x, w')"
  shows "x = Inl e \<and> w_bus w' = w_bus w \<and>
    bk_accounts (abs_sql (sql_view f w')) = bk_accounts (abs_sql (sql_view f w)) \<and>
    map ob_event_type (db_outbox (sql_stored (sql_view f w'))) =
      map ob_event_type (db_outbox (sql_stored (sql_view f w))) @ [''BalanceDebited'']"
proof -
  note facts = sql_ready_facts [OF assms(2)]
  let ?D = "sql_recorded (sql_stored (sql_view f w)) (failed_tx \<omega> e tx) (domain_events a')"
  have expected: "abs_exn e \<noteq> Unexpected"
    using account_step_refines [OF facts(11), of "Credit amt (entity_id tx) (\<omega> 3)", symmetric] facts(3) assms(4)
    by (intro ledger_step_expected) (simp del: ledger_step.simps)
  have ur: "sql_uow_ready (tc_from_account_id cmd) (tc_to_account_id cmd) amt (tc_idempotency_key cmd) \<omega>
      (sql_stored (sql_view f w)) ra a rb b tx"
    and free: "locks_free (tc_from_account_id cmd) (tc_to_account_id cmd) (sql_view f w)"
    using assms(2) by (simp_all add: sql_ready_def)
  have valid: "db_valid ?D" by (rule sql_room_failed [OF assms(2,5) expected])
  obtain h' u' where b: "transfer_in_uow (sqlalchemy_uow (reference_session refuse)) (tc_from_account_id cmd)
        (tc_to_account_id cmd) amt (tc_idempotency_key cmd) \<omega> (w_heap (sql_view f w), sql_start (sql_stored (sql_view f w))) =
      (Inl e, (h', u'))" and u': "ss_stored (sq_db u') = ?D"
    using sql_credit_fails [OF ur assms(3,4), of refuse "w_heap (sql_view f w)"] valid by auto
  have "x = Inl e \<and> sql_stored (sql_view f w') = ?D \<and> w_bus (sql_view f w') = w_bus (sql_view f w)"
    using sql_call [OF facts(5,2) free b, of in_memory_bus] u' unfolding lawful_transfer [OF assms(1,6)] by force
  then have r: "x = Inl e \<and> sql_stored (sql_view f w') = ?D \<and> w_bus w' = w_bus w" by simp
  have "bk_accounts (abs_sql (sql_view f w')) i = bk_accounts (abs_sql (sql_view f w)) i" for i
    using fun_cong [OF recorded_accounts [OF facts(1), of "failed_tx \<omega> e tx" "domain_events a'" "{}"], of i] r
    by (simp add: abs_sql_fields abs_sql_bank_def)
  with r show ?thesis using loaded_events(1) [OF assms(2,3)] by (auto simp: recorded_outbox)
qed

lemma sql_refused_credit_phantom_event_witness:
  "\<exists>e w'. transfer_initiate counting_uow in_memory_lock in_memory_bus (sample_order 1 3 200 ''k'') reads counting_world
      = (Inl e, w') \<and> map ob_event_type (db_outbox (sql_stored (sql_view snd w'))) = [''BalanceDebited'']"
proof -
  obtain a b tx where ready: "sql_ready (sample_order 1 3 200 ''k'') reads (sql_view snd counting_world) (eur 200)
      (sample_row 1 500 ACTIVE) a (sample_row 3 70 FROZEN) b tx"
    by (rule sample_sql_ready [of 200 1 3 "sample_row 3 70 FROZEN" "''k''"]) auto
  note ledgers = sample_ledgers [OF ready]
  obtain a' where a': "debit (eur 200) (entity_id tx) (reads 2) a = Inr a'"
    using loaded_accepts(1) [OF ready] by (auto simp: ledgers)
  obtain e where e: "credit (eur 200) (entity_id tx) (reads 3) b = Inl e"
    using loaded_accepts(3) [OF ready] by (auto simp: ledgers)
  obtain x w' where r: "transfer_initiate counting_uow in_memory_lock in_memory_bus (sample_order 1 3 200 ''k'') reads
      counting_world = (x, w')" by fastforce
  have room: "sql_room (sample_order 1 3 200 ''k'') (eur 200) (sql_stored (sql_view snd counting_world))"
    by (simp add: sql_room_def sample_row_domain abs_account_def column_cents_def)
  from sql_refused_credit_phantom_event [OF counting_session_lawful ready a' e room r] r show ?thesis by auto
qed

section \<open>Accounts\<close>

lemma sample_opening:
  obtains a where "account_create (uid 9) EUR (Some (eur 1000)) (reads 1) = Inr a" and "entity_id a = uid 100"
    and "find_account (uid 100) sample_db = None" and "sql_ok (sql_opened a sample_db)"
proof -
  have new: "find_account (uid 100) sample_db = None"
    by (simp add: find_account_def sample_db_def sample_row_domain uid_inject)
  obtain a where a: "account_create (uid 9) EUR (Some (eur 1000)) (reads 1) = Inr a" "entity_id a = uid 100"
    "balance a = eur 1000" "account_number a = generate_account_number (reads 1)" "account_ok a"
    by (simp add: account_create_def Let_def account_ok_def)
  have len: "length (generate_account_number (reads 1)) \<le> 34" by code_simp
  have "account_number a \<noteq> [c]" for c using a(4) by (simp add: generate_account_number_def)
  then have other: "\<forall>r \<in> set (db_accounts sample_db). ao_account_number r \<noteq> account_number a"
    by (auto simp: sample_db_def sample_row_domain dest: sym)
  have "sql_ok (sql_opened a sample_db)"
    by (rule sql_opened_valid [OF sample_sql_ok a(5) _ _ _ other])
      (use a len new in \<open>simp_all add: column_cents_def\<close>)
  with that a(1,2) new show thesis by blast
qed

text \<open>An account opened over the database is read back by \<open>AccountService.get\<close> as it was reported, up to the
  sign of a zero balance, although the column keeps four decimal places. But its \<open>AccountCreated\<close> event reaches
  neither the outbox nor the event bus: \<open>save\<close> does not put the account where the commit collects events.\<close>

theorem sql_account_create_then_get:
  assumes "session_laws refuse S f" and "account_service_create (sqlalchemy_uow S) cmd r w = (Inr dto, w')"
    and "find_account (rd_uuid r 0) (sql_stored (sql_view f w)) = None"
  shows "(\<exists>dto' w''. account_service_get (sqlalchemy_uow S) (ad_id dto) w' = (Inr dto', w'') \<and>
      dto' = dto\<lparr>ad_balance := ad_balance dto'\<rparr> \<and> cents (ad_balance dto') = cents (ad_balance dto)) \<and>
    db_outbox (sql_stored (sql_view f w')) = db_outbox (sql_stored (sql_view f w)) \<and> w_bus w' = w_bus w"
proof -
  let ?w = "sql_view f w" and ?R = "sqlalchemy_uow (reference_session refuse)"
  have run: "account_service_create ?R cmd r ?w = (Inr dto, sql_view f w')"
    by (rule lawful_account_create [OF assms(1,2)])
  then obtain cur m a where a: "parse_currency (cac_currency cmd) = Inr cur" "money_new (cac_initial_balance cmd) cur = Inr m"
    "account_create (cac_owner_id cmd) cur (Some m) r = Inr a"
    by (auto simp: account_service_create_def bindP_apply liftP_apply bindR_Inr_iff split: sum.splits)
  have bal: "money_ok (balance a)"
    using a(2,3) money_new_ok by (auto simp: account_create_def Let_def split: if_splits)
  have new: "find_account (entity_id a) (sql_stored ?w) = None"
    using a(3) assms(3) by (auto simp: account_create_def Let_def split: if_splits)
  let ?D = "sql_opened a (sql_stored ?w)"
  have stored: "dto = account_dto_of a" "sql_stored (sql_view f w') = ?D" "w_bus w' = w_bus w"
    using sql_account_create [OF a new, of refuse] run by (auto split: if_splits)
  obtain x w'' where get: "account_service_get (sqlalchemy_uow S) (ad_id dto) w' = (x, w'')" by fastforce
  have row: "find_account (ad_id dto) ?D = Some (column_account (account_to_new_orm a))"
    using sql_opened_found [OF new] stored(1) by (simp add: account_dto_of_def)
  obtain m' where m': "money_new (numeric4 (amount (balance a))) (money_currency (balance a)) = Inr m'" "money_ok m'"
    "money_cents m' = money_cents (balance a)" "money_currency m' = money_currency (balance a)"
    using money_new_numeric4 [OF bal] by blast
  then have "account_to_domain (column_account (account_to_new_orm a)) = Inr (a\<lparr>domain_events := [], balance := m'\<rparr>)"
    by (simp add: account_to_domain_def column_account_def account_to_new_orm_def account_reconstitute_def)
  with sql_account_get [of refuse "ad_id dto" "sql_view f w'"] lawful_account_get [OF assms(1) get] row stored(2)
  have "x = Inr (account_dto_of (a\<lparr>domain_events := [], balance := m'\<rparr>))" by auto
  moreover have "account_dto_of (a\<lparr>domain_events := [], balance := m'\<rparr>) = dto\<lparr>ad_balance := amount m'\<rparr>"
    "cents (amount m') = cents (ad_balance dto)"
    using m'(3,4) by (simp_all add: stored(1) account_dto_of_def money_cents_def)
  moreover have "db_outbox ?D = db_outbox (sql_stored ?w)" by (simp add: sql_opened_def db_columns_def)
  ultimately show ?thesis using get stored by auto
qed

lemma sql_account_create_then_get_witness:
  "\<exists>dto w' dto' w''. account_service_create counting_uow \<lparr>cac_owner_id = uid 9, cac_currency = ''EUR'',
      cac_initial_balance = Fin False 1000 (-2)\<rparr> (reads 1) counting_world = (Inr dto, w') \<and>
    account_service_get counting_uow (ad_id dto) w' = (Inr dto', w'') \<and> cents (ad_balance dto') = cents (ad_balance dto)"
proof -
  let ?cmd = "\<lparr>cac_owner_id = uid 9, cac_currency = ''EUR'', cac_initial_balance = Fin False 1000 (-2)\<rparr>"
  obtain x w' where r: "account_service_create counting_uow ?cmd (reads 1) counting_world = (x, w')" by fastforce
  obtain a where a: "account_create (uid 9) EUR (Some (eur 1000)) (reads 1) = Inr a" "entity_id a = uid 100"
    and new: "find_account (uid 100) sample_db = None" and valid: "sql_ok (sql_opened a sample_db)"
    by (rule sample_opening)
  have arg: "parse_currency (cac_currency ?cmd) = Inr EUR" "money_new (cac_initial_balance ?cmd) EUR = Inr (eur 1000)"
    "account_create (cac_owner_id ?cmd) EUR (Some (eur 1000)) (reads 1) = Inr a"
    using parse_value_simps(1) [of EUR] a by (simp_all add: money_new_eur)
  have "find_account (entity_id a) (sql_stored (sql_view snd counting_world)) = None" using a new by simp
  from sql_account_create [OF arg this, of sample_refuse] valid
  have "fst (account_service_create (sqlalchemy_uow (reference_session sample_refuse)) ?cmd (reads 1)
      (sql_view snd counting_world)) = Inr (account_dto_of a)" by (auto simp: sql_ok_def)
  with lawful_account_create [OF counting_session_lawful r] have "x = Inr (account_dto_of a)" by simp
  with r have run: "account_service_create counting_uow ?cmd (reads 1) counting_world = (Inr (account_dto_of a), w')" by simp
  have "find_account (rd_uuid (reads 1) 0) (sql_stored (sql_view snd counting_world)) = None" using new by simp
  from sql_account_create_then_get [OF counting_session_lawful run this] run show ?thesis by blast
qed

end
