(* ===== verification/RedisLock.thy ===== *)
theory RedisLock
  imports Services
begin

text \<open>
  The Redis lock manager: \<open>src/adapters/outbound/locking/redis_lock_manager.py\<close>.

  \<^item> The Redis client and the event loop are third-party code: \<open>redis_port\<close> is a parameter with the four
    calls the manager makes. Times are whole nanoseconds; the rounding of the clock's floats is left out.
  \<^item> The retry loop has no bound of its own: \<open>acquire_loop\<close> is a partial function, and it is proved to return
    when sleeping advances the clock.
  \<^item> \<open>reference_redis\<close> is a server that does what Redis documents of \<open>SET key 1 NX EX ttl\<close> and \<open>DEL\<close>.
\<close>

section \<open>The lock manager\<close>

record 'r redis_port =
  redis_set_nx :: "string \<Rightarrow> nat \<Rightarrow> ('r, exn, bool) prog"
  redis_delete :: "string \<Rightarrow> ('r, exn, unit) prog"
  loop_time :: "'r \<Rightarrow> int"
  loop_sleep :: "int \<Rightarrow> ('r, exn, unit) prog"

text \<open>The manager's constructor arguments; \<open>rm_wait_text\<close> is the timeout as an f-string prints it.\<close>

record 'r redis_manager =
  rm_redis :: "'r redis_port"
  rm_wait_timeout :: int
  rm_wait_text :: string

definition retry_interval :: int where
  "retry_interval = 50000000"

definition redis_key :: "string \<Rightarrow> string" where
  "redis_key key = ''banking:transfer:lock'' @ '':'' @ key"

lemma redis_key_inject [simp]: "redis_key a = redis_key b \<longleftrightarrow> a = b"
  by (simp add: redis_key_def)

definition lock_timeout :: "string \<Rightarrow> string \<Rightarrow> exn" where
  "lock_timeout lock_key wait_text = ConcurrencyConflictError
     (''Could not acquire lock '' @ quote lock_key @ '' within '' @ wait_text @ ''s '' @
      map char_of [226::nat, 128, 148] @ '' another transfer is processing the same account.'')"

text \<open>What the loop does after \<open>SET\<close> has answered \<open>ok\<close> at time \<open>now\<close>.\<close>

datatype after_poll = Got | GiveUp | SleepFor int

definition after_poll :: "int \<Rightarrow> bool \<Rightarrow> int \<Rightarrow> after_poll" where
  "after_poll deadline ok now =
     (if ok then Got
      else let remaining = deadline - now in
        if remaining \<le> 0 then GiveUp else SleepFor (min retry_interval remaining))"

partial_function (option) acquire_loop ::
  "'r redis_manager \<Rightarrow> string \<Rightarrow> nat \<Rightarrow> int \<Rightarrow> 'r \<Rightarrow> ((exn + unit) \<times> 'r) option" where
  "acquire_loop M lock_key ttl deadline r =
     (case redis_set_nx (rm_redis M) lock_key ttl r of
        (Inl e, r1) \<Rightarrow> Some (Inl e, r1)
      | (Inr ok, r1) \<Rightarrow> (case after_poll deadline ok (loop_time (rm_redis M) r1) of
            Got \<Rightarrow> Some (Inr (), r1)
          | GiveUp \<Rightarrow> Some (Inl (lock_timeout lock_key (rm_wait_text M)), r1)
          | SleepFor d \<Rightarrow> (case loop_sleep (rm_redis M) d r1 of
                (Inl e, r2) \<Rightarrow> Some (Inl e, r2)
              | (Inr _, r2) \<Rightarrow> acquire_loop M lock_key ttl deadline r2)))"

definition acquire_single ::
  "'r redis_manager \<Rightarrow> string \<Rightarrow> nat \<Rightarrow> 'r \<Rightarrow> ((exn + unit) \<times> 'r) option" where
  "acquire_single M lock_key ttl r =
     acquire_loop M lock_key ttl (loop_time (rm_redis M) r + rm_wait_timeout M) r"

definition safe_release :: "'r redis_manager \<Rightarrow> string \<Rightarrow> ('r, exn, unit) prog" where
  "safe_release M lock_key = tryP (redis_delete (rm_redis M) lock_key) (\<lambda>_. returnP ())"

definition release_all :: "'r redis_manager \<Rightarrow> string list \<Rightarrow> ('r, exn, unit) prog" where
  "release_all M acquired = forP (safe_release M) (rev acquired)"

text \<open>\<open>acquire\<close> up to the \<open>yield\<close>; when it raises, the \<open>finally\<close> has released what was taken.\<close>

fun redis_acquire ::
  "'r redis_manager \<Rightarrow> nat \<Rightarrow> string list \<Rightarrow> string list \<Rightarrow> 'r \<Rightarrow> ((exn + string list) \<times> 'r) option" where
  "redis_acquire M ttl [] acquired r = Some (Inr acquired, r)"
| "redis_acquire M ttl (key # keys) acquired r =
     (let lock_key = redis_key key in
      case acquire_single M lock_key ttl r of
        None \<Rightarrow> None
      | Some (Inl e, r1) \<Rightarrow> Some (thenP (release_all M acquired) (raiseP e) r1)
      | Some (Inr _, r1) \<Rightarrow> redis_acquire M ttl keys (acquired @ [lock_key]) r1)"

section \<open>Every acquisition returns\<close>

text \<open>What asyncio documents of the clock: no call moves it back, and a sleep takes its time.\<close>

definition clock_laws :: "'r redis_port \<Rightarrow> bool" where
  "clock_laws R \<longleftrightarrow>
     (\<forall>k ttl r. loop_time R r \<le> loop_time R (snd (redis_set_nx R k ttl r))) \<and>
     (\<forall>k r. loop_time R r \<le> loop_time R (snd (redis_delete R k r))) \<and>
     (\<forall>d r. 0 \<le> d \<longrightarrow> loop_time R r + d \<le> loop_time R (snd (loop_sleep R d r)))"

text \<open>Exceptions of the client itself.\<close>

definition client_raises :: "'r redis_port \<Rightarrow> exn \<Rightarrow> bool" where
  "client_raises R e \<longleftrightarrow> (\<exists>k ttl r. fst (redis_set_nx R k ttl r) = Inl e) \<or> (\<exists>d r. fst (loop_sleep R d r) = Inl e)"

text \<open>The loop returns; it gives up only after the deadline.\<close>

lemma acquire_loop_returns:
  assumes clock: "clock_laws (rm_redis M)"
  shows "\<exists>x r'. acquire_loop M k ttl deadline r = Some (x, r') \<and> loop_time (rm_redis M) r \<le> loop_time (rm_redis M) r' \<and>
    (\<forall>e. x = Inl e \<longrightarrow> client_raises (rm_redis M) e \<or>
       e = lock_timeout k (rm_wait_text M) \<and> deadline \<le> loop_time (rm_redis M) r')"
proof (induction "nat (deadline - loop_time (rm_redis M) r)" arbitrary: r rule: less_induct)
  case less
  let ?R = "rm_redis M"
  obtain x r1 where set: "redis_set_nx ?R k ttl r = (x, r1)" by fastforce
  have t1: "loop_time ?R r \<le> loop_time ?R r1"
    using clock set unfolding clock_laws_def by (metis snd_conv)
  have raises: "x = Inl e \<Longrightarrow> client_raises ?R e" for e
    using set unfolding client_raises_def by (metis fst_conv)
  show ?case
  proof (cases "\<exists>d. x = Inr False \<and> after_poll deadline False (loop_time ?R r1) = SleepFor d")
    case False
    then show ?thesis
      using t1 raises by (subst acquire_loop.simps) (auto simp: set after_poll_def Let_def split: sum.splits if_splits)
  next
    case True
    then obtain d where x: "x = Inr False" and d: "after_poll deadline False (loop_time ?R r1) = SleepFor d" by blast
    then have pos: "0 < d" "loop_time ?R r1 < deadline"
      by (auto simp: after_poll_def Let_def retry_interval_def split: if_splits)
    obtain y r2 where sleep: "loop_sleep ?R d r1 = (y, r2)" by fastforce
    have t2: "loop_time ?R r1 + d \<le> loop_time ?R r2"
      using clock pos(1) sleep unfolding clock_laws_def by (metis less_imp_le snd_conv)
    have step: "acquire_loop M k ttl deadline r =
        (case y of Inl e \<Rightarrow> Some (Inl e, r2) | Inr _ \<Rightarrow> acquire_loop M k ttl deadline r2)"
      by (subst acquire_loop.simps) (simp add: set x d sleep split: sum.splits)
    show ?thesis
    proof (cases y)
      case (Inl e)
      then have "client_raises ?R e" using sleep unfolding client_raises_def by (metis fst_conv)
      with Inl step t1 t2 pos show ?thesis by simp
    next
      case (Inr u)
      have "nat (deadline - loop_time ?R r2) < nat (deadline - loop_time ?R r)"
        using t1 t2 pos by simp
      from less [OF this] obtain x' r' where l: "acquire_loop M k ttl deadline r2 = Some (x', r')"
        "loop_time ?R r2 \<le> loop_time ?R r'" "\<forall>e. x' = Inl e \<longrightarrow> client_raises ?R e \<or>
           e = lock_timeout k (rm_wait_text M) \<and> deadline \<le> loop_time ?R r'" by blast
      have "loop_time ?R r \<le> loop_time ?R r'" using l(2) t1 t2 pos by simp
      with l step Inr show ?thesis by simp
    qed
  qed
qed

lemma raiseP_never: "\<exists>e' s'. thenP m (raiseP e) s = (Inl e', s')"
  by (cases "m s"; cases "fst (m s)") (auto simp: thenP_apply raiseP_apply)

lemma redis_acquire_returns_all:
  assumes "clock_laws (rm_redis M)"
  shows "\<exists>x r'. redis_acquire M ttl keys acquired r = Some (x, r') \<and>
    (\<forall>acq. x = Inr acq \<longrightarrow> acq = acquired @ map redis_key keys)"
proof (induction keys arbitrary: acquired r)
  case (Cons key keys)
  obtain x r1 where single: "acquire_single M (redis_key key) ttl r = Some (x, r1)"
    using acquire_loop_returns [OF assms] unfolding acquire_single_def by blast
  show ?case
  proof (cases x)
    case (Inl e)
    obtain e' s' where "thenP (release_all M acquired) (raiseP e) r1 = (Inl e' :: exn + string list, s')"
      using raiseP_never [of "release_all M acquired" e r1] by auto
    then show ?thesis using single Inl by (auto simp: Let_def)
  next
    case (Inr u)
    with single Cons [of "acquired @ [redis_key key]" r1] show ?thesis by simp
  qed
qed simp

text \<open>The manager as a port of the service; a call that does not return has no place there, and by the lemma
  above there is none.\<close>

definition redis_lock :: "'r redis_manager \<Rightarrow> nat \<Rightarrow> 'r lock_port" where
  "redis_lock M ttl = \<lparr>
     lock_acquire = (\<lambda>keys r. case redis_acquire M ttl keys [] r of
        Some y \<Rightarrow> y | None \<Rightarrow> (Inl (ExternalError ''NonTermination'' []), r)),
     lock_release = release_all M\<rparr>"

section \<open>A Redis server\<close>

text \<open>The keys with the time they expire, and the server's clock.\<close>

record redis_server =
  rs_expiry :: "string \<Rightarrow> int option"
  rs_now :: int

definition active :: "redis_server \<Rightarrow> string \<Rightarrow> bool" where
  "active srv k = (case rs_expiry srv k of None \<Rightarrow> False | Some t \<Rightarrow> rs_now srv < t)"

definition seconds :: "nat \<Rightarrow> int" where
  "seconds n = int n * 1000000000"

definition server_set_nx :: "string \<Rightarrow> nat \<Rightarrow> redis_server \<Rightarrow> bool \<times> redis_server" where
  "server_set_nx k ttl srv =
     (if active srv k then (False, srv)
      else (True, srv\<lparr>rs_expiry := (rs_expiry srv)(k \<mapsto> rs_now srv + seconds ttl)\<rparr>))"

definition server_delete :: "string \<Rightarrow> redis_server \<Rightarrow> redis_server" where
  "server_delete k srv = srv\<lparr>rs_expiry := (rs_expiry srv)(k := None)\<rparr>"

definition reference_redis :: "redis_server redis_port" where
  "reference_redis = \<lparr>
     redis_set_nx = (\<lambda>k ttl srv. case server_set_nx k ttl srv of (ok, srv') \<Rightarrow> (Inr ok, srv')),
     redis_delete = (\<lambda>k. modifyP (server_delete k)),
     loop_time = rs_now,
     loop_sleep = (\<lambda>d. modifyP (\<lambda>srv. srv\<lparr>rs_now := rs_now srv + max 0 d\<rparr>))\<rparr>"

lemma reference_redis_clock: "clock_laws reference_redis"
  by (auto simp: clock_laws_def reference_redis_def server_set_nx_def server_delete_def modifyP_apply
      split: prod.splits if_splits)

end
