(* ===== verification/Lock_System.thy ===== *)
theory Lock_System
  imports RedisLock
begin

text \<open>
  Any number of transfers that take their locks at one Redis server at the same time.

  \<^item> A transfer is a \<open>proc\<close>; \<open>proc_step\<close> is what it does between two of its awaits in \<open>acquire\<close>, \<open>_acquire_single\<close>
    and \<open>_safe_release\<close>, in the code's order; \<open>lock_step\<close> interleaves the transfers and lets time pass.
  \<^item> Deadlock freedom: keys taken in increasing order leave no cycle of waiting, and one retry interval is
    enough time for all transfers to finish.
  \<^item> Mutual exclusion holds as long as no lock outlives its time to live; the release does not check who owns
    the key, so after that it may fail even for transfers in time.
\<close>

section \<open>Many transfers at one server\<close>

text \<open>
  A transfer inside \<open>acquire\<close>, between two of its awaits. An acquired key carries the time at which the server
  will drop it, which the code does not know.

  \<^item> \<open>Next ks acq\<close>: at the head of \<open>for key in keys\<close>.
  \<^item> \<open>Polling k ks acq deadline wake\<close>: in \<open>_acquire_single\<close>, sleeping until \<open>wake\<close>.
  \<^item> \<open>Inside acq\<close>: at the \<open>yield\<close>, with the body running.
  \<^item> \<open>Releasing acq ok\<close>: in the \<open>finally\<close>, after the body (\<open>ok\<close>) or after giving up.
\<close>

datatype proc =
    Next "string list" "(string \<times> int) list"
  | Polling string "string list" "(string \<times> int) list" int int
  | Inside "(string \<times> int) list"
  | Releasing "(string \<times> int) list" bool
  | Finished bool

definition start_proc :: "string list \<Rightarrow> proc" where
  "start_proc keys = Next (map redis_key keys) []"

fun proc_step :: "int \<Rightarrow> nat \<Rightarrow> redis_server \<Rightarrow> proc \<Rightarrow> (redis_server \<times> proc) option" where
  "proc_step wait ttl srv (Next [] acq) = Some (srv, Inside acq)"
| "proc_step wait ttl srv (Next (k # ks) acq) = Some (srv, Polling k ks acq (rs_now srv + wait) (rs_now srv))"
| "proc_step wait ttl srv (Polling k ks acq deadline wake) =
     (if rs_now srv < wake then None
      else case server_set_nx k ttl srv of (ok, srv') \<Rightarrow>
        (case after_poll deadline ok (rs_now srv') of
           Got \<Rightarrow> Some (srv', Next ks (acq @ [(k, rs_now srv + seconds ttl)]))
         | GiveUp \<Rightarrow> Some (srv', Releasing (rev acq) False)
         | SleepFor d \<Rightarrow> Some (srv', Polling k ks acq deadline (rs_now srv' + d))))"
| "proc_step wait ttl srv (Inside acq) = Some (srv, Releasing (rev acq) True)"
| "proc_step wait ttl srv (Releasing [] ok) = Some (srv, Finished ok)"
| "proc_step wait ttl srv (Releasing ((k, t) # acq) ok) = Some (server_delete k srv, Releasing acq ok)"
| "proc_step wait ttl srv (Finished ok) = None"

record lock_system =
  ls_server :: redis_server
  ls_procs :: "proc list"

text \<open>One step of one transfer, or time passing.\<close>

inductive lock_step :: "int \<Rightarrow> nat \<Rightarrow> lock_system \<Rightarrow> lock_system \<Rightarrow> bool" for wait ttl where
  act: "i < length (ls_procs s) \<Longrightarrow> proc_step wait ttl (ls_server s) (ls_procs s ! i) = Some (srv, p) \<Longrightarrow>
    lock_step wait ttl s \<lparr>ls_server = srv, ls_procs = (ls_procs s)[i := p]\<rparr>"
| tick: "0 < d \<Longrightarrow> lock_step wait ttl s (s\<lparr>ls_server := (ls_server s)\<lparr>rs_now := rs_now (ls_server s) + d\<rparr>\<rparr>)"

definition lock_start :: "int \<Rightarrow> string list list \<Rightarrow> lock_system" where
  "lock_start now orders = \<lparr>ls_server = \<lparr>rs_expiry = (\<lambda>_. None), rs_now = now\<rparr>, ls_procs = map start_proc orders\<rparr>"

fun holds :: "proc \<Rightarrow> (string \<times> int) list" where
  "holds (Next ks acq) = acq"
| "holds (Polling k ks acq deadline wake) = acq"
| "holds (Inside acq) = acq"
| "holds (Releasing acq ok) = acq"
| "holds (Finished ok) = []"

fun wants :: "proc \<Rightarrow> string list" where
  "wants (Next ks acq) = ks"
| "wants (Polling k ks acq deadline wake) = k # ks"
| "wants p = []"

fun gave_up :: "proc \<Rightarrow> bool" where
  "gave_up (Releasing acq ok) = (\<not> ok)"
| "gave_up (Finished ok) = (\<not> ok)"
| "gave_up p = False"

fun finished :: "proc \<Rightarrow> bool" where
  "finished (Finished ok) = True"
| "finished p = False"

definition run_tick :: "int \<Rightarrow> lock_system \<Rightarrow> lock_system" where
  "run_tick d s = s\<lparr>ls_server := (ls_server s)\<lparr>rs_now := rs_now (ls_server s) + d\<rparr>\<rparr>"

text \<open>A schedule: whose turn it is, or how much time passes. A turn that is not possible ends it.\<close>

datatype turn = Act nat | Wait int

fun run_turns :: "int \<Rightarrow> nat \<Rightarrow> turn list \<Rightarrow> lock_system \<Rightarrow> lock_system option" where
  "run_turns wait ttl [] s = Some s"
| "run_turns wait ttl (Act i # ts) s =
     (if i < length (ls_procs s) then
        (case proc_step wait ttl (ls_server s) (ls_procs s ! i) of
           None \<Rightarrow> None
         | Some (srv, p) \<Rightarrow> run_turns wait ttl ts \<lparr>ls_server = srv, ls_procs = (ls_procs s)[i := p]\<rparr>)
      else None)"
| "run_turns wait ttl (Wait d # ts) s = (if 0 < d then run_turns wait ttl ts (run_tick d s) else None)"

lemma run_turns_sound: "run_turns wait ttl ts s = Some s' \<Longrightarrow> (lock_step wait ttl)\<^sup>*\<^sup>* s s'"
proof (induction ts arbitrary: s)
  case (Cons t ts)
  show ?case
  proof (cases t)
    case (Act i)
    with Cons.prems obtain srv p where st: "i < length (ls_procs s)"
      "proc_step wait ttl (ls_server s) (ls_procs s ! i) = Some (srv, p)"
      "run_turns wait ttl ts \<lparr>ls_server = srv, ls_procs = (ls_procs s)[i := p]\<rparr> = Some s'"
      by (auto split: if_splits option.splits)
    from converse_rtranclp_into_rtranclp [of "lock_step wait ttl", OF lock_step.act [OF st(1,2)] Cons.IH [OF st(3)]]
    show ?thesis .
  next
    case (Wait d)
    with Cons.prems have d: "0 < d" "run_turns wait ttl ts (run_tick d s) = Some s'"
      by (auto split: if_splits)
    from converse_rtranclp_into_rtranclp [of "lock_step wait ttl", OF lock_step.tick [OF d(1)] Cons.IH [OF d(2), unfolded run_tick_def]]
    show ?thesis .
  qed
qed simp

section \<open>Invariants\<close>

lemma after_poll_simps [simp]:
  "after_poll deadline True now = Got" "after_poll deadline False now \<noteq> Got"
  by (simp_all add: after_poll_def Let_def)

abbreviation held :: "proc \<Rightarrow> string set" where
  "held p \<equiv> fst ` set (holds p)"

definition in_order :: "proc \<Rightarrow> bool" where
  "in_order p \<longleftrightarrow> distinct (map fst (holds p)) \<and> (wants p \<noteq> [] \<longrightarrow> sorted_wrt (<) (map fst (holds p) @ wants p))"

text \<open>No transfer sleeps past the next retry.\<close>

fun wakes_by :: "int \<Rightarrow> proc \<Rightarrow> bool" where
  "wakes_by t (Polling k ks acq deadline wake) = (wake \<le> t)"
| "wakes_by t p = True"

lemma in_order_step:
  assumes "proc_step wait ttl srv p = Some (srv', p')" and "in_order p"
  shows "in_order p'"
  using assms
proof (induction wait ttl srv p rule: proc_step.induct)
  case (3 wait ttl srv k ks acq deadline wake)
  have sorted: "sorted_wrt (<) (map fst acq @ k # ks)" and dist: "distinct (map fst acq)"
    using 3(2) by (auto simp: in_order_def)
  have "distinct (map fst acq @ k # ks)" using sorted strict_sorted_iff by blast
  then show ?case
    using 3(1) sorted dist
    by (auto simp: in_order_def rev_map [symmetric] split: if_splits prod.splits after_poll.splits)
qed (auto simp: in_order_def rev_map [symmetric])

lemma wakes_by_step:
  assumes "proc_step wait ttl srv p = Some (srv', p')"
  shows "rs_now srv' = rs_now srv" and "wakes_by (rs_now srv + retry_interval) p'"
  using assms
  by (induction wait ttl srv p rule: proc_step.induct)
    (auto simp: server_set_nx_def server_delete_def retry_interval_def after_poll_def Let_def
      split: if_splits prod.splits after_poll.splits)

text \<open>Whoever the server sees a key for holds it.\<close>

lemma active_step:
  assumes "proc_step wait ttl srv p = Some (srv', p')" and "active srv' k"
  shows "k \<in> held p' \<or> active srv k \<and> k \<notin> held p"
  using assms
  by (induction wait ttl srv p rule: proc_step.induct)
    (auto simp: server_set_nx_def server_delete_def active_def image_iff
      split: if_splits prod.splits after_poll.splits option.splits)

definition lock_inv :: "lock_system \<Rightarrow> bool" where
  "lock_inv s \<longleftrightarrow> (\<forall>p \<in> set (ls_procs s). in_order p \<and> wakes_by (rs_now (ls_server s) + retry_interval) p) \<and>
     (\<forall>k. active (ls_server s) k \<longrightarrow> (\<exists>p \<in> set (ls_procs s). k \<in> held p))"

lemma lock_inv_act:
  assumes "lock_inv s" and i: "i < length (ls_procs s)"
    and st: "proc_step wait ttl (ls_server s) (ls_procs s ! i) = Some (srv, p)"
  shows "lock_inv \<lparr>ls_server = srv, ls_procs = (ls_procs s)[i := p]\<rparr>"
proof -
  have mem: "ls_procs s ! i \<in> set (ls_procs s)" using i by simp
  have now: "rs_now srv = rs_now (ls_server s)" by (rule wakes_by_step(1) [OF st])
  have p: "in_order p" "wakes_by (rs_now srv + retry_interval) p"
    using in_order_step [OF st] wakes_by_step(2) [OF st] assms(1) mem now by (auto simp: lock_inv_def)
  have old: "in_order q \<and> wakes_by (rs_now srv + retry_interval) q" if "q \<in> set (ls_procs s)" for q
    using assms(1) that now by (simp add: lock_inv_def)
  have "\<exists>q \<in> set ((ls_procs s)[i := p]). k \<in> held q" if k: "active srv k" for k
  proof (cases "k \<in> held p")
    case True
    then show ?thesis using i by (auto intro!: bexI [of _ p] simp: set_update_memI)
  next
    case False
    with active_step [OF st k] have "active (ls_server s) k" "k \<notin> held (ls_procs s ! i)" by auto
    moreover from this(1) obtain q where "q \<in> set (ls_procs s)" "k \<in> held q"
      using assms(1) unfolding lock_inv_def by blast
    ultimately obtain j where "j < length (ls_procs s)" "j \<noteq> i" "k \<in> held (ls_procs s ! j)"
      by (metis in_set_conv_nth)
    then have "(ls_procs s)[i := p] ! j = ls_procs s ! j" "j < length ((ls_procs s)[i := p])" by simp_all
    with \<open>k \<in> held (ls_procs s ! j)\<close> show ?thesis by (metis nth_mem)
  qed
  with p old show ?thesis
    by (auto simp: lock_inv_def dest!: set_update_subset_insert [THEN subsetD])
qed

lemma lock_inv_tick:
  assumes "lock_inv s" and "0 \<le> d"
  shows "lock_inv (run_tick d s)"
proof -
  have "wakes_by (t + d) p" if "wakes_by t p" for t p using that assms(2) by (cases p) auto
  moreover have "active (ls_server s) k" if "active ((ls_server s)\<lparr>rs_now := rs_now (ls_server s) + d\<rparr>) k" for k
    using that assms(2) by (auto simp: active_def split: option.splits)
  ultimately show ?thesis
    using assms(1) by (fastforce simp: lock_inv_def run_tick_def add.commute add.left_commute)
qed

lemma lock_inv_start:
  assumes "\<forall>keys \<in> set orders. sorted_wrt (<) keys"
  shows "lock_inv (lock_start now orders)"
proof -
  have "sorted_wrt (<) (map redis_key keys)" if "sorted_wrt (<) keys" for keys
    using that by (auto simp: sorted_wrt_map redis_key_def elim!: sorted_wrt_mono_rel [rotated])
  then show ?thesis
    using assms by (auto simp: lock_inv_def lock_start_def start_proc_def in_order_def active_def)
qed

lemma lock_inv_reachable:
  assumes "(lock_step wait ttl)\<^sup>*\<^sup>* s s'" and "lock_inv s"
  shows "lock_inv s'"
  using assms
proof (induction rule: rtranclp_induct)
  case (step y z)
  from step(2) show ?case
  proof cases
    case (act i srv p)
    with lock_inv_act [OF step.IH [OF step.prems] act(2,3)] show ?thesis by simp
  next
    case (tick d)
    with lock_inv_tick [OF step.IH [OF step.prems], of d] show ?thesis by (simp add: run_tick_def)
  qed
qed

section \<open>Deadlock freedom\<close>

text \<open>What a transfer still has to do, in steps that are not polls of a taken key.\<close>

fun work :: "proc \<Rightarrow> nat" where
  "work (Next ks acq) = 3 * length ks + length acq + 3"
| "work (Polling k ks acq deadline wake) = 3 * length ks + length acq + 5"
| "work (Inside acq) = length acq + 2"
| "work (Releasing acq ok) = length acq + 1"
| "work (Finished ok) = 0"

definition waits_for :: "proc \<Rightarrow> proc list \<Rightarrow> bool" where
  "waits_for p qs = (case p of Polling k ks acq deadline wake \<Rightarrow> \<exists>q \<in> set qs. k \<in> held q | _ \<Rightarrow> False)"

text \<open>With keys taken in order, whoever waits for the greatest key waits for somebody who does not wait.\<close>

lemma someone_free:
  assumes "\<forall>p \<in> set ps. in_order p" and "\<exists>p \<in> set ps. \<not> finished p"
  shows "\<exists>p \<in> set ps. \<not> finished p \<and> \<not> waits_for p ps"
proof (rule ccontr)
  assume stuck: "\<not> ?thesis"
  define W where "W = {k. \<exists>ks acq d w. Polling k ks acq d w \<in> set ps}"
  have "W \<subseteq> (\<lambda>p. case p of Polling k ks acq d w \<Rightarrow> k) ` set ps"
    unfolding W_def by (force simp: image_iff)
  then have fin: "finite W" using finite_surj [of "set ps"] by blast
  have polls: "\<exists>k ks acq d w. p = Polling k ks acq d w \<and> (\<exists>q \<in> set ps. k \<in> held q)"
    if "p \<in> set ps" "\<not> finished p" for p
  proof -
    have "waits_for p ps" using stuck that by blast
    then show ?thesis by (cases p) (auto simp: waits_for_def)
  qed
  from assms(2) polls have "W \<noteq> {}" unfolding W_def by blast
  then have "Max W \<in> W" using fin by simp
  then obtain ks acq d w where p: "Polling (Max W) ks acq d w \<in> set ps" unfolding W_def by blast
  from polls [OF p] obtain q where q: "q \<in> set ps" "Max W \<in> held q" by auto
  have "\<not> finished q" using q(2) by (cases q) auto
  from polls [OF q(1) this] obtain k' ks' acq' d' w' where q': "q = Polling k' ks' acq' d' w'" by blast
  have "in_order q" using assms(1) q(1) by blast
  then have "Max W < k'" using q(2) by (force simp: q' in_order_def sorted_wrt_append)
  moreover have "k' \<le> Max W" using q(1) q' fin by (auto simp: W_def intro!: Max_ge)
  ultimately show False by simp
qed

text \<open>A transfer that is awake and waits for nobody gets on, and does not give up.\<close>

lemma free_step:
  assumes "\<not> finished p" and "wakes_by (rs_now srv) p" and "\<And>k ks acq d w. p = Polling k ks acq d w \<Longrightarrow> \<not> active srv k"
  shows "\<exists>srv' p'. proc_step wait ttl srv p = Some (srv', p') \<and> work p' < work p \<and> wakes_by (rs_now srv) p' \<and>
    (gave_up p' \<longrightarrow> gave_up p)"
proof (cases p)
  case (Next ks acq)
  then show ?thesis by (cases ks) auto
next
  case (Polling k ks acq d w)
  with assms show ?thesis by (auto simp: server_set_nx_def)
next
  case (Releasing acq ok)
  then show ?thesis by (cases acq) auto
qed (use assms in auto)

lemma work_decreases:
  assumes "i < length ps" and "work p < work (ps ! i)"
  shows "sum_list (map work (ps[i := p])) < sum_list (map work ps)"
  using assms
proof (induction ps arbitrary: i)
  case (Cons q ps)
  then show ?case by (cases i) auto
qed simp

text \<open>From a state in which nobody sleeps, all transfers finish without time passing.\<close>

lemma drain:
  assumes "lock_inv s" and "\<forall>p \<in> set (ls_procs s). wakes_by (rs_now (ls_server s)) p"
  shows "\<exists>s'. (lock_step wait ttl)\<^sup>*\<^sup>* s s' \<and> rs_now (ls_server s') = rs_now (ls_server s) \<and>
    length (ls_procs s') = length (ls_procs s) \<and>
    (\<forall>i < length (ls_procs s). finished (ls_procs s' ! i) \<and> (gave_up (ls_procs s' ! i) \<longrightarrow> gave_up (ls_procs s ! i)))"
  using assms
proof (induction "sum_list (map work (ls_procs s))" arbitrary: s rule: less_induct)
  case less
  show ?case
  proof (cases "\<forall>p \<in> set (ls_procs s). finished p")
    case True
    then show ?thesis by (intro exI [of _ s]) auto
  next
    case False
    have order: "\<forall>p \<in> set (ls_procs s). in_order p" using less.prems(1) by (simp add: lock_inv_def)
    obtain i where i: "i < length (ls_procs s)" "\<not> finished (ls_procs s ! i)" "\<not> waits_for (ls_procs s ! i) (ls_procs s)"
      using someone_free [OF order] False by (metis in_set_conv_nth)
    have awake: "wakes_by (rs_now (ls_server s)) (ls_procs s ! i)" using less.prems(2) i(1) by simp
    have free: "\<And>k ks acq d w. ls_procs s ! i = Polling k ks acq d w \<Longrightarrow> \<not> active (ls_server s) k"
    proof
      fix k ks acq d w
      assume that: "ls_procs s ! i = Polling k ks acq d w" and "active (ls_server s) k"
      from \<open>active (ls_server s) k\<close> obtain q where "q \<in> set (ls_procs s)" "k \<in> held q" using less.prems(1) unfolding lock_inv_def by blast
      then show False using i(3) by (auto simp: that waits_for_def)
    qed
    have "\<exists>srv p. proc_step wait ttl (ls_server s) (ls_procs s ! i) = Some (srv, p) \<and> work p < work (ls_procs s ! i) \<and>
        wakes_by (rs_now (ls_server s)) p \<and> (gave_up p \<longrightarrow> gave_up (ls_procs s ! i))"
      by (rule free_step [OF i(2) awake]) (rule free)
    then obtain srv p where st: "proc_step wait ttl (ls_server s) (ls_procs s ! i) = Some (srv, p)"
      "work p < work (ls_procs s ! i)" "wakes_by (rs_now (ls_server s)) p" "gave_up p \<longrightarrow> gave_up (ls_procs s ! i)"
      by blast
    let ?s = "\<lparr>ls_server = srv, ls_procs = (ls_procs s)[i := p]\<rparr>"
    have now: "rs_now srv = rs_now (ls_server s)" by (rule wakes_by_step(1) [OF st(1)])
    have "\<forall>q \<in> set (ls_procs ?s). wakes_by (rs_now (ls_server ?s)) q"
      using less.prems(2) st(3) now by (auto dest!: set_update_subset_insert [THEN subsetD])
    from less.hyps [OF _ lock_inv_act [OF less.prems(1) i(1) st(1)] this] work_decreases [OF i(1) st(2)]
    obtain s' where s': "(lock_step wait ttl)\<^sup>*\<^sup>* ?s s'" "rs_now (ls_server s') = rs_now srv"
      "length (ls_procs s') = length (ls_procs s)"
      "\<forall>j < length (ls_procs s). finished (ls_procs s' ! j) \<and> (gave_up (ls_procs s' ! j) \<longrightarrow> gave_up ((ls_procs s)[i := p] ! j))"
      by auto
    have "(lock_step wait ttl)\<^sup>*\<^sup>* s s'"
      by (rule converse_rtranclp_into_rtranclp [OF lock_step.act [OF i(1) st(1)] s'(1)])
    moreover have "gave_up ((ls_procs s)[i := p] ! j) \<longrightarrow> gave_up (ls_procs s ! j)" if "j < length (ls_procs s)" for j
      using st(4) that by (cases "j = i") auto
    ultimately show ?thesis using s'(2-4) now by (intro exI [of _ s']) auto
  qed
qed

lemma all_can_finish:
  assumes "lock_inv s"
  shows "\<exists>s'. (lock_step wait ttl)\<^sup>*\<^sup>* s s' \<and> rs_now (ls_server s') = rs_now (ls_server s) + retry_interval \<and>
    length (ls_procs s') = length (ls_procs s) \<and>
    (\<forall>i < length (ls_procs s). finished (ls_procs s' ! i) \<and> (gave_up (ls_procs s' ! i) \<longrightarrow> gave_up (ls_procs s ! i)))"
proof -
  let ?s = "run_tick retry_interval s"
  have tick: "lock_step wait ttl s ?s"
    unfolding run_tick_def by (rule lock_step.tick) (simp add: retry_interval_def)
  have "lock_inv ?s" by (rule lock_inv_tick [OF assms]) (simp add: retry_interval_def)
  moreover have "\<forall>p \<in> set (ls_procs ?s). wakes_by (rs_now (ls_server ?s)) p"
    using assms by (simp add: lock_inv_def run_tick_def)
  ultimately obtain s' where "(lock_step wait ttl)\<^sup>*\<^sup>* ?s s'" "rs_now (ls_server s') = rs_now (ls_server ?s)"
    "length (ls_procs s') = length (ls_procs ?s)"
    "\<forall>i < length (ls_procs ?s). finished (ls_procs s' ! i) \<and> (gave_up (ls_procs s' ! i) \<longrightarrow> gave_up (ls_procs ?s ! i))"
    using drain [of ?s wait ttl] by blast
  with converse_rtranclp_into_rtranclp [OF tick this(1)] show ?thesis
    by (intro exI [of _ s']) (simp add: run_tick_def)
qed

section \<open>Mutual exclusion\<close>

text \<open>No held lock has outlived its time to live.\<close>

definition timely :: "lock_system \<Rightarrow> bool" where
  "timely s \<longleftrightarrow> (\<forall>p \<in> set (ls_procs s). \<forall>(k, t) \<in> set (holds p). rs_now (ls_server s) < t)"

definition timely_step :: "int \<Rightarrow> nat \<Rightarrow> lock_system \<Rightarrow> lock_system \<Rightarrow> bool" where
  "timely_step wait ttl s s' \<longleftrightarrow> lock_step wait ttl s s' \<and> timely s'"

definition exclusive :: "lock_system \<Rightarrow> bool" where
  "exclusive s \<longleftrightarrow> (\<forall>i < length (ls_procs s). \<forall>j < length (ls_procs s). i \<noteq> j \<longrightarrow>
     held (ls_procs s ! i) \<inter> held (ls_procs s ! j) = {})"

text \<open>The server knows every held lock until it expires.\<close>

definition recorded :: "lock_system \<Rightarrow> bool" where
  "recorded s \<longleftrightarrow> (\<forall>p \<in> set (ls_procs s). \<forall>(k, t) \<in> set (holds p). rs_expiry (ls_server s) k = Some t)"

lemma holds_step:
  assumes "proc_step wait ttl srv p = Some (srv', p')"
  shows "held p' \<subseteq> held p \<or> (\<exists>k. held p' = insert k (held p) \<and> \<not> active srv k)"
    and "k \<notin> held p \<Longrightarrow> k \<notin> held p' \<Longrightarrow> rs_expiry srv' k = rs_expiry srv k"
    and "distinct (map fst (holds p)) \<Longrightarrow> \<forall>(k, t) \<in> set (holds p). rs_expiry srv k = Some t \<Longrightarrow>
      \<forall>(k, t) \<in> set (holds p). active srv k \<Longrightarrow> \<forall>(k, t) \<in> set (holds p'). rs_expiry srv' k = Some t"
  using assms
  by (induction wait ttl srv p rule: proc_step.induct)
    (force simp: server_set_nx_def server_delete_def image_iff split: if_splits prod.splits after_poll.splits)+

definition exclusive_inv :: "lock_system \<Rightarrow> bool" where
  "exclusive_inv s \<longleftrightarrow> lock_inv s \<and> exclusive s \<and> recorded s \<and> timely s"

lemma timely_active:
  assumes "timely s" and "recorded s" and "p \<in> set (ls_procs s)"
  shows "\<forall>(k, t) \<in> set (holds p). active (ls_server s) k"
  using assms by (fastforce simp: timely_def recorded_def active_def)

lemma timely_not_held:
  assumes "timely s" and "recorded s" and "p \<in> set (ls_procs s)" and "\<not> active (ls_server s) k"
  shows "k \<notin> held p"
proof
  assume "k \<in> held p"
  then obtain t where "(k, t) \<in> set (holds p)" by force
  with timely_active [OF assms(1-3)] assms(4) show False by blast
qed

lemma exclusive_act:
  assumes inv: "exclusive_inv s" and i: "i < length (ls_procs s)"
    and st: "proc_step wait ttl (ls_server s) (ls_procs s ! i) = Some (srv, p)"
  shows "exclusive \<lparr>ls_server = srv, ls_procs = (ls_procs s)[i := p]\<rparr>"
    and "recorded \<lparr>ls_server = srv, ls_procs = (ls_procs s)[i := p]\<rparr>"
proof -
  let ?ps = "ls_procs s"
  have mem: "?ps ! i \<in> set ?ps" using i by simp
  have rec: "recorded s" and tim: "timely s" and exc: "exclusive s" and linv: "lock_inv s"
    using inv by (simp_all add: exclusive_inv_def)
  have others: "held (?ps ! j) \<inter> held p = {}" "held (?ps ! j) \<inter> held (?ps ! i) = {}" if j: "j < length ?ps" "j \<noteq> i" for j
  proof -
    have ex: "held (?ps ! j) \<inter> held (?ps ! i) = {}" using exc i j by (simp add: exclusive_def)
    from holds_step(1) [OF st] show "held (?ps ! j) \<inter> held p = {}"
    proof
      assume "held p \<subseteq> held (?ps ! i)"
      with ex show ?thesis by blast
    next
      assume "\<exists>k. held p = insert k (held (?ps ! i)) \<and> \<not> active (ls_server s) k"
      then obtain k where k: "held p = insert k (held (?ps ! i))" "\<not> active (ls_server s) k" by blast
      from timely_not_held [OF tim rec nth_mem [OF j(1)] k(2)] ex show ?thesis unfolding k(1) by blast
    qed
    show "held (?ps ! j) \<inter> held (?ps ! i) = {}" by (rule ex)
  qed
  show "exclusive \<lparr>ls_server = srv, ls_procs = ?ps[i := p]\<rparr>"
    unfolding exclusive_def
  proof (intro allI impI)
    fix a b
    assume "a < length (ls_procs \<lparr>ls_server = srv, ls_procs = ?ps[i := p]\<rparr>)"
      "b < length (ls_procs \<lparr>ls_server = srv, ls_procs = ?ps[i := p]\<rparr>)" "a \<noteq> b"
    then have ab: "a < length ?ps" "b < length ?ps" "a \<noteq> b" by simp_all
    then have "held (?ps ! a) \<inter> held (?ps ! b) = {}" using exc unfolding exclusive_def by blast
    with others(1) [of a] others(1) [of b] ab i
    have "held (?ps[i := p] ! a) \<inter> held (?ps[i := p] ! b) = {}" by (cases "a = i"; cases "b = i") auto
    then show "held (ls_procs \<lparr>ls_server = srv, ls_procs = ?ps[i := p]\<rparr> ! a) \<inter>
        held (ls_procs \<lparr>ls_server = srv, ls_procs = ?ps[i := p]\<rparr> ! b) = {}" by simp
  qed
  have own: "\<forall>(k, t) \<in> set (holds p). rs_expiry srv k = Some t"
  proof (rule holds_step(3) [OF st])
    show "distinct (map fst (holds (?ps ! i)))" using linv mem by (simp add: lock_inv_def in_order_def)
    show "\<forall>(k, t) \<in> set (holds (?ps ! i)). rs_expiry (ls_server s) k = Some t"
      using rec mem unfolding recorded_def by blast
    show "\<forall>(k, t) \<in> set (holds (?ps ! i)). active (ls_server s) k" by (rule timely_active [OF tim rec mem])
  qed
  have other: "rs_expiry srv k = Some t" if "j < length ?ps" "j \<noteq> i" "(k, t) \<in> set (holds (?ps ! j))" for j k t
  proof -
    have k: "k \<in> held (?ps ! j)" using that(3) by force
    have "rs_expiry srv k = rs_expiry (ls_server s) k"
      by (rule holds_step(2) [OF st]) (use others [OF that(1,2)] k in blast)+
    moreover have "rs_expiry (ls_server s) k = Some t"
      using rec that(3) nth_mem [OF that(1)] unfolding recorded_def by blast
    ultimately show ?thesis by simp
  qed
  show "recorded \<lparr>ls_server = srv, ls_procs = ?ps[i := p]\<rparr>"
    unfolding recorded_def
  proof (intro ballI)
    fix q x assume "q \<in> set (ls_procs \<lparr>ls_server = srv, ls_procs = ?ps[i := p]\<rparr>)" and x: "x \<in> set (holds q)"
    then obtain j where j: "j < length ?ps" "q = ?ps[i := p] ! j" by (auto simp: in_set_conv_nth)
    show "case x of (k, t) \<Rightarrow> rs_expiry (ls_server \<lparr>ls_server = srv, ls_procs = ?ps[i := p]\<rparr>) k = Some t"
    proof (cases "j = i")
      case True
      with j x own i show ?thesis by auto
    next
      case False
      with j x other [OF j(1) False] show ?thesis by (cases x) auto
    qed
  qed
qed

lemma exclusive_inv_step:
  assumes inv: "exclusive_inv s" and "timely_step wait ttl s s'"
  shows "exclusive_inv s'"
proof -
  have st: "lock_step wait ttl s s'" and tim: "timely s'" using assms(2) by (simp_all add: timely_step_def)
  have linv: "lock_inv s'"
    using lock_inv_reachable [OF r_into_rtranclp [of "lock_step wait ttl", OF st]] inv by (simp add: exclusive_inv_def)
  from st show ?thesis
  proof cases
    case (act i srv p)
    with exclusive_act [OF inv act(2,3)] linv tim show ?thesis by (simp add: exclusive_inv_def)
  next
    case (tick d)
    with inv linv tim show ?thesis by (simp add: exclusive_inv_def exclusive_def recorded_def)
  qed
qed

lemma exclusive_reachable:
  assumes "(timely_step wait ttl)\<^sup>*\<^sup>* s s'" and "exclusive_inv s"
  shows "exclusive_inv s'"
  using assms by (induction rule: rtranclp_induct) (auto intro: exclusive_inv_step)

lemma exclusive_start:
  "\<forall>keys \<in> set orders. sorted_wrt (<) keys \<Longrightarrow> exclusive_inv (lock_start now orders)"
  using lock_inv_start [of orders now]
  by (auto simp: exclusive_inv_def exclusive_def recorded_def timely_def lock_start_def start_proc_def)

section \<open>One transfer alone\<close>

text \<open>The steps of a \<open>proc\<close> are those of the code: what \<open>redis_acquire\<close> does over the reference server is a run of one
  transfer, which ends inside with the same locks, or has released everything and given up.\<close>

abbreviation alone :: "redis_server \<Rightarrow> proc \<Rightarrow> lock_system" where
  "alone srv p \<equiv> \<lparr>ls_server = srv, ls_procs = [p]\<rparr>"

lemma alone_act:
  assumes "proc_step wait ttl srv p = Some (srv', p')" and "(lock_step wait ttl)\<^sup>*\<^sup>* (alone srv' p') s"
  shows "(lock_step wait ttl)\<^sup>*\<^sup>* (alone srv p) s"
  using lock_step.act [of 0 "alone srv p" wait ttl srv' p'] assms
  by (auto intro: converse_rtranclp_into_rtranclp)

lemma alone_tick:
  assumes "0 < d" and "(lock_step wait ttl)\<^sup>*\<^sup>* (alone (srv\<lparr>rs_now := rs_now srv + d\<rparr>) p) s"
  shows "(lock_step wait ttl)\<^sup>*\<^sup>* (alone srv p) s"
  using lock_step.tick [OF assms(1), of wait ttl "alone srv p"] assms(2)
  by (auto intro: converse_rtranclp_into_rtranclp)

lemma reference_redis_simps [simp]:
  "redis_set_nx reference_redis k ttl srv = (Inr (fst (server_set_nx k ttl srv)), snd (server_set_nx k ttl srv))"
  "redis_delete reference_redis k srv = (Inr (), server_delete k srv)" "loop_time reference_redis = rs_now"
  "loop_sleep reference_redis d srv = (Inr (), srv\<lparr>rs_now := rs_now srv + max 0 d\<rparr>)"
  by (simp_all add: reference_redis_def modifyP_apply split: prod.splits)

lemma acquire_loop_run:
  assumes "rm_redis M = reference_redis" and "acquire_loop M k ttl deadline srv = Some (x, srv')" and "wake \<le> rs_now srv"
  shows "case x of
      Inl e \<Rightarrow> (lock_step wait ttl)\<^sup>*\<^sup>* (alone srv (Polling k ks acq deadline wake)) (alone srv' (Releasing (rev acq) False))
    | Inr _ \<Rightarrow> \<exists>t. (lock_step wait ttl)\<^sup>*\<^sup>* (alone srv (Polling k ks acq deadline wake)) (alone srv' (Next ks (acq @ [(k, t)])))"
  using assms(2,3)
proof (induction "nat (deadline - rs_now srv)" arbitrary: srv wake rule: less_induct)
  case less
  obtain ok srv1 where set: "server_set_nx k ttl srv = (ok, srv1)" by fastforce
  have now: "rs_now srv1 = rs_now srv" using set by (auto simp: server_set_nx_def split: if_splits)
  have loop: "acquire_loop M k ttl deadline srv = (case after_poll deadline ok (rs_now srv1) of
      Got \<Rightarrow> Some (Inr (), srv1) | GiveUp \<Rightarrow> Some (Inl (lock_timeout k (rm_wait_text M)), srv1)
    | SleepFor d \<Rightarrow> acquire_loop M k ttl deadline (srv1\<lparr>rs_now := rs_now srv1 + max 0 d\<rparr>))"
    by (subst acquire_loop.simps) (simp add: assms(1) set split: after_poll.splits)
  show ?case
  proof (cases "after_poll deadline ok (rs_now srv1)")
    case Got
    with loop less.prems have x: "x = Inr ()" "srv' = srv1" by simp_all
    have "proc_step wait ttl srv (Polling k ks acq deadline wake) =
        Some (srv1, Next ks (acq @ [(k, rs_now srv + seconds ttl)]))" using less.prems(2) set Got by simp
    from alone_act [OF this rtranclp.rtrancl_refl] show ?thesis unfolding x by auto
  next
    case GiveUp
    with loop less.prems have x: "x = Inl (lock_timeout k (rm_wait_text M))" "srv' = srv1" by simp_all
    have "proc_step wait ttl srv (Polling k ks acq deadline wake) = Some (srv1, Releasing (rev acq) False)"
      using less.prems(2) set GiveUp by simp
    from alone_act [OF this rtranclp.rtrancl_refl] show ?thesis unfolding x by simp
  next
    case (SleepFor d)
    then have d: "0 < d" "rs_now srv1 < deadline" by (auto simp: after_poll_def Let_def retry_interval_def split: if_splits)
    let ?srv = "srv1\<lparr>rs_now := rs_now srv1 + d\<rparr>"
    have l: "acquire_loop M k ttl deadline ?srv = Some (x, srv')" using loop less.prems(1) SleepFor d by simp
    have st: "proc_step wait ttl srv (Polling k ks acq deadline wake) = Some (srv1, Polling k ks acq deadline (rs_now srv1 + d))"
      using less.prems(2) set SleepFor by simp
    have measure: "nat (deadline - rs_now ?srv) < nat (deadline - rs_now srv)" using d now by simp
    have wake: "rs_now srv1 + d \<le> rs_now ?srv" by simp
    have later: "(lock_step wait ttl)\<^sup>*\<^sup>* (alone ?srv (Polling k ks acq deadline (rs_now srv1 + d))) s \<Longrightarrow>
        (lock_step wait ttl)\<^sup>*\<^sup>* (alone srv (Polling k ks acq deadline wake)) s" for s
      by (rule alone_act [OF st alone_tick [OF d(1)]])
    show ?thesis
    proof (cases x)
      case (Inl e)
      with less.hyps [OF measure l wake] later show ?thesis by simp
    next
      case (Inr u)
      with less.hyps [OF measure l wake] obtain t where
        "(lock_step wait ttl)\<^sup>*\<^sup>* (alone ?srv (Polling k ks acq deadline (rs_now srv1 + d)))
          (alone srv' (Next ks (acq @ [(k, t)])))" by auto
      from later [OF this] Inr show ?thesis by auto
    qed
  qed
qed

lemma release_run:
  assumes "rm_redis M = reference_redis"
  shows "\<exists>srv'. forP (safe_release M) (map fst acq) srv = (Inr (), srv') \<and>
    (lock_step wait ttl)\<^sup>*\<^sup>* (alone srv (Releasing acq ok)) (alone srv' (Finished ok))"
proof (induction acq arbitrary: srv)
  case Nil
  then show ?case
    using alone_act [OF _ rtranclp.rtrancl_refl, of wait ttl srv "Releasing [] ok" srv "Finished ok"] by (simp add: returnP_apply)
next
  case (Cons kt acq)
  obtain k t where kt: "kt = (k, t)" by (cases kt)
  obtain srv' where srv': "forP (safe_release M) (map fst acq) (server_delete k srv) = (Inr (), srv')"
    "(lock_step wait ttl)\<^sup>*\<^sup>* (alone (server_delete k srv) (Releasing acq ok)) (alone srv' (Finished ok))"
    using Cons [of "server_delete k srv"] by blast
  have "safe_release M k srv = (Inr (), server_delete k srv)"
    by (simp add: safe_release_def tryP_apply assms)
  with srv' alone_act [of wait ttl srv "Releasing (kt # acq) ok" "server_delete k srv" "Releasing acq ok"] show ?case
    by (intro exI [of _ srv']) (simp add: kt thenP_apply)
qed

lemma redis_acquire_run:
  assumes "rm_redis M = reference_redis" and "redis_acquire M ttl keys (map fst acq) srv = Some (x, srv')"
  shows "case x of
      Inl e \<Rightarrow> (lock_step (rm_wait_timeout M) ttl)\<^sup>*\<^sup>* (alone srv (Next (map redis_key keys) acq)) (alone srv' (Finished False))
    | Inr locks \<Rightarrow> \<exists>acq'. map fst acq' = locks \<and>
        (lock_step (rm_wait_timeout M) ttl)\<^sup>*\<^sup>* (alone srv (Next (map redis_key keys) acq)) (alone srv' (Inside acq'))"
  using assms(2)
proof (induction keys arbitrary: acq srv)
  case Nil
  then show ?case
    using alone_act [OF _ rtranclp.rtrancl_refl, of "rm_wait_timeout M" ttl srv "Next [] acq" srv "Inside acq"] by auto
next
  case (Cons key keys)
  let ?w = "rm_wait_timeout M" and ?k = "redis_key key"
  have "clock_laws (rm_redis M)" by (simp add: assms(1) reference_redis_clock)
  from acquire_loop_returns [OF this, of ?k ttl "loop_time (rm_redis M) srv + rm_wait_timeout M" srv]
  obtain y srv1 where single: "acquire_single M ?k ttl srv = Some (y, srv1)"
    unfolding acquire_single_def by blast
  have first: "proc_step ?w ttl srv (Next (map redis_key (key # keys)) acq) =
      Some (srv, Polling ?k (map redis_key keys) acq (rs_now srv + ?w) (rs_now srv))" by simp
  have loop: "acquire_loop M ?k ttl (rs_now srv + ?w) srv = Some (y, srv1)"
    using single by (simp add: acquire_single_def assms(1))
  note run = acquire_loop_run [OF assms(1) loop order_refl, of ?w "map redis_key keys" acq]
  show ?case
  proof (cases y)
    case (Inl e)
    obtain srv2 where rel: "forP (safe_release M) (map fst (rev acq)) srv1 = (Inr (), srv2)"
      "(lock_step ?w ttl)\<^sup>*\<^sup>* (alone srv1 (Releasing (rev acq) False)) (alone srv2 (Finished False))"
      using release_run [OF assms(1)] by blast
    have "thenP (release_all M (map fst acq)) (raiseP e) srv1 = (Inl e :: exn + string list, srv2)"
      using rel(1) by (simp add: release_all_def rev_map thenP_apply raiseP_apply)
    with Cons.prems single Inl have x: "x = Inl e" "srv' = srv2" by (simp_all add: Let_def)
    have "(lock_step ?w ttl)\<^sup>*\<^sup>* (alone srv (Polling ?k (map redis_key keys) acq (rs_now srv + ?w) (rs_now srv)))
        (alone srv1 (Releasing (rev acq) False))" using run Inl by simp
    from alone_act [OF first rtranclp_trans [OF this rel(2)]] show ?thesis unfolding x by simp
  next
    case (Inr u)
    then obtain t where t: "(lock_step ?w ttl)\<^sup>*\<^sup>* (alone srv (Polling ?k (map redis_key keys) acq (rs_now srv + ?w) (rs_now srv)))
        (alone srv1 (Next (map redis_key keys) (acq @ [(?k, t)])))" using run by auto
    have step: "(lock_step ?w ttl)\<^sup>*\<^sup>* (alone srv1 (Next (map redis_key keys) (acq @ [(?k, t)]))) s \<Longrightarrow>
        (lock_step ?w ttl)\<^sup>*\<^sup>* (alone srv (Next (map redis_key (key # keys)) acq)) s" for s
      using alone_act [OF first rtranclp_trans [OF t]] by blast
    have "redis_acquire M ttl keys (map fst (acq @ [(?k, t)])) srv1 = Some (x, srv')"
      using Cons.prems single Inr by simp
    note IH = Cons.IH [OF this]
    show ?thesis
    proof (cases x)
      case (Inl e)
      with IH step show ?thesis by simp
    next
      case (Inr locks)
      with IH obtain acq' where "map fst acq' = locks"
        "(lock_step ?w ttl)\<^sup>*\<^sup>* (alone srv1 (Next (map redis_key keys) (acq @ [(?k, t)]))) (alone srv' (Inside acq'))" by auto
      with step Inr show ?thesis by auto
    qed
  qed
qed

end
