(* ===== verification/Lock_Properties.thy ===== *)
theory Lock_Properties
  imports Samples Lock_System
begin

text \<open>The properties of the Redis lock manager, alone and with many transfers at one server.\<close>

section \<open>One transfer\<close>

text \<open>The manager as \<open>RedisLockManager(redis)\<close> builds it.\<close>

definition sample_manager :: "redis_server redis_manager" where
  "sample_manager = \<lparr>rm_redis = reference_redis, rm_wait_timeout = seconds 5, rm_wait_text = ''5.0''\<rparr>"

text \<open>C14: The retry loop has no counter, but it ends: with any Redis client, if the clock runs while the manager
  sleeps, \<open>acquire\<close> returns for every list of keys, and then with all their locks or an exception; one key is
  given up, unless the client itself raises, only when the whole wait timeout has passed.\<close>

theorem redis_acquire_returns:
  assumes "clock_laws (rm_redis M)"
  shows "(\<exists>x r'. redis_acquire M ttl keys [] r = Some (x, r') \<and> (\<forall>acquired. x = Inr acquired \<longrightarrow> acquired = map redis_key keys)) \<and>
    (\<exists>x r'. acquire_single M k ttl r = Some (x, r') \<and> (\<forall>e. x = Inl e \<longrightarrow> client_raises (rm_redis M) e \<or>
       e = lock_timeout k (rm_wait_text M) \<and> loop_time (rm_redis M) r + rm_wait_timeout M \<le> loop_time (rm_redis M) r'))"
  using redis_acquire_returns_all [OF assms, of ttl keys "[]" r]
    acquire_loop_returns [OF assms, of k ttl "loop_time (rm_redis M) r + rm_wait_timeout M" r]
  unfolding acquire_single_def by auto

lemma redis_acquire_returns_witness:
  "\<exists>x srv. redis_acquire sample_manager 30 [''a'', ''b''] [] \<lparr>rs_expiry = [redis_key ''b'' \<mapsto> 100], rs_now = 0\<rparr> = Some (x, srv)"
proof -
  have "clock_laws (rm_redis sample_manager)" by (simp add: sample_manager_def reference_redis_clock)
  from redis_acquire_returns [OF this] show ?thesis by blast
qed

section \<open>Many transfers\<close>

lemma lock_keys_sorted: "f \<noteq> t \<Longrightarrow> sorted_wrt (<) (lock_keys f t)"
  unfolding strict_sorted_iff distinct_lock_keys by (simp only: lock_keys_def sorted_sort simp_thms)

lemma orders_sorted:
  "\<forall>(f, t) \<in> set transfers. f \<noteq> t \<Longrightarrow> \<forall>keys \<in> set (map (\<lambda>(f, t). lock_keys f t) transfers). sorted_wrt (<) keys"
  using lock_keys_sorted by auto

text \<open>Transfers between different accounts cannot deadlock on their locks, however many there are and however
  their steps and the server's clock interleave: from every state they can reach, one retry interval (50 ms) of
  time is enough for all of them to finish, and every transfer that has not given up by then gets its locks.\<close>

theorem redis_deadlock_free:
  assumes "\<forall>(f, t) \<in> set transfers. f \<noteq> t"
    and "(lock_step wait ttl)\<^sup>*\<^sup>* (lock_start now (map (\<lambda>(f, t). lock_keys f t) transfers)) s"
  shows "\<exists>s'. (lock_step wait ttl)\<^sup>*\<^sup>* s s' \<and> rs_now (ls_server s') = rs_now (ls_server s) + retry_interval \<and>
    length (ls_procs s') = length (ls_procs s) \<and>
    (\<forall>i < length (ls_procs s). finished (ls_procs s' ! i) \<and> (gave_up (ls_procs s' ! i) \<longrightarrow> gave_up (ls_procs s ! i)))"
  by (rule all_can_finish, rule lock_inv_reachable [OF assms(2)], rule lock_inv_start, rule orders_sorted [OF assms(1)])

text \<open>The two keys of a transfer, and what two transfers between the same accounts do first: the first takes its
  first lock, the second asks for the same one and sleeps.\<close>

lemma lock_keys_two:
  obtains a b where "lock_keys f t = [a, b]" and "lock_keys t f = [a, b]"
  by (cases "uuid_str f \<le> uuid_str t"; cases "uuid_str t \<le> uuid_str f") (auto simp: lock_keys_def)

lemma seconds_simps [simp]: "seconds n < seconds m \<longleftrightarrow> n < m" "seconds n + seconds m = seconds (n + m)" "seconds 0 = 0"
  by (auto simp: seconds_def)

definition crossing :: "lock_system" where
  "crossing = lock_start 0 (map (\<lambda>(f, t). lock_keys f t) [(uid 1, uid 2), (uid 2, uid 1)])"

lemma crossing_run:
  obtains s k t where "run_turns (seconds 5) 30 [Act 0, Act 0, Act 1, Act 1] crossing = Some s"
    and "holds (ls_procs s ! 0) = [(k, t)]" and "waits_for (ls_procs s ! 1) (ls_procs s)"
proof -
  obtain a b where keys: "lock_keys (uid 1) (uid 2) = [a, b]" "lock_keys (uid 2) (uid 1) = [a, b]"
    by (rule lock_keys_two)
  have "\<exists>s k t. run_turns (seconds 5) 30 [Act 0, Act 0, Act 1, Act 1] crossing = Some s \<and>
      holds (ls_procs s ! 0) = [(k, t)] \<and> waits_for (ls_procs s ! 1) (ls_procs s)"
    by (simp add: crossing_def lock_start_def keys [simplified] start_proc_def server_set_nx_def active_def
        after_poll_def seconds_def retry_interval_def waits_for_def)
  then show thesis using that by blast
qed

lemma redis_deadlock_free_witness:
  "\<exists>s s'. run_turns (seconds 5) 30 [Act 0, Act 0, Act 1, Act 1] crossing = Some s \<and>
     waits_for (ls_procs s ! 1) (ls_procs s) \<and>
     (lock_step (seconds 5) 30)\<^sup>*\<^sup>* s s' \<and> rs_now (ls_server s') = rs_now (ls_server s) + retry_interval"
proof -
  obtain s where s: "run_turns (seconds 5) 30 [Act 0, Act 0, Act 1, Act 1] crossing = Some s"
    "waits_for (ls_procs s ! 1) (ls_procs s)"
    by (rule crossing_run)
  have "\<forall>(f, t) \<in> set [(uid 1, uid 2), (uid 2, uid 1)]. f \<noteq> t" by (simp add: uid_inject)
  from redis_deadlock_free [OF this run_turns_sound [OF s(1), unfolded crossing_def]] s show ?thesis by blast
qed

text \<open>C8: Mutual exclusion holds as long as no lock outlives its time to live: on every run of transfers between
  different accounts in which each held lock is released before it expires, no two transfers ever hold the same
  account's lock, and the server knows every lock that is held.\<close>

theorem redis_mutual_exclusion:
  assumes "\<forall>(f, t) \<in> set transfers. f \<noteq> t"
    and "(timely_step wait ttl)\<^sup>*\<^sup>* (lock_start now (map (\<lambda>(f, t). lock_keys f t) transfers)) s"
    and "i < length (ls_procs s)" and "j < length (ls_procs s)" and "i \<noteq> j"
  shows "fst ` set (holds (ls_procs s ! i)) \<inter> fst ` set (holds (ls_procs s ! j)) = {} \<and>
    (\<forall>(k, t) \<in> set (holds (ls_procs s ! i)). rs_expiry (ls_server s) k = Some t)"
proof -
  have inv: "exclusive_inv s"
    by (rule exclusive_reachable [OF assms(2)], rule exclusive_start, rule orders_sorted [OF assms(1)])
  then have "exclusive s" and "recorded s" by (simp_all add: exclusive_inv_def)
  from this(1) assms(3-5) have "held (ls_procs s ! i) \<inter> held (ls_procs s ! j) = {}" unfolding exclusive_def by blast
  with \<open>recorded s\<close> nth_mem [OF assms(3)] show ?thesis unfolding recorded_def by blast
qed

lemma redis_mutual_exclusion_witness:
  "\<exists>s k t. (timely_step (seconds 5) 30)\<^sup>*\<^sup>* crossing s \<and> holds (ls_procs s ! 0) = [(k, t)] \<and>
     rs_expiry (ls_server s) k = Some t \<and> k \<notin> fst ` set (holds (ls_procs s ! 1))"
proof -
  obtain a b where keys: "lock_keys (uid 1) (uid 2) = [a, b]" "lock_keys (uid 2) (uid 1) = [a, b]"
    by (rule lock_keys_two)
  let ?p = "Next [redis_key a, redis_key b] []" and ?srv = "\<lparr>rs_expiry = (\<lambda>_. None), rs_now = 0\<rparr>"
  let ?s1 = "\<lparr>ls_server = ?srv, ls_procs = [Polling (redis_key a) [redis_key b] [] (seconds 5) 0, ?p]\<rparr>"
  let ?s2 = "\<lparr>ls_server = ?srv\<lparr>rs_expiry := [redis_key a \<mapsto> seconds 30]\<rparr>,
      ls_procs = [Next [redis_key b] [(redis_key a, seconds 30)], ?p]\<rparr>"
  have start: "crossing = \<lparr>ls_server = ?srv, ls_procs = [?p, ?p]\<rparr>"
    by (simp add: crossing_def lock_start_def keys [simplified] start_proc_def)
  have "lock_step (seconds 5) 30 crossing ?s1" unfolding start
    using lock_step.act [of 0 "\<lparr>ls_server = ?srv, ls_procs = [?p, ?p]\<rparr>" "seconds 5" 30] by simp
  moreover have "lock_step (seconds 5) 30 ?s1 ?s2"
    using lock_step.act [of 0 ?s1 "seconds 5" 30] by (simp add: server_set_nx_def active_def)
  ultimately have run: "(timely_step (seconds 5) 30)\<^sup>*\<^sup>* crossing ?s2"
    by (intro converse_rtranclp_into_rtranclp [of _ crossing ?s1] r_into_rtranclp)
      (simp_all add: timely_step_def timely_def seconds_def)
  have "\<forall>(f, t) \<in> set [(uid 1, uid 2), (uid 2, uid 1)]. f \<noteq> t" by (simp add: uid_inject)
  from redis_mutual_exclusion [OF this run [unfolded crossing_def], of 0 1] run show ?thesis
    by (intro exI [of _ ?s2] exI [of _ "redis_key a"] exI [of _ "seconds 30"]) simp
qed

text \<open>C29: After a lock has expired mutual exclusion is lost even for transfers in time, because the release deletes
  the key without checking who set it: three transfers between the same two accounts can interleave so that the
  first outlives its locks, the second takes them, the first releases the second's locks, and the third enters
  while the second is still inside, with both of their locks unexpired.\<close>

theorem redis_release_not_owner:
  assumes "f \<noteq> t"
  shows "\<exists>s acq1 acq2. (lock_step (seconds 5) 30)\<^sup>*\<^sup>* (lock_start 0 [lock_keys f t, lock_keys f t, lock_keys f t]) s \<and>
    ls_procs s ! 1 = Inside acq1 \<and> ls_procs s ! 2 = Inside acq2 \<and> map fst acq1 = map redis_key (lock_keys f t) \<and>
    map fst acq2 = map redis_key (lock_keys f t) \<and> (\<forall>(k, e) \<in> set (acq1 @ acq2). rs_now (ls_server s) < e)"
proof -
  obtain a b where keys: "lock_keys f t = [a, b]" by (rule lock_keys_two)
  have ab: "a \<noteq> b" using assms distinct_lock_keys [of f t] by (auto simp: keys)
  let ?enter = "\<lambda>i. replicate 5 (Act i)"
  have "\<exists>s acq1 acq2. run_turns (seconds 5) 30 (?enter 0 @ [Wait (seconds 31)] @ ?enter 1 @ replicate 3 (Act 0) @ ?enter 2)
      (lock_start 0 [[a, b], [a, b], [a, b]]) = Some s \<and>
    ls_procs s ! 1 = Inside acq1 \<and> ls_procs s ! 2 = Inside acq2 \<and> map fst acq1 = map redis_key [a, b] \<and>
    map fst acq2 = map redis_key [a, b] \<and> (\<forall>(k, e) \<in> set (acq1 @ acq2). rs_now (ls_server s) < e)"
    using ab by (simp add: lock_start_def start_proc_def server_set_nx_def server_delete_def active_def run_tick_def
        seconds_def numeral_eq_Suc)
  then show ?thesis unfolding keys using run_turns_sound by blast
qed

lemma redis_release_not_owner_witness:
  "\<exists>s acq1 acq2. (lock_step (seconds 5) 30)\<^sup>*\<^sup>*
      (lock_start 0 [lock_keys (uid 1) (uid 2), lock_keys (uid 1) (uid 2), lock_keys (uid 1) (uid 2)]) s \<and>
    ls_procs s ! 1 = Inside acq1 \<and> ls_procs s ! 2 = Inside acq2 \<and> map fst acq1 = map fst acq2"
proof -
  have "uid 1 \<noteq> uid 2" by (simp add: uid_inject)
  from redis_release_not_owner [OF this] show ?thesis by metis
qed

end
