(* ===== verification/Environment.thy ===== *)
theory Environment
  imports Settings
begin

text \<open>
  Where the settings come from: the \<open>model_config\<close> of each class of \<open>src/infrastructure/config/settings.py\<close> and the
  construction \<open>Settings()\<close> behind \<open>get_settings\<close>.

  \<^item> The environment is the exported variables and the entries of the file \<open>.env\<close>, by their names in lower case:
    \<open>case_sensitive\<close> is off in every class. An exported variable goes before the file, the file before the default.
  \<^item> \<open>pydantic\<close> is what the library makes of the text of a number, a flag and a nested class given as one variable;
    a text and a \<open>Literal\<close> are taken as they are. \<open>None\<close> is a ValidationError, which ends the start-up.
  \<^item> Each class reads for itself: only a class whose configuration names the file sees it.
\<close>

section \<open>Sources\<close>

record environment =
  ev_variables :: "string \<Rightarrow> string option"
  ev_dotenv :: "string \<Rightarrow> string option"

record model_config =
  mc_env_prefix :: string
  mc_env_file :: bool

definition database_config :: model_config where
  "database_config = \<lparr>mc_env_prefix = ''POSTGRES_'', mc_env_file = True\<rparr>"

definition redis_config :: model_config where
  "redis_config = \<lparr>mc_env_prefix = ''REDIS_'', mc_env_file = False\<rparr>"

definition security_config :: model_config where
  "security_config = \<lparr>mc_env_prefix = ''SECURITY_'', mc_env_file = False\<rparr>"

definition observability_config :: model_config where
  "observability_config = \<lparr>mc_env_prefix = [], mc_env_file = False\<rparr>"

definition settings_config :: model_config where
  "settings_config = \<lparr>mc_env_prefix = [], mc_env_file = True\<rparr>"

definition env_lookup :: "environment \<Rightarrow> model_config \<Rightarrow> string \<Rightarrow> string option" where
  "env_lookup E c field =
     (let name = map lower_char (mc_env_prefix c @ field)
      in case ev_variables E name of
           Some v \<Rightarrow> Some v
         | None \<Rightarrow> if mc_env_file c then ev_dotenv E name else None)"

text \<open>A field: its default when no source has it, a value the type refuses is an error.\<close>

definition read_field :: "(string \<Rightarrow> 'a option) \<Rightarrow> environment \<Rightarrow> model_config \<Rightarrow> string \<Rightarrow> 'a \<Rightarrow> 'a option" where
  "read_field parse E c field def_value = (case env_lookup E c field of None \<Rightarrow> Some def_value | Some v \<Rightarrow> parse v)"

section \<open>Types\<close>

record pydantic =
  pd_int :: "string \<Rightarrow> int option"
  pd_bool :: "string \<Rightarrow> bool option"
  pd_database :: "environment \<Rightarrow> string \<Rightarrow> database_settings option"
  pd_redis :: "environment \<Rightarrow> string \<Rightarrow> redis_settings option"
  pd_security :: "environment \<Rightarrow> string \<Rightarrow> security_settings option"
  pd_observability :: "environment \<Rightarrow> string \<Rightarrow> observability_settings option"

text \<open>A \<open>Literal\<close> accepts its texts exactly.\<close>

definition parse_app_env :: "string \<Rightarrow> app_env option" where
  "parse_app_env = map_of [(''development'', Development), (''staging'', Staging), (''production'', Production)]"

definition parse_log_level :: "string \<Rightarrow> log_level option" where
  "parse_log_level = map_of [(''DEBUG'', LogDebug), (''INFO'', LogInfo), (''WARNING'', LogWarning), (''ERROR'', LogError)]"

definition parse_log_format :: "string \<Rightarrow> log_format option" where
  "parse_log_format = map_of [(''json'', JsonLogs), (''console'', ConsoleLogs)]"

section \<open>The classes\<close>

definition read_database :: "pydantic \<Rightarrow> environment \<Rightarrow> database_settings option" where
  "read_database P E =
     Option.bind (read_field Some E database_config ''host'' (db_host database_defaults)) (\<lambda>host.
     Option.bind (read_field (pd_int P) E database_config ''port'' (db_port database_defaults)) (\<lambda>port.
     Option.bind (read_field Some E database_config ''db'' (db_name database_defaults)) (\<lambda>db.
     Option.bind (read_field Some E database_config ''user'' (db_user database_defaults)) (\<lambda>user.
     Option.bind (read_field Some E database_config ''password'' (db_password database_defaults)) (\<lambda>password.
     Option.bind (read_field (pd_int P) E database_config ''pool_size'' (db_pool_size database_defaults)) (\<lambda>size.
     Option.bind (read_field (pd_int P) E database_config ''max_overflow'' (db_max_overflow database_defaults)) (\<lambda>overflow.
       Some \<lparr>db_host = host, db_port = port, db_name = db, db_user = user, db_password = password,
             db_pool_size = size, db_max_overflow = overflow\<rparr>)))))))"

definition read_redis :: "pydantic \<Rightarrow> environment \<Rightarrow> redis_settings option" where
  "read_redis P E =
     Option.bind (read_field Some E redis_config ''host'' (redis_host redis_defaults)) (\<lambda>host.
     Option.bind (read_field (pd_int P) E redis_config ''port'' (redis_port_number redis_defaults)) (\<lambda>port.
     Option.bind (read_field (pd_int P) E redis_config ''db'' (redis_db redis_defaults)) (\<lambda>db.
     Option.bind (read_field (pd_int P) E redis_config ''lock_ttl_seconds'' (lock_ttl_seconds redis_defaults)) (\<lambda>ttl.
       Some \<lparr>redis_host = host, redis_port_number = port, redis_db = db, lock_ttl_seconds = ttl\<rparr>))))"

definition read_security :: "environment \<Rightarrow> security_settings option" where
  "read_security E =
     Option.bind (read_field Some E security_config ''jwt_secret'' (jwt_secret security_defaults)) (\<lambda>secret.
     Option.bind (read_field Some E security_config ''jwt_algorithm'' (jwt_algorithm security_defaults)) (\<lambda>algorithm.
       Some \<lparr>jwt_secret = secret, jwt_algorithm = algorithm\<rparr>))"

definition read_observability :: "environment \<Rightarrow> observability_settings option" where
  "read_observability E =
     Option.bind (read_field parse_log_level E observability_config ''log_level'' (os_log_level observability_defaults)) (\<lambda>level.
     Option.bind (read_field parse_log_format E observability_config ''log_format'' (os_log_format observability_defaults)) (\<lambda>fmt.
       Some \<lparr>os_log_level = level, os_log_format = fmt\<rparr>))"

text \<open>A nested class: built by its default factory, unless a variable holds all of it.\<close>

definition read_nested :: "(environment \<Rightarrow> string \<Rightarrow> 'a option) \<Rightarrow> environment \<Rightarrow> string \<Rightarrow> 'a option \<Rightarrow> 'a option" where
  "read_nested parse E field factory = (case env_lookup E settings_config field of None \<Rightarrow> factory | Some v \<Rightarrow> parse E v)"

definition get_settings :: "pydantic \<Rightarrow> environment \<Rightarrow> settings option" where
  "get_settings P E =
     Option.bind (read_field parse_app_env E settings_config ''app_env'' (st_app_env settings_defaults)) (\<lambda>env.
     Option.bind (read_field Some E settings_config ''app_name'' (st_app_name settings_defaults)) (\<lambda>name.
     Option.bind (read_field Some E settings_config ''app_version'' (st_app_version settings_defaults)) (\<lambda>version.
     Option.bind (read_field Some E settings_config ''app_host'' (st_app_host settings_defaults)) (\<lambda>host.
     Option.bind (read_field (pd_int P) E settings_config ''app_port'' (st_app_port settings_defaults)) (\<lambda>port.
     Option.bind (read_field (pd_bool P) E settings_config ''debug'' (st_debug settings_defaults)) (\<lambda>debug.
     Option.bind (read_nested (pd_database P) E ''database'' (read_database P E)) (\<lambda>database.
     Option.bind (read_nested (pd_redis P) E ''redis'' (read_redis P E)) (\<lambda>redis.
     Option.bind (read_nested (pd_security P) E ''security'' (read_security E)) (\<lambda>security.
     Option.bind (read_nested (pd_observability P) E ''observability'' (read_observability E)) (\<lambda>observability.
       Some \<lparr>st_app_env = env, st_app_name = name, st_app_version = version, st_app_host = host, st_app_port = port,
             st_debug = debug, st_database = database, st_redis = redis, st_security = security,
             st_observability = observability\<rparr>))))))))))"

section \<open>Reading\<close>

lemma lower_prefixes:
  "map lower_char ''POSTGRES_'' = ''postgres_''" "map lower_char ''REDIS_'' = ''redis_''" "map lower_char ''SECURITY_'' = ''security_''"
  by code_simp+

lemmas env_lookup_simps = env_lookup_def database_config_def settings_config_def redis_config_def security_config_def
  observability_config_def model_config.simps map_append lower_prefixes list.map(1) append_Nil Let_def

lemma env_lookup_file [simp]:
  "env_lookup E database_config f = (case ev_variables E (''postgres_'' @ map lower_char f) of
     Some v \<Rightarrow> Some v | None \<Rightarrow> ev_dotenv E (''postgres_'' @ map lower_char f))"
  "env_lookup E settings_config f = (case ev_variables E (map lower_char f) of
     Some v \<Rightarrow> Some v | None \<Rightarrow> ev_dotenv E (map lower_char f))"
  by (simp_all only: env_lookup_simps if_True)

lemma env_lookup_exported [simp]:
  "env_lookup E redis_config f = ev_variables E (''redis_'' @ map lower_char f)"
  "env_lookup E security_config f = ev_variables E (''security_'' @ map lower_char f)"
  "env_lookup E observability_config f = ev_variables E (map lower_char f)"
  by (simp_all only: env_lookup_simps if_False split: option.split) auto

text \<open>No single variable holds a whole nested class.\<close>

definition no_nested :: "environment \<Rightarrow> bool" where
  "no_nested E \<longleftrightarrow> (\<forall>f \<in> set [''database'', ''redis'', ''security'', ''observability'']. env_lookup E settings_config f = None)"

lemma get_settings_Some:
  assumes "get_settings P E = Some cfg" and "no_nested E"
  shows "read_field parse_app_env E settings_config ''app_env'' Development = Some (st_app_env cfg)"
    and "read_database P E = Some (st_database cfg)" and "read_redis P E = Some (st_redis cfg)"
    and "read_security E = Some (st_security cfg)" and "read_observability E = Some (st_observability cfg)"
  using assms
  by (auto simp: get_settings_def bind_eq_Some_conv read_nested_def no_nested_def settings_defaults_def simp del: env_lookup_file)

lemma parse_app_env_exact:
  "parse_app_env v = Some Development \<longleftrightarrow> v = ''development''" "parse_app_env v = Some Production \<longleftrightarrow> v = ''production''"
  by (simp_all add: parse_app_env_def)

lemma app_env_read:
  assumes "read_field parse_app_env E settings_config ''app_env'' Development = Some (st_app_env cfg)"
  shows "is_development cfg \<longleftrightarrow> env_lookup E settings_config ''app_env'' \<in> {None, Some ''development''}"
    and "env_lookup E settings_config ''app_env'' \<in> {None, Some ''development'', Some ''staging'', Some ''production''}"
proof -
  have "is_development cfg \<longleftrightarrow> v \<in> {None, Some ''development''}" "v \<in> {None, Some ''development'', Some ''staging'', Some ''production''}"
    if "(case v of None \<Rightarrow> Some Development | Some x \<Rightarrow> parse_app_env x) = Some (st_app_env cfg)" for v
    using that by (auto simp: is_development_def parse_app_env_def split: option.splits if_splits)
  then show "is_development cfg \<longleftrightarrow> env_lookup E settings_config ''app_env'' \<in> {None, Some ''development''}"
    and "env_lookup E settings_config ''app_env'' \<in> {None, Some ''development'', Some ''staging'', Some ''production''}"
    using assms unfolding read_field_def by blast+
qed

lemma database_password:
  "read_database P E = Some d \<Longrightarrow> db_password d = (case ev_variables E ''postgres_password'' of
     Some s \<Rightarrow> s | None \<Rightarrow> (case ev_dotenv E ''postgres_password'' of Some s \<Rightarrow> s | None \<Rightarrow> ''banking_pass''))"
proof -
  assume "read_database P E = Some d"
  then have "read_field Some E database_config ''password'' ''banking_pass'' = Some (db_password d)"
    by (auto simp: read_database_def bind_eq_Some_conv database_defaults_def simp del: env_lookup_file)
  moreover have "map lower_char ''password'' = ''password''" by code_simp
  ultimately show ?thesis by (auto simp: read_field_def simp del: list.map split: option.splits)
qed

lemma security_secret:
  "read_security E = Some s \<Longrightarrow> jwt_secret s = (case ev_variables E ''security_jwt_secret'' of
     Some v \<Rightarrow> v | None \<Rightarrow> ''dev-secret-change-in-production'')"
proof -
  assume "read_security E = Some s"
  then have "read_field Some E security_config ''jwt_secret'' ''dev-secret-change-in-production'' = Some (jwt_secret s)"
    by (auto simp: read_security_def bind_eq_Some_conv security_defaults_def simp del: env_lookup_exported)
  moreover have "map lower_char ''jwt_secret'' = ''jwt_secret''" by code_simp
  ultimately show ?thesis by (auto simp: read_field_def simp del: list.map split: option.splits)
qed

text \<open>The classes that do not name the file do not see it.\<close>

lemma exported_only:
  "read_redis P (E\<lparr>ev_dotenv := D\<rparr>) = read_redis P E" "read_security (E\<lparr>ev_dotenv := D\<rparr>) = read_security E"
  "read_observability (E\<lparr>ev_dotenv := D\<rparr>) = read_observability E"
  by (simp_all add: read_redis_def read_security_def read_observability_def read_field_def)

end
