(* ===== verification/Http_Properties.thy ===== *)
theory Http_Properties
  imports Service_Properties Http Environment
begin

text \<open>The properties of the HTTP adapter: who is authenticated, and what the endpoints answer.\<close>

section \<open>Authentication\<close>

lemma parse_dev_token_eq: "parse_dev_token token = Some u \<longleftrightarrow> (\<exists>t. token = ''dev:'' @ t \<and> uuid_of_str t = Some u)"
  by (auto simp: parse_dev_token_def starts_with_iff)

lemma jwt_user_refuses: "jwt_user token = Inl (HttpError 401 ''JWT validation not implemented. Use dev token in development.'' bearer_challenge)"
  by (simp add: jwt_user_def validate_jwt_def)

lemma production_user_refuses: "\<exists>f. production_user rq = Inl f"
  by (cases "rq_credentials rq") (simp_all add: production_user_def jwt_user_refuses)

lemma authentication_faults: "get_current_user S rq = Inl f \<Longrightarrow> \<exists>n d h. f = HttpError n d h"
  by (auto simp: get_current_user_def production_user_def jwt_user_refuses split: if_splits option.splits list.splits)

lemma current_user_exact:
  "get_current_user S rq = Inr u \<longleftrightarrow> is_development S \<and> au_roles u = [''user''] \<and>
      (case rq_dev_user_id rq of
         Some (c # cs) \<Rightarrow> uuid_of_str (c # cs) = Some (au_user_id u)
       | _ \<Rightarrow> (\<exists>t. rq_credentials rq = Some (''dev:'' @ t) \<and> uuid_of_str t = Some (au_user_id u)))"
proof -
  obtain f where prod: "production_user rq = Inl f" using production_user_refuses by blast
  have token: "Option.bind (rq_credentials rq) parse_dev_token = Some i \<longleftrightarrow>
      (\<exists>t. rq_credentials rq = Some (''dev:'' @ t) \<and> uuid_of_str t = Some i)" for i
    by (cases "rq_credentials rq") (auto simp: parse_dev_token_eq)
  have user: "\<lparr>au_user_id = i, au_roles = [''user'']\<rparr> = u \<longleftrightarrow> i = au_user_id u \<and> au_roles u = [''user'']" for i
    by (cases u) auto
  have bearer: "(case Option.bind (rq_credentials rq) parse_dev_token of
        Some i \<Rightarrow> Inr \<lparr>au_user_id = i, au_roles = [''user'']\<rparr> | None \<Rightarrow> production_user rq) = Inr u \<longleftrightarrow>
      au_roles u = [''user''] \<and> (\<exists>t. rq_credentials rq = Some (''dev:'' @ t) \<and> uuid_of_str t = Some (au_user_id u))"
    unfolding token [symmetric] by (auto simp: prod user split: option.splits)
  show ?thesis
  proof (cases "is_development S")
    case True
    show ?thesis
    proof (cases "\<exists>c cs. rq_dev_user_id rq = Some (c # cs)")
      case named: True
      then show ?thesis using True by (auto simp: get_current_user_def user split: option.splits)
    next
      case False
      then consider "rq_dev_user_id rq = None" | "rq_dev_user_id rq = Some []"
        by (metis neq_Nil_conv not_None_eq)
      then show ?thesis using True bearer by cases (simp_all add: get_current_user_def)
    qed
  qed (simp add: get_current_user_def prod)
qed

text \<open>C28: Who is let in: a request is authenticated exactly when the application runs in development and names a
  user, by an \<open>X-Dev-User-Id\<close> header that is a UUID or, without one, by a bearer token \<open>dev:\<close> and a UUID; it then
  has the single role \<open>user\<close>, so nobody is ever an administrator, and in staging and production nobody gets in. A
  token of \<open>POST /auth/dev-token\<close> authenticates its user in development; staging issues tokens too, and refuses
  them.\<close>

theorem authentication_exact:
  "(get_current_user S rq = Inr u \<longleftrightarrow> is_development S \<and> au_roles u = [''user''] \<and>
      (case rq_dev_user_id rq of
         Some (c # cs) \<Rightarrow> uuid_of_str (c # cs) = Some (au_user_id u)
       | _ \<Rightarrow> (\<exists>t. rq_credentials rq = Some (''dev:'' @ t) \<and> uuid_of_str t = Some (au_user_id u)))) \<and>
   require_admin S rq \<noteq> Inr v \<and>
   (case get_dev_token S requested fresh of
      Inl f \<Rightarrow> is_production S
    | Inr d \<Rightarrow> get_current_user S \<lparr>rq_dev_user_id = None, rq_credentials = Some (dt_token d)\<rparr> =
        (if is_development S then Inr \<lparr>au_user_id = dt_user_id d, au_roles = [''user'']\<rparr>
         else Inl (HttpError 401 ''JWT validation not implemented. Use dev token in development.'' bearer_challenge)))"
proof (intro conjI)
  show "get_current_user S rq = Inr u \<longleftrightarrow> is_development S \<and> au_roles u = [''user''] \<and>
      (case rq_dev_user_id rq of
         Some (c # cs) \<Rightarrow> uuid_of_str (c # cs) = Some (au_user_id u)
       | _ \<Rightarrow> (\<exists>t. rq_credentials rq = Some (''dev:'' @ t) \<and> uuid_of_str t = Some (au_user_id u)))"
    by (rule current_user_exact)
  show "require_admin S rq \<noteq> Inr v"
    by (auto simp: require_admin_def bindR_Inr_iff current_user_exact has_role_def split: if_splits)
  show "case get_dev_token S requested fresh of
      Inl f \<Rightarrow> is_production S
    | Inr d \<Rightarrow> get_current_user S \<lparr>rq_dev_user_id = None, rq_credentials = Some (dt_token d)\<rparr> =
        (if is_development S then Inr \<lparr>au_user_id = dt_user_id d, au_roles = [''user'']\<rparr>
         else Inl (HttpError 401 ''JWT validation not implemented. Use dev token in development.'' bearer_challenge))"
    by (auto simp: get_dev_token_def get_current_user_def Let_def parse_dev_token_def production_user_def jwt_user_refuses
        split: option.splits)
qed

section \<open>The environment\<close>

lemma uuid_str_Cons: "\<exists>c cs. uuid_str i = c # cs"
  by (metis length_uuid_str list.exhaust list.size(3) zero_neq_numeral)

text \<open>Numbers and flags as pydantic reads them, for the texts of the example; no class is given as one variable.\<close>

definition plain_pydantic :: pydantic where
  "plain_pydantic = \<lparr>pd_int = (\<lambda>s. if s \<noteq> [] \<and> list_all is_digit s then Some (int (nat_of_str s)) else None),
     pd_bool = map_of [(''true'', True), (''false'', False)], pd_database = (\<lambda>_ _. None), pd_redis = (\<lambda>_ _. None),
     pd_security = (\<lambda>_ _. None), pd_observability = (\<lambda>_ _. None)\<rparr>"

text \<open>A \<open>.env\<close> for production with nothing exported.\<close>

definition sample_environment :: environment where
  "sample_environment = \<lparr>ev_variables = (\<lambda>_. None), ev_dotenv = [''app_env'' \<mapsto> ''production'', ''postgres_password'' \<mapsto> ''hidden'',
     ''security_jwt_secret'' \<mapsto> ''hidden'', ''redis_host'' \<mapsto> ''redis'']\<rparr>"

text \<open>C33: What the environment decides when the application starts: the \<open>X-Dev-User-Id\<close> header alone is believed exactly
  when \<open>APP_ENV\<close> is \<open>development\<close> or set nowhere, any text but the three names ends the start-up, and the file \<open>.env\<close>
  has its say in this and in the database settings only: whatever it holds, the JWT secret is the exported one or
  the default that is in the source, and Redis and logging are configured by exported variables alone.\<close>

theorem environment_decides_access:
  assumes "get_settings P E = Some cfg" and "no_nested E"
  shows "get_current_user cfg \<lparr>rq_dev_user_id = Some (uuid_str i), rq_credentials = None\<rparr> =
      (if env_lookup E settings_config ''app_env'' \<in> {None, Some ''development''}
       then Inr \<lparr>au_user_id = i, au_roles = [''user'']\<rparr> else Inl (HttpError 401 ''Authentication required.'' bearer_challenge)) \<and>
    env_lookup E settings_config ''app_env'' \<in> {None, Some ''development'', Some ''staging'', Some ''production''} \<and>
    db_password (st_database cfg) = (case ev_variables E ''postgres_password'' of
        Some s \<Rightarrow> s
      | None \<Rightarrow> (case ev_dotenv E ''postgres_password'' of Some s \<Rightarrow> s | None \<Rightarrow> ''banking_pass'')) \<and>
    jwt_secret (st_security cfg) = (case ev_variables E ''security_jwt_secret'' of
        Some s \<Rightarrow> s
      | None \<Rightarrow> ''dev-secret-change-in-production'') \<and>
    (\<forall>D cfg'. get_settings P (E\<lparr>ev_dotenv := D\<rparr>) = Some cfg' \<and> no_nested (E\<lparr>ev_dotenv := D\<rparr>) \<longrightarrow>
      st_redis cfg' = st_redis cfg \<and> st_security cfg' = st_security cfg \<and> st_observability cfg' = st_observability cfg)"
proof (intro conjI allI impI)
  note made = get_settings_Some [OF assms]
  obtain c cs where shape: "uuid_str i = c # cs" using uuid_str_Cons by blast
  then have "uuid_of_str (c # cs) = Some i" using uuid_of_str_uuid_str [of i] by simp
  with app_env_read(1) [OF made(1)] shape show "get_current_user cfg \<lparr>rq_dev_user_id = Some (uuid_str i), rq_credentials = None\<rparr> =
      (if env_lookup E settings_config ''app_env'' \<in> {None, Some ''development''}
       then Inr \<lparr>au_user_id = i, au_roles = [''user'']\<rparr> else Inl (HttpError 401 ''Authentication required.'' bearer_challenge))"
    by (simp add: get_current_user_def production_user_def del: env_lookup_file)
  show "env_lookup E settings_config ''app_env'' \<in> {None, Some ''development'', Some ''staging'', Some ''production''}"
    by (rule app_env_read(2) [OF made(1)])
  show "db_password (st_database cfg) = (case ev_variables E ''postgres_password'' of
        Some s \<Rightarrow> s
      | None \<Rightarrow> (case ev_dotenv E ''postgres_password'' of Some s \<Rightarrow> s | None \<Rightarrow> ''banking_pass''))"
    by (rule database_password [OF made(2)])
  show "jwt_secret (st_security cfg) = (case ev_variables E ''security_jwt_secret'' of
        Some s \<Rightarrow> s
      | None \<Rightarrow> ''dev-secret-change-in-production'')"
    by (rule security_secret [OF made(4)])
next
  fix D cfg'
  assume "get_settings P (E\<lparr>ev_dotenv := D\<rparr>) = Some cfg' \<and> no_nested (E\<lparr>ev_dotenv := D\<rparr>)"
  then have other: "get_settings P (E\<lparr>ev_dotenv := D\<rparr>) = Some cfg'" "no_nested (E\<lparr>ev_dotenv := D\<rparr>)" by blast+
  note exported = get_settings_Some(3-5) [OF other, unfolded exported_only] get_settings_Some(3-5) [OF assms]
  show "st_redis cfg' = st_redis cfg" using exported(1,4) by (simp only: option.inject)
  show "st_security cfg' = st_security cfg" using exported(2,5) by (simp only: option.inject)
  show "st_observability cfg' = st_observability cfg" using exported(3,6) by (simp only: option.inject)
qed

lemma environment_decides_access_witness:
  "\<exists>cfg. get_settings plain_pydantic sample_environment = Some cfg \<and> is_production cfg \<and>
    db_password (st_database cfg) = ''hidden'' \<and> jwt_secret (st_security cfg) = ''dev-secret-change-in-production'' \<and>
    get_current_user cfg \<lparr>rq_dev_user_id = Some (uuid_str (uid 9)), rq_credentials = None\<rparr> =
      Inl (HttpError 401 ''Authentication required.'' bearer_challenge)"
proof -
  have "no_nested sample_environment" by code_simp
  moreover have "map_option st_app_env (get_settings plain_pydantic sample_environment) = Some Production" by code_simp
  then obtain cfg where cfg: "get_settings plain_pydantic sample_environment = Some cfg" "st_app_env cfg = Production" by blast
  moreover have "ev_variables sample_environment = (\<lambda>_. None)" "ev_dotenv sample_environment ''postgres_password'' = Some ''hidden''"
    by (simp_all add: sample_environment_def)
  moreover have "env_lookup sample_environment settings_config ''app_env'' = Some ''production''" by code_simp
  ultimately show ?thesis
    using environment_decides_access [OF cfg(1), of "uid 9"] by (intro exI [of _ cfg]) (simp add: is_production_def del: env_lookup_file)
qed

section \<open>Endpoints\<close>

text \<open>Who is not let in, is told so by 400 or 401.\<close>

lemma refusal_status:
  assumes "get_current_user S rq = Inl f"
  shows "rs_status (handle_fault f) = (if is_development S \<and> (\<exists>c cs. rq_dev_user_id rq = Some (c # cs)) then 400 else 401)"
  using assms
  by (auto simp: get_current_user_def production_user_def jwt_user_refuses split: if_splits option.splits list.splits)

text \<open>Which exceptions are answered with which status: the map leaves out two domain exceptions.\<close>

lemma status_500_iff:
  "rs_status (handle_fault (Fault e)) = 500 \<longleftrightarrow>
     \<not> is_domain_exception e \<or> (\<exists>i s. e = TransactionRollbackError i s) \<or> (\<exists>m. e = BusinessRuleViolationError m)"
  by (cases e) (auto simp: is_domain_exception_def domain_exception_handler_def unhandled_exception_handler_def
      error_response_def status_map_def)

end
