(* ===== verification/Schema.thy ===== *)
theory Schema
  imports Mappers
begin

text \<open>
  The database schema, twice: as the ORM models declare it (\<open>persistence/models\<close>) and as the initial Alembic migration
  creates and drops it (\<open>alembic/versions/b37c84eb92ca_initial_schema.py\<close>).

  \<^item> A model is the list of its \<open>mapped_column\<close> declarations and its \<open>__table_args__\<close>; \<open>declared\<close> is the table that
    SQLAlchemy documents for them: an index flag gives an index \<open>ix_<table>_<column>\<close>, unique when the column is; a
    unique flag alone gives a constraint.
  \<^item> A migration is the list of its operations; \<open>run_op\<close> is what the operation does to the tables and to the enumeration
    types of Postgres, and fails where the database refuses it: \<open>create_table\<close> first creates a type for each of the
    table's enumeration columns, without asking whether it exists; \<open>drop_table\<close>, which knows no columns, drops none.
  \<^item> \<open>migration_frame\<close>: what else is in the database does not matter and is not touched.
\<close>

section \<open>Tables\<close>

datatype sql_type = SqlUuid | SqlString nat | SqlNumeric nat nat | SqlEnum "string list" string | SqlTimestamp | SqlText | SqlBoolean

record column =
  co_name :: string
  co_type :: sql_type
  co_nullable :: bool
  co_server_now :: bool

record index =
  ix_name :: string
  ix_columns :: "string list"
  ix_unique :: bool

record table =
  tb_name :: string
  tb_columns :: "column list"
  tb_primary :: "string list"
  tb_uniques :: "string list list"
  tb_checks :: "(string \<times> string) list"
  tb_indexes :: "index list"

section \<open>The models\<close>

record mapped_column =
  mc_name :: string
  mc_type :: sql_type
  mc_nullable :: bool
  mc_primary :: bool
  mc_unique :: bool
  mc_index :: bool
  mc_server_now :: bool

definition plain :: "string \<Rightarrow> sql_type \<Rightarrow> mapped_column" where
  "plain name t = \<lparr>mc_name = name, mc_type = t, mc_nullable = False, mc_primary = False, mc_unique = False,
     mc_index = False, mc_server_now = False\<rparr>"

record orm_model =
  om_table :: string
  om_columns :: "mapped_column list"
  om_indexes :: "index list"
  om_checks :: "(string \<times> string) list"

definition valid_currencies :: string where
  "valid_currencies = join '', '' (map (\<lambda>c. quote (currency_value c)) all_currencies)"

definition currency_check :: string where
  "currency_check = ''currency IN ('' @ valid_currencies @ '')''"

definition account_model :: orm_model where
  "account_model = \<lparr>om_table = ''accounts'', om_columns = [
     (plain ''id'' SqlUuid)\<lparr>mc_primary := True\<rparr>,
     (plain ''owner_id'' SqlUuid)\<lparr>mc_index := True\<rparr>,
     (plain ''account_number'' (SqlString 34))\<lparr>mc_unique := True\<rparr>,
     plain ''balance'' (SqlNumeric 19 4),
     plain ''currency'' (SqlString 3),
     plain ''status'' (SqlEnum (map account_status_value all_account_statuses) ''account_status''),
     (plain ''created_at'' SqlTimestamp)\<lparr>mc_server_now := True\<rparr>,
     (plain ''updated_at'' SqlTimestamp)\<lparr>mc_server_now := True\<rparr>],
   om_indexes = [\<lparr>ix_name = ''ix_accounts_owner_status'', ix_columns = [''owner_id'', ''status''], ix_unique = False\<rparr>],
   om_checks = [(''ck_accounts_currency_valid'', currency_check)]\<rparr>"

definition outbox_model :: orm_model where
  "outbox_model = \<lparr>om_table = ''outbox_messages'', om_columns = [
     (plain ''id'' SqlUuid)\<lparr>mc_primary := True\<rparr>,
     plain ''event_type'' (SqlString 128),
     (plain ''aggregate_id'' (SqlString 36))\<lparr>mc_index := True\<rparr>,
     plain ''aggregate_type'' (SqlString 64),
     plain ''payload'' SqlText,
     (plain ''published'' SqlBoolean)\<lparr>mc_index := True\<rparr>,
     (plain ''published_at'' SqlTimestamp)\<lparr>mc_nullable := True\<rparr>,
     (plain ''created_at'' SqlTimestamp)\<lparr>mc_server_now := True\<rparr>],
   om_indexes = [], om_checks = []\<rparr>"

definition transaction_model :: orm_model where
  "transaction_model = \<lparr>om_table = ''transactions'', om_columns = [
     (plain ''id'' SqlUuid)\<lparr>mc_primary := True\<rparr>,
     (plain ''from_account_id'' SqlUuid)\<lparr>mc_index := True\<rparr>,
     (plain ''to_account_id'' SqlUuid)\<lparr>mc_index := True\<rparr>,
     plain ''amount'' (SqlNumeric 19 4),
     plain ''currency'' (SqlString 3),
     plain ''transaction_type'' (SqlEnum (map transaction_type_value all_transaction_types) ''transaction_type''),
     (plain ''status'' (SqlEnum (map transaction_status_value all_transaction_statuses) ''transaction_status''))\<lparr>mc_index := True\<rparr>,
     (plain ''idempotency_key'' (SqlString 255))\<lparr>mc_unique := True, mc_index := True\<rparr>,
     (plain ''failure_code'' (SqlString 64))\<lparr>mc_nullable := True\<rparr>,
     (plain ''failure_reason'' SqlText)\<lparr>mc_nullable := True\<rparr>,
     (plain ''created_at'' SqlTimestamp)\<lparr>mc_server_now := True\<rparr>,
     (plain ''updated_at'' SqlTimestamp)\<lparr>mc_server_now := True\<rparr>,
     (plain ''completed_at'' SqlTimestamp)\<lparr>mc_nullable := True, mc_index := True\<rparr>],
   om_indexes = [\<lparr>ix_name = ''ix_transactions_from_status'', ix_columns = [''from_account_id'', ''status''], ix_unique = False\<rparr>,
     \<lparr>ix_name = ''ix_transactions_from_created'', ix_columns = [''from_account_id'', ''created_at''], ix_unique = False\<rparr>],
   om_checks = [(''ck_transactions_currency_valid'', currency_check)]\<rparr>"

text \<open>What SQLAlchemy makes of a model.\<close>

definition declared :: "orm_model \<Rightarrow> table" where
  "declared m = \<lparr>tb_name = om_table m,
     tb_columns = map (\<lambda>c. \<lparr>co_name = mc_name c, co_type = mc_type c, co_nullable = mc_nullable c,
        co_server_now = mc_server_now c\<rparr>) (om_columns m),
     tb_primary = map mc_name (filter mc_primary (om_columns m)),
     tb_uniques = map (\<lambda>c. [mc_name c]) (filter (\<lambda>c. mc_unique c \<and> \<not> mc_index c) (om_columns m)),
     tb_checks = om_checks m,
     tb_indexes = map (\<lambda>c. \<lparr>ix_name = ''ix_'' @ om_table m @ ''_'' @ mc_name c, ix_columns = [mc_name c],
        ix_unique = mc_unique c\<rparr>) (filter mc_index (om_columns m)) @ om_indexes m\<rparr>"

section \<open>The migration\<close>

datatype migration_op =
    CreateTable string "column list" "(string \<times> string) list" "string list" "string list list"
  | CreateIndex string string "string list" bool
  | DropIndex string string
  | DropTable string

definition col :: "string \<Rightarrow> sql_type \<Rightarrow> bool \<Rightarrow> column" where
  "col name t nullable = \<lparr>co_name = name, co_type = t, co_nullable = nullable, co_server_now = False\<rparr>"

definition now_col :: "string \<Rightarrow> column" where
  "now_col name = \<lparr>co_name = name, co_type = SqlTimestamp, co_nullable = False, co_server_now = True\<rparr>"

definition migration_check :: string where
  "migration_check = ''currency IN ('' @ quote ''EUR'' @ '', '' @ quote ''USD'' @ '', '' @ quote ''GBP'' @ '', '' @
     quote ''IRR'' @ '')''"

definition upgrade :: "migration_op list" where
  "upgrade = [
     CreateTable ''accounts'' [
       col ''id'' SqlUuid False,
       col ''owner_id'' SqlUuid False,
       col ''account_number'' (SqlString 34) False,
       col ''balance'' (SqlNumeric 19 4) False,
       col ''currency'' (SqlString 3) False,
       col ''status'' (SqlEnum [''active'', ''frozen'', ''closed''] ''account_status'') False,
       now_col ''created_at'',
       now_col ''updated_at'']
       [(''ck_accounts_currency_valid'', migration_check)] [''id''] [[''account_number'']],
     CreateIndex ''ix_accounts_owner_id'' ''accounts'' [''owner_id''] False,
     CreateIndex ''ix_accounts_owner_status'' ''accounts'' [''owner_id'', ''status''] False,
     CreateTable ''outbox_messages'' [
       col ''id'' SqlUuid False,
       col ''event_type'' (SqlString 128) False,
       col ''aggregate_id'' (SqlString 36) False,
       col ''aggregate_type'' (SqlString 64) False,
       col ''payload'' SqlText False,
       col ''published'' SqlBoolean False,
       col ''published_at'' SqlTimestamp True,
       now_col ''created_at'']
       [] [''id''] [],
     CreateIndex ''ix_outbox_messages_aggregate_id'' ''outbox_messages'' [''aggregate_id''] False,
     CreateIndex ''ix_outbox_messages_published'' ''outbox_messages'' [''published''] False,
     CreateTable ''transactions'' [
       col ''id'' SqlUuid False,
       col ''from_account_id'' SqlUuid False,
       col ''to_account_id'' SqlUuid False,
       col ''amount'' (SqlNumeric 19 4) False,
       col ''currency'' (SqlString 3) False,
       col ''transaction_type'' (SqlEnum [''transfer'', ''deposit'', ''withdrawal''] ''transaction_type'') False,
       col ''status'' (SqlEnum [''pending'', ''processing'', ''completed'', ''failed''] ''transaction_status'') False,
       col ''idempotency_key'' (SqlString 255) False,
       col ''failure_code'' (SqlString 64) True,
       col ''failure_reason'' SqlText True,
       now_col ''created_at'',
       now_col ''updated_at'',
       col ''completed_at'' SqlTimestamp True]
       [(''ck_transactions_currency_valid'', migration_check)] [''id''] [],
     CreateIndex ''ix_transactions_completed_at'' ''transactions'' [''completed_at''] False,
     CreateIndex ''ix_transactions_from_account_id'' ''transactions'' [''from_account_id''] False,
     CreateIndex ''ix_transactions_from_created'' ''transactions'' [''from_account_id'', ''created_at''] False,
     CreateIndex ''ix_transactions_from_status'' ''transactions'' [''from_account_id'', ''status''] False,
     CreateIndex ''ix_transactions_idempotency_key'' ''transactions'' [''idempotency_key''] True,
     CreateIndex ''ix_transactions_status'' ''transactions'' [''status''] False,
     CreateIndex ''ix_transactions_to_account_id'' ''transactions'' [''to_account_id''] False]"

definition downgrade :: "migration_op list" where
  "downgrade = [
     DropIndex ''ix_transactions_to_account_id'' ''transactions'',
     DropIndex ''ix_transactions_status'' ''transactions'',
     DropIndex ''ix_transactions_idempotency_key'' ''transactions'',
     DropIndex ''ix_transactions_from_status'' ''transactions'',
     DropIndex ''ix_transactions_from_created'' ''transactions'',
     DropIndex ''ix_transactions_from_account_id'' ''transactions'',
     DropIndex ''ix_transactions_completed_at'' ''transactions'',
     DropTable ''transactions'',
     DropIndex ''ix_outbox_messages_published'' ''outbox_messages'',
     DropIndex ''ix_outbox_messages_aggregate_id'' ''outbox_messages'',
     DropTable ''outbox_messages'',
     DropIndex ''ix_accounts_owner_status'' ''accounts'',
     DropIndex ''ix_accounts_owner_id'' ''accounts'',
     DropTable ''accounts'']"

section \<open>Running a migration\<close>

definition has_table :: "string \<Rightarrow> table list \<Rightarrow> bool" where
  "has_table n ts = list_ex (\<lambda>t. tb_name t = n) ts"

definition has_index :: "string \<Rightarrow> table list \<Rightarrow> bool" where
  "has_index n ts = list_ex (\<lambda>t. list_ex (\<lambda>i. ix_name i = n) (tb_indexes t)) ts"

definition on_table :: "string \<Rightarrow> (table \<Rightarrow> table) \<Rightarrow> table list \<Rightarrow> table list" where
  "on_table n f ts = map (\<lambda>t. if tb_name t = n then f t else t) ts"

text \<open>The database: its tables, and its enumeration types with their values.\<close>

record schema =
  sch_tables :: "table list"
  sch_types :: "(string \<times> string list) list"

definition enum_types :: "column list \<Rightarrow> (string \<times> string list) list" where
  "enum_types cols = concat (map (\<lambda>c. case co_type c of SqlEnum vs n \<Rightarrow> [(n, vs)] | _ \<Rightarrow> []) cols)"

text \<open>\<open>CREATE TYPE\<close> for each: refused when the name is taken.\<close>

fun create_types :: "(string \<times> string list) list \<Rightarrow> (string \<times> string list) list \<Rightarrow> (string \<times> string list) list option" where
  "create_types [] tys = Some tys"
| "create_types ((n, vs) # new) tys = (if n \<in> fst ` set tys then None else create_types new (tys @ [(n, vs)]))"

fun run_op :: "migration_op \<Rightarrow> schema \<Rightarrow> schema option" where
  "run_op (CreateTable n cols checks primary uniques) s =
     (if has_table n (sch_tables s) then None
      else map_option (\<lambda>tys. \<lparr>sch_tables = sch_tables s @ [\<lparr>tb_name = n, tb_columns = cols, tb_primary = primary,
               tb_uniques = uniques, tb_checks = checks, tb_indexes = []\<rparr>], sch_types = tys\<rparr>)
             (create_types (enum_types cols) (sch_types s)))"
| "run_op (CreateIndex i n cols unique) s =
     (if \<not> has_table n (sch_tables s) \<or> has_index i (sch_tables s) then None
      else Some (s\<lparr>sch_tables := on_table n (\<lambda>t. t\<lparr>tb_indexes := tb_indexes t @
             [\<lparr>ix_name = i, ix_columns = cols, ix_unique = unique\<rparr>]\<rparr>) (sch_tables s)\<rparr>))"
| "run_op (DropIndex i n) s =
     (if \<not> has_index i (sch_tables s) then None
      else Some (s\<lparr>sch_tables := on_table n (\<lambda>t. t\<lparr>tb_indexes := filter (\<lambda>x. ix_name x \<noteq> i) (tb_indexes t)\<rparr>) (sch_tables s)\<rparr>))"
| "run_op (DropTable n) s = (if \<not> has_table n (sch_tables s) then None
      else Some (s\<lparr>sch_tables := filter (\<lambda>t. tb_name t \<noteq> n) (sch_tables s)\<rparr>))"

fun run_migration :: "migration_op list \<Rightarrow> schema \<Rightarrow> schema option" where
  "run_migration [] s = Some s"
| "run_migration (op # ops) s = Option.bind (run_op op s) (run_migration ops)"

abbreviation empty_schema :: schema where
  "empty_schema \<equiv> \<lparr>sch_tables = [], sch_types = []\<rparr>"

section \<open>What else is in the database\<close>

definition beside_schema :: "schema \<Rightarrow> schema \<Rightarrow> schema" where
  "beside_schema s0 s = \<lparr>sch_tables = sch_tables s0 @ sch_tables s, sch_types = sch_types s0 @ sch_types s\<rparr>"

text \<open>A database in which the names of an operation are not taken.\<close>

fun op_names_free :: "schema \<Rightarrow> migration_op \<Rightarrow> bool" where
  "op_names_free s0 (CreateTable n cols checks primary uniques) \<longleftrightarrow> \<not> has_table n (sch_tables s0) \<and>
     (\<forall>ty \<in> set (enum_types cols). fst ty \<notin> fst ` set (sch_types s0))"
| "op_names_free s0 (CreateIndex i n cols unique) \<longleftrightarrow> \<not> has_table n (sch_tables s0) \<and> \<not> has_index i (sch_tables s0)"
| "op_names_free s0 (DropIndex i n) \<longleftrightarrow> \<not> has_table n (sch_tables s0) \<and> \<not> has_index i (sch_tables s0)"
| "op_names_free s0 (DropTable n) \<longleftrightarrow> \<not> has_table n (sch_tables s0)"

definition names_free :: "schema \<Rightarrow> migration_op list \<Rightarrow> bool" where
  "names_free s0 ops \<longleftrightarrow> (\<forall>op \<in> set ops. op_names_free s0 op)"

lemma has_append [simp]:
  "has_table n (ts @ us) \<longleftrightarrow> has_table n ts \<or> has_table n us"
  "has_index i (ts @ us) \<longleftrightarrow> has_index i ts \<or> has_index i us"
  by (simp_all add: has_table_def has_index_def)

lemma without_table:
  assumes "\<not> has_table n ts"
  shows "on_table n f (ts @ us) = ts @ on_table n f us" and "filter (\<lambda>t. tb_name t \<noteq> n) ts = ts"
  using assms by (auto simp: on_table_def has_table_def list_ex_iff intro!: map_idI filter_True)

lemma create_types_frame:
  assumes "\<forall>ty \<in> set new. fst ty \<notin> fst ` set tys0"
  shows "create_types new (tys0 @ tys) = map_option ((@) tys0) (create_types new tys)"
  using assms by (induction new tys rule: create_types.induct) auto

lemma run_op_frame:
  assumes "op_names_free s0 op"
  shows "run_op op (beside_schema s0 s) = map_option (beside_schema s0) (run_op op s)"
  using assms
  by (cases op) (auto simp: beside_schema_def create_types_frame without_table option.map_comp comp_def)

lemma migration_frame:
  assumes "names_free s0 ops"
  shows "run_migration ops (beside_schema s0 s) = map_option (beside_schema s0) (run_migration ops s)"
  using assms
proof (induction ops arbitrary: s)
  case (Cons op ops)
  then have "op_names_free s0 op" "names_free s0 ops" by (simp_all add: names_free_def)
  with Cons.IH show ?case by (cases "run_op op s") (simp_all add: run_op_frame)
qed simp

text \<open>The indexes of a table have no order.\<close>

definition same_table :: "table \<Rightarrow> table \<Rightarrow> bool" where
  "same_table a b \<longleftrightarrow> a\<lparr>tb_indexes := []\<rparr> = b\<lparr>tb_indexes := []\<rparr> \<and> distinct (map ix_name (tb_indexes a)) \<and>
     distinct (map ix_name (tb_indexes b)) \<and> set (tb_indexes a) = set (tb_indexes b)"

text \<open>The enumeration types of the models, with the texts of the domain's enumerations.\<close>

definition model_types :: "(string \<times> string list) list" where
  "model_types = [(''account_status'', map account_status_value all_account_statuses),
     (''transaction_type'', map transaction_type_value all_transaction_types),
     (''transaction_status'', map transaction_status_value all_transaction_statuses)]"

lemma models_declare_types:
  "concat (map (\<lambda>m. enum_types (tb_columns (declared m))) [account_model, outbox_model, transaction_model]) = model_types"
  by code_simp

text \<open>The migration of an empty database, evaluated.\<close>

lemma upgrade_empty:
  obtains ts where "run_migration upgrade empty_schema = Some \<lparr>sch_tables = ts, sch_types = model_types\<rparr>"
    and "list_all2 same_table ts (map declared [account_model, outbox_model, transaction_model])"
    and "run_migration downgrade \<lparr>sch_tables = ts, sch_types = model_types\<rparr> = Some \<lparr>sch_tables = [], sch_types = model_types\<rparr>"
proof -
  let ?s = "the (run_migration upgrade empty_schema)"
  have up: "run_migration upgrade empty_schema = Some \<lparr>sch_tables = sch_tables ?s, sch_types = model_types\<rparr>" by code_simp
  have same: "list_all2 same_table (sch_tables ?s) (map declared [account_model, outbox_model, transaction_model])" by code_simp
  have "run_migration downgrade \<lparr>sch_tables = sch_tables ?s, sch_types = model_types\<rparr> =
      Some \<lparr>sch_tables = [], sch_types = model_types\<rparr>" by code_simp
  with up same that show thesis by blast
qed

lemma upgrade_types_taken:
  assumes "''account_status'' \<in> fst ` set (sch_types s)"
  shows "run_migration upgrade s = None"
proof -
  obtain cols checks primary uniques ops where ops: "upgrade = CreateTable ''accounts'' cols checks primary uniques # ops"
    and "enum_types cols = [(''account_status'', [''active'', ''frozen'', ''closed''])]"
    by (simp add: upgrade_def enum_types_def col_def now_col_def)
  with assms have "run_op (CreateTable ''accounts'' cols checks primary uniques) s = None" by simp
  then show ?thesis unfolding ops by simp
qed

text \<open>C35: The initial migration, run on any database that does not use its names yet: it succeeds, leaves everything else as it
  was, and adds exactly the tables, columns, keys, checks and indexes that the ORM models declare and exactly their
  three enumeration types, with the texts of the domain's enumerations. The downgrade runs to its end and takes the
  tables and indexes away again, but not the types; so the upgrade cannot be repeated: on a database that
  has been downgraded it fails at its first statement.\<close>

theorem migration_matches_models:
  assumes "names_free s0 (upgrade @ downgrade)"
  shows "\<exists>ts. run_migration upgrade s0 = Some \<lparr>sch_tables = sch_tables s0 @ ts, sch_types = sch_types s0 @ model_types\<rparr> \<and>
     list_all2 same_table ts (map declared [account_model, outbox_model, transaction_model]) \<and>
     run_migration downgrade \<lparr>sch_tables = sch_tables s0 @ ts, sch_types = sch_types s0 @ model_types\<rparr> =
       Some \<lparr>sch_tables = sch_tables s0, sch_types = sch_types s0 @ model_types\<rparr> \<and>
     run_migration upgrade \<lparr>sch_tables = sch_tables s0, sch_types = sch_types s0 @ model_types\<rparr> = None"
proof -
  have free: "names_free s0 upgrade" "names_free s0 downgrade" using assms by (auto simp: names_free_def)
  obtain ts where ts: "run_migration upgrade empty_schema = Some \<lparr>sch_tables = ts, sch_types = model_types\<rparr>"
    "list_all2 same_table ts (map declared [account_model, outbox_model, transaction_model])"
    "run_migration downgrade \<lparr>sch_tables = ts, sch_types = model_types\<rparr> = Some \<lparr>sch_tables = [], sch_types = model_types\<rparr>"
    by (rule upgrade_empty)
  have "run_migration upgrade s0 = Some \<lparr>sch_tables = sch_tables s0 @ ts, sch_types = sch_types s0 @ model_types\<rparr>"
    using migration_frame [OF free(1), of empty_schema] ts(1) by (cases s0) (simp add: beside_schema_def)
  moreover have "run_migration downgrade \<lparr>sch_tables = sch_tables s0 @ ts, sch_types = sch_types s0 @ model_types\<rparr> =
      Some \<lparr>sch_tables = sch_tables s0, sch_types = sch_types s0 @ model_types\<rparr>"
    using migration_frame [OF free(2), of "\<lparr>sch_tables = ts, sch_types = model_types\<rparr>"] ts(3) by (simp add: beside_schema_def)
  moreover have "run_migration upgrade \<lparr>sch_tables = sch_tables s0, sch_types = sch_types s0 @ model_types\<rparr> = None"
    by (rule upgrade_types_taken) (simp add: model_types_def)
  ultimately show ?thesis using ts(2) by blast
qed

text \<open>A database with a table of another application.\<close>

definition other_schema :: schema where
  "other_schema = \<lparr>sch_tables = [\<lparr>tb_name = ''reports'', tb_columns = [col ''id'' SqlUuid False], tb_primary = [''id''], tb_uniques = [],
     tb_checks = [], tb_indexes = [\<lparr>ix_name = ''ix_reports_id'', ix_columns = [''id''], ix_unique = False\<rparr>]\<rparr>],
   sch_types = [(''report_kind'', [''daily''])]\<rparr>"

lemma migration_matches_models_witness:
  "\<exists>s s'. run_migration upgrade other_schema = Some s \<and> run_migration downgrade s = Some s' \<and>
    sch_tables s' = sch_tables other_schema \<and> run_migration upgrade s' = None"
proof -
  have "names_free other_schema (upgrade @ downgrade)"
    by (simp add: names_free_def upgrade_def downgrade_def other_schema_def has_table_def has_index_def enum_types_def col_def now_col_def)
  from migration_matches_models [OF this] show ?thesis by fastforce
qed

end
