(* ===== verification/Equality.thy ===== *)
theory Equality
  imports Mappers
begin

text \<open>
  What \<open>==\<close> means on the domain's objects. \<open>Entity\<close> compares ids, but \<open>AggregateRoot\<close>, \<open>Account\<close> and \<open>Transaction\<close> are
  dataclasses, whose generated \<open>__eq__\<close> goes before the inherited one: it compares the fields one after the other, the
  pending events among them, up to the first that differs. An event is compared by its own fields only; its id, time
  and metadata are declared with \<open>compare=False\<close>. A comparison with a signalling NaN raises, so the result is a sum.

  \<^item> \<open>account_step_unequal\<close>, \<open>tx_step_unequal\<close>: whatever a call changes of an aggregate makes it unequal to what it was.
  \<^item> \<open>account_reload_equal\<close>: an aggregate equals its reloaded self exactly when it has no pending events.
\<close>

section \<open>Comparisons\<close>

definition andR :: "'e + bool \<Rightarrow> 'e + bool \<Rightarrow> 'e + bool" where
  "andR x y = bindR x (\<lambda>b. if b then y else Inr False)"

definition money_eq :: "money \<Rightarrow> money \<Rightarrow> dec_signal + bool" where
  "money_eq a b = andR (dec_eq (amount a) (amount b)) (Inr (money_currency a = money_currency b))"

fun pyval_eq :: "pyval \<Rightarrow> pyval \<Rightarrow> dec_signal + bool" where
  "pyval_eq (PDecimal a) (PDecimal b) = dec_eq a b"
| "pyval_eq a b = Inr (a = b)"

fun all_eq :: "('a \<Rightarrow> 'a \<Rightarrow> 'e + bool) \<Rightarrow> 'a list \<Rightarrow> 'a list \<Rightarrow> 'e + bool" where
  "all_eq eq (x # xs) (y # ys) = andR (eq x y) (all_eq eq xs ys)"
| "all_eq eq xs ys = Inr (xs = [] \<and> ys = [])"

definition event_eq :: "domain_event \<Rightarrow> domain_event \<Rightarrow> dec_signal + bool" where
  "event_eq e f =
     (if event_type e \<noteq> event_type f then Inr False
      else all_eq pyval_eq (map snd (event_fields (event_data e))) (map snd (event_fields (event_data f))))"

text \<open>Lists of different lengths are unequal without a look at their elements.\<close>

definition list_eq :: "('a \<Rightarrow> 'a \<Rightarrow> 'e + bool) \<Rightarrow> 'a list \<Rightarrow> 'a list \<Rightarrow> 'e + bool" where
  "list_eq eq xs ys = (if length xs \<noteq> length ys then Inr False else all_eq eq xs ys)"

definition entity_eq :: "'a entity_scheme \<Rightarrow> 'a entity_scheme \<Rightarrow> bool" where
  "entity_eq a b \<longleftrightarrow> entity_id a = entity_id b"

definition aggregate_root_eq :: "'a aggregate_root_scheme \<Rightarrow> 'a aggregate_root_scheme \<Rightarrow> dec_signal + bool" where
  "aggregate_root_eq a b =
     andR (Inr (entity_id a = entity_id b)) (andR (Inr (created_at a = created_at b)) (andR (Inr (updated_at a = updated_at b))
       (list_eq event_eq (domain_events a) (domain_events b))))"

definition account_eq :: "account \<Rightarrow> account \<Rightarrow> dec_signal + bool" where
  "account_eq a b =
     andR (aggregate_root_eq a b) (andR (Inr (owner_id a = owner_id b)) (andR (Inr (account_number a = account_number b))
       (andR (Inr (account_status a = account_status b)) (money_eq (balance a) (balance b)))))"

definition transaction_eq :: "transaction \<Rightarrow> transaction \<Rightarrow> dec_signal + bool" where
  "transaction_eq a b =
     andR (aggregate_root_eq a b) (andR (Inr (from_account_id a = from_account_id b)) (andR (Inr (to_account_id a = to_account_id b))
       (andR (money_eq (tx_amount a) (tx_amount b)) (Inr (transaction_type a = transaction_type b \<and> tx_status a = tx_status b \<and>
          idempotency_key a = idempotency_key b \<and> failure_code a = failure_code b \<and> failure_reason a = failure_reason b \<and>
          completed_at a = completed_at b \<and> rollback_required a = rollback_required b)))))"

section \<open>Facts\<close>

lemma andR_simps [simp]: "andR (Inl e) y = Inl e" "andR (Inr True) y = y" "andR (Inr False) y = Inr False"
  by (simp_all add: andR_def)

lemma andR_Inr [simp]: "andR (Inr p) (Inr q) = Inr (p \<and> q)"
  by (simp add: andR_def)

lemma andR_True: "andR x y = Inr True \<longleftrightarrow> x = Inr True \<and> y = Inr True"
  by (auto simp: andR_def bindR_Inr_iff split: if_splits)

lemma aggregate_root_eq_events:
  "length (domain_events a) \<noteq> length (domain_events b) \<Longrightarrow> aggregate_root_eq a b = Inr False"
  by (simp add: aggregate_root_eq_def list_eq_def)

lemma money_eq_ok: "money_ok a \<Longrightarrow> money_eq a a = Inr True"
  by (cases "amount a") (auto simp: money_eq_def money_ok_def dec_eq_def cmp_fin_def)

text \<open>Every call that changes an aggregate records an event, so it makes it unequal to what it was, by \<open>==\<close> from either side.\<close>

lemma account_step_unequal:
  assumes "account_step x a = Inr b" and "b \<noteq> a"
  shows "entity_eq a b" and "account_eq a b = Inr False" and "account_eq b a = Inr False"
proof -
  have "length (domain_events b) = Suc (length (domain_events a)) \<and> entity_id b = entity_id a"
    using assms by (cases x) (auto simp: account_defs bindR_Inr_iff split: if_splits)
  then show "entity_eq a b" and "account_eq a b = Inr False" and "account_eq b a = Inr False"
    by (simp_all add: entity_eq_def account_eq_def aggregate_root_eq_events)
qed

lemma tx_step_unequal:
  assumes "tx_step x a = Inr b"
  shows "entity_eq a b" and "transaction_eq a b = Inr False" and "transaction_eq b a = Inr False"
proof -
  have "length (domain_events b) = Suc (length (domain_events a)) \<and> entity_id b = entity_id a"
    using assms by (cases x) (auto simp: tx_defs split: if_splits)
  then show "entity_eq a b" and "transaction_eq a b = Inr False" and "transaction_eq b a = Inr False"
    by (simp_all add: entity_eq_def transaction_eq_def aggregate_root_eq_events)
qed

text \<open>Reloading.\<close>

lemma account_reload_equal:
  assumes "money_ok (balance a)" and "account_to_domain (account_to_new_orm a) = Inr b"
  shows "entity_eq a b" and "account_eq a b = Inr (domain_events a = [])"
proof -
  have b: "b = a\<lparr>domain_events := []\<rparr>" using assms account_roundtrip by simp
  then show "entity_eq a b" by (simp add: entity_eq_def)
  show "account_eq a b = Inr (domain_events a = [])"
  proof (cases "domain_events a = []")
    case True
    with b assms(1) show ?thesis by (simp add: account_eq_def aggregate_root_eq_def list_eq_def money_eq_ok)
  next
    case False
    with b show ?thesis by (simp add: account_eq_def aggregate_root_eq_events)
  qed
qed

text \<open>Equal aggregates have equal ids: the generated comparison only adds to the one it replaces.\<close>

lemma account_eq_entity: "account_eq a b = Inr True \<Longrightarrow> entity_eq a b"
  by (simp add: account_eq_def aggregate_root_eq_def andR_True entity_eq_def)

end
