(* ===== verification/Container.thy ===== *)
theory Container
  imports Sql_Transfer Lock_System
begin

text \<open>
  The running application's wiring, \<open>src/infrastructure/containers/container.py\<close>: the services over the SQLAlchemy
  unit of work, the Redis lock manager and the in-memory event bus.

  \<^item> The session and the Redis client are third-party code and stay parameters; the providers of the container are
    definitions with the objects they inject as arguments.
  \<^item> The locale \<open>quiet_lock\<close> is what makes a lock manager exchangeable: a release that never raises. Under it a
    transfer that gets its locks does what it does over free in-memory locks (\<open>transfer_with_lock\<close>), so what is
    proved of the services over the database holds of the wired application.
\<close>

section \<open>Exchanging the lock manager\<close>

definition relock :: "'m \<Rightarrow> ('u, 'l, 'b) world \<Rightarrow> ('u, 'm, 'b) world" where
  "relock l w = \<lparr>w_heap = w_heap w, w_uow = w_uow w, w_lock = l, w_bus = w_bus w\<rparr>"

lemma relock_simps [simp]:
  "w_heap (relock l w) = w_heap w" "w_uow (relock l w) = w_uow w" "w_lock (relock l w) = l" "w_bus (relock l w) = w_bus w"
  "relock l (relock m w) = relock l w" "relock l (w\<lparr>w_lock := k\<rparr>) = relock l w"
  by (simp_all add: relock_def)

lemma update_lock [simp]: "w\<lparr>w_lock := l\<rparr> = relock l w"
  by (simp add: relock_def)

lemma simulates_relock [intro]: "simulates (relock l) (in_uow m) (in_uow m)" "simulates (relock l) (in_bus n) (in_bus n)"
  by (rule simulatesI, simp add: in_uow_def in_bus_def relock_def split: prod.splits)+

lemma transfer_existing_relock [intro]: "simulates (relock l) (transfer_existing U key) (transfer_existing U key)"
  unfolding transfer_existing_def by (rule simulates_relock)

lemma transfer_publish_relock [intro]:
  "simulates (relock l) (transfer_publish B s r t) (transfer_publish B s r t)"
proof -
  have "simulates (relock l) (if es \<noteq> [] then in_bus (bus_publish_many B es) else returnP ())
      (if es \<noteq> [] then in_bus (bus_publish_many B es) else returnP ())" for es by auto
  then show ?thesis unfolding transfer_publish_def Let_def by (intro simulates_bindP simulates_relock)
qed

text \<open>A lock manager whose release never raises.\<close>

locale quiet_lock =
  fixes L :: "'l lock_port"
  assumes release_quiet: "\<exists>l'. lock_release L acq l = (Inr (), l')"
begin

lemma with_lock_acquired:
  assumes "lock_acquire L keys (w_lock w) = (Inr acq, l)" and "distinct keys"
  shows "with_lock in_memory_lock keys (in_uow m) (relock {} w) =
    (fst (with_lock L keys (in_uow m) w), relock {} (snd (with_lock L keys (in_uow m) w)))"
proof -
  have memory: "with_lock in_memory_lock keys (in_uow m) (relock {} w) = in_uow m (relock {} w)"
    using assms(2) by (intro with_lock_in_memory) auto
  obtain x v where body: "in_uow m (relock l w) = (x, v)" by fastforce
  then have same: "in_uow m (relock {} w) = (x, relock {} v)"
    using simulatesD [OF simulates_relock(1), of m "{}" "relock l w"] by simp
  obtain l' where "lock_release L acq (w_lock v) = (Inr (), l')" using release_quiet by blast
  with body have "with_lock L keys (in_uow m) w = (x, relock l' v)"
    by (cases x) (simp_all add: with_lock_def withP_apply in_lock_def assms(1) thenP_apply returnP_apply raiseP_apply)
  with memory same show ?thesis by simp
qed

lemma with_lock_cases:
  "\<exists>l. with_lock L keys (in_uow m) w = (fst (in_uow m w), relock l (snd (in_uow m w))) \<or>
    (\<exists>e. with_lock L keys (in_uow m) w = (Inl e, relock l w))"
proof (cases "lock_acquire L keys (w_lock w)")
  case (Pair z l)
  show ?thesis
  proof (cases z)
    case (Inl e)
    with Pair show ?thesis by (auto simp: with_lock_def withP_apply in_lock_def)
  next
    case (Inr acq)
    obtain x v where body: "in_uow m w = (x, v)" by fastforce
    then have there: "in_uow m (relock l w) = (x, relock l v)"
      using simulatesD [OF simulates_relock(1), of m l w] by simp
    obtain l' where "lock_release L acq l = (Inr (), l')" using release_quiet by blast
    with Pair Inr body there show ?thesis
      by (intro exI [of _ l'])
        (cases x; simp add: with_lock_def withP_apply in_lock_def thenP_apply returnP_apply raiseP_apply)
  qed
qed

lemma with_lock_raises:
  assumes "lock_acquire L keys (w_lock w) = (Inl e, l)"
  shows "with_lock L keys m w = (Inl e, relock l w)"
  by (simp add: with_lock_def withP_apply in_lock_def assms)

text \<open>A transfer either cannot get its locks, or does what it does over free in-memory locks.\<close>

lemma transfer_with_lock:
  assumes ne: "tc_from_account_id cmd \<noteq> tc_to_account_id cmd" and run: "transfer_initiate U L B cmd \<omega> w = (x, w')"
  shows "transfer_initiate U in_memory_lock B cmd \<omega> (relock {} w) = (x, relock {} w') \<or>
    (\<exists>v e l. transfer_existing U (tc_idempotency_key cmd) w = (Inr None, v) \<and>
       lock_acquire L (lock_keys (tc_from_account_id cmd) (tc_to_account_id cmd)) (w_lock v) = (Inl e, l) \<and>
       x = Inl e \<and> w' = relock l v)"
proof -
  let ?keys = "lock_keys (tc_from_account_id cmd) (tc_to_account_id cmd)" and ?free = "{} :: string set"
  obtain y v where first: "transfer_existing U (tc_idempotency_key cmd) w = (y, v)" by fastforce
  have first': "transfer_existing U (tc_idempotency_key cmd) (relock ?free w) = (y, relock ?free v)"
    using simulatesD [OF transfer_existing_relock, of U "tc_idempotency_key cmd" ?free w] first by simp
  have reported: "simulates (relock ?free) (bindP (in_uow (read_tx r)) (\<lambda>t. returnP (transaction_dto_of t)))
      (bindP (in_uow (read_tx r)) (\<lambda>t. returnP (transaction_dto_of t)))" for r
    by (intro simulates_bindP simulates_relock simulates_pure)
  show ?thesis
  proof (cases y)
    case (Inl e)
    with run first first' show ?thesis by (simp add: transfer_initiate_def bindP_apply)
  next
    case (Inr found)
    show ?thesis
    proof (cases found)
      case (Some r)
      with run first first' Inr simulatesD [OF reported, of r v] show ?thesis
        by (simp add: transfer_initiate_def bindP_apply [of "transfer_existing U k" for k])
    next
      case None
      then have new: "transfer_new U L B cmd \<omega> v = (x, w')"
          "transfer_initiate U in_memory_lock B cmd \<omega> (relock {} w) = transfer_new U in_memory_lock B cmd \<omega> (relock {} v)"
        using run first first' Inr by (simp_all add: transfer_initiate_def bindP_apply)
      let ?arg = "bindR (parse_currency (tc_currency cmd)) (\<lambda>cur. bindR (redecimal (tc_amount cmd)) (\<lambda>d. money_new d cur))"
      show ?thesis
      proof (cases ?arg)
        case (Inl e)
        then have "x = Inl e \<and> w' = v \<and> transfer_new U in_memory_lock B cmd \<omega> (relock {} v) = (Inl e, relock {} v)"
          using new(1) by (auto simp: transfer_new_def bindP_apply liftP_apply split: sum.splits)
        with new show ?thesis by simp
      next
        case (Inr amt)
        let ?body = "with_uow U (transfer_in_uow U (tc_from_account_id cmd) (tc_to_account_id cmd) amt (tc_idempotency_key cmd) \<omega>)"
        let ?rest = "\<lambda>(s, r, tx). thenP (transfer_publish B s r tx)
            (bindP (in_uow (read_tx tx)) (\<lambda>t. returnP (transaction_dto_of t)))"
        have unfolded: "transfer_new U K B cmd \<omega> u = bindP (with_lock K ?keys (in_uow ?body)) ?rest u"
          for K :: "'k lock_port" and u :: "('a, 'k, 'b) world"
          using Inr by (auto simp: transfer_new_def bindP_apply [of "liftP m" for m] liftP_apply split: sum.splits)
        show ?thesis
        proof (cases "lock_acquire L ?keys (w_lock v)")
          case (Pair z l)
          show ?thesis
          proof (cases z)
            case (Inl e)
            note refused = with_lock_raises [OF Pair [unfolded Inl], of "in_uow ?body"]
            from new(1) have "x = Inl e \<and> w' = relock l v" by (simp add: unfolded bindP_apply refused)
            with first None \<open>y = Inr found\<close> Pair Inl show ?thesis by blast
          next
            case (Inr acq)
            have "distinct ?keys" using ne by (simp add: distinct_lock_keys)
            note got = with_lock_acquired [OF Pair [unfolded Inr] this, of ?body]
            have rest: "simulates (relock ?free) (?rest t) (?rest t)" for t
              by (cases t) (auto intro!: simulates_thenP reported)
            obtain c u where c: "with_lock L ?keys (in_uow ?body) v = (c, u)" by fastforce
            have "transfer_new U in_memory_lock B cmd \<omega> (relock {} v) = (x, relock {} w')"
            proof (cases c)
              case (Inl e)
              with new(1) got c show ?thesis by (simp add: unfolded bindP_apply)
            next
              case (Inr t)
              with new(1) got c simulatesD [OF rest, of t u] show ?thesis by (simp add: unfolded bindP_apply)
            qed
            with new(2) show ?thesis by simp
          qed
        qed
      qed
    qed
  qed
qed

end

sublocale lock_manager < quiet: quiet_lock L
  by unfold_locales (use release_ok in blast)

section \<open>The Redis lock manager in its place\<close>

lemma release_all_quiet: "\<exists>r'. release_all M acq r = (Inr (), r')"
proof -
  have one: "\<exists>r'. safe_release M k r = (Inr (), r')" for k r
    by (cases "redis_delete (rm_redis M) k r"; cases "fst (redis_delete (rm_redis M) k r)")
      (auto simp: safe_release_def tryP_apply returnP_apply)
  have "\<exists>r'. forP (safe_release M) ks r = (Inr (), r')" for ks
  proof (induction ks arbitrary: r)
    case (Cons k ks)
    obtain r1 where "safe_release M k r = (Inr (), r1)" using one by blast
    with Cons [of r1] show ?case by (simp add: thenP_apply)
  qed (simp add: returnP_apply)
  then show ?thesis by (simp add: release_all_def)
qed

interpretation redis_quiet: quiet_lock "redis_lock M ttl" for M ttl
  by unfold_locales (simp add: redis_lock_def release_all_quiet)

text \<open>Why locks are refused: a client that raises, or a key that stayed taken for the whole wait timeout.\<close>

lemma redis_acquire_refused:
  assumes "clock_laws (rm_redis M)" and "redis_acquire M ttl keys acquired r = Some (Inl e, r')"
  shows "client_raises (rm_redis M) e \<or> (\<exists>k \<in> set keys. e = lock_timeout (redis_key k) (rm_wait_text M))"
  using assms(2)
proof (induction keys arbitrary: acquired r)
  case (Cons key keys)
  obtain x r1 where single: "acquire_single M (redis_key key) ttl r = Some (x, r1)"
    and why: "\<forall>e. x = Inl e \<longrightarrow> client_raises (rm_redis M) e \<or> e = lock_timeout (redis_key key) (rm_wait_text M)"
    using acquire_loop_returns [OF assms(1), of "redis_key key" ttl "loop_time (rm_redis M) r + rm_wait_timeout M" r]
    unfolding acquire_single_def by blast
  show ?case
  proof (cases x)
    case (Inl c)
    obtain r2 where "release_all M acquired r1 = (Inr (), r2)" using release_all_quiet [of M acquired r1] by blast
    with Cons.prems single Inl have "e = c" by (simp add: Let_def thenP_apply raiseP_apply)
    with why Inl show ?thesis by auto
  next
    case (Inr u)
    with Cons.prems single Cons.IH [of "acquired @ [redis_key key]" r1] show ?thesis by auto
  qed
qed simp

lemma redis_lock_refused:
  assumes "clock_laws (rm_redis M)" and "lock_acquire (redis_lock M ttl) keys r = (Inl e, r')"
  shows "client_raises (rm_redis M) e \<or> (\<exists>k \<in> set keys. e = lock_timeout (redis_key k) (rm_wait_text M))"
proof -
  obtain x r'' where "redis_acquire M ttl keys [] r = Some (x, r'')"
    using redis_acquire_returns_all [OF assms(1), of ttl keys "[]" r] by blast
  with assms redis_acquire_refused [OF assms(1)] show ?thesis by (simp add: redis_lock_def)
qed

section \<open>At the reference server\<close>

text \<open>A lock that somebody holds beyond the deadline is not got, and the whole timeout passes.\<close>

lemma acquire_loop_blocked:
  assumes "rm_redis M = reference_redis" and "rs_expiry srv k = Some t" and "deadline < t" and "rs_now srv \<le> deadline"
  shows "\<exists>srv'. acquire_loop M k ttl deadline srv = Some (Inl (lock_timeout k (rm_wait_text M)), srv') \<and> deadline \<le> rs_now srv'"
  using assms(2,4)
proof (induction "nat (deadline - rs_now srv)" arbitrary: srv rule: less_induct)
  case less
  have set: "server_set_nx k ttl srv = (False, srv)" using less.prems assms(3) by (simp add: server_set_nx_def active_def)
  show ?case
  proof (cases "deadline \<le> rs_now srv")
    case True
    then show ?thesis by (subst acquire_loop.simps) (simp add: assms(1) set after_poll_def)
  next
    case False
    let ?d = "min retry_interval (deadline - rs_now srv)" and ?srv = "\<lambda>d. srv\<lparr>rs_now := rs_now srv + d\<rparr>"
    have d: "0 < ?d" "rs_now (?srv ?d) \<le> deadline" using False by (simp_all add: retry_interval_def)
    have "acquire_loop M k ttl deadline srv = acquire_loop M k ttl deadline (?srv ?d)"
      using False d by (subst acquire_loop.simps) (simp add: assms(1) set after_poll_def)
    with less.hyps [of "?srv ?d"] less.prems(1) d False show ?thesis by simp
  qed
qed

lemma release_all_expiry:
  assumes "rm_redis M = reference_redis"
  shows "\<exists>srv'. release_all M acq srv = (Inr (), srv') \<and> rs_now srv' = rs_now srv \<and>
    rs_expiry srv' = (\<lambda>k. if k \<in> set acq then None else rs_expiry srv k)"
proof -
  have one: "safe_release M k s = (Inr (), server_delete k s)" for k s by (simp add: safe_release_def tryP_apply assms)
  have "\<exists>srv'. forP (safe_release M) ks s = (Inr (), srv') \<and> rs_now srv' = rs_now s \<and>
      rs_expiry srv' = (\<lambda>k. if k \<in> set ks then None else rs_expiry s k)" for ks s
  proof (induction ks arbitrary: s)
    case (Cons k ks)
    from Cons [of "server_delete k s"] show ?case
      by (auto simp: thenP_apply one server_delete_def fun_eq_iff)
  qed (simp add: returnP_apply)
  from this [of "rev acq" srv] show ?thesis by (simp add: release_all_def)
qed

text \<open>Free keys are got at once.\<close>

lemma redis_acquire_free:
  assumes "rm_redis M = reference_redis" and "distinct keys" and "\<forall>k \<in> set keys. \<not> active srv (redis_key k)"
  shows "\<exists>srv'. redis_acquire M ttl keys acquired srv = Some (Inr (acquired @ map redis_key keys), srv')"
  using assms(2,3)
proof (induction keys arbitrary: acquired srv)
  case (Cons key keys)
  let ?srv = "srv\<lparr>rs_expiry := (rs_expiry srv)(redis_key key \<mapsto> rs_now srv + seconds ttl)\<rparr>"
  have "server_set_nx (redis_key key) ttl srv = (True, ?srv)" using Cons.prems by (simp add: server_set_nx_def)
  then have "acquire_single M (redis_key key) ttl srv = Some (Inr (), ?srv)"
    unfolding acquire_single_def by (subst acquire_loop.simps) (simp add: assms(1) after_poll_def)
  moreover have "active ?srv k = active srv k" if "k \<noteq> redis_key key" for k
    using that by (simp add: active_def split: option.splits)
  with Cons.prems have "\<forall>k \<in> set keys. \<not> active ?srv (redis_key k)"
    by (metis distinct.simps(2) list.set_intros(2) redis_key_inject)
  ultimately show ?case using Cons.IH [of ?srv "acquired @ [redis_key key]"] Cons.prems(1) by (simp add: Let_def)
qed simp

text \<open>What the continuation keeps is as the program left it.\<close>

lemma keeps_after: "(\<And>x. keeps g (f x)) \<Longrightarrow> g (snd (bindP m f s)) = g (snd (m s))"
  by (cases "m s") (auto simp: bindP_apply keeps_def split: sum.splits)

text \<open>A key that is got is held from then on for its time to live.\<close>

lemma acquire_loop_taken:
  assumes "rm_redis M = reference_redis" and "acquire_loop M k ttl deadline srv = Some (Inr u, srv')"
  shows "rs_expiry srv' k = Some (rs_now srv' + seconds ttl)"
  using assms(2)
proof (induction "nat (deadline - rs_now srv)" arbitrary: srv rule: less_induct)
  case less
  obtain ok srv1 where set: "server_set_nx k ttl srv = (ok, srv1)" by fastforce
  then have now: "rs_now srv1 = rs_now srv" and got: "ok \<Longrightarrow> rs_expiry srv1 k = Some (rs_now srv1 + seconds ttl)"
    by (auto simp: server_set_nx_def split: if_splits)
  have loop: "acquire_loop M k ttl deadline srv = (case after_poll deadline ok (rs_now srv1) of
      Got \<Rightarrow> Some (Inr (), srv1) | GiveUp \<Rightarrow> Some (Inl (lock_timeout k (rm_wait_text M)), srv1)
    | SleepFor d \<Rightarrow> acquire_loop M k ttl deadline (srv1\<lparr>rs_now := rs_now srv1 + max 0 d\<rparr>))"
    by (subst acquire_loop.simps) (simp add: assms(1) set split: after_poll.splits)
  show ?case
  proof (cases "after_poll deadline ok (rs_now srv1)")
    case (SleepFor d)
    then have d: "0 < d" "rs_now srv1 < deadline"
      by (auto simp: after_poll_def Let_def retry_interval_def split: if_splits)
    with less.prems SleepFor loop less.hyps [of "srv1\<lparr>rs_now := rs_now srv1 + d\<rparr>"] now show ?thesis by simp
  qed (use loop less.prems got in \<open>auto simp: after_poll_def Let_def split: if_splits\<close>)
qed

text \<open>Asking twice for the same key: the second time the key stays taken for the whole timeout.\<close>

lemma redis_acquire_twice:
  assumes "rm_redis M = reference_redis" and "0 \<le> rm_wait_timeout M" and "rm_wait_timeout M < seconds ttl"
  shows "\<exists>srv'. redis_acquire M ttl [key, key] [] srv = Some (Inl (lock_timeout (redis_key key) (rm_wait_text M)), srv') \<and>
    rs_now srv + rm_wait_timeout M \<le> rs_now srv'"
proof -
  let ?k = "redis_key key" and ?late = "Inl (lock_timeout (redis_key key) (rm_wait_text M))"
  have clock: "clock_laws (rm_redis M)" by (simp add: assms(1) reference_redis_clock)
  have quiet: "\<not> client_raises (rm_redis M) e" for e by (simp add: assms(1) client_raises_def)
  obtain x srv1 where first: "acquire_single M ?k ttl srv = Some (x, srv1)" and now: "rs_now srv \<le> rs_now srv1"
    and why: "\<forall>e. x = Inl e \<longrightarrow> e = lock_timeout ?k (rm_wait_text M) \<and> rs_now srv + rm_wait_timeout M \<le> rs_now srv1"
    using acquire_loop_returns [OF clock, of ?k ttl "loop_time (rm_redis M) srv + rm_wait_timeout M" srv] quiet
    unfolding acquire_single_def by (auto simp: assms(1))
  have released: "\<exists>srv'. release_all M ks s = (Inr (), srv') \<and> rs_now srv' = rs_now s" for ks s
    using release_all_expiry [OF assms(1), of ks s] by blast
  show ?thesis
  proof (cases x)
    case (Inl e)
    obtain srv2 where "release_all M [] srv1 = (Inr (), srv2)" "rs_now srv2 = rs_now srv1" using released by blast
    with first Inl why show ?thesis by (simp add: thenP_apply raiseP_apply)
  next
    case (Inr u)
    have "rs_expiry srv1 ?k = Some (rs_now srv1 + seconds ttl)"
      using acquire_loop_taken [OF assms(1)] first Inr unfolding acquire_single_def by simp
    then obtain srv2 where second: "acquire_single M ?k ttl srv1 = Some (?late, srv2)" "rs_now srv1 + rm_wait_timeout M \<le> rs_now srv2"
      using acquire_loop_blocked [OF assms(1), of srv1 ?k "rs_now srv1 + seconds ttl" "rs_now srv1 + rm_wait_timeout M" ttl] assms(2,3)
      unfolding acquire_single_def by (auto simp: assms(1))
    obtain srv3 where "release_all M [?k] srv2 = (Inr (), srv3)" "rs_now srv3 = rs_now srv2" using released by blast
    with first Inr second now show ?thesis by (simp add: thenP_apply raiseP_apply)
  qed
qed

section \<open>A duplicate that has passed the idempotency check\<close>

text \<open>The unique key makes the commit refuse a second transaction with a stored key, whatever the unit of work did before.\<close>

lemma duplicate_not_valid:
  assumes "find_tx_by_key (idempotency_key t) d = Some row" and "db_txs d' = db_txs d"
  shows "\<not> db_valid (sql_recorded d' t es)"
proof -
  have "row \<in> set (db_txs d)" "to_idempotency_key row = idempotency_key t"
    using assms(1) by (auto simp: find_tx_by_key_def find_Some_iff)
  then have "idempotency_key t \<in> to_idempotency_key ` set (db_txs d)" by force
  then show ?thesis
    by (auto simp: db_valid_def sql_recorded_def db_columns_def assms(2) tx_to_new_orm_def column_tx_def comp_def)
qed

lemma duplicate_in_uow:
  assumes ok: "sql_ok d" and key: "find_tx_by_key key d = Some row" and new: "find_tx (rd_uuid (\<omega> 0) 1) d = None"
  shows "\<exists>e h' u'. transfer_in_uow (sqlalchemy_uow (reference_session refuse)) f t amt key \<omega> (h, sql_start d) =
      (Inl e, (h', u')) \<and> ss_stored (sq_db u') = d"
proof -
  have row: "\<exists>a. account_to_domain r = Inr a" if "find_account i d = Some r" for i r
    using sql_ok_found(1) [OF ok that] row_ok_cases by blast
  show ?thesis
  proof (cases "find_account f d")
    case None
    then show ?thesis using sql_uow_refused(1) [OF None] by blast
  next
    case sender: (Some ra)
    obtain a where a: "account_to_domain ra = Inr a" using row [OF sender] by blast
    show ?thesis
    proof (cases "find_account t d")
      case None
      then show ?thesis using sql_uow_refused(2) [OF sender a None] by blast
    next
      case receiver: (Some rb)
      obtain b where b: "account_to_domain rb = Inr b" using row [OF receiver] by blast
      show ?thesis
      proof (cases "tx_initiate f t amt key TRANSFER (\<omega> 0)")
        case (Inl e)
        then show ?thesis using sender a receiver b
          by (simp add: transfer_in_uow_def sql_start_def sql_load bindP_apply liftP_apply)
      next
        case (Inr tx)
        note made = tx_initiate_Inr [OF Inr]
        then have ready: "sql_uow_ready f t amt key \<omega> d ra a rb b tx"
          using sender a receiver b new Inr by (simp add: sql_uow_ready_def)
        note facts = sql_uow_ready_facts [OF ready]
        have dup: "\<not> db_valid (sql_recorded d (failed_tx \<omega> e tx) es)"
            "\<not> db_valid (sql_recorded (updated_accounts ra a' rb b' d) (completed_tx \<omega> tx) es)" for e es a' b'
          using key facts(8) duplicate_not_valid [of _ d row] by (simp_all add: updated_accounts_txs)
        show ?thesis
        proof (cases "debit amt (entity_id tx) (\<omega> 2) a")
          case (Inl e)
          from sql_debit_fails [OF ready Inl, of refuse h] dup show ?thesis by auto
        next
          case da: (Inr a')
          show ?thesis
          proof (cases "credit amt (entity_id tx) (\<omega> 3) b")
            case (Inl e)
            from sql_credit_fails [OF ready da Inl, of refuse h] dup show ?thesis by auto
          next
            case cb: (Inr b')
            have "entity_id a' = f" "entity_id b' = t"
              using da cb facts(4,5) by (auto simp: debit_Inr credit_Inr)
            from sql_succeeds [OF ready da cb this, of refuse h] dup show ?thesis by auto
          qed
        qed
      qed
    qed
  qed
qed

section \<open>The providers\<close>

text \<open>\<open>RedisLockManager(redis=...)\<close> with the constructor's default timeout, and \<open>acquire\<close>'s default time to live.\<close>

definition container_lock_manager :: "'r redis_port \<Rightarrow> 'r redis_manager" where
  "container_lock_manager redis_client =
     \<lparr>rm_redis = redis_client, rm_wait_timeout = seconds 5, rm_wait_text = ''5.0''\<rparr>"

definition default_ttl :: nat where
  "default_ttl = 30"

definition container_uow :: "'d session_port \<Rightarrow> 'd sql_uow uow_port" where
  "container_uow session_factory = sqlalchemy_uow session_factory"

definition container_account_create ::
  "'d session_port \<Rightarrow> create_account_command \<Rightarrow> readings \<Rightarrow> (('d sql_uow, 'l, 'b) world, exn, account_dto) prog" where
  "container_account_create S = account_service_create (container_uow S)"

definition container_account_get ::
  "'d session_port \<Rightarrow> uuid \<Rightarrow> (('d sql_uow, 'l, 'b) world, exn, account_dto) prog" where
  "container_account_get S = account_service_get (container_uow S)"

definition container_transfer ::
  "'d session_port \<Rightarrow> 'r redis_port \<Rightarrow> transfer_command \<Rightarrow> (nat \<Rightarrow> readings)
   \<Rightarrow> (('d sql_uow, 'r, domain_event list) world, exn, transaction_dto) prog" where
  "container_transfer S redis_client =
     transfer_initiate (container_uow S) (redis_lock (container_lock_manager redis_client) default_ttl) in_memory_bus"

definition container_transfer_get ::
  "'d session_port \<Rightarrow> uuid \<Rightarrow> (('d sql_uow, 'l, 'b) world, exn, transaction_dto) prog" where
  "container_transfer_get S = transfer_get (container_uow S)"

text \<open>\<open>container.account_service()\<close> and \<open>container.transfer_service()\<close>, which the routers depend on.\<close>

definition container_account_service :: "'d session_port \<Rightarrow> ('d sql_uow, 'l, 'b) world account_service_port" where
  "container_account_service S = account_service (container_uow S)"

definition container_transfer_service ::
  "'d session_port \<Rightarrow> 'r redis_port \<Rightarrow> ('d sql_uow, 'r, domain_event list) world transfer_service_port" where
  "container_transfer_service S redis_client =
     transfer_service (container_uow S) (redis_lock (container_lock_manager redis_client) default_ttl) in_memory_bus"

lemma container_service_simps [simp]:
  "as_create (container_account_service S) = account_service_create (container_uow S)"
  "as_get (container_account_service S) = account_service_get (container_uow S)"
  "ts_initiate (container_transfer_service S R) = container_transfer S R"
  "ts_get (container_transfer_service S R) = transfer_get (container_uow S)"
  by (simp_all add: container_account_service_def container_transfer_service_def container_transfer_def)

lemmas container_defs = container_uow_def container_account_create_def container_account_get_def container_transfer_def
  container_transfer_get_def

lemma container_lock_manager_simps [simp]:
  "rm_redis (container_lock_manager R) = R" "rm_wait_timeout (container_lock_manager R) = seconds 5"
  "rm_wait_text (container_lock_manager R) = ''5.0''"
  by (simp_all add: container_lock_manager_def)

text \<open>The database and the bus of a running application, whatever its locks.\<close>

definition container_view :: "('d \<Rightarrow> session) \<Rightarrow> ('d sql_uow, 'l, domain_event list) world \<Rightarrow> sql_world" where
  "container_view f w = relock {} (sql_view f w)"

lemma container_view_simps [simp]:
  "w_heap (container_view f w) = w_heap w" "w_bus (container_view f w) = w_bus w" "w_lock (container_view f w) = {}"
  "container_view f (relock l w) = container_view f w" "sql_view f (relock l w) = relock l (sql_view f w)"
  by (simp_all add: container_view_def relock_def abs_world_def)

text \<open>The idempotency check reads only.\<close>

lemma sql_existing_reads:
  assumes "transfer_existing (sqlalchemy_uow (reference_session refuse)) key w = (x, v)"
  shows "sql_stored v = sql_stored w" and "w_bus v = w_bus w"
    and "x = Inr None \<Longrightarrow> find_tx_by_key key (sql_stored w) = None"
  using assms
  by (auto simp: transfer_existing_def in_uow_def with_uow_reference sql_tx_get_by_idempotency_key_def bindP_apply on_db_apply
      returnP_apply liftP_apply object_defs getP_apply sql_stored_def split: option.splits sum.splits)

lemma container_existing:
  fixes w :: "('d sql_uow, 'r, domain_event list) world"
  assumes "session_laws refuse S f" and "transfer_existing (container_uow S) key w = (x, v)"
  shows "transfer_existing (sqlalchemy_uow (reference_session refuse)) key (container_view f w) = (x, container_view f v)"
proof -
  have "simulates (sql_view f) (transfer_existing (container_uow S) key)
      (transfer_existing (sqlalchemy_uow (reference_session refuse)) key :: ((session sql_uow, 'r, domain_event list) world, exn, nat option) prog)"
    unfolding transfer_existing_def container_uow_def
    by (intro simulates_intros sql_simulates [OF assms(1)])
  from simulatesD [OF this, of w] assms(2)
  have "transfer_existing (sqlalchemy_uow (reference_session refuse)) key (sql_view f w) = (x, sql_view f v)" by simp
  with simulatesD [OF transfer_existing_relock, of "sqlalchemy_uow (reference_session refuse)" key "{} :: string set" "sql_view f w"]
  show ?thesis by (simp add: container_view_def)
qed

text \<open>A transfer of the running application: what the service does over the database alone, or no lock.\<close>

definition lock_refused :: "'r redis_port \<Rightarrow> transfer_command \<Rightarrow> exn \<Rightarrow> bool" where
  "lock_refused R cmd e \<longleftrightarrow> client_raises R e \<or>
     (\<exists>i \<in> {tc_from_account_id cmd, tc_to_account_id cmd}. e = lock_timeout (redis_key (uuid_str i)) ''5.0'')"

lemma container_transfer_outcome:
  assumes "session_laws refuse S f" and "clock_laws R" and "tc_from_account_id cmd \<noteq> tc_to_account_id cmd"
    and "container_transfer S R cmd \<omega> w = (x, w')"
  shows "transfer_initiate (sqlalchemy_uow (reference_session refuse)) in_memory_lock in_memory_bus cmd \<omega> (container_view f w) =
      (x, container_view f w') \<or>
    (\<exists>e. x = Inl e \<and> lock_refused R cmd e \<and> sql_stored (container_view f w') = sql_stored (container_view f w) \<and> w_bus w' = w_bus w)"
  using redis_quiet.transfer_with_lock [OF assms(3) assms(4) [unfolded container_transfer_def]]
proof (elim disjE exE conjE)
  assume run: "transfer_initiate (container_uow S) in_memory_lock in_memory_bus cmd \<omega> (relock {} w) = (x, relock {} w')"
  from lawful_transfer [OF assms(1) run [unfolded container_uow_def]] show ?thesis
    by (simp add: container_view_def)
next
  fix v e l
  assume first: "transfer_existing (container_uow S) (tc_idempotency_key cmd) w = (Inr None, v)"
    and refused: "lock_acquire (redis_lock (container_lock_manager R) default_ttl)
      (lock_keys (tc_from_account_id cmd) (tc_to_account_id cmd)) (w_lock v) = (Inl e, l)"
    and x: "x = Inl e" "w' = relock l v"
  have "lock_refused R cmd e"
    using redis_lock_refused [OF _ refused] assms(2) by (auto simp: lock_refused_def)
  moreover note sql_existing_reads [OF container_existing [OF assms(1) first]]
  ultimately show ?thesis using x by simp
qed

text \<open>The rest of a transfer that found no transaction with its key, when the key has been stored meanwhile.\<close>

lemma container_late_duplicate:
  fixes w :: "('d sql_uow, 'r, domain_event list) world"
  assumes laws: "session_laws refuse S f" and call: "sql_call_ok cmd \<omega> (container_view f w) amt"
    and key: "find_tx_by_key (tc_idempotency_key cmd) (sql_stored (container_view f w)) = Some row"
    and run: "transfer_new (container_uow S) (redis_lock M ttl) in_memory_bus cmd \<omega> w = (x, w')"
  shows "\<exists>e. x = Inl e \<and> sql_stored (container_view f w') = sql_stored (container_view f w) \<and> w_bus w' = w_bus w"
proof -
  let ?m = "\<lambda>U. transfer_in_uow U (tc_from_account_id cmd) (tc_to_account_id cmd) amt (tc_idempotency_key cmd) \<omega>"
    and ?R = "sqlalchemy_uow (reference_session refuse)"
  obtain cur where arg: "parse_currency (tc_currency cmd) = Inr cur" "money_new (tc_amount cmd) cur = Inr amt"
    and ok: "sql_ok (sql_stored (container_view f w))"
    and new: "find_tx (rd_uuid (\<omega> 0) 1) (sql_stored (container_view f w)) = None"
    using call by (auto simp: sql_call_ok_def sql_arg_def)
  obtain e h' u' where b: "?m ?R (w_heap (container_view f w), sql_start (sql_stored (container_view f w))) = (Inl e, (h', u'))"
    and u': "ss_stored (sq_db u') = sql_stored (container_view f w)"
    using duplicate_in_uow [where h = "w_heap (container_view f w)" and \<omega> = \<omega>, OF ok key new, of refuse] by blast
  obtain y v where body: "in_uow (with_uow (container_uow S) (?m (container_uow S))) w = (y, v)" by fastforce
  have "simulates (sql_view f) (in_uow (with_uow (container_uow S) (?m (container_uow S))))
      (in_uow (with_uow ?R (?m ?R)) :: ((session sql_uow, 'r, domain_event list) world, exn, nat \<times> nat \<times> nat) prog)"
    unfolding container_uow_def
    by (intro simulates_in_uow with_uow_simulates transfer_in_uow_simulates sql_simulates [OF laws])
  from simulatesD [OF this, of w] body
  have "in_uow (with_uow ?R (?m ?R)) (sql_view f w) = (y, sql_view f v)" by simp
  with simulatesD [OF simulates_relock(1), of "with_uow ?R (?m ?R)" "{} :: string set" "sql_view f w"]
  have "in_uow (with_uow ?R (?m ?R)) (container_view f w) = (y, container_view f v)" by (simp add: container_view_def)
  with sql_with_uow [where body = "?m ?R" and w = "container_view f w", OF b, of refuse] u'
  have y: "y = Inl e" "sql_stored (container_view f v) = sql_stored (container_view f w)" "w_bus v = w_bus w" by auto
  from redis_quiet.with_lock_cases [of M ttl "lock_keys (tc_from_account_id cmd) (tc_to_account_id cmd)"
      "with_uow (container_uow S) (?m (container_uow S))" w] body y run show ?thesis
    by (auto simp: transfer_new_def bindP_apply liftP_apply arg)
qed

text \<open>With both keys free on the server a transfer gets its locks.\<close>

lemma container_transfer_free:
  assumes "session_laws refuse S f" and "tc_from_account_id cmd \<noteq> tc_to_account_id cmd"
    and "\<forall>i \<in> {tc_from_account_id cmd, tc_to_account_id cmd}. \<not> active (w_lock w) (redis_key (uuid_str i))"
    and "container_transfer S reference_redis cmd \<omega> w = (x, w')"
  shows "transfer_initiate (sqlalchemy_uow (reference_session refuse)) in_memory_lock in_memory_bus cmd \<omega> (container_view f w) =
    (x, container_view f w')"
  using redis_quiet.transfer_with_lock [OF assms(2) assms(4) [unfolded container_transfer_def]]
proof (elim disjE exE conjE)
  assume run: "transfer_initiate (container_uow S) in_memory_lock in_memory_bus cmd \<omega> (relock {} w) = (x, relock {} w')"
  from lawful_transfer [OF assms(1) run [unfolded container_uow_def]] show ?thesis by (simp add: container_view_def)
next
  fix v e l
  assume first: "transfer_existing (container_uow S) (tc_idempotency_key cmd) w = (Inr None, v)"
    and refused: "lock_acquire (redis_lock (container_lock_manager reference_redis) default_ttl)
      (lock_keys (tc_from_account_id cmd) (tc_to_account_id cmd)) (w_lock v) = (Inl e, l)"
  have "w_lock v = w_lock w" using first by (metis transfer_existing_def in_uow_lock snd_conv)
  then have free: "\<forall>k \<in> set (lock_keys (tc_from_account_id cmd) (tc_to_account_id cmd)). \<not> active (w_lock v) (redis_key k)"
    using assms(3) by auto
  have "distinct (lock_keys (tc_from_account_id cmd) (tc_to_account_id cmd))" using assms(2) by simp
  from redis_acquire_free [OF container_lock_manager_simps(1) this free, of default_ttl "[]"]
  obtain srv where "redis_acquire (container_lock_manager reference_redis) default_ttl
      (lock_keys (tc_from_account_id cmd) (tc_to_account_id cmd)) [] (w_lock v) =
      Some (Inr ([] @ map redis_key (lock_keys (tc_from_account_id cmd) (tc_to_account_id cmd))), srv)" by blast
  with refused show ?thesis by (simp add: redis_lock_def)
qed

end
