(* ===== verification/Redis_Faults.thy ===== *)
theory Redis_Faults
  imports Container
begin

text \<open>
  What a transfer leaves on the Redis server when calls of the client fail: a connection may break at any call, before
  or after the server has executed the command, and \<open>_safe_release\<close> passes over a failed \<open>DEL\<close>.

  \<^item> \<open>faulty_redis\<close> is the client of \<open>reference_redis\<close> behind a schedule of faults: the nth call of the process
    raises, with or without the command having taken effect. A wait (\<open>asyncio.sleep\<close>) is no call of the client.
  \<^item> \<open>own_locks\<close> is the invariant of the lock manager's calls: beside the locks it holds, what the server has is as
    it was, gone, or a lock of this transfer for which a call raised and which expires within its time to live.
\<close>

section \<open>A client whose calls may raise\<close>

text \<open>\<open>fr_failed\<close> is no state of the client: it records for which keys a call has raised.\<close>

record faulty_client =
  fr_server :: redis_server
  fr_calls :: nat
  fr_failed :: "string set"

type_synonym faults = "nat \<Rightarrow> (exn \<times> bool) option"

definition faulty :: "faults \<Rightarrow> string \<Rightarrow> (redis_server, exn, 'a) prog \<Rightarrow> (faulty_client, exn, 'a) prog" where
  "faulty fault k command c =
     (case command (fr_server c) of (x, srv) \<Rightarrow>
        (case fault (fr_calls c) of
           None \<Rightarrow> (x, c\<lparr>fr_server := srv, fr_calls := fr_calls c + 1\<rparr>)
         | Some (e, executed) \<Rightarrow> (Inl e,
             \<lparr>fr_server = if executed then srv else fr_server c, fr_calls = fr_calls c + 1,
              fr_failed = insert k (fr_failed c)\<rparr>)))"

definition faulty_redis :: "faults \<Rightarrow> faulty_client redis_port" where
  "faulty_redis fault = \<lparr>
     redis_set_nx = (\<lambda>k ttl. faulty fault k (redis_set_nx reference_redis k ttl)),
     redis_delete = (\<lambda>k. faulty fault k (redis_delete reference_redis k)),
     loop_time = (\<lambda>c. loop_time reference_redis (fr_server c)),
     loop_sleep = (\<lambda>d c. case loop_sleep reference_redis d (fr_server c) of (x, srv) \<Rightarrow> (x, c\<lparr>fr_server := srv\<rparr>))\<rparr>"

lemma faulty_redis_clock: "clock_laws (faulty_redis fault)"
  by (auto simp: clock_laws_def faulty_redis_def faulty_def reference_redis_def server_set_nx_def server_delete_def
      modifyP_apply split: prod.splits option.splits if_splits)

section \<open>The locks of a transfer\<close>

text \<open>Where the transfer began: the keys of the server, the number of calls made so far.\<close>

record lock_origin =
  lo_expiry :: "string \<Rightarrow> int option"
  lo_calls :: nat
  lo_keys :: "string set"
  lo_ttl :: nat

definition brief :: "lock_origin \<Rightarrow> redis_server \<Rightarrow> string \<Rightarrow> bool" where
  "brief o0 srv k \<longleftrightarrow> k \<in> lo_keys o0 \<and> (\<forall>t. rs_expiry srv k = Some t \<longrightarrow> t \<le> rs_now srv + seconds (lo_ttl o0))"

definition key_own :: "lock_origin \<Rightarrow> bool \<Rightarrow> bool \<Rightarrow> redis_server \<Rightarrow> string \<Rightarrow> bool" where
  "key_own o0 mine noted srv k \<longleftrightarrow>
     (if mine then brief o0 srv k else rs_expiry srv k \<in> {None, lo_expiry o0 k} \<or> noted \<and> brief o0 srv k)"

definition faults_noted :: "faults \<Rightarrow> lock_origin \<Rightarrow> faulty_client \<Rightarrow> bool" where
  "faults_noted fault o0 c \<longleftrightarrow> lo_calls o0 \<le> fr_calls c \<and>
     ((\<forall>n. lo_calls o0 \<le> n \<and> n < fr_calls c \<longrightarrow> fault n = None) \<longrightarrow> fr_failed c = {})"

definition own_locks :: "faults \<Rightarrow> lock_origin \<Rightarrow> string set \<Rightarrow> faulty_client \<Rightarrow> bool" where
  "own_locks fault o0 A c \<longleftrightarrow>
     (\<forall>k. key_own o0 (k \<in> A) (k \<in> fr_failed c) (fr_server c) k) \<and> faults_noted fault o0 c"

lemma brief_later:
  assumes "brief o0 srv k" and "rs_expiry srv' k = rs_expiry srv k" and "rs_now srv \<le> rs_now srv'"
  shows "brief o0 srv' k"
  using assms by (fastforce simp: brief_def)

lemma key_own_later:
  assumes "key_own o0 mine noted srv k" and "rs_expiry srv' k = rs_expiry srv k" and "rs_now srv \<le> rs_now srv'"
    and "noted \<Longrightarrow> noted'"
  shows "key_own o0 mine noted' srv' k"
  using assms brief_later [OF _ assms(2,3)] by (auto simp: key_own_def split: if_splits)

lemma key_own_new:
  assumes "brief o0 srv k" and "mine \<or> noted"
  shows "key_own o0 mine noted srv k"
  using assms by (auto simp: key_own_def)

lemma own_locks_later:
  assumes "own_locks fault o0 A c" and "rs_expiry srv = rs_expiry (fr_server c)" and "rs_now (fr_server c) \<le> rs_now srv"
  shows "own_locks fault o0 A (c\<lparr>fr_server := srv\<rparr>)"
proof -
  have "key_own o0 (k \<in> A) (k \<in> fr_failed c) srv k" for k
    using assms key_own_later [of o0 "k \<in> A" "k \<in> fr_failed c" "fr_server c" k srv "k \<in> fr_failed c"]
    by (simp add: own_locks_def)
  with assms(1) show ?thesis by (simp add: own_locks_def faults_noted_def)
qed

text \<open>One call of the client: only its key changes, and a call that raises is noted.\<close>

lemma own_locks_call:
  assumes own: "own_locks fault o0 A c" and now: "rs_now (fr_server c') = rs_now (fr_server c)"
    and others: "\<And>j. j \<noteq> k \<Longrightarrow> rs_expiry (fr_server c') j = rs_expiry (fr_server c) j \<and> (j \<in> B \<longleftrightarrow> j \<in> A)"
    and calls: "fr_calls c' = fr_calls c + 1"
    and noted: "fr_failed c' = (if fault (fr_calls c) = None then fr_failed c else insert k (fr_failed c))"
    and key: "key_own o0 (k \<in> A) (k \<in> fr_failed c) (fr_server c) k \<Longrightarrow>
      key_own o0 (k \<in> B) (k \<in> fr_failed c') (fr_server c') k"
  shows "own_locks fault o0 B c'"
proof -
  have "key_own o0 (j \<in> B) (j \<in> fr_failed c') (fr_server c') j" for j
  proof (cases "j = k")
    case True
    with own key show ?thesis by (simp add: own_locks_def)
  next
    case False
    with own key_own_later [of o0 "j \<in> A" "j \<in> fr_failed c" "fr_server c" j "fr_server c'"] others noted now
    show ?thesis by (simp add: own_locks_def)
  qed
  moreover have "faults_noted fault o0 c'"
    using own unfolding own_locks_def faults_noted_def calls noted by (metis less_add_one less_SucI Suc_eq_plus1 le_SucI)
  ultimately show ?thesis by (simp add: own_locks_def)
qed

lemma own_locks_set:
  assumes own: "own_locks fault o0 A c" and key: "k \<in> lo_keys o0"
    and run: "redis_set_nx (faulty_redis fault) k (lo_ttl o0) c = (x, c')"
  shows "own_locks fault o0 (if x = Inr True then insert k A else A) c'"
proof -
  obtain ok srv where set: "server_set_nx k (lo_ttl o0) (fr_server c) = (ok, srv)" by fastforce
  then have srv: "rs_now srv = rs_now (fr_server c)" "\<And>j. j \<noteq> k \<Longrightarrow> rs_expiry srv j = rs_expiry (fr_server c) j"
    and new: "ok \<Longrightarrow> brief o0 srv k" and old: "\<not> ok \<Longrightarrow> srv = fr_server c"
    using key by (auto simp: server_set_nx_def brief_def split: if_splits)
  show ?thesis
  proof (cases "fault (fr_calls c)")
    case None
    with run set have "x = Inr ok" "c' = c\<lparr>fr_server := srv, fr_calls := fr_calls c + 1\<rparr>"
      by (auto simp: faulty_redis_def faulty_def reference_redis_def)
    with None srv new old show ?thesis
      by (intro own_locks_call [OF own, of c' k]) (auto intro: key_own_new)
  next
    case (Some f)
    obtain e executed where f: "f = (e, executed)" by fastforce
    with run set Some have "x = Inl e" "c' = \<lparr>fr_server = if executed then srv else fr_server c,
        fr_calls = fr_calls c + 1, fr_failed = insert k (fr_failed c)\<rparr>"
      by (auto simp: faulty_redis_def faulty_def reference_redis_def)
    with Some srv new old show ?thesis
      by (intro own_locks_call [OF own, of c' k]; cases ok) (auto intro: key_own_new key_own_later)
  qed
qed

lemma own_locks_delete:
  assumes own: "own_locks fault o0 A c" and run: "redis_delete (faulty_redis fault) k c = (x, c')"
  shows "own_locks fault o0 (A - {k}) c'"
proof -
  let ?srv = "server_delete k (fr_server c)"
  have srv: "rs_now ?srv = rs_now (fr_server c)" "\<And>j. j \<noteq> k \<Longrightarrow> rs_expiry ?srv j = rs_expiry (fr_server c) j"
    and gone: "rs_expiry ?srv k = None"
    by (simp_all add: server_delete_def)
  show ?thesis
  proof (cases "fault (fr_calls c)")
    case None
    with run have "c' = c\<lparr>fr_server := ?srv, fr_calls := fr_calls c + 1\<rparr>"
      by (auto simp: faulty_redis_def faulty_def reference_redis_def modifyP_apply)
    with None srv gone show ?thesis
      by (intro own_locks_call [OF own, of c' k]) (auto simp: key_own_def)
  next
    case (Some f)
    obtain e executed where f: "f = (e, executed)" by fastforce
    with run Some have "c' = \<lparr>fr_server = if executed then ?srv else fr_server c,
        fr_calls = fr_calls c + 1, fr_failed = insert k (fr_failed c)\<rparr>"
      by (auto simp: faulty_redis_def faulty_def reference_redis_def modifyP_apply)
    with Some srv gone show ?thesis
      by (intro own_locks_call [OF own, of c' k]) (auto simp: key_own_def split: if_splits)
  qed
qed

section \<open>Acquiring and releasing\<close>

lemma acquire_loop_own:
  assumes M: "rm_redis M = faulty_redis fault" and own: "own_locks fault o0 A c" and key: "k \<in> lo_keys o0"
    and run: "acquire_loop M k (lo_ttl o0) deadline c = Some (x, c')"
  shows "own_locks fault o0 (case x of Inl e \<Rightarrow> A | Inr _ \<Rightarrow> insert k A) c'"
  using own run
proof (induction "nat (deadline - rs_now (fr_server c))" arbitrary: c rule: less_induct)
  case less
  obtain y c1 where set: "redis_set_nx (faulty_redis fault) k (lo_ttl o0) c = (y, c1)" by fastforce
  have kept: "y = Inr True \<Longrightarrow> own_locks fault o0 (insert k A) c1" "y \<noteq> Inr True \<Longrightarrow> own_locks fault o0 A c1"
    using own_locks_set [OF less.prems(1) key set] by (simp_all split: if_splits)
  have time: "loop_time (faulty_redis fault) c = rs_now (fr_server c)" for c by (simp add: faulty_redis_def reference_redis_def)
  have late: "rs_now (fr_server c) \<le> rs_now (fr_server c1)"
    using faulty_redis_clock [of fault] set unfolding clock_laws_def time by (metis snd_conv)
  let ?slept = "\<lambda>d. c1\<lparr>fr_server := (fr_server c1)\<lparr>rs_now := rs_now (fr_server c1) + max 0 d\<rparr>\<rparr>"
  have sleep: "loop_sleep (faulty_redis fault) d c1 = (Inr (), ?slept d)" for d
    by (simp add: faulty_redis_def reference_redis_def modifyP_apply)
  have loop: "acquire_loop M k (lo_ttl o0) deadline c = (case y of Inl e \<Rightarrow> Some (Inl e, c1)
    | Inr ok \<Rightarrow> (case after_poll deadline ok (rs_now (fr_server c1)) of
        Got \<Rightarrow> Some (Inr (), c1) | GiveUp \<Rightarrow> Some (Inl (lock_timeout k (rm_wait_text M)), c1)
      | SleepFor d \<Rightarrow> acquire_loop M k (lo_ttl o0) deadline (?slept d)))"
    by (subst acquire_loop.simps) (simp add: M set time sleep split: sum.splits after_poll.splits)
  show ?case
  proof (cases "\<exists>ok d. y = Inr ok \<and> after_poll deadline ok (rs_now (fr_server c1)) = SleepFor d")
    case True
    then obtain ok d where y: "y = Inr ok" and d: "after_poll deadline ok (rs_now (fr_server c1)) = SleepFor d" by blast
    then have "0 < d" "rs_now (fr_server c1) < deadline" "\<not> ok"
      by (auto simp: after_poll_def Let_def retry_interval_def split: if_splits)
    moreover from this have "own_locks fault o0 A (?slept d)"
      using kept(2) y by (intro own_locks_later) auto
    ultimately show ?thesis using less.hyps [of "?slept d"] less.prems(2) loop y d late by simp
  next
    case False
    with loop less.prems(2) kept show ?thesis
      by (cases y) (auto simp: after_poll_def Let_def split: if_splits)
  qed
qed

lemma release_all_own:
  assumes M: "rm_redis M = faulty_redis fault" and own: "own_locks fault o0 A c" and all: "A \<subseteq> set acquired"
    and run: "release_all M acquired c = (x, c')"
  shows "own_locks fault o0 {} c'"
proof -
  have one: "\<exists>b'. safe_release M k b = (Inr (), b') \<and> own_locks fault o0 (B - {k}) b'" if "own_locks fault o0 B b" for B k b
  proof -
    obtain z b' where del: "redis_delete (faulty_redis fault) k b = (z, b')" by (rule prod.exhaust)
    have "safe_release M k b = (Inr (), b')"
      unfolding safe_release_def tryP_apply M del by (cases z) (simp_all add: returnP_apply)
    with own_locks_delete [OF that del] show ?thesis by blast
  qed
  have rest: "own_locks fault o0 (B - set ks) (snd (forP (safe_release M) ks b))" if "own_locks fault o0 B b" for B ks b
    using that
  proof (induction ks arbitrary: B b)
    case (Cons k ks)
    obtain b' where b': "safe_release M k b = (Inr (), b')" "own_locks fault o0 (B - {k}) b'"
      using one [OF Cons.prems, of k] by blast
    have "own_locks fault o0 (B - {k} - set ks) (snd (forP (safe_release M) ks b'))" by (rule Cons.IH [OF b'(2)])
    moreover have "forP (safe_release M) (k # ks) b = forP (safe_release M) ks b'" by (simp add: thenP_apply b'(1))
    moreover have "B - set (k # ks) = B - {k} - set ks" by auto
    ultimately show ?case by (simp only:)
  qed (simp add: returnP_apply)
  have none: "A - set (rev acquired) = {}" using all by auto
  have "own_locks fault o0 {} (snd (release_all M acquired c))"
    using rest [OF own, of "rev acquired"] unfolding release_all_def none .
  with run show ?thesis by simp
qed

lemma redis_acquire_own:
  assumes M: "rm_redis M = faulty_redis fault" and run: "redis_acquire M (lo_ttl o0) keys acquired c = Some (x, c')"
    and own: "own_locks fault o0 (set acquired) c" and keys: "redis_key ` set keys \<subseteq> lo_keys o0"
  shows "own_locks fault o0 (case x of Inl e \<Rightarrow> {} | Inr acq \<Rightarrow> set acq) c'"
  using run own keys
proof (induction keys arbitrary: acquired c)
  case (Cons key keys)
  have clock: "clock_laws (rm_redis M)" by (simp add: M faulty_redis_clock)
  obtain y c1 where single: "acquire_single M (redis_key key) (lo_ttl o0) c = Some (y, c1)"
    using acquire_loop_returns [OF clock] unfolding acquire_single_def by blast
  then have kept: "own_locks fault o0 (case y of Inl e \<Rightarrow> set acquired | Inr _ \<Rightarrow> insert (redis_key key) (set acquired)) c1"
    using acquire_loop_own [OF M Cons.prems(2)] Cons.prems(3) by (simp add: acquire_single_def)
  show ?case
  proof (cases y)
    case (Inl e)
    obtain c2 where "release_all M acquired c1 = (Inr (), c2)" using release_all_quiet [of M acquired c1] by blast
    moreover from this have "own_locks fault o0 {} c2" using release_all_own [OF M _ subset_refl] kept Inl by simp
    ultimately show ?thesis using Cons.prems(1) single Inl by (auto simp: Let_def thenP_apply raiseP_apply)
  next
    case (Inr u)
    with Cons.IH [of "acquired @ [redis_key key]" c1] Cons.prems single kept show ?thesis by simp
  qed
qed auto

section \<open>A transfer\<close>

lemma with_redis_lock_own:
  assumes M: "rm_redis M = faulty_redis fault" and kept: "keeps w_lock m"
    and own: "own_locks fault o0 {} (w_lock w)" and keys: "redis_key ` set keys \<subseteq> lo_keys o0"
  shows "own_locks fault o0 {} (w_lock (snd (with_lock (redis_lock M (lo_ttl o0)) keys m w)))"
proof -
  have clock: "clock_laws (rm_redis M)" by (simp add: M faulty_redis_clock)
  obtain x c where acq: "redis_acquire M (lo_ttl o0) keys [] (w_lock w) = Some (x, c)"
    using redis_acquire_returns_all [OF clock] by blast
  have taken: "own_locks fault o0 (case x of Inl e \<Rightarrow> {} | Inr acq \<Rightarrow> set acq) c"
    using redis_acquire_own [OF M acq _ keys] own by simp
  show ?thesis
  proof (cases x)
    case (Inl e)
    with acq taken show ?thesis by (simp add: with_lock_def withP_apply in_lock_def redis_lock_def)
  next
    case (Inr acquired)
    obtain y v where body: "m (relock c w) = (y, v)" by fastforce
    with keepsD [OF kept, of "relock c w"] have lock: "w_lock v = c" by simp
    obtain c' where rel: "release_all M acquired c = (Inr (), c')" using release_all_quiet [of M acquired c] by blast
    have "snd (with_lock (redis_lock M (lo_ttl o0)) keys m w) = relock c' v"
      using acq Inr body lock rel
      by (cases y) (simp_all add: with_lock_def withP_apply in_lock_def redis_lock_def thenP_apply returnP_apply raiseP_apply)
    with release_all_own [OF M _ subset_refl rel] taken Inr show ?thesis by simp
  qed
qed

lemma transfer_new_own:
  assumes M: "rm_redis M = faulty_redis fault" and own: "own_locks fault o0 {} (w_lock w)"
    and keys: "redis_key ` set (lock_keys (tc_from_account_id cmd) (tc_to_account_id cmd)) \<subseteq> lo_keys o0"
  shows "own_locks fault o0 {} (w_lock (snd (transfer_new U (redis_lock M (lo_ttl o0)) B cmd \<omega> w)))"
proof -
  let ?rest = "\<lambda>(s, r, tx). thenP (transfer_publish B s r tx)
      (bindP (in_uow (read_tx tx)) (\<lambda>t. returnP (transaction_dto_of t)))"
  have "keeps w_lock (?rest t)" for t by (cases t) auto
  then have "w_lock (snd (bindP m ?rest w)) = w_lock (snd (m w))" for m by (rule keeps_after)
  then show ?thesis
    using own by (auto simp: transfer_new_def bindP_apply [of "liftP m" for m] liftP_apply split: sum.splits
        intro!: with_redis_lock_own [OF M _ _ keys])
qed

lemma transfer_own:
  assumes M: "rm_redis M = faulty_redis fault" and own: "own_locks fault o0 {} (w_lock w)"
    and keys: "redis_key ` set (lock_keys (tc_from_account_id cmd) (tc_to_account_id cmd)) \<subseteq> lo_keys o0"
  shows "own_locks fault o0 {} (w_lock (snd (transfer_initiate U (redis_lock M (lo_ttl o0)) B cmd \<omega> w)))"
proof -
  obtain y v where first: "transfer_existing U (tc_idempotency_key cmd) w = (y, v)" by fastforce
  then have lock: "w_lock v = w_lock w" by (metis transfer_existing_def in_uow_lock snd_conv)
  have "keeps w_lock (bindP (in_uow (read_tx r)) (\<lambda>t. returnP (transaction_dto_of t)))" for r by auto
  then have "w_lock (snd (bindP (in_uow (read_tx r)) (\<lambda>t. returnP (transaction_dto_of t)) v)) = w_lock v" for r
    by (rule keepsD)
  with first lock own transfer_new_own [OF M _ keys, of v U B \<omega>] show ?thesis
    by (simp add: transfer_initiate_def bindP_apply [of "transfer_existing U k" for k] split: sum.splits option.splits)
qed

text \<open>What the invariant says of a whole transfer.\<close>

lemma own_locks_start:
  "fr_failed c = {} \<Longrightarrow> own_locks fault \<lparr>lo_expiry = rs_expiry (fr_server c), lo_calls = fr_calls c, lo_keys = K, lo_ttl = ttl\<rparr> {} c"
  by (simp add: own_locks_def key_own_def faults_noted_def)

lemma own_locks_end:
  assumes "own_locks fault o0 {} c"
  shows "rs_expiry (fr_server c) k \<in> {None, lo_expiry o0 k} \<or> k \<in> fr_failed c \<and> k \<in> lo_keys o0 \<and>
      (\<exists>t \<le> rs_now (fr_server c) + seconds (lo_ttl o0). rs_expiry (fr_server c) k = Some t)"
    and "\<forall>n. lo_calls o0 \<le> n \<and> n < fr_calls c \<longrightarrow> fault n = None \<Longrightarrow> fr_failed c = {}"
proof -
  have "key_own o0 False (k \<in> fr_failed c) (fr_server c) k" using assms by (simp add: own_locks_def)
  then show "rs_expiry (fr_server c) k \<in> {None, lo_expiry o0 k} \<or> k \<in> fr_failed c \<and> k \<in> lo_keys o0 \<and>
      (\<exists>t \<le> rs_now (fr_server c) + seconds (lo_ttl o0). rs_expiry (fr_server c) k = Some t)"
    by (cases "rs_expiry (fr_server c) k") (auto simp: key_own_def brief_def)
qed (use assms in \<open>simp add: own_locks_def faults_noted_def\<close>)

text \<open>A \<open>DEL\<close> that does not reach the server is passed over, and the lock stays.\<close>

lemma safe_release_lost:
  assumes "rm_redis M = faulty_redis fault" and "fault (fr_calls c) = Some (e, False)"
  shows "safe_release M k c = (Inr (), c\<lparr>fr_calls := fr_calls c + 1, fr_failed := insert k (fr_failed c)\<rparr>)"
  using assms by (simp add: safe_release_def tryP_apply faulty_redis_def faulty_def returnP_apply split: prod.splits)

lemma release_all_lost:
  assumes "rm_redis M = faulty_redis fault" and "\<forall>n \<ge> fr_calls c. \<exists>e. fault n = Some (e, False)"
  shows "\<exists>c'. release_all M acquired c = (Inr (), c') \<and> fr_server c' = fr_server c"
proof -
  have "\<exists>c'. forP (safe_release M) ks c = (Inr (), c') \<and> fr_server c' = fr_server c"
    if "\<forall>n \<ge> fr_calls c. \<exists>e. fault n = Some (e, False)" for ks c
    using that
  proof (induction ks arbitrary: c)
    case (Cons k ks)
    then obtain e where "fault (fr_calls c) = Some (e, False)" by blast
    note one = safe_release_lost [OF assms(1) this, of k]
    let ?c = "c\<lparr>fr_calls := fr_calls c + 1, fr_failed := insert k (fr_failed c)\<rparr>"
    have "\<exists>c'. forP (safe_release M) ks ?c = (Inr (), c') \<and> fr_server c' = fr_server ?c"
      by (rule Cons.IH) (use Cons.prems in simp)
    with one show ?case by (simp add: thenP_apply)
  qed (simp add: returnP_apply)
  from this [OF assms(2), of "rev acquired"] show ?thesis by (simp add: release_all_def)
qed

text \<open>A transfer whose connection breaks once it has taken its two free keys: whatever it does, both stay.\<close>

lemma acquire_faultless:
  assumes "rm_redis M = faulty_redis fault" and "fault (fr_calls c) = None" and "\<not> active (fr_server c) k"
  shows "acquire_single M k ttl c = Some (Inr (), c\<lparr>fr_calls := fr_calls c + 1,
    fr_server := (fr_server c)\<lparr>rs_expiry := (rs_expiry (fr_server c))(k \<mapsto> rs_now (fr_server c) + seconds ttl)\<rparr>\<rparr>)"
  unfolding acquire_single_def
  by (subst acquire_loop.simps)
    (simp add: assms faulty_redis_def faulty_def reference_redis_def server_set_nx_def after_poll_def)

lemma acquire_two_faultless:
  assumes M: "rm_redis M = faulty_redis fault" and "fault (fr_calls c) = None" "fault (fr_calls c + 1) = None"
    and free: "rs_expiry (fr_server c) = (\<lambda>_. None)" and "a \<noteq> b"
  shows "\<exists>acq c'. redis_acquire M ttl [a, b] [] c = Some (Inr acq, c') \<and> fr_calls c' = fr_calls c + 2 \<and>
    rs_now (fr_server c') = rs_now (fr_server c) \<and>
    rs_expiry (fr_server c') = (\<lambda>k. if k \<in> redis_key ` {a, b} then Some (rs_now (fr_server c) + seconds ttl) else None)"
proof -
  let ?t = "rs_now (fr_server c) + seconds ttl"
  let ?c = "c\<lparr>fr_calls := fr_calls c + 1, fr_server := (fr_server c)\<lparr>rs_expiry := (\<lambda>_. None)(redis_key a \<mapsto> ?t)\<rparr>\<rparr>"
  have "acquire_single M (redis_key a) ttl c = Some (Inr (), ?c)"
    using acquire_faultless [OF M assms(2), of "redis_key a" ttl] free by (simp add: active_def)
  moreover have "\<not> active (fr_server ?c) (redis_key b)" using assms(5) by (simp add: active_def)
  note acquire_faultless [OF M _ this, of ttl]
  ultimately show ?thesis using assms(3,5) by (auto simp: fun_eq_iff Let_def)
qed

lemma with_lock_lost:
  assumes M: "rm_redis M = faulty_redis fault" and kept: "keeps w_lock m"
    and acq: "redis_acquire M ttl keys [] (w_lock w) = Some (Inr acq, c)" and lost: "\<forall>n \<ge> fr_calls c. \<exists>e. fault n = Some (e, False)"
  shows "fr_server (w_lock (snd (with_lock (redis_lock M ttl) keys m w))) = fr_server c"
proof -
  obtain y v where body: "m (relock c w) = (y, v)" by fastforce
  with keepsD [OF kept, of "relock c w"] have lock: "w_lock v = c" by simp
  obtain c' where rel: "release_all M acq c = (Inr (), c')" "fr_server c' = fr_server c"
    using release_all_lost [OF M lost, of acq] by blast
  have "snd (with_lock (redis_lock M ttl) keys m w) = relock c' v"
    using acq body lock rel(1)
    by (cases y) (simp_all add: with_lock_def withP_apply in_lock_def redis_lock_def thenP_apply returnP_apply raiseP_apply)
  with rel(2) show ?thesis by simp
qed

end
