(* ===== verification/Container_Properties.thy ===== *)
theory Container_Properties
  imports Sql_Properties Redis_Faults
begin

text \<open>The properties of transfers in the running application: database, Redis locks and event bus together.\<close>

section \<open>A running application\<close>

text \<open>The sample database behind its counting session, and an empty Redis server.\<close>

definition running_world :: "((nat \<times> session) sql_uow, redis_server, domain_event list) world" where
  "running_world = relock \<lparr>rs_expiry = (\<lambda>_. None), rs_now = 0\<rparr> counting_world"

abbreviation running_session :: "(nat \<times> session) session_port" where
  "running_session \<equiv> counting_session sample_refuse"

lemma running_view [simp]: "container_view snd running_world = sql_view snd counting_world"
  by (simp add: container_view_def running_world_def relock_def abs_world_def counting_world_def)

lemma running_lock [simp]: "w_lock running_world = \<lparr>rs_expiry = (\<lambda>_. None), rs_now = 0\<rparr>"
  by (simp add: running_world_def)

section \<open>Transfers\<close>

text \<open>C1: A transfer of the running application implements the transactional bank on every branch, over any lawful
  database session and any Redis client whose clock runs: its answer and what is stored are those of
  \<open>bank_transfer\<close>, for which no account is ever busy; or the database refuses the commit because a value does not
  fit its column; or a lock is not got, because the client raises or because one of the two accounts stayed locked for
  the whole wait timeout. In the last two cases nothing is stored and nothing is published.\<close>

theorem container_transfer_refines_bank:
  assumes "session_laws refuse S f" and "clock_laws R" and "tc_from_account_id cmd \<noteq> tc_to_account_id cmd"
    and "sql_call_ok cmd \<omega> (container_view f w) amt" and "container_transfer S R cmd \<omega> w = (x, w')"
  shows "(map_sum abs_failure abs_dto x, abs_sql (container_view f w')) =
        bank_transfer False (tc_from_account_id cmd) (tc_to_account_id cmd) (money_cents amt) (money_currency amt)
          (tc_idempotency_key cmd) (abs_sql (container_view f w)) \<and> sql_ok (sql_stored (container_view f w')) \<or>
    (\<exists>e. x = Inl e \<and> sql_stored (container_view f w') = sql_stored (container_view f w) \<and> w_bus w' = w_bus w \<and>
      (lock_refused R cmd e \<or>
       \<not> sql_room cmd amt (sql_stored (container_view f w)) \<and> (\<exists>D. \<not> db_valid D \<and> e = refuse D)))"
  using container_transfer_outcome [OF assms(1-3,5)]
proof
  assume "transfer_initiate (sqlalchemy_uow (reference_session refuse)) in_memory_lock in_memory_bus cmd \<omega>
      (container_view f w) = (x, container_view f w')"
  from sql_transfer_outcome [OF assms(4) this] show ?thesis
    by (auto simp: sql_outcome_def sql_bank_call_def)
qed blast

lemma container_transfer_refines_bank_witness:
  "\<exists>x w'. container_transfer running_session reference_redis (sample_order 1 3 200 ''k'') reads running_world = (x, w') \<and>
     (map_sum abs_failure abs_dto x = Inl (Refused IsFrozen) \<or>
      (\<exists>e. x = Inl e \<and> lock_refused reference_redis (sample_order 1 3 200 ''k'') e))"
proof -
  obtain x w' where r: "container_transfer running_session reference_redis (sample_order 1 3 200 ''k'') reads running_world =
      (x, w')" by fastforce
  have room: "sql_room (sample_order 1 3 200 ''k'') (eur 200) sample_db"
    by (simp add: sql_room_def sample_row_domain abs_account_def column_cents_def)
  have ne: "tc_from_account_id (sample_order 1 3 200 ''k'') \<noteq> tc_to_account_id (sample_order 1 3 200 ''k'')"
    by (simp add: uid_inject)
  have ok: "sql_call_ok (sample_order 1 3 200 ''k'') reads (container_view snd running_world) (eur 200)"
    by (simp add: sample_sql_call)
  from container_transfer_refines_bank [OF counting_session_lawful reference_redis_clock ne ok r] room
  have "map_sum abs_failure abs_dto x = Inl (Refused IsFrozen) \<or>
      (\<exists>e. x = Inl e \<and> lock_refused reference_redis (sample_order 1 3 200 ''k'') e)"
    by (auto simp: bank_transfer_def abs_sql_fields uid_inject sample_row_domain account_currency_def abs_account_def)
  with r show ?thesis by blast
qed

text \<open>C20: However a transfer of the running application ends, and whichever calls of the Redis client raise, before or
  after the server has executed them, it leaves no lock of its own on the server but where a call failed: every key is
  afterwards gone or as it was before, or it is one of the transfer's two keys, a call for it has raised, and it expires
  within the time to live of thirty seconds. When no call made by the transfer has raised, none is left. A \<open>DEL\<close> that
  does not reach the server is indeed passed over in silence, with the lock still there.\<close>

theorem container_no_lock_left:
  assumes "fr_failed (w_lock w) = {}" and "container_transfer S (faulty_redis fault) cmd \<omega> w = (x, w')"
  shows "(\<forall>k. rs_expiry (fr_server (w_lock w')) k \<in> {None, rs_expiry (fr_server (w_lock w)) k} \<or>
      k \<in> fr_failed (w_lock w') \<and> k \<in> redis_key ` {uuid_str (tc_from_account_id cmd), uuid_str (tc_to_account_id cmd)} \<and>
      (\<exists>t \<le> rs_now (fr_server (w_lock w')) + seconds 30. rs_expiry (fr_server (w_lock w')) k = Some t)) \<and>
    ((\<forall>n. fr_calls (w_lock w) \<le> n \<and> n < fr_calls (w_lock w') \<longrightarrow> fault n = None) \<longrightarrow> fr_failed (w_lock w') = {}) \<and>
    (\<forall>c e k. fault (fr_calls c) = Some (e, False) \<longrightarrow>
      (\<exists>c'. safe_release (container_lock_manager (faulty_redis fault)) k c = (Inr (), c') \<and> fr_server c' = fr_server c))"
proof -
  let ?keys = "lock_keys (tc_from_account_id cmd) (tc_to_account_id cmd)"
  let ?o = "\<lparr>lo_expiry = rs_expiry (fr_server (w_lock w)), lo_calls = fr_calls (w_lock w), lo_keys = redis_key ` set ?keys,
    lo_ttl = default_ttl\<rparr>"
  have "own_locks fault ?o {} (w_lock w')"
    using transfer_own [OF container_lock_manager_simps(1) own_locks_start [OF assms(1)], of cmd "redis_key ` set ?keys"
        default_ttl fault "container_uow S" in_memory_bus \<omega>] assms(2)
    by (simp add: container_transfer_def)
  note final = own_locks_end [OF this]
  have keys: "set ?keys = {uuid_str (tc_from_account_id cmd), uuid_str (tc_to_account_id cmd)}" by (rule set_lock_keys)
  show ?thesis
    using final(1) final(2) safe_release_lost [OF container_lock_manager_simps(1)]
    by (auto simp: keys default_ttl_def)
qed

text \<open>A connection that breaks once both locks are taken, however the transfer goes: both are still there.\<close>

definition broken_after_two :: faults where
  "broken_after_two n = (if n < 2 then None else Some (ExternalError ''ConnectionError'' [], False))"

lemma container_no_lock_left_witness:
  "\<exists>x w'. container_transfer running_session (faulty_redis broken_after_two) (sample_order 1 2 200 ''k'') reads
      (relock \<lparr>fr_server = w_lock running_world, fr_calls = 0, fr_failed = {}\<rparr> running_world) = (x, w') \<and>
    rs_expiry (fr_server (w_lock w')) (redis_key (uuid_str (uid 1))) = Some (seconds 30) \<and>
    redis_key (uuid_str (uid 1)) \<in> fr_failed (w_lock w') \<and>
    (\<forall>k. k \<notin> redis_key ` {uuid_str (uid 1), uuid_str (uid 2)} \<longrightarrow> rs_expiry (fr_server (w_lock w')) k = None)"
proof -
  let ?cmd = "sample_order 1 2 200 ''k''" and ?M = "container_lock_manager (faulty_redis broken_after_two)"
  let ?c0 = "\<lparr>fr_server = \<lparr>rs_expiry = (\<lambda>_. None), rs_now = 0\<rparr>, fr_calls = 0, fr_failed = {}\<rparr> :: faulty_client"
  let ?w = "relock ?c0 running_world"
  obtain x w' where run: "container_transfer running_session (faulty_redis broken_after_two) ?cmd reads ?w = (x, w')" by fastforce
  obtain y v where first: "transfer_existing (container_uow running_session) ''k'' ?w = (y, v)" by fastforce
  note there = container_existing [OF counting_session_lawful first]
  have y: "y = Inr None" using there sql_existing_none [of "''k''" "sql_view snd counting_world" sample_refuse] by simp
  have lock: "w_lock v = ?c0" using first by (metis transfer_existing_def in_uow_lock snd_conv relock_simps(3))
  obtain cur where arg: "parse_currency (tc_currency ?cmd) = Inr cur" "money_new (tc_amount ?cmd) cur = Inr (eur 200)"
    using sample_sql_call [of 200 1 2 "''k''"] by (auto simp: sql_call_ok_def sql_arg_def)
  have two: "length (lock_keys (uid 1) (uid 2)) = Suc (Suc 0)" by (simp add: lock_keys_def)
  have apart: "distinct (lock_keys (uid 1) (uid 2))" by (simp add: uid_inject)
  from two obtain a b where pair: "lock_keys (uid 1) (uid 2) = [a, b]" unfolding length_Suc_conv by auto
  from apart have keys: "lock_keys (uid 1) (uid 2) = [a, b]" "a \<noteq> b" unfolding pair by auto
  then have ab: "{a, b} = {uuid_str (uid 1), uuid_str (uid 2)}" using set_lock_keys [of "uid 1" "uid 2"] by simp
  have early: "broken_after_two (fr_calls ?c0) = None" "broken_after_two (fr_calls ?c0 + 1) = None"
    "rs_expiry (fr_server ?c0) = (\<lambda>_. None)" by (simp_all add: broken_after_two_def)
  from acquire_two_faultless [OF container_lock_manager_simps(1) this keys(2), of default_ttl]
  obtain acq c where acq: "redis_acquire ?M default_ttl [a, b] [] ?c0 = Some (Inr acq, c)" "fr_calls c = fr_calls ?c0 + 2"
    "rs_now (fr_server c) = rs_now (fr_server ?c0)"
    "rs_expiry (fr_server c) = (\<lambda>k. if k \<in> redis_key ` {a, b} then Some (rs_now (fr_server ?c0) + seconds default_ttl) else None)"
    by blast
  have lost: "\<forall>n \<ge> fr_calls c. \<exists>e. broken_after_two n = Some (e, False)" by (simp add: broken_after_two_def acq(2))
  let ?rest = "\<lambda>(s, r, tx). thenP (transfer_publish in_memory_bus s r tx)
      (bindP (in_uow (read_tx tx)) (\<lambda>t. returnP (transaction_dto_of t)))"
  have "keeps w_lock (?rest t)" for t by (cases t) auto
  then have rest: "w_lock (snd (bindP m ?rest v)) = w_lock (snd (m v))" for m by (rule keeps_after)
  let ?locked = "with_lock (redis_lock ?M default_ttl) [a, b] (in_uow (with_uow (container_uow running_session)
      (transfer_in_uow (container_uow running_session) (uid 1) (uid 2) (eur 200) ''k'' reads)))"
  have "bindP ?locked ?rest v = (x, w')"
    using run first y arg keys(1)
    by (simp add: container_transfer_def transfer_initiate_def bindP_apply [of "transfer_existing U k" for U k]
        transfer_new_def bindP_apply [of "liftP m" for m] liftP_apply)
  then have "w_lock w' = w_lock (snd (?locked v))" using rest [of ?locked] by simp
  moreover have "fr_server (w_lock (snd (?locked v))) = fr_server c"
    by (rule with_lock_lost [OF container_lock_manager_simps(1) _ _ lost]) (use acq(1) lock in auto)
  ultimately have kept: "fr_server (w_lock w') = fr_server c" by (simp only:)
  have key: "rs_expiry (fr_server (w_lock w')) (redis_key (uuid_str (uid 1))) = Some (seconds 30)"
    and others: "\<forall>k. k \<notin> redis_key ` {uuid_str (uid 1), uuid_str (uid 2)} \<longrightarrow> rs_expiry (fr_server (w_lock w')) k = None"
    unfolding kept acq(4) ab by (simp_all add: default_ttl_def)
  have clean: "fr_failed (w_lock ?w) = {}" and empty: "rs_expiry (fr_server (w_lock ?w)) k = None" for k by simp_all
  have "redis_key (uuid_str (uid 1)) \<in> fr_failed (w_lock w')"
    using container_no_lock_left [OF clean run, THEN conjunct1, THEN spec, of "redis_key (uuid_str (uid 1))"]
    unfolding key empty by simp
  with run key others show ?thesis unfolding running_lock by blast
qed

text \<open>C38: A transfer to the same account never reaches the domain's check: it takes the account's lock, asks for it
  again, and after the whole wait timeout of five seconds answers with the conflict of a busy account, with nothing
  stored or published.\<close>

theorem container_self_transfer_times_out:
  assumes "session_laws refuse S f" and "tc_from_account_id cmd = tc_to_account_id cmd"
    and "sql_call_ok cmd \<omega> (container_view f w) amt"
    and "find_tx_by_key (tc_idempotency_key cmd) (sql_stored (container_view f w)) = None"
    and "container_transfer S reference_redis cmd \<omega> w = (x, w')"
  shows "x = Inl (lock_timeout (redis_key (uuid_str (tc_from_account_id cmd))) ''5.0'') \<and>
    rs_now (w_lock w) + seconds 5 \<le> rs_now (w_lock w') \<and>
    sql_stored (container_view f w') = sql_stored (container_view f w) \<and> w_bus w' = w_bus w"
proof -
  let ?k = "uuid_str (tc_from_account_id cmd)" and ?M = "container_lock_manager reference_redis"
  obtain y v where first: "transfer_existing (container_uow S) (tc_idempotency_key cmd) w = (y, v)" by fastforce
  note there = container_existing [OF assms(1) first]
  have y: "y = Inr None" using there sql_existing_none [OF assms(4), of refuse] by simp
  have lock: "w_lock v = w_lock w" using first by (metis transfer_existing_def in_uow_lock snd_conv)
  obtain cur where arg: "parse_currency (tc_currency cmd) = Inr cur" "money_new (tc_amount cmd) cur = Inr amt"
    using assms(3) by (auto simp: sql_call_ok_def sql_arg_def)
  have "0 \<le> rm_wait_timeout ?M" "rm_wait_timeout ?M < seconds default_ttl" by (simp_all add: default_ttl_def seconds_def)
  then obtain srv where got: "redis_acquire ?M default_ttl [?k, ?k] [] (w_lock w) =
      Some (Inl (lock_timeout (redis_key ?k) ''5.0''), srv)" and time: "rs_now (w_lock w) + seconds 5 \<le> rs_now srv"
    using redis_acquire_twice [OF container_lock_manager_simps(1), of default_ttl ?k "w_lock w"]
    unfolding container_lock_manager_simps by blast
  have keys: "lock_keys (tc_from_account_id cmd) (tc_to_account_id cmd) = [?k, ?k]"
    using assms(2) by (simp add: lock_keys_def)
  have "lock_acquire (redis_lock ?M default_ttl) (lock_keys (tc_from_account_id cmd) (tc_to_account_id cmd)) (w_lock v) =
      (Inl (lock_timeout (redis_key ?k) ''5.0''), srv)"
    using got by (simp add: keys lock redis_lock_def)
  note refused = redis_quiet.with_lock_raises [OF this]
  from assms(5) first y arg have "x = Inl (lock_timeout (redis_key ?k) ''5.0'') \<and> w' = relock srv v"
    by (simp add: container_transfer_def transfer_initiate_def bindP_apply transfer_new_def liftP_apply refused)
  with time sql_existing_reads(1,2) [OF there] show ?thesis by simp
qed

lemma container_self_transfer_times_out_witness:
  "\<exists>w'. container_transfer running_session reference_redis (sample_order 1 1 200 ''k'') reads running_world =
       (Inl (lock_timeout (redis_key (uuid_str (uid 1))) ''5.0''), w') \<and> seconds 5 \<le> rs_now (w_lock w') \<and>
     sql_stored (container_view snd w') = sample_db"
proof -
  obtain x w' where r: "container_transfer running_session reference_redis (sample_order 1 1 200 ''k'') reads running_world =
      (x, w')" by fastforce
  have ok: "sql_call_ok (sample_order 1 1 200 ''k'') reads (container_view snd running_world) (eur 200)"
    by (simp add: sample_sql_call)
  have fresh: "find_tx_by_key (tc_idempotency_key (sample_order 1 1 200 ''k'')) (sql_stored (container_view snd running_world)) = None"
    by simp
  have self: "tc_from_account_id (sample_order 1 1 200 ''k'') = tc_to_account_id (sample_order 1 1 200 ''k'')" by simp
  from container_self_transfer_times_out [OF counting_session_lawful self ok fresh r] r show ?thesis by simp
qed

section \<open>Two requests with the same key\<close>

lemma stored_after_success:
  assumes "session_laws refuse S f" and "clock_laws R" and "tc_from_account_id cmd \<noteq> tc_to_account_id cmd"
    and "sql_call_ok cmd \<omega> (container_view f w) amt" and "container_transfer S R cmd \<omega> w = (Inr dto, w')"
  obtains row where "find_tx_by_key (tc_idempotency_key cmd) (sql_stored (container_view f w')) = Some row"
proof -
  have "(Inr (abs_dto dto), abs_sql (container_view f w')) =
      bank_transfer False (tc_from_account_id cmd) (tc_to_account_id cmd) (money_cents amt) (money_currency amt)
        (tc_idempotency_key cmd) (abs_sql (container_view f w))"
    using container_transfer_outcome [OF assms(1-3,5)] sql_transfer_outcome [OF assms(4)]
    by (fastforce simp: sql_outcome_def sql_bank_call_def)
  from bank_transfer_recorded [OF this [symmetric]] have "bk_transfers (abs_sql (container_view f w')) (tc_idempotency_key cmd) \<noteq> None"
    by simp
  then show thesis using that by (auto simp: abs_sql_fields bind_eq_None_conv)
qed

text \<open>C15: A key moves money once, even in the race the idempotency check leaves open because it runs before the lock: if a
  second request with the same key has checked it (\<open>v\<close> is the state after its check), the first one then transfers,
  and only then the second one goes on, whatever accounts and amount it asks for, it fails with an exception, with
  nothing stored and nothing published. It is not answered with the first request's result.\<close>

theorem racing_duplicate_refused:
  assumes "session_laws refuse S f" and "clock_laws R" and "tc_idempotency_key second = tc_idempotency_key cmd"
    and "transfer_existing (container_uow S) (tc_idempotency_key second) w = (Inr None, v)"
    and "tc_from_account_id cmd \<noteq> tc_to_account_id cmd" and "sql_call_ok cmd \<omega> (container_view f v) amt"
    and "container_transfer S R cmd \<omega> v = (Inr dto, u)"
    and "sql_call_ok second \<omega>' (container_view f u) amt'"
    and "transfer_new (container_uow S) (redis_lock (container_lock_manager R) default_ttl) in_memory_bus second \<omega>' u = (x, w')"
  shows "\<exists>e. x = Inl e \<and> sql_stored (container_view f w') = sql_stored (container_view f u) \<and> w_bus w' = w_bus u"
proof -
  obtain row where "find_tx_by_key (tc_idempotency_key second) (sql_stored (container_view f u)) = Some row"
    using stored_after_success [OF assms(1,2,5-7)] assms(3) by metis
  from container_late_duplicate [OF assms(1,8) this assms(9)] show ?thesis .
qed

text \<open>Two requests for 2.00 EUR from the first account to the second.\<close>

lemma running_transfer:
  assumes "container_view snd v = sql_begin (sql_view snd counting_world)" and "w_lock v = w_lock running_world"
    and "container_transfer running_session reference_redis (sample_order 1 2 200 ''k'') reads v = (x, u)"
  shows "\<exists>dto. x = Inr dto" and "sql_ok (sql_stored (container_view snd u))"
    and "find_tx (uid 501) (sql_stored (container_view snd u)) = None"
proof -
  let ?cmd = "sample_order 1 2 200 ''k''" and ?w = "sql_begin (sql_view snd counting_world)"
  have ne: "tc_from_account_id ?cmd \<noteq> tc_to_account_id ?cmd" by (simp add: uid_inject)
  have run: "transfer_initiate (sqlalchemy_uow (reference_session sample_refuse)) in_memory_lock in_memory_bus ?cmd reads ?w =
      (x, container_view snd u)"
    using container_transfer_free [OF counting_session_lawful ne _ assms(3)] by (simp add: assms(1,2) active_def)
  obtain a b tx where "sql_ready ?cmd reads (sql_view snd counting_world) (eur 200)
      (sample_row 1 500 ACTIVE) a (sample_row 2 100 ACTIVE) b tx"
    by (rule sample_sql_ready [of 200 1 2 "sample_row 2 100 ACTIVE" "''k''"]) auto
  note ledgers = sample_ledgers [OF this] and this
  then have ready: "sql_ready ?cmd reads ?w (eur 200) (sample_row 1 500 ACTIVE) a (sample_row 2 100 ACTIVE) b tx"
    by (simp add: sql_ready_def sql_call_ok_def locks_free_def)
  note facts = sql_ready_facts [OF ready]
  obtain a' where a': "debit (eur 200) (entity_id tx) (reads 2) a = Inr a'"
    using loaded_accepts(1) [OF ready] by (auto simp: ledgers)
  obtain b' where b': "credit (eur 200) (entity_id tx) (reads 3) b = Inr b'"
    using loaded_accepts(2) [OF ready] by (auto simp: ledgers max_cents_def)
  have step: "account_ok a' \<and> entity_id a' = entity_id a \<and> ledger_step (LDebit 200 EUR) (abs_account a) = Inr (abs_account a')"
    "account_ok b' \<and> entity_id b' = entity_id b \<and> ledger_step (LCredit 200 EUR) (abs_account b) = Inr (abs_account b')"
    using account_step_cases [OF facts(9), of "Debit (eur 200) (entity_id tx) (reads 2)"]
      account_step_cases [OF facts(11), of "Credit (eur 200) (entity_id tx) (reads 3)"] a' b'
    by (auto simp del: ledger_step.simps)
  have room: "sql_room ?cmd (eur 200) (sql_stored ?w)"
    by (simp add: sql_room_def sample_row_domain abs_account_def column_cents_def)
  let ?D = "sql_recorded (updated_accounts (sample_row 1 500 ACTIVE) a' (sample_row 2 100 ACTIVE) b' sample_db)
      (completed_tx reads tx) (domain_events a' @ domain_events b')"
  have valid: "db_valid ?D"
    using sql_room_moved [OF ready room, of a' b'] step by simp
  with sql_moved_outcome [OF ready a' b' _ _ _ _ refl run] step
  have out: "x = Inr (transaction_dto_of (completed_tx reads tx))" "sql_stored (container_view snd u) = ?D" by auto
  then show "\<exists>dto. x = Inr dto" by simp
  show "sql_ok (sql_stored (container_view snd u))"
    unfolding out(2) using recorded_updated_ok [OF sample_sql_ok valid] step facts(3,14) by simp
  have "entity_id tx = uid 1" using tx_initiate_Inr(6) [OF facts(17)] by simp
  then show "find_tx (uid 501) (sql_stored (container_view snd u)) = None"
    unfolding out(2)
    by (simp add: find_tx_def sql_recorded_def db_columns_def sample_db_def tx_to_new_orm_def column_tx_def uid_inject)
qed

lemma racing_duplicate_refused_witness:
  "\<exists>v dto u e w'. transfer_existing (container_uow running_session) ''k'' running_world = (Inr None, v) \<and>
     container_transfer running_session reference_redis (sample_order 1 2 200 ''k'') reads v = (Inr dto, u) \<and>
     transfer_new (container_uow running_session) (redis_lock (container_lock_manager reference_redis) default_ttl) in_memory_bus
       (sample_order 1 2 200 ''k'') (\<lambda>n. reads (n + 5)) u = (Inl e, w') \<and>
     sql_stored (container_view snd w') = sql_stored (container_view snd u)"
proof -
  let ?cmd = "sample_order 1 2 200 ''k''"
  obtain y v where check: "transfer_existing (container_uow running_session) ''k'' running_world = (y, v)" by fastforce
  have view: "y = Inr None" "container_view snd v = sql_begin (sql_view snd counting_world)"
    using container_existing [OF counting_session_lawful check] sql_existing_none [of "''k''" "sql_view snd counting_world" sample_refuse]
    by simp_all
  have lock: "w_lock v = w_lock running_world" using check by (metis transfer_existing_def in_uow_lock snd_conv)
  obtain x u where first: "container_transfer running_session reference_redis ?cmd reads v = (x, u)" by fastforce
  note run = running_transfer [OF view(2) lock first]
  then obtain dto where dto: "x = Inr dto" by blast
  obtain z w' where second: "transfer_new (container_uow running_session) (redis_lock (container_lock_manager reference_redis) default_ttl)
      in_memory_bus ?cmd (\<lambda>n. reads (n + 5)) u = (z, w')" by fastforce
  have "sql_arg ?cmd (eur 200)" using sample_sql_call [of 200 1 2 "''k''"] by (simp add: sql_call_ok_def)
  then have ok: "sql_call_ok ?cmd (\<lambda>n. reads (n + 5)) (container_view snd u) (eur 200)"
    using run(2,3) by (simp add: sql_call_ok_def)
  have ok1: "sql_call_ok ?cmd reads (container_view snd v) (eur 200)"
    using sample_sql_call [of 200 1 2 "''k''"] by (simp add: sql_call_ok_def view(2))
  have ne: "tc_from_account_id ?cmd \<noteq> tc_to_account_id ?cmd" by (simp add: uid_inject)
  have check': "transfer_existing (container_uow running_session) (tc_idempotency_key ?cmd) running_world = (Inr None, v)"
    using check view(1) by simp
  from racing_duplicate_refused [OF counting_session_lawful reference_redis_clock refl check' ne ok1 first [unfolded dto] ok second]
  show ?thesis using check view(1) first dto second by auto
qed

end
