(* ===== verification/Api.thy ===== *)
theory Api
  imports Http Container
begin

text \<open>
  The whole application: \<open>create_app\<close> of \<open>src/main.py\<close> puts the four routers, the exception handlers and the request
  id middleware together, over the services of the container.

  \<^item> A call is one of the six endpoints with what FastAPI has parsed of its path and body; \<open>endpoint\<close> is the router.
  \<^item> \<open>serve\<close> is a request from the middleware to the response. Starlette runs the handler of \<open>Exception\<close> outside the
    middleware and the other handlers inside it, so an unhandled exception passes the middleware by.
\<close>

section \<open>Endpoints\<close>

datatype api_call =
    GetHealth
  | PostDevToken "uuid option"
  | PostAccount create_account_request
  | GetAccount uuid
  | PostTransfer transfer_request
  | GetTransaction uuid

text \<open>What a request brings: its headers, its call, and the readings of the environment while it is served.\<close>

record api_request =
  rq_http :: http_request
  rq_call :: api_call
  rq_request_id :: "string option"
  rq_readings :: "nat \<Rightarrow> readings"
  rq_fresh_user :: uuid
  rq_fresh_request_id :: uuid

type_synonym ('d, 'r) app_world = "('d sql_uow, 'r, domain_event list) world"

text \<open>The status of a success and the program of the endpoint.\<close>

definition endpoint ::
  "settings \<Rightarrow> 'd session_port \<Rightarrow> 'r redis_port \<Rightarrow> api_request \<Rightarrow> nat \<times> (('d, 'r) app_world, fault, body) prog" where
  "endpoint S db redis_client rq = (case rq_call rq of
       GetHealth \<Rightarrow> (200, health)
     | PostDevToken u \<Rightarrow> (200, bindP (liftP (get_dev_token S u (rq_fresh_user rq))) (\<lambda>d. returnP (TokenBody d)))
     | PostAccount b \<Rightarrow> (201, create_account S (container_account_service db) (rq_http rq) b (rq_readings rq 0))
     | GetAccount i \<Rightarrow> (200, get_account S (container_account_service db) (rq_http rq) i)
     | PostTransfer b \<Rightarrow> (202, initiate_transfer S (container_account_service db) (container_transfer_service db redis_client)
         (rq_http rq) b (rq_readings rq))
     | GetTransaction i \<Rightarrow> (200, get_transaction (container_transfer_service db redis_client) i))"

section \<open>Serving a request\<close>

fun unhandled :: "fault + body \<Rightarrow> bool" where
  "unhandled (Inl (Fault e)) = (\<not> is_domain_exception e)"
| "unhandled _ = False"

definition serve ::
  "settings \<Rightarrow> 'd session_port \<Rightarrow> 'r redis_port \<Rightarrow> api_request \<Rightarrow> ('d, 'r) app_world \<Rightarrow> response \<times> ('d, 'r) app_world" where
  "serve S db redis_client rq w = (case endpoint S db redis_client rq of (status, program) \<Rightarrow>
     (case respond status program w of (resp, w') \<Rightarrow>
       (if unhandled (fst (program w)) then resp
        else with_request_id (rq_request_id rq) (rq_fresh_request_id rq) resp, w')))"

fun serve_all ::
  "settings \<Rightarrow> 'd session_port \<Rightarrow> 'r redis_port \<Rightarrow> api_request list \<Rightarrow> ('d, 'r) app_world \<Rightarrow> ('d, 'r) app_world" where
  "serve_all S db redis_client [] w = w"
| "serve_all S db redis_client (rq # rqs) w = serve_all S db redis_client rqs (snd (serve S db redis_client rq w))"

section \<open>What an endpoint does to the database\<close>

lemma sql_account_create_runs:
  assumes "account_service_create (sqlalchemy_uow (reference_session refuse)) cmd r w = (x, v)"
    and "find_account (rd_uuid r 0) (sql_stored w) = None"
  shows "(\<exists>e. x = Inl e \<and> sql_stored v = sql_stored w \<and> w_lock v = w_lock w \<and> w_bus v = w_bus w) \<or>
    (\<exists>a m. x = Inr (account_dto_of a) \<and> parse_currency (cac_currency cmd) = Inr (money_currency m) \<and>
       money_new (cac_initial_balance cmd) (money_currency m) = Inr m \<and> account_ok a \<and> entity_id a = rd_uuid r 0 \<and>
       owner_id a = cac_owner_id cmd \<and> balance a = m \<and> account_status a = ACTIVE \<and>
       sql_stored v = sql_opened a (sql_stored w) \<and> db_valid (sql_opened a (sql_stored w)) \<and> w_lock v = w_lock w \<and> w_bus v = w_bus w)"
proof (cases "bindR (parse_currency (cac_currency cmd)) (\<lambda>cur. bindR (money_new (cac_initial_balance cmd) cur)
    (\<lambda>m. bindR (account_create (cac_owner_id cmd) cur (Some m) r) (\<lambda>a. Inr (cur, m, a))))")
  case (Inl e)
  with assms(1) have "x = Inl e \<and> v = w"
    by (auto simp: account_service_create_def bindP_apply liftP_apply split: sum.splits)
  then show ?thesis by simp
next
  case (Inr t)
  then obtain cur m a where c: "parse_currency (cac_currency cmd) = Inr cur" "money_new (cac_initial_balance cmd) cur = Inr m"
    "account_create (cac_owner_id cmd) cur (Some m) r = Inr a"
    by (auto simp: bindR_Inr_iff)
  have m: "money_ok m" using c(2) by (simp add: money_new_ok)
  have a: "account_ok a" by (rule account_create_ok [OF c(3)]) (use m in simp)
  have fields: "entity_id a = rd_uuid r 0" "owner_id a = cac_owner_id cmd" "balance a = m" "account_status a = ACTIVE"
    "money_currency m = cur"
    using c(3) by (auto simp: account_create_def Let_def split: if_splits)
  have "find_account (entity_id a) (sql_stored w) = None" using assms(2) fields(1) by simp
  from sql_account_create [OF c this, of refuse] assms(1) c a fields show ?thesis
    by (auto split: if_splits)
qed

lemma sql_transfer_get:
  "\<exists>x v. transfer_get (sqlalchemy_uow (reference_session refuse)) i w = (x, v) \<and>
    sql_stored v = sql_stored w \<and> w_lock v = w_lock w \<and> w_bus v = w_bus w"
  by (cases w) (auto simp: transfer_get_def bindP_apply liftP_apply thenP_apply in_uow_def object_defs
      with_uow_reference sql_tx_get_def see_tx_def modifyP_apply on_db_apply sql_stored_def
      getP_apply returnP_apply raiseP_apply split: option.splits sum.splits)

text \<open>An opened account keeps the database in order when the commit accepts it.\<close>

lemma sql_opened_ok:
  assumes "sql_ok d" and "account_ok a" and "db_valid (sql_opened a d)"
  shows "sql_ok (sql_opened a d)"
proof -
  have "account_row_ok (column_account (account_to_new_orm a))"
    using stored_account_row(2) [OF assms(2), of "account_to_new_orm a"] by (simp add: account_to_new_orm_def)
  with assms sql_ok_columns(1,2) [OF assms(1)] show ?thesis
    by (simp add: sql_ok_def sql_opened_def db_columns_def)
qed

lemma sql_opened_rows:
  assumes "sql_ok d"
  shows "sql_opened a d = d\<lparr>db_accounts := db_accounts d @ [column_account (account_to_new_orm a)]\<rparr>"
  using sql_ok_columns(1,2) [OF assms] by (simp add: sql_opened_def db_columns_def)

section \<open>The services of the running application\<close>

lemma services_relock [intro]:
  "simulates (relock l) (account_service_create U cmd r) (account_service_create U cmd r)"
  "simulates (relock l) (account_service_get U i) (account_service_get U i)"
  "simulates (relock l) (transfer_get U i) (transfer_get U i)"
  unfolding account_service_create_def account_service_get_def transfer_get_def
  by (intro simulates_bindP simulates_thenP simulates_relock simulates_pure)+

lemma services_keep [intro]:
  "keeps w_lock (account_service_create U cmd r)" "keeps w_lock (account_service_get U i)" "keeps w_lock (transfer_get U i)"
  unfolding account_service_create_def account_service_get_def transfer_get_def
  by (intro keeps_bindP keeps_thenP keeps_in_uow keeps_pure)+

lemma container_services:
  fixes w :: "('d, 'r) app_world"
  assumes "session_laws refuse S f"
  shows "account_service_create (container_uow S) cmd r w = (x, v) \<Longrightarrow>
      account_service_create (sqlalchemy_uow (reference_session refuse)) cmd r (container_view f w) = (x, container_view f v) \<and>
      w_lock v = w_lock w"
    and "account_service_get (container_uow S) i w = (y, v) \<Longrightarrow>
      account_service_get (sqlalchemy_uow (reference_session refuse)) i (container_view f w) = (y, container_view f v) \<and>
      w_lock v = w_lock w"
    and "transfer_get (container_uow S) i w = (z, v) \<Longrightarrow>
      transfer_get (sqlalchemy_uow (reference_session refuse)) i (container_view f w) = (z, container_view f v) \<and>
      w_lock v = w_lock w"
proof -
  note sim = sql_simulates [OF assms]
  let ?R = "sqlalchemy_uow (reference_session refuse)" and ?free = "{} :: string set"
  show "account_service_create ?R cmd r (container_view f w) = (x, container_view f v) \<and> w_lock v = w_lock w"
    if "account_service_create (container_uow S) cmd r w = (x, v)"
    using simulatesD [OF account_service_simulates(1) [OF sim], of cmd r w]
      simulatesD [OF services_relock(1), of ?R cmd r ?free "sql_view f w"] keepsD [OF services_keep(1), of "container_uow S" cmd r w] that
    by (simp add: container_uow_def container_view_def)
  show "account_service_get ?R i (container_view f w) = (y, container_view f v) \<and> w_lock v = w_lock w"
    if "account_service_get (container_uow S) i w = (y, v)"
    using simulatesD [OF account_service_simulates(2) [OF sim], of i w]
      simulatesD [OF services_relock(2), of ?R i ?free "sql_view f w"] keepsD [OF services_keep(2), of "container_uow S" i w] that
    by (simp add: container_uow_def container_view_def)
  show "transfer_get ?R i (container_view f w) = (z, container_view f v) \<and> w_lock v = w_lock w"
    if "transfer_get (container_uow S) i w = (z, v)"
    using simulatesD [OF transfer_service_simulates(2) [OF sim], of i w]
      simulatesD [OF services_relock(3), of ?R i ?free "sql_view f w"] keepsD [OF services_keep(3), of "container_uow S" i w] that
    by (simp add: container_uow_def container_view_def)
qed

text \<open>What a request leaves as it was.\<close>

definition untouched :: "('d \<Rightarrow> session) \<Rightarrow> ('d, 'r) app_world \<Rightarrow> ('d, 'r) app_world \<Rightarrow> bool" where
  "untouched f w v \<longleftrightarrow> sql_stored (container_view f v) = sql_stored (container_view f w) \<and> w_lock v = w_lock w \<and> w_bus v = w_bus w"

text \<open>The account that a row is read as.\<close>

definition stored_account :: "db \<Rightarrow> account_id \<Rightarrow> account option" where
  "stored_account d i = Option.bind (find_account i d) (\<lambda>row. case account_to_domain row of Inl e \<Rightarrow> None | Inr a \<Rightarrow> Some a)"

lemma stored_account_get:
  fixes w :: "('d, 'r) app_world"
  assumes "session_laws refuse S f" and "sql_ok (sql_stored (container_view f w))"
    and "account_service_get (container_uow S) i w = (x, v)"
  shows "x = (case stored_account (sql_stored (container_view f w)) i of
      None \<Rightarrow> Inl (ResourceNotFoundError ''Account'' i) | Some a \<Rightarrow> Inr (account_dto_of a)) \<and> untouched f w v"
proof -
  note there = container_services(2) [OF assms(1,3)]
  note get = sql_account_get [of refuse i "container_view f w"]
  show ?thesis
  proof (cases "find_account i (sql_stored (container_view f w))")
    case None
    with there get show ?thesis by (auto simp: untouched_def stored_account_def)
  next
    case (Some row)
    with sql_ok_found(1) [OF assms(2)] row_ok_cases obtain a where "account_to_domain row = Inr a" by blast
    with Some there get show ?thesis by (auto simp: untouched_def stored_account_def)
  qed
qed

text \<open>The account a request has opened.\<close>

definition opened_by :: "settings \<Rightarrow> api_request \<Rightarrow> account \<Rightarrow> bool" where
  "opened_by cfg rq a \<longleftrightarrow> (\<exists>b u. rq_call rq = PostAccount b \<and> get_current_user cfg (rq_http rq) = Inr u \<and>
     owner_id a = au_user_id u \<and> money_new (car_initial_balance b) (car_currency b) = Inr (balance a) \<and>
     account_status a = ACTIVE \<and> entity_id a = rd_uuid (rq_readings rq 0) 0)"

lemma create_account_effect:
  fixes w :: "('d, 'r) app_world"
  assumes laws: "session_laws refuse S f" and new: "find_account (rd_uuid (rq_readings rq 0) 0) (sql_stored (container_view f w)) = None"
    and call: "rq_call rq = PostAccount b"
    and run: "create_account cfg (container_account_service S) (rq_http rq) b (rq_readings rq 0) w = (x, v)"
  shows "(\<exists>e. x = Inl e) \<and> untouched f w v \<or>
    (\<exists>a. opened_by cfg rq a \<and> account_ok a \<and> sql_stored (container_view f v) = sql_opened a (sql_stored (container_view f w)) \<and>
       db_valid (sql_opened a (sql_stored (container_view f w))) \<and> w_lock v = w_lock w \<and> w_bus v = w_bus w)"
proof (cases "get_current_user cfg (rq_http rq)")
  case (Inl e)
  with run show ?thesis by (auto simp: create_account_def bindP_apply liftP_apply untouched_def)
next
  case (Inr u)
  let ?cmd = "\<lparr>cac_owner_id = au_user_id u, cac_currency = currency_value (car_currency b), cac_initial_balance = car_initial_balance b\<rparr>"
  obtain y v' where made: "account_service_create (container_uow S) ?cmd (rq_readings rq 0) w = (y, v')" by fastforce
  with run Inr have v: "v = v'" and x: "\<And>e. y = Inl e \<Longrightarrow> x = Inl (Fault e)"
    by (auto simp: create_account_def bindP_apply liftP_apply callP_def returnP_apply split: sum.splits)
  note there = container_services(1) [OF laws made]
  from sql_account_create_runs [OF conjunct1 [OF there] new] show ?thesis
  proof (elim disjE exE conjE)
    fix e
    assume "y = Inl e" "sql_stored (container_view f v') = sql_stored (container_view f w)" "w_bus (container_view f v') = w_bus (container_view f w)"
    with x there v show ?thesis by (auto simp: untouched_def)
  next
    fix a m
    assume a: "parse_currency (cac_currency ?cmd) = Inr (money_currency m)"
      "money_new (cac_initial_balance ?cmd) (money_currency m) = Inr m" "account_ok a"
      "entity_id a = rd_uuid (rq_readings rq 0) 0" "owner_id a = cac_owner_id ?cmd" "balance a = m" "account_status a = ACTIVE"
      and d: "sql_stored (container_view f v') = sql_opened a (sql_stored (container_view f w))"
      "db_valid (sql_opened a (sql_stored (container_view f w)))" "w_bus (container_view f v') = w_bus (container_view f w)"
    have "money_currency m = car_currency b" using a(1) parse_value_simps(1) [of "car_currency b"] by simp
    with a Inr call have "opened_by cfg rq a" by (auto simp: opened_by_def)
    with a(3) d there v show ?thesis by auto
  qed
qed

text \<open>No other call changes anything.\<close>

lemma other_calls_effect:
  fixes w :: "('d, 'r) app_world"
  assumes laws: "session_laws refuse S f" and call: "\<And>b. rq_call rq \<noteq> PostAccount b"
  shows "untouched f w (snd (snd (endpoint cfg S R rq) w))"
proof (cases "rq_call rq")
  case (GetAccount i)
  obtain y v where got: "account_service_get (container_uow S) i w = (y, v)" by fastforce
  have "untouched f w v"
    using container_services(2) [OF laws got] sql_account_get [of refuse i "container_view f w"] by (auto simp: untouched_def)
  moreover have "snd (get_account cfg (container_account_service S) (rq_http rq) i w) \<in> {w, v}"
    using got by (auto simp: get_account_def bindP_apply liftP_apply callP_def returnP_apply raiseP_apply split: sum.splits)
  ultimately show ?thesis using GetAccount by (auto simp: endpoint_def untouched_def)
next
  case (GetTransaction i)
  obtain y v where got: "transfer_get (container_uow S) i w = (y, v)" by fastforce
  have "untouched f w v"
    using container_services(3) [OF laws got] sql_transfer_get [of refuse i "container_view f w"] by (auto simp: untouched_def)
  moreover have "snd (get_transaction (container_transfer_service S R) i w) = v"
    using got by (auto simp: get_transaction_def bindP_apply liftP_apply callP_def returnP_apply split: sum.splits)
  ultimately show ?thesis using GetTransaction by (simp add: endpoint_def)
qed (use call in \<open>auto simp: endpoint_def untouched_def health_def returnP_apply bindP_apply thenP_apply liftP_apply
    initiate_transfer_def ownership_check_unbound raiseP_apply split: sum.splits\<close>)

lemma serve_world: "snd (serve cfg S R rq w) = snd (snd (endpoint cfg S R rq) w)"
  by (simp add: serve_def respond_def split: prod.splits sum.splits)

end
