(* ===== verification/Api_Properties.thy ===== *)
theory Api_Properties
  imports Http_Properties Container_Properties Api
begin

text \<open>The properties of the whole application, from the request to the database.\<close>

section \<open>Request ids\<close>

text \<open>Which responses can be traced: a response carries exactly the request id the client sent, or a new one when it
  sent none, unless the request ended in an exception that is no domain exception; the response to such a failure has
  no id at all, and every authenticated transfer request ends so.\<close>

theorem request_id_exact:
  "map_of (rs_headers (fst (serve cfg S R rq w))) ''X-Request-ID'' =
      (if unhandled (fst (snd (endpoint cfg S R rq) w)) then None
       else Some (case rq_request_id rq of Some i \<Rightarrow> i | None \<Rightarrow> uuid_str (rq_fresh_request_id rq))) \<and>
   (case rq_call rq of
      PostTransfer b \<Rightarrow> unhandled (fst (snd (endpoint cfg S R rq) w)) = (\<exists>u. get_current_user cfg (rq_http rq) = Inr u)
    | _ \<Rightarrow> True)"
proof
  have bare: "unhandled (Inl y) \<Longrightarrow> rs_headers (handle_fault y) = []" for y
    by (cases y) (simp_all add: unhandled_exception_handler_def error_response_def)
  show "map_of (rs_headers (fst (serve cfg S R rq w))) ''X-Request-ID'' =
      (if unhandled (fst (snd (endpoint cfg S R rq) w)) then None
       else Some (case rq_request_id rq of Some i \<Rightarrow> i | None \<Rightarrow> uuid_str (rq_fresh_request_id rq)))"
    using bare
    by (auto simp: serve_def respond_def with_request_id_def Let_def update_conv
        simp del: handle_fault.simps unhandled.simps(1) split: prod.splits sum.splits)
  have refused: "fst (liftP (get_current_user cfg q) v) = Inl f \<Longrightarrow> \<not> unhandled (Inl f)" for q v f
    using authentication_faults [of cfg q f] by (cases f) (auto simp: liftP_apply)
  show "case rq_call rq of
      PostTransfer b \<Rightarrow> unhandled (fst (snd (endpoint cfg S R rq) w)) = (\<exists>u. get_current_user cfg (rq_http rq) = Inr u)
    | _ \<Rightarrow> True"
    using refused
    by (auto simp: endpoint_def initiate_transfer_def bindP_apply thenP_apply liftP_apply ownership_check_unbound
        raiseP_apply is_domain_exception_def split: api_call.splits sum.splits)
qed

section \<open>What requests can do\<close>

text \<open>The rows of the accounts that requests have opened.\<close>

definition opened_row :: "account \<Rightarrow> account_orm" where
  "opened_row a = column_account (account_to_new_orm a)"

lemma opened_row_id: "ao_id (opened_row a) = entity_id a"
  by (simp add: opened_row_def column_account_def account_to_new_orm_def)

lemma serve_effect:
  assumes laws: "session_laws refuse S f" and ok: "sql_ok (sql_stored (container_view f w))"
    and new: "find_account (rd_uuid (rq_readings rq 0) 0) (sql_stored (container_view f w)) = None"
    and v: "v = snd (serve cfg S R rq w)"
  shows "sql_ok (sql_stored (container_view f v)) \<and> w_lock v = w_lock w \<and> w_bus v = w_bus w \<and>
    (\<exists>as. list_all (opened_by cfg rq) as \<and> sql_stored (container_view f v) = (sql_stored (container_view f w))
       \<lparr>db_accounts := db_accounts (sql_stored (container_view f w)) @ map opened_row as\<rparr>)"
proof -
  have same: "untouched f w v \<Longrightarrow> ?thesis"
    using ok by (intro conjI exI [of _ "[]"]) (simp_all add: untouched_def)
  show ?thesis
  proof (cases "\<exists>b. rq_call rq = PostAccount b")
    case False
    with other_calls_effect [OF laws, of rq w cfg R] same v show ?thesis by (simp add: serve_world)
  next
    case True
    then obtain b where b: "rq_call rq = PostAccount b" by blast
    obtain x where run: "create_account cfg (container_account_service S) (rq_http rq) b (rq_readings rq 0) w = (x, v)"
      using v by (cases "create_account cfg (container_account_service S) (rq_http rq) b (rq_readings rq 0) w") (simp add: serve_world endpoint_def b)
    from create_account_effect [OF laws new b run] show ?thesis
    proof (elim disjE exE conjE)
      fix a
      assume a: "opened_by cfg rq a" "account_ok a" "db_valid (sql_opened a (sql_stored (container_view f w)))"
        "sql_stored (container_view f v) = sql_opened a (sql_stored (container_view f w))" "w_lock v = w_lock w" "w_bus v = w_bus w"
      then show ?thesis using sql_opened_ok [OF ok a(2,3)]
        by (intro conjI exI [of _ "[a]"]) (simp_all add: sql_opened_rows [OF ok] opened_row_def)
    qed (use same in blast)
  qed
qed

lemma serve_all_effect:
  assumes laws: "session_laws refuse S f" and ok: "sql_ok (sql_stored (container_view f w))"
    and "distinct (map (\<lambda>rq. rd_uuid (rq_readings rq 0) 0) rqs)"
    and "\<forall>rq \<in> set rqs. find_account (rd_uuid (rq_readings rq 0) 0) (sql_stored (container_view f w)) = None"
  shows "sql_ok (sql_stored (container_view f (serve_all cfg S R rqs w))) \<and> w_lock (serve_all cfg S R rqs w) = w_lock w \<and>
    w_bus (serve_all cfg S R rqs w) = w_bus w \<and>
    (\<exists>as. list_all (\<lambda>a. \<exists>rq \<in> set rqs. opened_by cfg rq a) as \<and>
       sql_stored (container_view f (serve_all cfg S R rqs w)) = (sql_stored (container_view f w))
         \<lparr>db_accounts := db_accounts (sql_stored (container_view f w)) @ map opened_row as\<rparr>)"
  using assms(2-4)
proof (induction rqs arbitrary: w)
  case Nil
  then show ?case by (intro conjI exI [of _ "[]"]) simp_all
next
  case (Cons rq rqs)
  let ?d = "\<lambda>w. sql_stored (container_view f w)" and ?v = "snd (serve cfg S R rq w)"
  have "find_account (rd_uuid (rq_readings rq 0) 0) (?d w) = None" using Cons.prems(3) by simp
  from serve_effect [OF laws Cons.prems(1) this refl] obtain as where v: "sql_ok (?d ?v)" "w_lock ?v = w_lock w" "w_bus ?v = w_bus w"
    and as: "list_all (opened_by cfg rq) as" "?d ?v = (?d w)\<lparr>db_accounts := db_accounts (?d w) @ map opened_row as\<rparr>" by blast
  have ids: "\<forall>a \<in> set as. entity_id a = rd_uuid (rq_readings rq 0) 0" using as(1) by (auto simp: list_all_iff opened_by_def)
  have "find_account i (?d ?v) = None" if "find_account i (?d w) = None" "i \<noteq> rd_uuid (rq_readings rq 0) 0" for i
    using that ids unfolding as(2) by (auto simp: find_account_def find_None_iff opened_row_id)
  moreover have "\<forall>q \<in> set rqs. rd_uuid (rq_readings q 0) 0 \<noteq> rd_uuid (rq_readings rq 0) 0"
    using Cons.prems(2) by (auto simp: image_iff)
  ultimately have "\<forall>q \<in> set rqs. find_account (rd_uuid (rq_readings q 0) 0) (?d ?v) = None" using Cons.prems(3) by simp
  moreover have "distinct (map (\<lambda>rq. rd_uuid (rq_readings rq 0) 0) rqs)" using Cons.prems(2) by simp
  ultimately obtain bs where rest: "sql_ok (?d (serve_all cfg S R rqs ?v))"
    "w_lock (serve_all cfg S R rqs ?v) = w_lock ?v" "w_bus (serve_all cfg S R rqs ?v) = w_bus ?v"
    and bs: "list_all (\<lambda>a. \<exists>q \<in> set rqs. opened_by cfg q a) bs"
      "?d (serve_all cfg S R rqs ?v) = (?d ?v)\<lparr>db_accounts := db_accounts (?d ?v) @ map opened_row bs\<rparr>"
    using Cons.IH [OF v(1)] by blast
  have "list_all (\<lambda>a. \<exists>q \<in> set (rq # rqs). opened_by cfg q a) (as @ bs)" using as(1) bs(1) by (auto simp: list_all_iff)
  moreover have "?d (serve_all cfg S R rqs ?v) = (?d w)\<lparr>db_accounts := db_accounts (?d w) @ map opened_row (as @ bs)\<rparr>"
    by (simp add: bs(2) as(2))
  ultimately show ?case using rest v by (intro conjI exI [of _ "as @ bs"]) simp_all
qed

text \<open>C16: All that requests to the running application can do to the bank is open accounts: over any sequence of requests,
  with any settings, every stored account and transfer stays exactly as it is, nothing reaches the outbox, the event
  bus or the locks, and each new account is ACTIVE, owned by the authenticated user of a request of the sequence, and
  holds exactly the opening balance of that request, rounded to cents.\<close>

theorem api_only_opens_accounts:
  assumes "session_laws refuse S f" and "sql_ok (sql_stored (container_view f w))"
    and "distinct (map (\<lambda>rq. rd_uuid (rq_readings rq 0) 0) rqs)"
    and "\<forall>rq \<in> set rqs. find_account (rd_uuid (rq_readings rq 0) 0) (sql_stored (container_view f w)) = None"
  shows "sql_ok (sql_stored (container_view f (serve_all cfg S R rqs w))) \<and> w_lock (serve_all cfg S R rqs w) = w_lock w \<and>
    w_bus (serve_all cfg S R rqs w) = w_bus w \<and>
    (\<exists>as. list_all (\<lambda>a. \<exists>rq \<in> set rqs. \<exists>b u. rq_call rq = PostAccount b \<and> get_current_user cfg (rq_http rq) = Inr u \<and>
          owner_id a = au_user_id u \<and> money_new (car_initial_balance b) (car_currency b) = Inr (balance a) \<and>
          account_status a = ACTIVE) as \<and>
       sql_stored (container_view f (serve_all cfg S R rqs w)) = (sql_stored (container_view f w))
         \<lparr>db_accounts := db_accounts (sql_stored (container_view f w)) @ map (column_account \<circ> account_to_new_orm) as\<rparr>)"
proof -
  have row: "opened_row = column_account \<circ> account_to_new_orm" by (simp add: fun_eq_iff opened_row_def)
  from serve_all_effect [OF assms, of cfg R] obtain as where eff: "list_all (\<lambda>a. \<exists>rq \<in> set rqs. opened_by cfg rq a) as"
    "sql_stored (container_view f (serve_all cfg S R rqs w)) = (sql_stored (container_view f w))
         \<lparr>db_accounts := db_accounts (sql_stored (container_view f w)) @ map opened_row as\<rparr>" by blast
  from eff(1) have "list_all (\<lambda>a. \<exists>rq \<in> set rqs. \<exists>b u. rq_call rq = PostAccount b \<and> get_current_user cfg (rq_http rq) = Inr u \<and>
      owner_id a = au_user_id u \<and> money_new (car_initial_balance b) (car_currency b) = Inr (balance a) \<and> account_status a = ACTIVE) as"
    unfolding opened_by_def list_all_iff by blast
  with eff(2) serve_all_effect [OF assms, of cfg R] show ?thesis unfolding row by blast
qed

text \<open>A request of the user \<open>uid 9\<close> to open an account with 10.00 EUR.\<close>

definition sample_request :: api_request where
  "sample_request = \<lparr>rq_http = \<lparr>rq_dev_user_id = Some (uuid_str (uid 9)), rq_credentials = None\<rparr>,
     rq_call = PostAccount \<lparr>car_currency = EUR, car_initial_balance = Fin False 1000 (-2)\<rparr>, rq_request_id = None,
     rq_readings = (\<lambda>_. reads 1), rq_fresh_user = uid 7, rq_fresh_request_id = uid 8\<rparr>"

lemma api_only_opens_accounts_witness:
  "w_bus (serve_all settings_defaults running_session reference_redis [sample_request] running_world) = [] \<and>
   find_account (uid 2) (sql_stored (container_view snd
     (serve_all settings_defaults running_session reference_redis [sample_request] running_world))) = Some (sample_row 2 100 ACTIVE)"
proof -
  let ?v = "serve_all settings_defaults running_session reference_redis [sample_request] running_world"
  have ok: "sql_ok (sql_stored (container_view snd running_world))" by (simp add: sample_sql_ok)
  have new: "find_account (uid 100) sample_db = None"
    by (simp add: find_account_def sample_db_def sample_row_domain uid_inject)
  have d: "distinct (map (\<lambda>rq. rd_uuid (rq_readings rq 0) 0) [sample_request])" by simp
  have fresh: "\<forall>rq \<in> set [sample_request]. find_account (rd_uuid (rq_readings rq 0) 0) (sql_stored (container_view snd running_world)) = None"
    using new by (simp add: sample_request_def)
  from api_only_opens_accounts [OF counting_session_lawful ok d fresh, where cfg = settings_defaults and R = reference_redis]
  obtain as where "w_bus ?v = w_bus running_world" "sql_stored (container_view snd ?v) = (sql_stored (container_view snd running_world))
      \<lparr>db_accounts := db_accounts (sql_stored (container_view snd running_world)) @ map (column_account \<circ> account_to_new_orm) as\<rparr>"
    by blast
  moreover have "w_bus running_world = []" by (simp add: running_world_def)
  ultimately show ?thesis
    by (simp add: find_account_def sample_db_def sample_row_domain uid_inject del: serve_all.simps)
qed

section \<open>Opening an account\<close>

lemma round_half_up_0: "0 < k \<Longrightarrow> round_half_up 0 k = 0"
  by (cases k) (simp_all add: round_half_up_def)

text \<open>An amount the schema accepts is refused only when it has too many digits.\<close>

lemma accepted_money:
  assumes "create_account_request_ok b" and "money_new (car_initial_balance b) cur = Inl e"
  shows "e = DecimalSignal InvalidOperation"
proof (cases "car_initial_balance b")
  case (Fin s c x)
  let ?q = "if -2 \<le> x then c * 10 ^ nat (x + 2) else round_half_up c (nat (-2 - x))"
  have "s \<longrightarrow> c = 0"
    using assms(1) Fin by (auto simp: create_account_request_ok_def dec_lt_def dec_zero_def cmp_fin_def sgn_if dec_signed_def
        zero_less_mult_iff mult_less_0_iff split: if_splits)
  then have "s \<longrightarrow> ?q = 0" using round_half_up_0 by auto
  then have "dec_lt (Fin s ?q (-2)) dec_zero = Inr False" by (simp only: dec_lt_zero_cents) (simp add: dec_signed_def)
  with assms(2) Fin show ?thesis
    by (auto simp: money_new_def money_post_init_def Let_def raise_dec_def split: if_splits sum.splits)
qed (use assms(1) in \<open>simp_all add: create_account_request_ok_def\<close>)

text \<open>The response that reports an account.\<close>

definition reported :: "account \<Rightarrow> account_response" where
  "reported a = \<lparr>ar_id = entity_id a, ar_owner_id = owner_id a, ar_account_number = account_number a,
     ar_balance = amount (balance a), ar_currency = currency_value (money_currency (balance a)),
     ar_status = account_status_value (account_status a)\<rparr>"

lemma account_response_reported: "account_response_of (account_dto_of a) = Inr (reported a)"
  by (simp add: account_response_of_def account_dto_of_def reported_def)

lemma create_account_answer:
  assumes "rq_call rq = PostAccount b" and "get_current_user cfg (rq_http rq) = Inr u" and "serve cfg S R rq w = (resp, w')"
    and "account_service_create (container_uow S) \<lparr>cac_owner_id = au_user_id u, cac_currency = currency_value (car_currency b),
        cac_initial_balance = car_initial_balance b\<rparr> (rq_readings rq 0) w = (y, v)"
  shows "w' = v"
    and "y = Inl e \<Longrightarrow> rs_status resp = rs_status (handle_fault (Fault e))"
    and "y = Inr (account_dto_of a) \<Longrightarrow> rs_status resp = 201 \<and> rs_body resp = AccountBody (reported a)"
proof -
  have status: "rs_status (with_request_id i j q) = rs_status q" "rs_body (with_request_id i j q) = rs_body q" for i j q
    by (simp_all add: with_request_id_def Let_def)
  note run = assms(3) [unfolded serve_def endpoint_def assms(1) respond_def create_account_def] assms(2,4)
  show "w' = v"
    using run by (auto simp: bindP_apply liftP_apply callP_def returnP_apply
        simp del: handle_fault.simps unhandled.simps split: sum.splits)
  show "rs_status resp = rs_status (handle_fault (Fault e))" if "y = Inl e"
    using run that by (auto simp: bindP_apply liftP_apply callP_def returnP_apply status simp del: handle_fault.simps)
  show "rs_status resp = 201 \<and> rs_body resp = AccountBody (reported a)" if "y = Inr (account_dto_of a)"
    using run that
    by (auto simp: bindP_apply liftP_apply callP_def returnP_apply account_response_reported status)
qed

text \<open>C30: \<open>POST /accounts\<close> of an authenticated user, with a body that satisfies the schema: when the database accepts the row of
  the new account, the request is answered 201 with that account, ACTIVE, owned by the user and holding the opening
  balance rounded to cents, and exactly that account is stored; when it refuses this row, the answer is that of the
  refusal, and nothing is stored. But the schema sets no upper bound: an opening balance whose cents need more than
  28 digits ends in the decimal module's \<open>InvalidOperation\<close>, answered 500.\<close>

theorem create_account_exact:
  assumes "session_laws refuse S f" and "rq_call rq = PostAccount b" and "create_account_request_ok b"
    and "get_current_user cfg (rq_http rq) = Inr u"
    and "find_account (rd_uuid (rq_readings rq 0) 0) (sql_stored (container_view f w)) = None"
    and "serve cfg S R rq w = (resp, w')"
  shows "case money_new (car_initial_balance b) (car_currency b) of
      Inl e \<Rightarrow> e = DecimalSignal InvalidOperation \<and> rs_status resp = 500 \<and> w' = w
    | Inr m \<Rightarrow> (\<exists>a. account_create (au_user_id u) (car_currency b) (Some m) (rq_readings rq 0) = Inr a \<and>
        owner_id a = au_user_id u \<and> balance a = m \<and> account_status a = ACTIVE \<and>
        (if db_valid (sql_opened a (sql_stored (container_view f w)))
         then rs_status resp = 201 \<and> rs_body resp = AccountBody (reported a) \<and>
           sql_stored (container_view f w') = sql_opened a (sql_stored (container_view f w))
         else rs_status resp = rs_status (handle_fault (Fault (refuse (sql_opened a (sql_stored (container_view f w)))))) \<and>
           sql_stored (container_view f w') = sql_stored (container_view f w)))"
proof -
  let ?r = "rq_readings rq 0"
  let ?cmd = "\<lparr>cac_owner_id = au_user_id u, cac_currency = currency_value (car_currency b), cac_initial_balance = car_initial_balance b\<rparr>"
  have cur: "parse_currency (currency_value (car_currency b)) = Inr (car_currency b)" by (simp add: parse_value_simps)
  show ?thesis
  proof (cases "money_new (car_initial_balance b) (car_currency b)")
    case (Inl e)
    then have e: "e = DecimalSignal InvalidOperation" by (rule accepted_money [OF assms(3)])
    have "account_service_create (container_uow S) ?cmd ?r w = (Inl e, w)"
      by (simp add: account_service_create_def bindP_apply liftP_apply cur Inl)
    from create_account_answer(1,2) [OF assms(2,4,6) this] Inl e show ?thesis
      by (auto simp: is_domain_exception_def unhandled_exception_handler_def error_response_def)
  next
    case (Inr m)
    have "money_currency m = car_currency b" using money_new_ok [OF Inr] by simp
    then obtain a where a: "account_create (au_user_id u) (car_currency b) (Some m) ?r = Inr a" "entity_id a = rd_uuid ?r 0"
      "owner_id a = au_user_id u" "balance a = m" "account_status a = ACTIVE"
      by (simp add: account_create_def Let_def)
    obtain y v where made: "account_service_create (container_uow S) ?cmd ?r w = (y, v)" by fastforce
    have new: "find_account (entity_id a) (sql_stored (container_view f w)) = None" using assms(5) a(2) by simp
    let ?D = "sql_opened a (sql_stored (container_view f w))"
    have there: "y = (if db_valid ?D then Inr (account_dto_of a) else Inl (refuse ?D))"
      "sql_stored (container_view f v) = (if db_valid ?D then ?D else sql_stored (container_view f w))"
      using sql_account_create [of ?cmd "car_currency b" m ?r a "container_view f w" refuse] cur Inr a(1) new
        container_services(1) [OF assms(1) made] by auto
    have "if db_valid ?D then rs_status resp = 201 \<and> rs_body resp = AccountBody (reported a) \<and> sql_stored (container_view f w') = ?D
        else rs_status resp = rs_status (handle_fault (Fault (refuse ?D))) \<and>
          sql_stored (container_view f w') = sql_stored (container_view f w)"
      using create_account_answer [OF assms(2,4,6) made] there by (simp del: handle_fault.simps)
    with a Inr show ?thesis by (auto simp del: handle_fault.simps)
  qed
qed

lemma sample_user:
  "get_current_user settings_defaults \<lparr>rq_dev_user_id = Some (uuid_str i), rq_credentials = None\<rparr> =
     Inr \<lparr>au_user_id = i, au_roles = [''user'']\<rparr>"
proof -
  obtain c cs where "uuid_str i = c # cs"
    by (cases "uuid_str i") (auto simp: uuid_str_def Let_def)
  then show ?thesis
    unfolding current_user_exact using uuid_of_str_uuid_str [of i] by (simp add: is_development_def settings_defaults_def)
qed

lemma create_account_exact_witness:
  "(\<exists>resp w'. serve settings_defaults running_session reference_redis sample_request running_world = (resp, w') \<and>
     rs_status resp = 201 \<and> sql_stored (container_view snd w') \<noteq> sql_stored (container_view snd running_world)) \<and>
   (\<exists>resp w'. serve settings_defaults running_session reference_redis
       (sample_request\<lparr>rq_call := PostAccount \<lparr>car_currency = EUR, car_initial_balance = Fin False 1 26\<rparr>\<rparr>) running_world = (resp, w') \<and>
     rs_status resp = 500 \<and> w' = running_world)"
proof
  obtain a where a: "account_create (uid 9) EUR (Some (eur 1000)) (reads 1) = Inr a" "entity_id a = uid 100"
    and new: "find_account (uid 100) sample_db = None" and ok: "sql_ok (sql_opened a sample_db)"
    by (rule sample_opening)
  have user: "get_current_user settings_defaults (rq_http sample_request) = Inr \<lparr>au_user_id = uid 9, au_roles = [''user'']\<rparr>"
    using sample_user by (simp add: sample_request_def)
  show "\<exists>resp w'. serve settings_defaults running_session reference_redis sample_request running_world = (resp, w') \<and>
     rs_status resp = 201 \<and> sql_stored (container_view snd w') \<noteq> sql_stored (container_view snd running_world)"
  proof -
    obtain resp w' where run: "serve settings_defaults running_session reference_redis sample_request running_world = (resp, w')" by fastforce
    have call: "rq_call sample_request = PostAccount \<lparr>car_currency = EUR, car_initial_balance = Fin False 1000 (-2)\<rparr>"
      by (simp add: sample_request_def)
    have fits: "create_account_request_ok \<lparr>car_currency = EUR, car_initial_balance = Fin False 1000 (-2)\<rparr>"
      by (simp add: create_account_request_ok_def dec_lt_def dec_zero_def cmp_fin_def sgn_if)
    have fresh: "find_account (rd_uuid (rq_readings sample_request 0) 0) (sql_stored (container_view snd running_world)) = None"
      using new by (simp add: sample_request_def)
    have "db_valid (sql_opened a sample_db)" using ok by (simp add: sql_ok_def)
    moreover have "rq_readings sample_request 0 = reads 1" by (simp add: sample_request_def)
    ultimately have "rs_status resp = 201 \<and> sql_stored (container_view snd w') = sql_opened a sample_db"
      using create_account_exact [OF counting_session_lawful call fits user fresh run] a(1) by (auto simp: money_new_eur split: if_splits)
    moreover have "find_account (uid 100) (sql_opened a sample_db) \<noteq> None"
      using a(2) by (simp add: sql_opened_rows [OF sample_sql_ok] find_account_def find_append column_account_def account_to_new_orm_def
          split: option.splits)
    ultimately show ?thesis using run new by auto
  qed
  show "\<exists>resp w'. serve settings_defaults running_session reference_redis
       (sample_request\<lparr>rq_call := PostAccount \<lparr>car_currency = EUR, car_initial_balance = Fin False 1 26\<rparr>\<rparr>) running_world = (resp, w') \<and>
     rs_status resp = 500 \<and> w' = running_world"
  proof -
    let ?b = "\<lparr>car_currency = EUR, car_initial_balance = Fin False 1 26\<rparr>"
    let ?rq = "sample_request\<lparr>rq_call := PostAccount ?b\<rparr>"
    obtain resp w' where run: "serve settings_defaults running_session reference_redis ?rq running_world = (resp, w')" by fastforce
    have fits: "create_account_request_ok ?b"
      by (simp add: create_account_request_ok_def dec_lt_def dec_zero_def cmp_fin_def sgn_if)
    have fresh: "find_account (rd_uuid (rq_readings ?rq 0) 0) (sql_stored (container_view snd running_world)) = None"
      using new by (simp add: sample_request_def)
    have large: "money_new (Fin False 1 26) EUR = Inl (DecimalSignal InvalidOperation)"
      by (simp add: money_new_def money_post_init_def Let_def ndigits_gt_prec max_cents_def)
    have call: "rq_call ?rq = PostAccount ?b" and who: "get_current_user settings_defaults (rq_http ?rq) = Inr \<lparr>au_user_id = uid 9, au_roles = [''user'']\<rparr>"
      using user by simp_all
    from create_account_exact [OF counting_session_lawful call fits who fresh run] large show ?thesis using run by auto
  qed
qed

section \<open>Reading an account\<close>

lemma with_request_id_simps [simp]:
  "rs_status (with_request_id i j q) = rs_status q" "rs_body (with_request_id i j q) = rs_body q"
  by (simp_all add: with_request_id_def Let_def)

lemma serve_answer:
  assumes "serve cfg S R rq w = (resp, w')" and "endpoint cfg S R rq = (status, program)"
  shows "w' = snd (respond status program w)" and "rs_status resp = rs_status (fst (respond status program w))"
    and "rs_body resp = rs_body (fst (respond status program w))"
  using assms by (auto simp: serve_def split: prod.splits if_splits)

text \<open>C31: \<open>GET /accounts/{id}\<close> of the running application, over its database: an authenticated owner gets 200 and the stored
  account, another user 403, an unknown id 404 with the domain's message. Who is not authenticated gets 400 for a
  development header that is no uuid and 401 otherwise. No such request changes a stored row, a lock or the
  published events.\<close>

theorem get_account_exact:
  fixes w :: "('d, 'r) app_world"
  assumes "session_laws refuse S f" and "sql_ok (sql_stored (container_view f w))" and "rq_call rq = GetAccount i"
    and "serve cfg S R rq w = (resp, w')"
  shows "untouched f w w' \<and> (case get_current_user cfg (rq_http rq) of
      Inl _ \<Rightarrow> rs_status resp = (if is_development cfg \<and> (\<exists>c cs. rq_dev_user_id (rq_http rq) = Some (c # cs)) then 400 else 401)
    | Inr u \<Rightarrow> (case stored_account (sql_stored (container_view f w)) i of
          None \<Rightarrow> rs_status resp = 404 \<and>
            rs_body resp = ErrorBody ''ResourceNotFoundError'' (''Account with id '' @ quote (uuid_str i) @ '' not found.'')
        | Some a \<Rightarrow> if owner_id a = au_user_id u then rs_status resp = 200 \<and> rs_body resp = AccountBody (reported a)
            else rs_status resp = 403 \<and> rs_body resp = DetailBody ''You do not have access to this account.''))"
proof -
  let ?get = "get_account cfg (container_account_service S) (rq_http rq) i :: (('d, 'r) app_world, fault, body) prog"
  have "endpoint cfg S R rq = (200, ?get)" by (simp add: endpoint_def assms(3))
  note answer = serve_answer [OF assms(4) this]
  show ?thesis
  proof (cases "get_current_user cfg (rq_http rq)")
    case (Inl e)
    then have "respond 200 ?get w = (handle_fault e, w)"
      by (simp add: respond_def get_account_def bindP_apply liftP_apply)
    with answer Inl refusal_status [OF Inl] show ?thesis by (simp add: untouched_def)
  next
    case (Inr u)
    have roles: "au_roles u = [''user'']" using Inr by (simp add: current_user_exact)
    obtain x v where got: "account_service_get (container_uow S) i w = (x, v)" by fastforce
    note read = stored_account_get [OF assms(1,2) got]
    note steps = respond_def get_account_def bindP_apply liftP_apply callP_def returnP_apply raiseP_apply container_account_service_def
    show ?thesis
    proof (cases "stored_account (sql_stored (container_view f w)) i")
      case None
      with read have "x = Inl (ResourceNotFoundError ''Account'' i)" by simp
      with answer Inr None read got show ?thesis
        by (simp add: steps domain_exception_handler_def error_response_def status_map_def is_domain_exception_def)
    next
      case (Some a)
      with read have "x = Inr (account_dto_of a)" by simp
      moreover have "ad_owner_id (account_dto_of a) = owner_id a" by (simp add: account_dto_of_def)
      ultimately show ?thesis
        using answer Inr Some read got roles
        by (auto simp: steps can_access_account_def has_role_def account_response_reported)
    qed
  qed
qed

lemma get_account_exact_witness:
  "\<exists>resp w'. serve settings_defaults running_session reference_redis (sample_request\<lparr>rq_call := GetAccount (uid 5)\<rparr>) running_world = (resp, w') \<and>
    rs_status resp = 404 \<and> untouched snd running_world w'"
proof -
  let ?rq = "sample_request\<lparr>rq_call := GetAccount (uid 5)\<rparr>"
  obtain resp w' where run: "serve settings_defaults running_session reference_redis ?rq running_world = (resp, w')" by fastforce
  have ok: "sql_ok (sql_stored (container_view snd running_world))" by (simp add: sample_sql_ok)
  have call: "rq_call ?rq = GetAccount (uid 5)" by simp
  have user: "get_current_user settings_defaults (rq_http ?rq) = Inr \<lparr>au_user_id = uid 9, au_roles = [''user'']\<rparr>"
    using sample_user by (simp add: sample_request_def)
  have "stored_account sample_db (uid 5) = None"
    by (simp add: stored_account_def find_account_def sample_db_def sample_row_domain uid_inject)
  with get_account_exact [OF counting_session_lawful ok call run] user run show ?thesis by auto
qed

section \<open>The ownership check of transfers\<close>

text \<open>C40: The check that a user owns the account a transfer takes money from, and why no transfer gets past it. Called with its
  two parameters over the running application's account service, the check refuses exactly the accounts of
  other users, with 403; it lets the user's own pass, and also accounts that do not exist; it changes nothing. But
  \<open>POST /transactions/transfer\<close> calls it with a third argument, which Python cannot bind: every authenticated request,
  whatever its body, is answered 500 with a \<open>TypeError\<close>, every other one with the 400 or 401 of the authentication, and
  nothing in the world changes.\<close>

theorem transfer_endpoint_fails:
  fixes w :: "('d, 'r) app_world"
  assumes "session_laws refuse S f" and "sql_ok (sql_stored (container_view f w))" and "get_current_user cfg q = Inr u"
    and "rq_call rq = PostTransfer b" and "serve cfg S R rq w = (resp, w')"
  shows "(\<exists>v. call_get_account_or_403 (container_account_service S) [AccountIdArgument i, UserArgument u] w =
      ((case stored_account (sql_stored (container_view f w)) i of
          None \<Rightarrow> Inr ()
        | Some a \<Rightarrow> if owner_id a = au_user_id u then Inr () else Inl (HttpError 403 ''You do not own this account.'' [])), v) \<and>
      untouched f w v) \<and>
    w' = w \<and> (case get_current_user cfg (rq_http rq) of
      Inl _ \<Rightarrow> rs_status resp = (if is_development cfg \<and> (\<exists>c cs. rq_dev_user_id (rq_http rq) = Some (c # cs)) then 400 else 401)
    | Inr _ \<Rightarrow> rs_status resp = 500 \<and>
        rs_body resp = ErrorBody ''TypeError'' ''_get_account_or_403() takes 2 positional arguments but 3 were given'')"
proof
  have roles: "au_roles u = [''user'']" using assms(3) by (simp add: current_user_exact)
  obtain x v where got: "account_service_get (container_uow S) i w = (x, v)" by fastforce
  have "ad_owner_id (account_dto_of a) = owner_id a" for a by (simp add: account_dto_of_def)
  with stored_account_get [OF assms(1,2) got] got roles
  show "\<exists>v. call_get_account_or_403 (container_account_service S) [AccountIdArgument i, UserArgument u] w =
      ((case stored_account (sql_stored (container_view f w)) i of
          None \<Rightarrow> Inr ()
        | Some a \<Rightarrow> if owner_id a = au_user_id u then Inr () else Inl (HttpError 403 ''You do not own this account.'' [])), v) \<and>
      untouched f w v"
    unfolding ownership_check_bound
    by (auto simp: get_account_or_403_def container_account_service_def can_access_account_def has_role_def split: option.splits)
  let ?post = "initiate_transfer cfg (container_account_service S) (container_transfer_service S R) (rq_http rq) b (rq_readings rq)"
  have "endpoint cfg S R rq = (202, ?post)" by (simp add: endpoint_def assms(4))
  note answer = serve_answer [OF assms(5) this]
  note steps = respond_def initiate_transfer_def bindP_apply thenP_apply liftP_apply raiseP_apply ownership_check_unbound
  show "w' = w \<and> (case get_current_user cfg (rq_http rq) of
      Inl _ \<Rightarrow> rs_status resp = (if is_development cfg \<and> (\<exists>c cs. rq_dev_user_id (rq_http rq) = Some (c # cs)) then 400 else 401)
    | Inr _ \<Rightarrow> rs_status resp = 500 \<and>
        rs_body resp = ErrorBody ''TypeError'' ''_get_account_or_403() takes 2 positional arguments but 3 were given'')"
  proof (cases "get_current_user cfg (rq_http rq)")
    case (Inl e)
    then have "respond 202 ?post w = (handle_fault e, w)" by (simp add: steps)
    with answer Inl refusal_status [OF Inl] show ?thesis by simp
  next
    case (Inr u')
    with answer show ?thesis
      by (simp add: steps is_domain_exception_def unhandled_exception_handler_def error_response_def)
  qed
qed

text \<open>The user \<open>uid 8\<close> wants to transfer from an account of \<open>uid 9\<close>.\<close>

lemma transfer_endpoint_fails_witness:
  "\<exists>rq v resp w'. call_get_account_or_403 (container_account_service running_session)
      [AccountIdArgument (uid 1), UserArgument \<lparr>au_user_id = uid 8, au_roles = [''user'']\<rparr>] running_world =
      (Inl (HttpError 403 ''You do not own this account.'' []), v) \<and>
    serve settings_defaults running_session reference_redis rq running_world = (resp, w') \<and> rs_status resp = 500 \<and> w' = running_world"
proof -
  let ?q = "\<lparr>rq_dev_user_id = Some (uuid_str (uid 8)), rq_credentials = None\<rparr>"
  let ?b = "\<lparr>trq_from_account_id = uid 1, trq_to_account_id = uid 2, trq_amount = Fin False 200 (-2), trq_currency = EUR,
      trq_idempotency_key = ''k''\<rparr>"
  let ?rq = "sample_request\<lparr>rq_http := ?q, rq_call := PostTransfer ?b\<rparr>"
  obtain resp w' where run: "serve settings_defaults running_session reference_redis ?rq running_world = (resp, w')" by fastforce
  have ok: "sql_ok (sql_stored (container_view snd running_world))" by (simp add: sample_sql_ok)
  have call: "rq_call ?rq = PostTransfer ?b" by simp
  have row: "find_account (uid 1) sample_db = Some (sample_row 1 500 ACTIVE)"
    by (simp add: find_account_def sample_db_def sample_row_domain uid_inject)
  obtain a where a: "account_to_domain (sample_row 1 500 ACTIVE) = Inr a"
    using sql_ok_found(1) [OF sample_sql_ok row] row_ok_cases by blast
  then have "owner_id a = uid 9"
    by (auto simp: account_to_domain_def bindR_Inr_iff account_reconstitute_def sample_row_def column_account_def account_to_new_orm_def
        sample_account_def)
  moreover have "stored_account sample_db (uid 1) = Some a" using row a by (simp add: stored_account_def)
  ultimately show ?thesis
    using transfer_endpoint_fails [OF counting_session_lawful ok sample_user [of "uid 8"] call run, of "uid 1"] run
    by (fastforce simp: sample_user uid_inject)
qed

end
