(* ===== verification/Transfer_Steps.thy ===== *)
theory Transfer_Steps
  imports Simulation
begin

text \<open>
  \<open>TransferService.initiate\<close> cut at its awaits on the unit of work, so that several transfers can be
  interleaved over one database (theory Row_Locks).

  \<^item> A \<open>phase\<close> is the await a transfer stands before, with the local variables that are still needed;
    \<open>transfer_phase\<close> is what runs from there to the next await, and an exception leads to the
    \<open>__aexit__\<close> when the body of the \<open>async with\<close> raised it.
  \<^item> \<open>phases_exact\<close>: without interference the phases from \<open>__aenter__\<close> on are exactly
    \<open>async with self._uow\<close> around \<open>transfer_in_uow\<close>, in at most nine steps, over any unit of work.
  \<^item> The distributed lock is taken between \<open>AtCheck\<close> and \<open>AtEnter\<close> and released after \<open>AtLeave\<close>, and the
    events are published after \<open>AtDone\<close>; neither touches the database and neither is a phase.
\<close>

section \<open>Phases\<close>

type_synonym transfer_result = "exn + nat \<times> nat \<times> nat"

datatype phase =
    AtCheck
  | AtKnown nat
  | AtEnter money
  | AtLoadSender money
  | AtLoadReceiver money nat
  | AtApply money nat nat
  | AtUpdateSender nat nat nat
  | AtUpdateReceiver nat nat nat
  | AtSaveTx nat nat nat
  | AtCommit nat nat nat
  | AtSaveFailed nat exn
  | AtCommitFailed nat exn
  | AtLeave transfer_result
  | AtDone transfer_result

record transfer_call =
  xc_cmd :: transfer_command
  xc_reads :: "nat \<Rightarrow> readings"

abbreviation xc_from :: "transfer_call \<Rightarrow> account_id" where
  "xc_from c \<equiv> tc_from_account_id (xc_cmd c)"

abbreviation xc_to :: "transfer_call \<Rightarrow> account_id" where
  "xc_to c \<equiv> tc_to_account_id (xc_cmd c)"

abbreviation xc_key :: "transfer_call \<Rightarrow> idempotency_key" where
  "xc_key c \<equiv> tc_idempotency_key (xc_cmd c)"

text \<open>Step 2 of the code: the amount.\<close>

definition transfer_amount :: "transfer_command \<Rightarrow> exn + money" where
  "transfer_amount cmd = bindR (parse_currency (tc_currency cmd)) (\<lambda>cur.
     bindR (redecimal (tc_amount cmd)) (\<lambda>d. money_new d cur))"

text \<open>From the creation of the transaction to the end of the \<open>try\<close>: no await in between.\<close>

definition apply_phase :: "transfer_call \<Rightarrow> money \<Rightarrow> nat \<Rightarrow> nat \<Rightarrow> ('u, phase) uow_prog" where
  "apply_phase c amt s r =
     bindP (liftP (tx_initiate (xc_from c) (xc_to c) amt (xc_key c) TRANSFER (xc_reads c 0))) (\<lambda>t.
     bindP (new_tx t) (\<lambda>tx.
     tryP (thenP (transfer_apply s r tx amt (xc_reads c)) (returnP (AtUpdateSender s r tx)))
          (\<lambda>e. thenP (on_tx tx (fail (failure_code_of e) (exn_str e) (xc_reads c 5)))
                (returnP (AtSaveFailed tx e)))))"

fun transfer_phase :: "'u uow_port \<Rightarrow> transfer_call \<Rightarrow> phase \<Rightarrow> ('u, phase) uow_prog" where
  "transfer_phase U c AtCheck =
     bindP (with_uow U (tx_get_by_idempotency_key U (xc_key c))) (\<lambda>existing. case existing of
         Some r \<Rightarrow> returnP (AtKnown r)
       | None \<Rightarrow> bindP (liftP (transfer_amount (xc_cmd c))) (\<lambda>amt. returnP (AtEnter amt)))"
| "transfer_phase U c (AtKnown r) = returnP (AtKnown r)"
| "transfer_phase U c (AtEnter amt) = thenP (uow_enter U) (returnP (AtLoadSender amt))"
| "transfer_phase U c (AtLoadSender amt) =
     bindP (load_account U (xc_from c)) (\<lambda>s. returnP (AtLoadReceiver amt s))"
| "transfer_phase U c (AtLoadReceiver amt s) =
     bindP (load_account U (xc_to c)) (\<lambda>r. returnP (AtApply amt s r))"
| "transfer_phase U c (AtApply amt s r) = apply_phase c amt s r"
| "transfer_phase U c (AtSaveFailed tx e) = thenP (tx_save U tx) (returnP (AtCommitFailed tx e))"
| "transfer_phase U c (AtCommitFailed tx e) = thenP (uow_commit U) (returnP (AtLeave (Inl e)))"
| "transfer_phase U c (AtUpdateSender s r tx) = thenP (acc_update U s) (returnP (AtUpdateReceiver s r tx))"
| "transfer_phase U c (AtUpdateReceiver s r tx) = thenP (acc_update U r) (returnP (AtSaveTx s r tx))"
| "transfer_phase U c (AtSaveTx s r tx) = thenP (tx_save U tx) (returnP (AtCommit s r tx))"
| "transfer_phase U c (AtCommit s r tx) = thenP (uow_commit U) (returnP (AtLeave (Inr (s, r, tx))))"
| "transfer_phase U c (AtLeave x) =
     thenP (uow_exit U (case x of Inl e \<Rightarrow> Some e | Inr _ \<Rightarrow> None)) (returnP (AtDone x))"
| "transfer_phase U c (AtDone x) = returnP (AtDone x)"

text \<open>An exception of the body reaches \<open>__aexit__\<close>; one of \<open>__aenter__\<close>, \<open>__aexit__\<close> or step 1 the caller.\<close>

fun in_body :: "phase \<Rightarrow> bool" where
  "in_body AtCheck = False"
| "in_body (AtKnown r) = False"
| "in_body (AtEnter amt) = False"
| "in_body (AtLeave x) = False"
| "in_body (AtDone x) = False"
| "in_body ph = True"

definition raised_phase :: "phase \<Rightarrow> exn \<Rightarrow> phase" where
  "raised_phase ph e = (if in_body ph then AtLeave (Inl e) else AtDone (Inl e))"

definition phase_step :: "'u uow_port \<Rightarrow> transfer_call \<Rightarrow> phase \<times> heap \<times> 'u \<Rightarrow> phase \<times> heap \<times> 'u" where
  "phase_step U c = (\<lambda>(ph, s). case transfer_phase U c ph s of
       (Inr ph', s') \<Rightarrow> (ph', s')
     | (Inl e, s') \<Rightarrow> (raised_phase ph e, s'))"

lemma phase_step_apply: "phase_step U c (ph, s) =
    (case transfer_phase U c ph s of (Inr ph', s') \<Rightarrow> (ph', s') | (Inl e, s') \<Rightarrow> (raised_phase ph e, s'))"
  by (simp add: phase_step_def)

fun run_phases :: "'u uow_port \<Rightarrow> transfer_call \<Rightarrow> nat \<Rightarrow> phase \<times> heap \<times> 'u \<Rightarrow> phase \<times> heap \<times> 'u" where
  "run_phases U c 0 p = p"
| "run_phases U c (Suc n) p = run_phases U c n (phase_step U c p)"

section \<open>The phases are the code\<close>

lemma run_phases_done [simp]: "run_phases U c n (AtDone x, s) = (AtDone x, s)"
  by (induction n) (simp_all add: phase_step_def returnP_apply)

lemma run_phases_add: "run_phases U c (m + n) p = run_phases U c n (run_phases U c m p)"
  by (induction m arbitrary: p) simp_all

lemma run_phases_snoc: "run_phases U c (Suc n) p = phase_step U c (run_phases U c n p)"
  using run_phases_add [of U c n 1 p] by simp

text \<open>What a transfer standing at \<open>__aexit__\<close> ends with.\<close>

definition leave_result ::
  "'u uow_port \<Rightarrow> (exn + nat \<times> nat \<times> nat) \<times> heap \<times> 'u \<Rightarrow> phase \<times> heap \<times> 'u" where
  "leave_result U = (\<lambda>(x, s). case uow_exit U (case x of Inl e \<Rightarrow> Some e | Inr _ \<Rightarrow> None) s of
       (Inr _, s') \<Rightarrow> (AtDone x, s') | (Inl e, s') \<Rightarrow> (AtDone (Inl e), s'))"

lemma run_leave: "run_phases U c (Suc n) (AtLeave x, s) = leave_result U (x, s)"
  by (simp add: phase_step_def leave_result_def thenP_apply returnP_apply raised_phase_def
      split: prod.splits sum.splits)

lemma run_commit:
  "run_phases U c (Suc (Suc n)) (AtCommit s r tx, st) =
     leave_result U (thenP (uow_commit U) (returnP (s, r, tx)) st)"
  by (cases "uow_commit U st"; cases "fst (uow_commit U st)")
    (simp_all add: phase_step_apply [of U c "AtCommit s r tx" st] thenP_apply returnP_apply raised_phase_def run_leave
      del: run_phases.simps(2) add: run_phases.simps(2) [of U c "Suc n"])

lemma run_commit_failed:
  "run_phases U c (Suc (Suc n)) (AtCommitFailed tx e, st) =
     leave_result U (thenP (uow_commit U) (raiseP e) st)"
  by (cases "uow_commit U st"; cases "fst (uow_commit U st)")
    (simp_all add: phase_step_apply [of U c "AtCommitFailed tx e" st] thenP_apply returnP_apply raiseP_apply raised_phase_def
      run_leave del: run_phases.simps(2) add: run_phases.simps(2) [of U c "Suc n"])

text \<open>One more awaited call before a part whose run is known.\<close>

lemma run_then:
  assumes "transfer_phase U c ph = thenP m (returnP ph')" and "in_body ph"
    and "\<And>st. run_phases U c n (ph', st) = leave_result U (k st)" and "0 < n"
  shows "run_phases U c (Suc n) (ph, st) = leave_result U (thenP m k st)"
proof -
  obtain n' where n: "n = Suc n'" using assms(4) by (cases n) auto
  show ?thesis
    using assms(1-3)
    by (cases "m st"; cases "fst (m st)")
      (simp_all add: run_phases.simps(2) [of U c "Suc n'"] phase_step_apply [of U c "ph" st] thenP_apply returnP_apply
        raised_phase_def run_leave n del: run_phases.simps(2))
qed

lemma run_bind:
  assumes "transfer_phase U c ph = bindP m (\<lambda>x. returnP (ph' x))" and "in_body ph"
    and "\<And>x st. run_phases U c n (ph' x, st) = leave_result U (k x st)" and "0 < n"
  shows "run_phases U c (Suc n) (ph, st) = leave_result U (bindP m k st)"
proof -
  obtain n' where n: "n = Suc n'" using assms(4) by (cases n) auto
  show ?thesis
    using assms(1-3)
    by (cases "m st"; cases "fst (m st)")
      (simp_all add: run_phases.simps(2) [of U c "Suc n'"] phase_step_apply [of U c "ph" st] bindP_apply returnP_apply
        raised_phase_def run_leave n del: run_phases.simps(2))
qed

lemma run_save_failed:
  "run_phases U c (Suc (Suc (Suc n))) (AtSaveFailed tx e, st) =
     leave_result U (thenP (tx_save U tx) (thenP (uow_commit U) (raiseP e)) st)"
  by (rule run_then [OF transfer_phase.simps(7) _ run_commit_failed]) simp_all

lemma run_updates:
  "run_phases U c (Suc (Suc (Suc (Suc (Suc n))))) (AtUpdateSender s r tx, st) =
     leave_result U (thenP (acc_update U s) (thenP (acc_update U r) (thenP (tx_save U tx)
       (thenP (uow_commit U) (returnP (s, r, tx))))) st)"
  by (rule run_then [OF transfer_phase.simps(9) _ run_then [OF transfer_phase.simps(10) _
        run_then [OF transfer_phase.simps(11) _ run_commit]]]) simp_all

abbreviation (input) save_transfer :: "'u uow_port \<Rightarrow> nat \<Rightarrow> nat \<Rightarrow> nat \<Rightarrow> ('u, nat \<times> nat \<times> nat) uow_prog" where
  "save_transfer U s r tx \<equiv> thenP (acc_update U s) (thenP (acc_update U r) (thenP (tx_save U tx)
     (thenP (uow_commit U) (returnP (s, r, tx)))))"

lemma run_apply:
  "run_phases U c (Suc (Suc (Suc (Suc (Suc (Suc n)))))) (AtApply amt s r, st) =
     leave_result U (bindP (liftP (tx_initiate (xc_from c) (xc_to c) amt (xc_key c) TRANSFER (xc_reads c 0))) (\<lambda>t.
       bindP (new_tx t) (\<lambda>tx. thenP (tryP (transfer_apply s r tx amt (xc_reads c)) (transfer_failed U tx (xc_reads c)))
         (save_transfer U s r tx))) st)"
proof -
  let ?n = "Suc (Suc (Suc (Suc (Suc n))))"
  have first: "run_phases U c (Suc ?n) (AtApply amt s r, st) = run_phases U c ?n (phase_step U c (AtApply amt s r, st))"
    by simp
  show ?thesis
  proof (cases "tx_initiate (xc_from c) (xc_to c) amt (xc_key c) TRANSFER (xc_reads c 0)")
    case (Inl e)
    then show ?thesis
      unfolding first by (simp add: phase_step_apply apply_phase_def bindP_apply liftP_apply raised_phase_def run_leave
          del: run_phases.simps(2))
  next
    case t: (Inr t)
    obtain tx st1 where new: "new_tx t st = (Inr tx, st1)"
      by (cases st) (simp add: new_tx_def alloc_tx_def)
    obtain x st2 where ap: "transfer_apply s r tx amt (xc_reads c) st1 = (x, st2)" by (rule prod.exhaust)
    show ?thesis
    proof (cases x)
      case (Inr y)
      with t new ap show ?thesis
        unfolding first by (simp add: phase_step_apply apply_phase_def bindP_apply thenP_apply liftP_apply tryP_apply
            returnP_apply run_updates del: run_phases.simps(2))
    next
      case (Inl e)
      obtain z st3 where "on_tx tx (fail (failure_code_of e) (exn_str e) (xc_reads c 5)) st2 = (z, st3)" by (rule prod.exhaust)
      with t new ap Inl show ?thesis
        unfolding first by (cases z) (simp_all add: phase_step_apply apply_phase_def bindP_apply thenP_apply liftP_apply
            tryP_apply returnP_apply raised_phase_def run_leave run_save_failed transfer_failed_def raiseP_apply
            split: sum.splits prod.splits del: run_phases.simps(2))
    qed
  qed
qed

text \<open>From \<open>__aenter__\<close> to the end: the code of theory Services.\<close>

lemma run_in_uow:
  "run_phases U c (Suc (Suc (Suc (Suc (Suc (Suc (Suc (Suc n)))))))) (AtLoadSender amt, st) =
     leave_result U (transfer_in_uow U (xc_from c) (xc_to c) amt (xc_key c) (xc_reads c) st)"
  unfolding transfer_in_uow_def
  by (rule run_bind [OF transfer_phase.simps(4) _ run_bind [OF transfer_phase.simps(5) _ run_apply]]) simp_all

lemma phases_exact:
  assumes "9 \<le> n"
  shows "run_phases U c n (AtEnter amt, st) =
    (case with_uow U (transfer_in_uow U (xc_from c) (xc_to c) amt (xc_key c) (xc_reads c)) st of
       (x, st') \<Rightarrow> (AtDone x, st'))"
proof -
  obtain m where n: "n = Suc (Suc (Suc (Suc (Suc (Suc (Suc (Suc (Suc m))))))))"
    by (rule that [of "n - 9"]) (use assms in simp)
  have "run_phases U c n (AtEnter amt, st) =
      run_phases U c (Suc (Suc (Suc (Suc (Suc (Suc (Suc (Suc m)))))))) (phase_step U c (AtEnter amt, st))"
    by (simp add: n)
  then show ?thesis
    by (cases "uow_enter U st"; cases "fst (uow_enter U st)")
      (auto simp: phase_step_apply thenP_apply returnP_apply raised_phase_def run_in_uow with_uow_def withP_apply
        leave_result_def raiseP_apply simp del: run_phases.simps(2) split: sum.splits prod.splits)
qed

end
