(* ===== verification/Row_Locks.thy ===== *)
theory Row_Locks
  imports Transfer_Steps Postgres
begin

text \<open>
  Several transfers at the same time over one database, each in a session of its own
  (\<open>session_factory()\<close> in \<open>SQLAlchemyUnitOfWork.__aenter__\<close>).

  \<^item> A \<open>server\<close> is a session together with what it shows of another transaction's commit; \<open>server_laws\<close>
    adds to \<open>session_laws\<close> the database's documented default, READ COMMITTED: once another transaction
    has committed, statements read its rows, except that rows this session has changed keep the change.
  \<^item> \<open>SELECT ... FOR UPDATE\<close> locks its row until the transaction ends and waits while another transaction
    holds it; a waiting statement may be cancelled by the server (deadlock detection, a timeout).
  \<^item> \<open>conc_step\<close> interleaves the phases of theory Transfer_Steps in any order. The Redis locks are not
    part of it: whatever holds here holds also when they are lost.
\<close>

section \<open>Another transaction commits\<close>

definition own_rows :: "('r \<Rightarrow> uuid) \<Rightarrow> (uuid \<Rightarrow> 'r option) \<Rightarrow> (uuid \<Rightarrow> 'r option) \<Rightarrow> 'r list \<Rightarrow> 'r list" where
  "own_rows key stored seen rows = map (\<lambda>r. case seen (key r) of
       None \<Rightarrow> r
     | Some r' \<Rightarrow> if stored (key r) = Some r' then r else r') rows"

definition overlay :: "db \<Rightarrow> db \<Rightarrow> db \<Rightarrow> db" where
  "overlay stored seen d = d\<lparr>
     db_accounts := own_rows ao_id (\<lambda>i. find_account i stored) (\<lambda>i. find_account i seen) (db_accounts d),
     db_txs := own_rows to_id (\<lambda>i. find_tx i stored) (\<lambda>i. find_tx i seen) (db_txs d)\<rparr>"

definition foreign_commit :: "db \<Rightarrow> session \<Rightarrow> session" where
  "foreign_commit d s = s\<lparr>ss_stored := d, ss_seen := overlay (ss_stored s) (ss_seen s) d\<rparr>"

record 'd server =
  sv_session :: "'d session_port"
  sv_view :: "'d \<Rightarrow> session"
  sv_note :: "db \<Rightarrow> 'd \<Rightarrow> 'd"

definition reference_server :: "(db \<Rightarrow> exn) \<Rightarrow> session server" where
  "reference_server refuse =
     \<lparr>sv_session = reference_session refuse, sv_view = (\<lambda>s. s), sv_note = foreign_commit\<rparr>"

definition server_laws :: "(db \<Rightarrow> exn) \<Rightarrow> 'd server \<Rightarrow> bool" where
  "server_laws refuse V \<longleftrightarrow> session_laws refuse (sv_session V) (sv_view V) \<and>
     (\<forall>d s. sv_view V (sv_note V d s) = foreign_commit d (sv_view V s))"

abbreviation server_uow :: "'d server \<Rightarrow> 'd sql_uow uow_port" where
  "server_uow V \<equiv> sqlalchemy_uow (sv_session V)"

section \<open>Transfers side by side\<close>

text \<open>A running transfer: its call, its place, its objects, its unit of work and the rows it has locked.\<close>

record 'd xfer =
  xf_call :: transfer_call
  xf_phase :: phase
  xf_heap :: heap
  xf_uow :: "'d sql_uow"
  xf_rows :: "uuid set"

text \<open>The row that the next statement selects \<open>FOR UPDATE\<close>.\<close>

fun row_wanted :: "transfer_call \<Rightarrow> heap \<Rightarrow> phase \<Rightarrow> uuid option" where
  "row_wanted c h (AtLoadSender amt) = Some (xc_from c)"
| "row_wanted c h (AtLoadReceiver amt s) = Some (xc_to c)"
| "row_wanted c h (AtUpdateSender s r tx) = Some (entity_id (accounts_at h s))"
| "row_wanted c h (AtUpdateReceiver s r tx) = Some (entity_id (accounts_at h r))"
| "row_wanted c h ph = None"

definition xf_wanted :: "'d xfer \<Rightarrow> uuid option" where
  "xf_wanted p = row_wanted (xf_call p) (xf_heap p) (xf_phase p)"

text \<open>A row that does not exist cannot be locked; \<open>COMMIT\<close>, \<open>ROLLBACK\<close> and \<open>close\<close> end the transaction.\<close>

fun ends_transaction :: "phase \<Rightarrow> bool" where
  "ends_transaction (AtCommit s r tx) = True"
| "ends_transaction (AtCommitFailed tx e) = True"
| "ends_transaction (AtLeave x) = True"
| "ends_transaction ph = False"

definition rows_after :: "db \<Rightarrow> 'd xfer \<Rightarrow> uuid set" where
  "rows_after d p =
     (if ends_transaction (xf_phase p) then {}
      else case xf_wanted p of
          None \<Rightarrow> xf_rows p
        | Some i \<Rightarrow> if find_account i d = None then xf_rows p else insert i (xf_rows p))"

text \<open>What the caller will be told when the commit is accepted.\<close>

fun commit_result :: "phase \<Rightarrow> transfer_result option" where
  "commit_result (AtCommit s r tx) = Some (Inr (s, r, tx))"
| "commit_result (AtCommitFailed tx e) = Some (Inl e)"
| "commit_result ph = None"

fun finished_phase :: "phase \<Rightarrow> bool" where
  "finished_phase (AtKnown r) = True"
| "finished_phase (AtDone x) = True"
| "finished_phase ph = False"

text \<open>The stored rows, the transfers, and the accepted commits in their order.\<close>

record 'd conc =
  cc_db :: db
  cc_xfers :: "'d xfer list"
  cc_log :: "(nat \<times> transfer_result) list"

definition blocked :: "nat \<Rightarrow> 'd conc \<Rightarrow> bool" where
  "blocked i c = (case xf_wanted (cc_xfers c ! i) of
       None \<Rightarrow> False
     | Some row \<Rightarrow> list_ex (\<lambda>j. j \<noteq> i \<and> row \<in> xf_rows (cc_xfers c ! j)) [0..<length (cc_xfers c)])"

definition can_turn :: "nat \<Rightarrow> 'd conc \<Rightarrow> bool" where
  "can_turn i c = (i < length (cc_xfers c) \<and> \<not> finished_phase (xf_phase (cc_xfers c ! i)) \<and> \<not> blocked i c)"

definition note_xfer :: "'d server \<Rightarrow> db \<Rightarrow> 'd xfer \<Rightarrow> 'd xfer" where
  "note_xfer V d p = p\<lparr>xf_uow := (xf_uow p)\<lparr>sq_db := sv_note V d (sq_db (xf_uow p))\<rparr>\<rparr>"

definition xfer_step :: "'d server \<Rightarrow> db \<Rightarrow> 'd xfer \<Rightarrow> 'd xfer" where
  "xfer_step V d p = (case phase_step (server_uow V) (xf_call p) (xf_phase p, xf_heap p, xf_uow p) of
     (ph, h, u) \<Rightarrow> p\<lparr>xf_phase := ph, xf_heap := h, xf_uow := u, xf_rows := rows_after d p\<rparr>)"

text \<open>The commit that this step makes, when it makes one.\<close>

definition xfer_commit :: "'d server \<Rightarrow> 'd xfer \<Rightarrow> (transfer_result \<times> db) option" where
  "xfer_commit V p = (case commit_result (xf_phase p) of
     None \<Rightarrow> None
   | Some x \<Rightarrow> (case uow_commit (server_uow V) (xf_heap p, xf_uow p) of
       (Inl e, s) \<Rightarrow> None
     | (Inr _, (h, u)) \<Rightarrow> Some (x, ss_stored (sv_view V (sq_db u)))))"

definition conc_turn :: "'d server \<Rightarrow> nat \<Rightarrow> 'd conc \<Rightarrow> 'd conc" where
  "conc_turn V i c = (let p = cc_xfers c ! i; p' = xfer_step V (cc_db c) p in
     case xfer_commit V p of
       None \<Rightarrow> c\<lparr>cc_xfers := (cc_xfers c)[i := p']\<rparr>
     | Some (x, d) \<Rightarrow> \<lparr>cc_db = d, cc_xfers = (map (note_xfer V d) (cc_xfers c))[i := p'],
         cc_log = cc_log c @ [(i, x)]\<rparr>)"

text \<open>The server aborts the transaction whose statement waits, and the statement raises.\<close>

definition conc_cancel :: "nat \<Rightarrow> exn \<Rightarrow> 'd conc \<Rightarrow> 'd conc" where
  "conc_cancel i e c = c\<lparr>cc_xfers := (cc_xfers c)[i := (cc_xfers c ! i)\<lparr>xf_phase := AtLeave (Inl e), xf_rows := {}\<rparr>]\<rparr>"

inductive conc_step :: "'d server \<Rightarrow> 'd conc \<Rightarrow> 'd conc \<Rightarrow> bool" for V where
  turn: "can_turn i c \<Longrightarrow> conc_step V c (conc_turn V i c)"
| cancelled: "i < length (cc_xfers c) \<Longrightarrow> blocked i c \<Longrightarrow> conc_step V c (conc_cancel i e c)"

text \<open>All transfers are called; nothing has happened yet.\<close>

definition conc_start :: "'d server \<Rightarrow> db \<Rightarrow> 'd conc \<Rightarrow> bool" where
  "conc_start V d c \<longleftrightarrow> cc_db c = d \<and> cc_log c = [] \<and>
     (\<forall>p \<in> set (cc_xfers c). xf_phase p = AtCheck \<and> xf_rows p = {} \<and> ss_stored (sv_view V (sq_db (xf_uow p))) = d)"

text \<open>A schedule: whose turn it is; a turn that is not possible ends it.\<close>

fun conc_run :: "'d server \<Rightarrow> nat list \<Rightarrow> 'd conc \<Rightarrow> 'd conc option" where
  "conc_run V [] c = Some c"
| "conc_run V (i # is) c = (if can_turn i c then conc_run V is (conc_turn V i c) else None)"

lemma conc_run_sound: "conc_run V is c = Some c' \<Longrightarrow> (conc_step V)\<^sup>*\<^sup>* c c'"
  by (induction "is" arbitrary: c)
    (auto split: if_splits intro: converse_rtranclp_into_rtranclp conc_step.turn)

section \<open>Any lawful server behaves as the reference server\<close>

definition abs_xfer :: "'d server \<Rightarrow> 'd xfer \<Rightarrow> session xfer" where
  "abs_xfer V p = \<lparr>xf_call = xf_call p, xf_phase = xf_phase p, xf_heap = xf_heap p,
     xf_uow = abs_session_uow (sv_view V) (xf_uow p), xf_rows = xf_rows p\<rparr>"

definition abs_conc :: "'d server \<Rightarrow> 'd conc \<Rightarrow> session conc" where
  "abs_conc V c = \<lparr>cc_db = cc_db c, cc_xfers = map (abs_xfer V) (cc_xfers c), cc_log = cc_log c\<rparr>"

lemma abs_xfer_simps [simp]:
  "xf_call (abs_xfer V p) = xf_call p" "xf_phase (abs_xfer V p) = xf_phase p" "xf_heap (abs_xfer V p) = xf_heap p"
  "xf_rows (abs_xfer V p) = xf_rows p" "xf_wanted (abs_xfer V p) = xf_wanted p"
  "rows_after d (abs_xfer V p) = rows_after d p" "xf_uow (abs_xfer V p) = abs_session_uow (sv_view V) (xf_uow p)"
  by (auto simp: abs_xfer_def xf_wanted_def rows_after_def split: option.splits)

lemma abs_conc_simps [simp]:
  "cc_db (abs_conc V c) = cc_db c" "cc_log (abs_conc V c) = cc_log c"
  "cc_xfers (abs_conc V c) = map (abs_xfer V) (cc_xfers c)"
  by (simp_all add: abs_conc_def)

lemma apply_phase_simulates: "simulates (abs_uow_state g) (apply_phase c m s r) (apply_phase c m s r)"
  unfolding apply_phase_def by (intro simulates_intros transfer_apply_simulates)

lemma transfer_phase_simulates:
  assumes "uow_simulates g U U'"
  shows "simulates (abs_uow_state g) (transfer_phase U c ph) (transfer_phase U' c ph)"
  by (cases ph) (simp only: transfer_phase.simps,
    intro simulates_intros load_account_simulates apply_phase_simulates assms)+

lemma phase_step_simulates:
  assumes "uow_simulates g U U'" and "phase_step U c (ph, h, u) = (ph', h', u')"
  shows "phase_step U' c (ph, h, g u) = (ph', h', g u')"
  using simulatesD [OF transfer_phase_simulates [OF assms(1)], of c ph "(h, u)"] assms(2)
  by (cases "transfer_phase U c ph (h, u)")
    (auto simp: phase_step_apply abs_uow_state_def split: sum.splits)

lemma abs_xfer_step:
  assumes "server_laws refuse V"
  shows "abs_xfer V (xfer_step V d p) = xfer_step (reference_server refuse) d (abs_xfer V p)"
proof -
  obtain ph h u where st: "phase_step (server_uow V) (xf_call p) (xf_phase p, xf_heap p, xf_uow p) = (ph, h, u)"
    by (rule prod_cases3)
  have "uow_simulates (abs_session_uow (sv_view V)) (server_uow V) (server_uow (reference_server refuse))"
    using assms sql_simulates by (auto simp: server_laws_def reference_server_def)
  from phase_step_simulates [OF this st] st show ?thesis
    by (simp add: xfer_step_def)
qed

lemma abs_xfer_commit:
  assumes "server_laws refuse V"
  shows "xfer_commit (reference_server refuse) (abs_xfer V p) = xfer_commit V p"
proof -
  have "simulates (abs_uow_state (abs_session_uow (sv_view V))) (uow_commit (server_uow V))
      (uow_commit (server_uow (reference_server refuse)))"
    using assms sql_simulates by (intro uow_simulatesD) (auto simp: server_laws_def reference_server_def)
  from simulatesD [OF this, of "(xf_heap p, xf_uow p)"] show ?thesis
    by (cases "uow_commit (server_uow V) (xf_heap p, xf_uow p)")
      (auto simp: xfer_commit_def abs_uow_state_def abs_session_uow_def reference_server_def split: option.splits sum.splits)
qed

lemma abs_note_xfer:
  assumes "server_laws refuse V"
  shows "abs_xfer V (note_xfer V d p) = note_xfer (reference_server refuse) d (abs_xfer V p)"
  using assms by (simp add: abs_xfer_def note_xfer_def abs_session_uow_def server_laws_def reference_server_def)

lemma abs_conc_turn:
  assumes laws: "server_laws refuse V" and i: "i < length (cc_xfers c)"
  shows "abs_conc V (conc_turn V i c) = conc_turn (reference_server refuse) i (abs_conc V c)"
proof -
  have others: "abs_xfer V \<circ> note_xfer V d = note_xfer (reference_server refuse) d \<circ> abs_xfer V" for d
    by (simp add: fun_eq_iff abs_note_xfer [OF laws])
  show ?thesis
    using i by (auto simp: conc_turn_def abs_xfer_commit [OF laws] abs_xfer_step [OF laws, symmetric] Let_def
        abs_conc_def map_update others split: option.splits)
qed

lemma abs_blocked: "i < length (cc_xfers c) \<Longrightarrow> blocked i (abs_conc V c) = blocked i c"
  by (auto simp: blocked_def list_ex_iff split: option.splits)

lemma abs_can_turn: "can_turn i (abs_conc V c) = can_turn i c"
  by (auto simp: can_turn_def abs_blocked)

lemma abs_conc_step:
  assumes "server_laws refuse V" and "conc_step V c c'"
  shows "conc_step (reference_server refuse) (abs_conc V c) (abs_conc V c')"
  using assms(2)
proof cases
  case (turn i)
  then show ?thesis
    using conc_step.turn [of i "abs_conc V c" "reference_server refuse"] abs_conc_turn [OF assms(1), of i c]
    by (simp add: abs_can_turn) (simp add: can_turn_def)
next
  case (cancelled i e)
  then have "abs_conc V c' = conc_cancel i e (abs_conc V c)"
    by (simp add: conc_cancel_def abs_conc_def map_update) (simp add: abs_xfer_def)
  with cancelled conc_step.cancelled [of i "abs_conc V c" "reference_server refuse" e] show ?thesis
    by (simp add: abs_blocked)
qed

lemma abs_conc_reachable:
  assumes "server_laws refuse V" and "(conc_step V)\<^sup>*\<^sup>* c c'"
  shows "(conc_step (reference_server refuse))\<^sup>*\<^sup>* (abs_conc V c) (abs_conc V c')"
  using assms(2) by induction (auto intro: rtranclp.rtrancl_into_rtrancl abs_conc_step [OF assms(1)])

lemma abs_conc_start: "conc_start V d c \<Longrightarrow> conc_start (reference_server refuse) d (abs_conc V c)"
  by (auto simp: conc_start_def reference_server_def abs_session_uow_def)

end
