(* ===== verification/Isolation.thy ===== *)
theory Isolation
  imports Row_Locks Sql_Transfer
begin

text \<open>
  One transfer while others commit, over the reference server.

  \<^item> \<open>form\<close> says what the session of a transfer looks like at each phase when it has run alone over the
    stored rows \<open>d\<close>; \<open>form_step\<close> that every phase keeps it.
  \<^item> \<open>foreign_step\<close>: a commit of others that leaves alone the rows this transfer has locked commutes with
    every phase. So a transfer that others have overtaken stands where it would stand had it started
    after them (\<open>foreign_run\<close>).
\<close>

section \<open>Rows under another transaction's commit\<close>

lemma own_rows_unchanged [simp]: "own_rows key f f rows = rows"
  by (auto simp: own_rows_def intro!: map_idI split: option.splits)

lemma overlay_unchanged [simp]: "overlay d d d' = d'"
  by (simp add: overlay_def)

lemma find_distinct:
  assumes "distinct (map ao_id xs)" and "x \<in> set xs"
  shows "find (\<lambda>r. ao_id r = ao_id x) xs = Some x"
  using assms by (induction xs) auto

lemma find_account_member:
  "distinct (map ao_id (db_accounts d)) \<Longrightarrow> x \<in> set (db_accounts d) \<Longrightarrow> find_account (ao_id x) d = Some x"
  by (simp add: find_account_def find_distinct)

lemma overlay_put_account:
  assumes "distinct (map ao_id (db_accounts d'))" and "find_account (ao_id r) d' = find_account (ao_id r) d"
    and "find_account (ao_id r) seen \<noteq> None"
  shows "overlay d (put_account r seen) d' = put_account r (overlay d seen d')"
proof -
  have row: "(case find_account (ao_id x) (put_account r seen) of None \<Rightarrow> x
        | Some r' \<Rightarrow> if find_account (ao_id x) d = Some r' then x else r') =
      (\<lambda>y. if ao_id y = ao_id r then r else y) (case find_account (ao_id x) seen of None \<Rightarrow> x
        | Some r' \<Rightarrow> if find_account (ao_id x) d = Some r' then x else r')"
    if x: "x \<in> set (db_accounts d')" for x
  proof (cases "ao_id x = ao_id r")
    case True
    have "find_account (ao_id x) d' = Some x" using find_account_member [OF assms(1) x] .
    with True assms(2,3) show ?thesis
      by (auto simp: find_put_account dest: find_account_id split: option.splits)
  next
    case False
    then show ?thesis
      by (auto simp: find_put_account dest: find_account_id split: option.splits)
  qed
  have "own_rows ao_id (\<lambda>i. find_account i d) (\<lambda>i. find_account i (put_account r seen)) (db_accounts d') =
      map (\<lambda>y. if ao_id y = ao_id r then r else y)
        (own_rows ao_id (\<lambda>i. find_account i d) (\<lambda>i. find_account i seen) (db_accounts d'))"
    using row by (simp add: own_rows_def)
  then show ?thesis
    by (simp add: overlay_def) (simp add: put_account_def)
qed

section \<open>Identities\<close>

lemma debit_id: "debit m t r a = Inr b \<Longrightarrow> entity_id b = entity_id a"
  by (auto simp: debit_Inr record_event_def)

lemma credit_id: "credit m t r a = Inr b \<Longrightarrow> entity_id b = entity_id a"
  by (auto simp: credit_Inr record_event_def)

lemma tx_step_id:
  "mark_processing r t = Inr t' \<Longrightarrow> entity_id t' = entity_id t \<and> idempotency_key t' = idempotency_key t"
  "complete r t = Inr t' \<Longrightarrow> entity_id t' = entity_id t \<and> idempotency_key t' = idempotency_key t"
  "fail code reason r t = Inr t' \<Longrightarrow> entity_id t' = entity_id t \<and> idempotency_key t' = idempotency_key t"
  by (auto simp: tx_defs record_event_def split: if_splits)

text \<open>What the method calls on aggregates leave alone: every object's identity and the unit of work.\<close>

definition ids :: "heap \<times> 'u \<Rightarrow> (nat \<Rightarrow> uuid) \<times> (nat \<Rightarrow> uuid \<times> string) \<times> nat \<times> 'u" where
  "ids = (\<lambda>(h, u). (\<lambda>r. entity_id (accounts_at h r), \<lambda>r. (entity_id (txs_at h r), idempotency_key (txs_at h r)),
     next_ref h, u))"

lemma keeps_ids_on:
  "(\<And>a b. f a = Inr b \<Longrightarrow> entity_id b = entity_id a) \<Longrightarrow> keeps ids (on_account r f)"
  "(\<And>a b. g a = Inr b \<Longrightarrow> entity_id b = entity_id a \<and> idempotency_key b = idempotency_key a) \<Longrightarrow> keeps ids (on_tx r g)"
  by (rule keepsI; auto simp: ids_def on_account_def on_tx_def fun_eq_iff split: sum.splits)+

lemma transfer_apply_ids: "keeps ids (transfer_apply s r tx amt \<omega>)"
  unfolding transfer_apply_def read_tx_def
  by (intro keeps_thenP keeps_bindP keeps_pure keeps_ids_on)
    (auto dest: debit_id credit_id tx_step_id)

abbreviation xc_tx_id :: "transfer_call \<Rightarrow> uuid" where
  "xc_tx_id c \<equiv> rd_uuid (xc_reads c 0) 1"

text \<open>The transaction of a transfer between two accounts.\<close>

definition created_tx :: "transfer_call \<Rightarrow> heap \<Rightarrow> nat \<Rightarrow> bool" where
  "created_tx c h tx \<longleftrightarrow> entity_id (txs_at h tx) = xc_tx_id c \<and> idempotency_key (txs_at h tx) = xc_key c \<and>
     xc_from c \<noteq> xc_to c"

lemma apply_phase_cases:
  assumes "apply_phase c m s r (h, u) = (x, h', u')"
  shows "u' = u \<and> (x = Inr ph \<longrightarrow>
    (\<lambda>i. entity_id (accounts_at h' i)) = (\<lambda>i. entity_id (accounts_at h i)) \<and>
    (\<exists>tx. created_tx c h' tx \<and> (ph = AtUpdateSender s r tx \<or> (\<exists>e. ph = AtSaveFailed tx e))))"
proof (cases "tx_initiate (xc_from c) (xc_to c) m (xc_key c) TRANSFER (xc_reads c 0)")
  case (Inl e)
  with assms show ?thesis by (auto simp: apply_phase_def bindP_apply liftP_apply)
next
  case t: (Inr t)
  let ?n = "next_ref h" and ?h1 = "snd (alloc_tx t h)"
  have t_id: "entity_id t = xc_tx_id c" "idempotency_key t = xc_key c" "xc_from c \<noteq> xc_to c"
    using tx_initiate_Inr [OF t] by simp_all
  obtain y h2 u2 where ap: "transfer_apply s r ?n m (xc_reads c) (?h1, u) = (y, (h2, u2))"
    by (rule prod_cases3)
  have "ids (h2, u2) = ids (?h1, u)"
    using keepsD [OF transfer_apply_ids, of s r ?n m "xc_reads c" "(?h1, u)"] ap by simp
  then have i2: "u2 = u" "(\<lambda>i. entity_id (accounts_at h2 i)) = (\<lambda>i. entity_id (accounts_at h i))"
    "created_tx c h2 ?n"
    using t_id by (auto simp: ids_def alloc_tx_def fun_eq_iff created_tx_def)
  show ?thesis
  proof (cases y)
    case (Inr z)
    with t ap i2 t_id assms show ?thesis
      by (auto simp: apply_phase_def bindP_apply liftP_apply new_tx_def alloc_tx_def tryP_apply thenP_apply returnP_apply)
  next
    case (Inl e)
    show ?thesis
    proof (cases "fail (failure_code_of e) (exn_str e) (xc_reads c 5) (txs_at h2 ?n)")
      case (Inl e')
      with t ap \<open>y = Inl e\<close> i2 assms show ?thesis
        by (auto simp: apply_phase_def bindP_apply liftP_apply new_tx_def alloc_tx_def tryP_apply thenP_apply returnP_apply on_tx_def)
    next
      case (Inr t')
      with t ap \<open>y = Inl e\<close> i2 t_id assms tx_step_id(3) [OF Inr] show ?thesis
        by (auto simp: apply_phase_def bindP_apply liftP_apply new_tx_def alloc_tx_def tryP_apply thenP_apply returnP_apply on_tx_def
            created_tx_def)
    qed
  qed
qed

section \<open>The session of a transfer that runs alone\<close>

text \<open>A unit of work over the stored rows \<open>d\<close> with loaded accounts \<open>rs\<close>, changed rows and added ones.\<close>

definition working :: "db \<Rightarrow> nat list \<Rightarrow> db \<Rightarrow> transaction_orm list \<Rightarrow> sql_state" where
  "working d rs seen ts = \<lparr>sq_db = \<lparr>ss_stored = d, ss_seen = seen, ss_new = empty_db\<lparr>db_txs := ts\<rparr>\<rparr>,
     sq_accounts_seen = rs, sq_txs_seen = []\<rparr>"

definition loaded_row :: "db \<Rightarrow> account_id \<Rightarrow> heap \<Rightarrow> nat \<Rightarrow> bool" where
  "loaded_row d i h r \<longleftrightarrow> find_account i d \<noteq> None \<and> entity_id (accounts_at h r) = i \<and> r < next_ref h"

definition pair_loaded :: "transfer_call \<Rightarrow> db \<Rightarrow> heap \<Rightarrow> nat \<Rightarrow> nat \<Rightarrow> bool" where
  "pair_loaded c d h s r \<longleftrightarrow> s \<noteq> r \<and> entity_id (accounts_at h s) = xc_from c \<and> entity_id (accounts_at h r) = xc_to c \<and>
     find_account (xc_from c) d \<noteq> None \<and> find_account (xc_to c) d \<noteq> None \<and> xc_from c \<noteq> xc_to c"

definition put_found :: "account_id \<Rightarrow> account \<Rightarrow> db \<Rightarrow> db" where
  "put_found i a d = (case find_account i d of None \<Rightarrow> d | Some row \<Rightarrow> put_account (account_update_orm row a) d)"

text \<open>Both rows changed: the sender's first, then the receiver's.\<close>

definition put_both :: "transfer_call \<Rightarrow> heap \<Rightarrow> nat \<Rightarrow> nat \<Rightarrow> db \<Rightarrow> db" where
  "put_both c h s r d = put_found (xc_to c) (accounts_at h r) (put_found (xc_from c) (accounts_at h s) d)"

definition found_pair :: "transfer_call \<Rightarrow> db \<Rightarrow> bool" where
  "found_pair c d \<longleftrightarrow> find_account (xc_from c) d \<noteq> None \<and> find_account (xc_to c) d \<noteq> None"

fun form :: "transfer_call \<Rightarrow> db \<Rightarrow> phase \<times> heap \<times> sql_state \<Rightarrow> bool" where
  "form c d (AtLoadSender m, h, u) = (u = working d [] d [])"
| "form c d (AtLoadReceiver m s, h, u) = (u = working d [s] d [] \<and> loaded_row d (xc_from c) h s)"
| "form c d (AtApply m s r, h, u) = (u = working d [s, r] d [] \<and> s \<noteq> r \<and> loaded_row d (xc_from c) h s \<and> loaded_row d (xc_to c) h r)"
| "form c d (AtUpdateSender s r tx, h, u) =
     (u = working d [s, r] d [] \<and> pair_loaded c d h s r \<and> created_tx c h tx)"
| "form c d (AtUpdateReceiver s r tx, h, u) =
     (u = working d [s, r] (put_found (xc_from c) (accounts_at h s) d) [] \<and> pair_loaded c d h s r \<and>
      created_tx c h tx)"
| "form c d (AtSaveTx s r tx, h, u) =
     (u = working d [s, r] (put_both c h s r d) [] \<and> pair_loaded c d h s r \<and> created_tx c h tx)"
| "form c d (AtCommit s r tx, h, u) =
     (u = working d [s, r] (put_both c h s r d) [tx_to_new_orm (txs_at h tx)] \<and> pair_loaded c d h s r \<and>
      created_tx c h tx)"
| "form c d (AtSaveFailed tx e, h, u) =
     ((\<exists>rs. distinct rs \<and> u = working d rs d []) \<and> created_tx c h tx \<and> found_pair c d)"
| "form c d (AtCommitFailed tx e, h, u) =
     ((\<exists>rs. distinct rs \<and> u = working d rs d [tx_to_new_orm (txs_at h tx)]) \<and> created_tx c h tx \<and> found_pair c d)"
| "form c d (ph, h, u) = True"

lemma working_simps [simp]:
  "sq_db (working d rs seen ts) = \<lparr>ss_stored = d, ss_seen = seen, ss_new = empty_db\<lparr>db_txs := ts\<rparr>\<rparr>"
  "sq_accounts_seen (working d rs seen ts) = rs" "sq_txs_seen (working d rs seen ts) = []"
  by (simp_all add: working_def)

lemma working_pair: "s \<noteq> r \<Longrightarrow> \<exists>rs. distinct rs \<and> working d [s, r] d [] = working d rs d []"
  by (rule exI [of _ "[s, r]"]) simp

lemma working_update:
  "(working d rs seen ts)\<lparr>sq_db := \<lparr>ss_stored = d', ss_seen = seen', ss_new = empty_db\<lparr>db_txs := ts'\<rparr>\<rparr>\<rparr> = working d' rs seen' ts'"
  "(working d rs seen ts)\<lparr>sq_accounts_seen := rs'\<rparr> = working d rs' seen ts"
  by (simp_all add: working_def)

text \<open>What each phase does there, given what its statements find.\<close>

lemma load_working:
  "load_account (sqlalchemy_uow (reference_session refuse)) i (h, working d rs seen ts) =
     (case find_account i seen of
        None \<Rightarrow> (Inl (ResourceNotFoundError ''Account'' i), (h, working d rs seen ts))
      | Some row \<Rightarrow> (case account_to_domain row of
          Inl e \<Rightarrow> (Inl e, (h, working d rs seen ts))
        | Inr a \<Rightarrow> (Inr (next_ref h), (snd (alloc_account a h), working d (rs @ [next_ref h]) seen ts))))"
  by (auto simp: sql_load working_update split: option.splits sum.splits)

lemma update_working:
  "sql_acc_update (reference_session refuse) r (h, working d rs seen ts) =
     (case find_account (entity_id (accounts_at h r)) seen of
        None \<Rightarrow> (Inl no_row, (h, working d rs seen ts))
      | Some row \<Rightarrow> (Inr (), (h, working d rs (put_account (account_update_orm row (accounts_at h r)) seen) ts)))"
  by (auto simp: sql_acc_update_def bindP_apply read_account_def getP_apply on_db_apply raiseP_apply working_def
      split: option.splits)

lemma save_working:
  assumes "find_tx (entity_id (txs_at h tx)) seen = None"
  shows "sql_tx_save (reference_session refuse) tx (h, working d rs seen []) =
     (Inr (), (h, working d rs seen [tx_to_new_orm (txs_at h tx)]))"
  using assms by (simp add: sql_save_new working_update)

lemma put_found_simps [simp]:
  "db_txs (put_found i a d) = db_txs d" "db_outbox (put_found i a d) = db_outbox d"
  "find_tx k (put_found i a d) = find_tx k d" "find_tx_by_key key (put_found i a d) = find_tx_by_key key d"
  by (auto simp: put_found_def split: option.splits)

lemma put_both_simps [simp]:
  "db_txs (put_both c h s r d) = db_txs d" "db_outbox (put_both c h s r d) = db_outbox d"
  "find_tx k (put_both c h s r d) = find_tx k d"
  by (simp_all add: put_both_def)

lemma find_put_found:
  "find_account j (put_found i a d) =
     (if j = i then map_option (\<lambda>row. account_update_orm row a) (find_account i d) else find_account j d)"
  by (auto simp: put_found_def find_put_account dest: find_account_id split: option.splits)

abbreviation (input) alone :: "(db \<Rightarrow> exn) \<Rightarrow> transfer_call \<Rightarrow> phase \<times> heap \<times> sql_state \<Rightarrow> phase \<times> heap \<times> sql_state" where
  "alone refuse c \<equiv> phase_step (sqlalchemy_uow (reference_session refuse)) c"

lemma found_domain: "find_account i d = Some row \<Longrightarrow> account_to_domain row = Inr a \<Longrightarrow> entity_id a = i"
  using find_account_id to_domain_no_events by metis

lemma commit_leaves:
  assumes "commit_result ph = Some x" and "phase_step U c (ph, s) = (ph', s')"
  shows "\<exists>y. ph' = AtLeave y"
  using assms by (cases ph) (auto simp: phase_step_apply thenP_apply returnP_apply raised_phase_def split: sum.splits prod.splits)

lemma form_step:
  assumes "form c d (ph, h, u)" and "in_body ph" and "find_tx (xc_tx_id c) d = None"
    and "alone refuse c (ph, h, u) = (ph', h', u')" and "in_body ph'"
  shows "form c d (ph', h', u')"
proof -
  have nc: "commit_result ph = None"
    using commit_leaves [OF _ assms(4)] assms(5) by (cases "commit_result ph") auto
  note steps = phase_step_apply bindP_apply thenP_apply returnP_apply raised_phase_def load_working update_working
    save_working loaded_row_def alloc_account_def pair_loaded_def put_both_def put_found_def find_put_account
  show ?thesis
  proof (cases ph)
    case (AtApply m s r)
    obtain x h1 u1 where ap: "apply_phase c m s r (h, u) = (x, h1, u1)" by (rule prod_cases3)
    with assms AtApply have x: "x = Inr ph'" "h1 = h'" "u1 = u'"
      by (auto simp: phase_step_apply raised_phase_def split: sum.splits)
    with ap apply_phase_cases [of c m s r h u x h1 u1 ph'] assms(1) AtApply show ?thesis
      by (auto simp: pair_loaded_def loaded_row_def found_pair_def fun_eq_iff created_tx_def intro: working_pair)
  next
    case (AtSaveFailed tx e)
    then obtain rs where "distinct rs" "u = working d rs d []" "created_tx c h tx" and found: "found_pair c d"
      using assms(1) by auto
    with AtSaveFailed assms(3,4) have "(ph', h', u') = (AtCommitFailed tx e, h, working d rs d [tx_to_new_orm (txs_at h tx)])"
      "created_tx c h tx" by (auto simp: steps created_tx_def)
    with \<open>distinct rs\<close> found show ?thesis by auto
  qed (use assms nc in \<open>auto simp: steps created_tx_def dest: find_account_id found_domain split: option.splits sum.splits\<close>)
qed

text \<open>What a commit of others changes for a working transfer.\<close>

definition foreign_uow :: "db \<Rightarrow> sql_state \<Rightarrow> sql_state" where
  "foreign_uow d' u = u\<lparr>sq_db := foreign_commit d' (sq_db u)\<rparr>"

lemma foreign_working [simp]: "foreign_uow d' (working d rs seen ts) = working d' rs (overlay d seen d') ts"
  by (simp add: foreign_uow_def foreign_commit_def working_def)

text \<open>The rows a transfer has locked when it stands at a phase.\<close>

fun held_rows :: "transfer_call \<Rightarrow> phase \<Rightarrow> uuid set" where
  "held_rows c (AtLoadSender m) = {}"
| "held_rows c (AtLoadReceiver m s) = {xc_from c}"
| "held_rows c ph = (if in_body ph then {xc_from c, xc_to c} else {})"

text \<open>Stored rows that may replace \<open>d\<close> under the transfer: its locked rows and its new id are as before.\<close>

definition passes :: "transfer_call \<Rightarrow> uuid set \<Rightarrow> db \<Rightarrow> db \<Rightarrow> bool" where
  "passes c rows d d' \<longleftrightarrow> distinct (map ao_id (db_accounts d')) \<and> find_tx (xc_tx_id c) d' = None \<and>
     (\<forall>i \<in> rows. find_account i d' = find_account i d)"

lemma passes_less: "passes c rows d d' \<Longrightarrow> rows' \<subseteq> rows \<Longrightarrow> passes c rows' d d'"
  by (auto simp: passes_def)

lemma overlay_put_found:
  assumes "passes c rows d d'" and "i \<in> rows" and "find_account i seen \<noteq> None"
    and "find_account i (overlay d seen d') = find_account i seen"
  shows "overlay d (put_found i a seen) d' = put_found i a (overlay d seen d')"
proof -
  obtain row where row: "find_account i seen = Some row" using assms(3) by auto
  then have "ao_id (account_update_orm row a) = i" using find_account_id by simp
  with row assms show ?thesis
    using overlay_put_account [of d' "account_update_orm row a" d seen] by (simp add: put_found_def passes_def)
qed

lemma overlay_put_one:
  assumes "passes c rows d d'" and "i \<in> rows" and "find_account i d \<noteq> None"
  shows "overlay d (put_found i a d) d' = put_found i a d'"
  using overlay_put_found [OF assms] assms by (simp add: passes_def)

lemma overlay_put_both:
  assumes "passes c {xc_from c, xc_to c} d d'" and "pair_loaded c d h s r"
  shows "overlay d (put_both c h s r d) d' = put_both c h s r d'"
proof -
  let ?one = "put_found (xc_from c) (accounts_at h s) d"
  have one: "overlay d ?one d' = put_found (xc_from c) (accounts_at h s) d'"
    using assms by (intro overlay_put_one) (auto simp: pair_loaded_def)
  have "find_account (xc_to c) (overlay d ?one d') = find_account (xc_to c) ?one"
    using assms unfolding one by (auto simp: find_put_found pair_loaded_def passes_def)
  with overlay_put_found [OF assms(1), of "xc_to c" ?one] assms(2) show ?thesis
    by (simp add: put_both_def one) (auto simp: find_put_found pair_loaded_def)
qed

text \<open>The locked rows exist.\<close>

lemma held_rows_found: "form c d (ph, h, u) \<Longrightarrow> i \<in> held_rows c ph \<Longrightarrow> find_account i d \<noteq> None"
  by (cases ph) (auto simp: loaded_row_def pair_loaded_def found_pair_def)

section \<open>Overtaken by other commits\<close>

lemma held_rows_mono:
  assumes "in_body ph" and "phase_step U c (ph, s) = (ph', s')" and "in_body ph'"
  shows "held_rows c ph \<subseteq> held_rows c ph'"
  using assms by (cases ph) (auto simp: phase_step_apply apply_phase_def bindP_apply thenP_apply tryP_apply returnP_apply
      raised_phase_def split: sum.splits prod.splits)

lemma foreign_step:
  assumes "form c d (ph, h, u)" and "in_body ph" and "find_tx (xc_tx_id c) d = None"
    and "alone refuse c (ph, h, u) = (ph', h', u')" and "in_body ph'" and "passes c (held_rows c ph') d d'"
  shows "alone refuse c (ph, h, foreign_uow d' u) = (ph', h', foreign_uow d' u')"
proof -
  have nc: "commit_result ph = None"
    using commit_leaves [OF _ assms(4)] assms(5) by (cases "commit_result ph") auto
  have before: "passes c (held_rows c ph) d d'"
    using assms(6) held_rows_mono [OF assms(2,4,5)] by (rule passes_less)
  note steps = phase_step_apply bindP_apply thenP_apply returnP_apply raised_phase_def load_working update_working
    save_working
  show ?thesis
  proof (cases ph)
    case (AtLoadSender m)
    with assms show ?thesis by (auto simp: steps passes_def split: option.splits sum.splits)
  next
    case (AtLoadReceiver m s)
    with assms show ?thesis by (auto simp: steps passes_def split: option.splits sum.splits)
  next
    case (AtApply m s r)
    obtain x h1 u1 where ap: "apply_phase c m s r (h, u) = (x, h1, u1)" by (rule prod_cases3)
    with assms(2,4,5) AtApply have x: "x = Inr ph'" "h1 = h'" "u1 = u'"
      by (auto simp: phase_step_apply raised_phase_def split: sum.splits)
    then have "u' = u" using apply_phase_cases [OF ap] by auto
    obtain y h2 u2 where ap': "apply_phase c m s r (h, foreign_uow d' u) = (y, h2, u2)" by (rule prod_cases3)
    have "simulates (abs_uow_state (foreign_uow d')) (apply_phase c m s r) (apply_phase c m s r)"
      by (rule apply_phase_simulates)
    from simulatesD [OF this, of "(h, u)"] ap ap' x show ?thesis
      using AtApply by (simp add: phase_step_apply abs_uow_state_def)
  next
    case (AtUpdateSender s r tx)
    with before have held: "passes c {xc_from c, xc_to c} d d'" by simp
    from assms(1) AtUpdateSender obtain ra where u: "u = working d [s, r] d []"
      "entity_id (accounts_at h s) = xc_from c" "find_account (xc_from c) d = Some ra"
      by (auto simp: pair_loaded_def)
    have "(ph', h', u') = (AtUpdateReceiver s r tx, h, working d [s, r] (put_found (xc_from c) (accounts_at h s) d) [])"
      using assms(4) AtUpdateSender u by (auto simp: steps put_found_def)
    moreover have "overlay d (put_found (xc_from c) (accounts_at h s) d) d' = put_found (xc_from c) (accounts_at h s) d'"
      using overlay_put_one [OF held] u(3) by simp
    moreover have "find_account (xc_from c) d' = Some ra" using held u(3) by (simp add: passes_def)
    ultimately show ?thesis using AtUpdateSender u by (simp add: steps put_found_def)
  next
    case (AtUpdateReceiver s r tx)
    with before have held: "passes c {xc_from c, xc_to c} d d'" by simp
    let ?one = "put_found (xc_from c) (accounts_at h s)"
    from assms(1) AtUpdateReceiver have u: "u = working d [s, r] (?one d) []" and pair: "pair_loaded c d h s r"
      by auto
    then obtain rb where rb: "find_account (xc_to c) (?one d) = Some rb" "find_account (xc_to c) d = Some rb"
      by (auto simp: pair_loaded_def find_put_found)
    have e: "entity_id (accounts_at h r) = xc_to c" "xc_from c \<noteq> xc_to c" using pair by (auto simp: pair_loaded_def)
    have "(ph', h', u') = (AtSaveTx s r tx, h, working d [s, r] (put_both c h s r d) [])"
      using assms(4) AtUpdateReceiver u rb e by (auto simp: steps put_both_def put_found_def [of "xc_to c"])
    moreover have "overlay d (?one d) d' = ?one d'"
      using overlay_put_one [OF held] pair by (simp add: pair_loaded_def)
    moreover have "find_account (xc_to c) (?one d') = Some rb"
      using held rb(2) e(2) by (simp add: passes_def find_put_found)
    ultimately show ?thesis
      using AtUpdateReceiver u e overlay_put_both [OF held pair]
      by (simp add: steps put_both_def put_found_def [of "xc_to c"])
  next
    case (AtSaveTx s r tx)
    with before have held: "passes c {xc_from c, xc_to c} d d'" by simp
    from AtSaveTx assms held show ?thesis
      by (auto simp: steps overlay_put_both passes_def created_tx_def)
  next
    case (AtSaveFailed tx e)
    with assms show ?thesis by (auto simp: steps passes_def created_tx_def)
  qed (use assms nc in auto)
qed

lemma body_next:
  assumes "in_body ph" and "phase_step U c (ph, s) = (ph', s')"
  shows "in_body ph' \<or> (\<exists>x. ph' = AtLeave x)"
  using assms by (cases ph) (auto simp: phase_step_apply apply_phase_def bindP_apply thenP_apply tryP_apply returnP_apply
      raised_phase_def split: sum.splits prod.splits)

lemma leave_next: "phase_step U c (AtLeave x, s) = (ph', s') \<Longrightarrow> \<exists>y. ph' = AtDone y"
  by (auto simp: phase_step_apply thenP_apply returnP_apply raised_phase_def split: sum.splits prod.splits)

lemma done_next [simp]: "phase_step U c (AtDone x, s) = (AtDone x, s)"
  by (simp add: phase_step_apply returnP_apply)

lemma run_phase_cases:
  assumes "run_phases U c k (AtLoadSender m, s) = (ph, s')"
  shows "in_body ph \<or> (\<exists>x. ph = AtLeave x) \<or> (\<exists>x. ph = AtDone x)"
  using assms
proof (induction k arbitrary: ph s')
  case (Suc k)
  obtain ph1 s1 where k: "run_phases U c k (AtLoadSender m, s) = (ph1, s1)" by (rule prod.exhaust)
  with Suc.prems have st: "phase_step U c (ph1, s1) = (ph, s')" by (simp add: run_phases_snoc del: run_phases.simps(2))
  from Suc.IH [OF k] body_next [OF _ st] leave_next [of U c _ s1 ph s'] st show ?case by auto
qed simp

lemma run_phases_body:
  assumes "run_phases U c (Suc k) (AtLoadSender m, s) = (ph, s')" and "in_body ph"
  obtains ph1 s1 where "run_phases U c k (AtLoadSender m, s) = (ph1, s1)" and "in_body ph1"
    and "phase_step U c (ph1, s1) = (ph, s')"
proof -
  obtain ph1 s1 where k: "run_phases U c k (AtLoadSender m, s) = (ph1, s1)" by (rule prod.exhaust)
  with assms(1) have st: "phase_step U c (ph1, s1) = (ph, s')" by (simp add: run_phases_snoc del: run_phases.simps(2))
  from st assms(2) have "ph1 \<noteq> AtLeave x" for x using leave_next by fastforce
  with run_phase_cases [OF k] st assms(2) have "in_body ph1" by auto
  from that [OF k this st] show thesis .
qed

abbreviation (input) alone_run ::
  "(db \<Rightarrow> exn) \<Rightarrow> transfer_call \<Rightarrow> money \<Rightarrow> heap \<Rightarrow> nat \<Rightarrow> db \<Rightarrow> phase \<times> heap \<times> sql_state" where
  "alone_run refuse c m h k d \<equiv>
     run_phases (sqlalchemy_uow (reference_session refuse)) c k (AtLoadSender m, h, sql_start d)"

lemma start_working: "sql_start d = working d [] d []"
  by (simp add: sql_start_def working_def fresh_session_def empty_db_def)

lemma alone_form:
  assumes "alone_run refuse c m h0 k d = (ph, h, u)" and "in_body ph" and "find_tx (xc_tx_id c) d = None"
  shows "form c d (ph, h, u)"
  using assms
proof (induction k arbitrary: ph h u)
  case 0
  then show ?case by (auto simp: start_working)
next
  case (Suc k)
  from run_phases_body [OF Suc.prems(1,2)] obtain ph1 h1 u1
    where k: "alone_run refuse c m h0 k d = (ph1, h1, u1)" "in_body ph1" "alone refuse c (ph1, h1, u1) = (ph, h, u)"
    by (metis prod.exhaust)
  from form_step [OF Suc.IH [OF k(1,2) Suc.prems(3)] k(2) Suc.prems(3) k(3) Suc.prems(2)] show ?case .
qed

text \<open>A transfer at work stands where it would stand had it started after the others' commit.\<close>

lemma foreign_run:
  assumes "alone_run refuse c m h0 k d = (ph, h, u)" and "in_body ph" and "find_tx (xc_tx_id c) d = None"
    and "passes c (held_rows c ph) d d'"
  shows "alone_run refuse c m h0 k d' = (ph, h, foreign_uow d' u)"
  using assms
proof (induction k arbitrary: ph h u)
  case 0
  then show ?case by (auto simp: start_working)
next
  case (Suc k)
  from run_phases_body [OF Suc.prems(1,2)] obtain ph1 h1 u1
    where k: "alone_run refuse c m h0 k d = (ph1, h1, u1)" "in_body ph1" "alone refuse c (ph1, h1, u1) = (ph, h, u)"
    by (metis prod.exhaust)
  have "passes c (held_rows c ph1) d d'"
    using Suc.prems(4) held_rows_mono [OF k(2,3) Suc.prems(2)] by (rule passes_less)
  from Suc.IH [OF k(1,2) Suc.prems(3) this]
    foreign_step [OF alone_form [OF k(1,2) Suc.prems(3)] k(2) Suc.prems(3) k(3) Suc.prems(2,4)]
  show ?case by (simp add: run_phases_snoc del: run_phases.simps(2))
qed

end
