(* ===== verification/Concurrent_Transfers.thy ===== *)
theory Concurrent_Transfers
  imports Isolation
begin

text \<open>
  Any number of transfers in any interleaving over one database, without the Redis locks.

  \<^item> \<open>serial_transfers\<close> runs transfers one after the other, each as the code of theory Services in one
    piece. \<open>conc_inv\<close> says that the stored rows and the answers of the accepted commits are those of the
    serial run in the order of the commits; \<open>conc_reachable\<close> that it holds at every moment. \<open>conc_core\<close> is the part of
    it that also other commits keep.
  \<^item> Every transfer at work is where it would be had it begun after the last commit: the invariant's
    \<open>place\<close>, kept by theory Isolation.
\<close>

section \<open>One transfer after the other\<close>

definition serial_transfer ::
  "(db \<Rightarrow> exn) \<Rightarrow> transfer_call \<times> heap \<Rightarrow> db \<Rightarrow> transfer_result \<times> db" where
  "serial_transfer refuse = (\<lambda>(c, h) d. case transfer_amount (xc_cmd c) of
       Inl e \<Rightarrow> (Inl e, d)
     | Inr amt \<Rightarrow> (case with_uow (sqlalchemy_uow (reference_session refuse))
           (transfer_in_uow (sqlalchemy_uow (reference_session refuse)) (xc_from c) (xc_to c) amt (xc_key c) (xc_reads c))
           (h, sql_start d) of
         (x, (h', u')) \<Rightarrow> (x, ss_stored (sq_db u'))))"

fun serial_transfers ::
  "(db \<Rightarrow> exn) \<Rightarrow> (transfer_call \<times> heap) list \<Rightarrow> db \<Rightarrow> transfer_result list \<times> db" where
  "serial_transfers refuse [] d = ([], d)"
| "serial_transfers refuse (c # cs) d = (case serial_transfer refuse c d of
     (x, d') \<Rightarrow> (case serial_transfers refuse cs d' of (xs, d'') \<Rightarrow> (x # xs, d'')))"

lemma serial_transfers_snoc:
  "serial_transfers refuse (cs @ [c]) d = (case serial_transfers refuse cs d of
     (xs, d') \<Rightarrow> (case serial_transfer refuse c d' of (x, d'') \<Rightarrow> (xs @ [x], d'')))"
  by (induction cs arbitrary: d) (simp_all split: prod.splits)

section \<open>What a commit stores\<close>

lemma valid_columns:
  assumes "db_valid d"
  shows "find_account i d = Some r \<Longrightarrow> column_account r = r" and "map column_tx (db_txs d) = db_txs d"
  using assms by (auto simp: db_valid_def list_all_iff fits_column dest: find_account_id intro!: map_idI)

lemma find_tx_snoc:
  assumes "map column_tx (db_txs d) = db_txs d" and "db_txs d' = map column_tx (db_txs d @ [t])" and "i \<noteq> to_id t"
  shows "find_tx i d' = find_tx i d"
proof -
  have "db_txs d' = db_txs d @ [column_tx t]" using assms(1,2) by simp
  with assms(3) show ?thesis by (simp add: find_tx_def find_append split: option.splits)
qed

text \<open>An accepted commit: what changes in the stored rows, and what the transfer's step ends with.\<close>

lemma commit_working:
  assumes "distinct rs" and "commit_result ph = Some x" and valid: "db_valid d"
    and seen: "db_txs seen = db_txs d" "\<And>i. i \<notin> rows \<Longrightarrow> find_account i seen = find_account i d"
    and p: "xf_phase p = ph" "xf_uow p = working d rs seen [t]"
    and commit: "xfer_commit (reference_server refuse) p = Some (y, d')"
  shows "y = x \<and> db_valid d' \<and> (\<forall>i. i \<notin> rows \<longrightarrow> find_account i d' = find_account i d) \<and>
    (\<forall>i. i \<noteq> to_id t \<longrightarrow> find_tx i d' = find_tx i d) \<and>
    find_tx_by_key (to_idempotency_key t) d = None \<and> find_tx_by_key (to_idempotency_key t) d' \<noteq> None \<and>
    (\<exists>h' u'. alone refuse (xf_call p) (xf_phase p, xf_heap p, xf_uow p) = (AtLeave x, h', u') \<and> ss_stored (sq_db u') = d')"
proof -
  let ?es = "concat (map (\<lambda>r. domain_events (accounts_at (xf_heap p) r)) rs)"
  let ?D = "session_result (add_outbox ?es (sq_db (xf_uow p)))"
  note run = sql_commit_reference [of "xf_uow p" refuse "xf_heap p", unfolded p(2) working_simps, OF assms(1) refl]
  have D: "y = x" "d' = ?D" "db_valid ?D"
    using commit assms(2) p run by (auto simp: xfer_commit_def reference_server_def Let_def split: if_splits)
  have acc: "find_account i ?D = map_option column_account (find_account i seen)" for i
    by (simp add: p session_result_def db_columns_def add_outbox_def find_account_def find_map empty_db_def del: map_map)
  have "find_account i ?D = find_account i d" if "i \<notin> rows" for i
    using seen(2) [OF that] valid_columns(1) [OF valid] by (cases "find_account i d") (simp_all add: acc)
  moreover have txs: "db_txs ?D = map column_tx (db_txs d @ [t])"
    by (simp add: p seen(1) session_result_def db_columns_def add_outbox_def empty_db_def)
  moreover have "find_tx_by_key (to_idempotency_key t) d = None \<and> find_tx_by_key (to_idempotency_key t) ?D \<noteq> None"
  proof -
    have eq: "db_txs ?D = db_txs d @ [column_tx t]" using txs valid_columns(2) [OF valid] by simp
    with D(3) have "to_idempotency_key t \<notin> to_idempotency_key ` set (db_txs d)" by (simp add: db_valid_def)
    with eq show ?thesis by (auto simp: find_tx_by_key_def find_None_iff image_iff)
  qed
  moreover from txs have "find_tx i ?D = find_tx i d" if "i \<noteq> to_id t" for i
    using that by (rule find_tx_snoc [OF valid_columns(2) [OF valid]])
  moreover have "\<exists>h' u'. alone refuse (xf_call p) (xf_phase p, xf_heap p, xf_uow p) = (AtLeave x, h', u') \<and>
      ss_stored (sq_db u') = ?D"
    using assms(2) p run D(3)
    by (cases ph) (auto simp: phase_step_apply thenP_apply returnP_apply Let_def)
  ultimately show ?thesis using D by simp
qed

lemma commit_effect:
  assumes "form c d (xf_phase p, xf_heap p, xf_uow p)" and "db_valid d" and "xf_call p = c"
    and "xfer_commit (reference_server refuse) p = Some (x, d')"
  shows "db_valid d' \<and> find_tx_by_key (xc_key c) d = None \<and> find_tx_by_key (xc_key c) d' \<noteq> None \<and> xc_from c \<noteq> xc_to c \<and>
    (\<forall>i. i \<notin> held_rows c (xf_phase p) \<longrightarrow> find_account i d' = find_account i d) \<and>
    (\<forall>i. i \<noteq> xc_tx_id c \<longrightarrow> find_tx i d' = find_tx i d) \<and> commit_result (xf_phase p) = Some x \<and>
    (\<exists>h' u'. alone refuse c (xf_phase p, xf_heap p, xf_uow p) = (AtLeave x, h', u') \<and> ss_stored (sq_db u') = d')"
proof -
  obtain y where y: "commit_result (xf_phase p) = Some y"
    using assms(4) by (auto simp: xfer_commit_def split: option.splits)
  note w = commit_working [OF _ y assms(2) _ _ refl _ assms(4), unfolded assms(3)]
  have id: "to_id (tx_to_new_orm t) = entity_id t" "to_idempotency_key (tx_to_new_orm t) = idempotency_key t" for t
    by (simp_all add: tx_to_new_orm_def)
  show ?thesis
  proof (cases "xf_phase p")
    case (AtCommit s r tx)
    with assms(1) have f: "xf_uow p = working d [s, r] (put_both c (xf_heap p) s r d) [tx_to_new_orm (txs_at (xf_heap p) tx)]"
      "s \<noteq> r" "created_tx c (xf_heap p) tx" by (auto simp: pair_loaded_def)
    have "find_account i (put_both c (xf_heap p) s r d) = find_account i d" if "i \<notin> {xc_from c, xc_to c}" for i
      using that by (simp add: put_both_def find_put_found)
    from w [OF _ _ this f(1)] f(2,3) AtCommit y show ?thesis by (auto simp: id created_tx_def)
  next
    case (AtCommitFailed tx e)
    with assms(1) obtain rs where f: "distinct rs" "xf_uow p = working d rs d [tx_to_new_orm (txs_at (xf_heap p) tx)]"
      "created_tx c (xf_heap p) tx" by auto
    from w [OF f(1) refl refl f(2), of "{}"] f(3) AtCommitFailed y show ?thesis by (auto simp: id created_tx_def)
  qed (use y in simp_all)
qed

text \<open>Without an accepted commit the stored rows stay, and only an exception leaves the body.\<close>

lemma uncommitted_step:
  assumes "form c d (ph, h, u)" and "in_body ph" and "find_tx (xc_tx_id c) d = None"
    and "commit_result ph \<noteq> None \<Longrightarrow> \<exists>e s. sql_commit (reference_session refuse) (h, u) = (Inl e, s)"
    and "alone refuse c (ph, h, u) = (ph', h', u')"
  shows "ss_stored (sq_db u') = d \<and> (in_body ph' \<or> (\<exists>e. ph' = AtLeave (Inl e)))"
proof -
  note steps = phase_step_apply bindP_apply thenP_apply returnP_apply raised_phase_def load_working update_working
    save_working sql_commit_reference Let_def
  show ?thesis
  proof (cases ph)
    case (AtApply m s r)
    obtain x h1 u1 where ap: "apply_phase c m s r (h, u) = (x, h1, u1)" by (rule prod_cases3)
    have "ss_stored (sq_db u) = d" using assms(1) AtApply by auto
    with ap apply_phase_cases [OF ap, of ph'] assms(2,5) AtApply show ?thesis
      by (cases x) (auto simp: phase_step_apply raised_phase_def)
  next
    case (AtCommit s r tx)
    with assms show ?thesis by (auto simp: steps pair_loaded_def created_tx_def split: if_splits)
  next
    case (AtCommitFailed tx e)
    with assms show ?thesis by (auto simp: steps split: if_splits)
  qed (use assms in \<open>auto simp: steps created_tx_def split: option.splits sum.splits\<close>)
qed

section \<open>The invariant\<close>

text \<open>Where a transfer stands when the stored rows are \<open>d\<close>: a transfer at work is where it would be had it
  begun just now, and holds the rows of its phase.\<close>

definition working_place :: "(db \<Rightarrow> exn) \<Rightarrow> db \<Rightarrow> heap \<Rightarrow> session xfer \<Rightarrow> bool" where
  "working_place refuse d h0 p \<longleftrightarrow> (\<exists>m k. transfer_amount (xc_cmd (xf_call p)) = Inr m \<and>
     alone_run refuse (xf_call p) m h0 k d = (xf_phase p, xf_heap p, xf_uow p)) \<and>
     xf_rows p = held_rows (xf_call p) (xf_phase p)"

fun resting_place :: "heap \<Rightarrow> session xfer \<Rightarrow> phase \<Rightarrow> bool" where
  "resting_place h0 p AtCheck = (xf_heap p = h0 \<and> xf_rows p = {})"
| "resting_place h0 p (AtEnter m) = (xf_heap p = h0 \<and> xf_rows p = {} \<and> transfer_amount (xc_cmd (xf_call p)) = Inr m)"
| "resting_place h0 p (AtLeave x) = (xf_rows p \<subseteq> {xc_from (xf_call p), xc_to (xf_call p)})"
| "resting_place h0 p ph = (xf_rows p = {})"

definition place :: "(db \<Rightarrow> exn) \<Rightarrow> db \<Rightarrow> heap \<Rightarrow> session xfer \<Rightarrow> bool" where
  "place refuse d h0 p \<longleftrightarrow> ss_stored (sq_db (xf_uow p)) = d \<and>
     (if in_body (xf_phase p) then working_place refuse d h0 p else resting_place h0 p (xf_phase p))"

lemma place_form:
  assumes "place refuse d h0 p" and "in_body (xf_phase p)" and "find_tx (xc_tx_id (xf_call p)) d = None"
  shows "form (xf_call p) d (xf_phase p, xf_heap p, xf_uow p)"
  using assms alone_form unfolding place_def working_place_def by metis

text \<open>The rows held after a step of the body are those of the new phase.\<close>

lemma rows_after_body:
  assumes "form c d (ph, h, u)" and "in_body ph" and "alone refuse c (ph, h, u) = (ph', h', u')" and "in_body ph'"
  shows "(if ends_transaction ph then {} else case row_wanted c h ph of None \<Rightarrow> held_rows c ph
    | Some i \<Rightarrow> if find_account i d = None then held_rows c ph else insert i (held_rows c ph)) = held_rows c ph'"
proof -
  have nc: "commit_result ph = None"
    using commit_leaves [OF _ assms(3)] assms(4) by (cases "commit_result ph") auto
  note steps = phase_step_apply bindP_apply thenP_apply returnP_apply raised_phase_def load_working
  show ?thesis
  proof (cases ph)
    case (AtApply m s r)
    obtain x h1 u1 where ap: "apply_phase c m s r (h, u) = (x, h1, u1)" by (rule prod_cases3)
    with apply_phase_cases [OF ap, of ph'] assms AtApply show ?thesis
      by (auto simp: steps split: sum.splits)
  qed (use assms nc in \<open>auto simp: steps pair_loaded_def split: option.splits sum.splits prod.splits\<close>)
qed

lemma wanted_row: "form c d (ph, h, u) \<Longrightarrow> row_wanted c h ph = Some i \<Longrightarrow> i \<in> {xc_from c, xc_to c}"
  by (cases ph) (auto simp: pair_loaded_def)

lemma rows_after_two:
  assumes "form (xf_call p) d (xf_phase p, xf_heap p, xf_uow p)" and "xf_rows p = held_rows (xf_call p) (xf_phase p)"
  shows "rows_after d p \<subseteq> {xc_from (xf_call p), xc_to (xf_call p)}"
proof -
  have "held_rows c ph \<subseteq> {xc_from c, xc_to c}" for c ph by (cases ph) auto
  with wanted_row [OF assms(1)] assms(2) show ?thesis
    unfolding rows_after_def xf_wanted_def by (auto split: option.splits if_splits)
qed

lemma place_step_body:
  assumes pl: "place refuse d h0 p" and body: "in_body (xf_phase p)" and fresh: "find_tx (xc_tx_id (xf_call p)) d = None"
    and nc: "xfer_commit (reference_server refuse) p = None"
  shows "place refuse d h0 (xfer_step (reference_server refuse) d p)"
    and "\<nexists>y. xf_phase (xfer_step (reference_server refuse) d p) \<in> {AtLeave (Inr y), AtDone (Inr y)}"
proof -
  let ?c = "xf_call p" and ?p = "xfer_step (reference_server refuse) d p"
  obtain m k where k: "transfer_amount (xc_cmd ?c) = Inr m"
    "alone_run refuse ?c m h0 k d = (xf_phase p, xf_heap p, xf_uow p)" and rows: "xf_rows p = held_rows ?c (xf_phase p)"
    using pl body by (auto simp: place_def working_place_def)
  note form = place_form [OF pl body fresh]
  obtain ph h u where st: "alone refuse ?c (xf_phase p, xf_heap p, xf_uow p) = (ph, h, u)" by (rule prod_cases3)
  then have p': "?p = p\<lparr>xf_phase := ph, xf_heap := h, xf_uow := u, xf_rows := rows_after d p\<rparr>"
    by (simp add: xfer_step_def reference_server_def)
  have "\<exists>e s. sql_commit (reference_session refuse) (xf_heap p, xf_uow p) = (Inl e, s)" if "commit_result (xf_phase p) \<noteq> None"
    using nc that by (auto simp: xfer_commit_def reference_server_def split: prod.splits sum.splits)
  from uncommitted_step [OF form body fresh this st]
  have u: "ss_stored (sq_db u) = d" "in_body ph \<or> (\<exists>e. ph = AtLeave (Inl e))" by auto
  show "place refuse d h0 ?p"
  proof (cases "in_body ph")
    case True
    have "alone_run refuse ?c m h0 (Suc k) d = (ph, h, u)"
      using k(2) st by (simp add: run_phases_snoc del: run_phases.simps(2))
    moreover have "rows_after d p = held_rows ?c ph"
      using rows_after_body [OF form body st True] unfolding rows_after_def xf_wanted_def rows .
    ultimately have "working_place refuse d h0 ?p"
      using k(1) unfolding working_place_def p' by (auto simp del: run_phases.simps(2))
    with True u(1) show ?thesis by (simp add: place_def p')
  next
    case False
    with u rows_after_two [OF form rows] show ?thesis by (auto simp: place_def p')
  qed
  show "\<nexists>y. xf_phase ?p \<in> {AtLeave (Inr y), AtDone (Inr y)}"
    using u by (auto simp: p')
qed

lemma place_step_rest:
  assumes pl: "place refuse d h0 p" and rest: "\<not> in_body (xf_phase p)"
  shows "place refuse d h0 (xfer_step (reference_server refuse) d p)"
    and "xf_phase (xfer_step (reference_server refuse) d p) \<in> {AtLeave (Inr y), AtDone (Inr y)} \<longleftrightarrow>
      xf_phase p \<in> {AtLeave (Inr y), AtDone (Inr y)}"
    and "xf_phase p \<in> {AtLeave x, AtDone x} \<Longrightarrow>
      xf_phase (xfer_step (reference_server refuse) d p) \<in> {AtLeave x, AtDone x}"
proof -
  note steps = xfer_step_def phase_step_apply reference_server_def rows_after_def xf_wanted_def
  have "place refuse d h0 (xfer_step (reference_server refuse) d p) \<and>
    (xf_phase (xfer_step (reference_server refuse) d p) \<in> {AtLeave (Inr y), AtDone (Inr y)} \<longleftrightarrow>
      xf_phase p \<in> {AtLeave (Inr y), AtDone (Inr y)}) \<and>
    (xf_phase p \<in> {AtLeave x, AtDone x} \<longrightarrow>
      xf_phase (xfer_step (reference_server refuse) d p) \<in> {AtLeave x, AtDone x})"
  proof (cases "xf_phase p")
    case AtCheck
    with pl show ?thesis
      by (auto simp: place_def steps with_uow_reference sql_tx_get_by_idempotency_key_def bindP_apply liftP_apply on_db_apply
          returnP_apply object_defs raised_phase_def split: option.splits sum.splits)
  next
    case (AtEnter m)
    then have "xfer_step (reference_server refuse) d p =
        p\<lparr>xf_phase := AtLoadSender m, xf_uow := sql_start (ss_stored (sq_db (xf_uow p)))\<rparr>"
      by (simp add: steps sql_enter_def thenP_apply on_db_apply modifyP_apply returnP_apply sql_start_def)
    moreover have "\<exists>k. alone_run refuse (xf_call p) m h0 k d = (AtLoadSender m, h0, sql_start d)"
      by (rule exI [of _ 0]) simp
    moreover have "ss_stored (sq_db (xf_uow p)) = d" "xf_heap p = h0" "xf_rows p = {}"
      "transfer_amount (xc_cmd (xf_call p)) = Inr m" "ss_stored (sq_db (sql_start d)) = d"
      using pl AtEnter by (auto simp: place_def sql_start_def)
    ultimately show ?thesis
      using AtEnter by (auto simp: place_def working_place_def)
  next
    case (AtLeave z)
    with pl show ?thesis
      by (auto simp: place_def steps sql_exit_def sql_rollback_def thenP_apply on_db_apply returnP_apply split: sum.splits)
  next
    case (AtDone z)
    with pl show ?thesis by (auto simp: place_def steps returnP_apply)
  next
    case (AtKnown r)
    with pl show ?thesis by (auto simp: place_def steps returnP_apply)
  qed (use rest in simp_all)
  then show "place refuse d h0 (xfer_step (reference_server refuse) d p)"
    and "xf_phase (xfer_step (reference_server refuse) d p) \<in> {AtLeave (Inr y), AtDone (Inr y)} \<longleftrightarrow>
      xf_phase p \<in> {AtLeave (Inr y), AtDone (Inr y)}"
    and "xf_phase p \<in> {AtLeave x, AtDone x} \<Longrightarrow>
      xf_phase (xfer_step (reference_server refuse) d p) \<in> {AtLeave x, AtDone x}" by blast+
qed

text \<open>A commit of another transfer leaves every transfer in its place.\<close>

lemma place_note:
  assumes pl: "place refuse d h0 p" and fresh: "in_body (xf_phase p) \<Longrightarrow> find_tx (xc_tx_id (xf_call p)) d = None"
    and passes: "in_body (xf_phase p) \<Longrightarrow> passes (xf_call p) (xf_rows p) d d'"
  shows "place refuse d' h0 (note_xfer (reference_server refuse) d' p)"
proof -
  have u: "xf_uow (note_xfer (reference_server refuse) d' p) = foreign_uow d' (xf_uow p)"
    and same: "xf_phase (note_xfer (reference_server refuse) d' p) = xf_phase p" "xf_heap (note_xfer (reference_server refuse) d' p) = xf_heap p"
      "xf_rows (note_xfer (reference_server refuse) d' p) = xf_rows p" "xf_call (note_xfer (reference_server refuse) d' p) = xf_call p"
    by (simp_all add: note_xfer_def reference_server_def foreign_uow_def)
  have stored: "ss_stored (sq_db (foreign_uow d' (xf_uow p))) = d'"
    by (simp add: foreign_uow_def foreign_commit_def)
  show ?thesis
  proof (cases "in_body (xf_phase p)")
    case True
    obtain m k where k: "transfer_amount (xc_cmd (xf_call p)) = Inr m"
      "alone_run refuse (xf_call p) m h0 k d = (xf_phase p, xf_heap p, xf_uow p)"
      "xf_rows p = held_rows (xf_call p) (xf_phase p)"
      using pl True by (auto simp: place_def working_place_def)
    from foreign_run [OF k(2) True fresh [OF True]] passes [OF True] k(3)
    have "alone_run refuse (xf_call p) m h0 k d' = (xf_phase p, xf_heap p, foreign_uow d' (xf_uow p))" by simp
    with k True stored show ?thesis
      unfolding place_def working_place_def same u by auto
  next
    case False
    with pl stored show ?thesis unfolding place_def u same by (cases "xf_phase p") (auto simp: same)
  qed
qed

text \<open>The step that commits is the serial transfer from the rows that were stored before it.\<close>

lemma commit_serial:
  assumes "transfer_amount (xc_cmd c) = Inr m" and "alone_run refuse c m h0 k d = (ph, s)"
    and "phase_step (sqlalchemy_uow (reference_session refuse)) c (ph, s) = (AtLeave x, h', u')"
  shows "serial_transfer refuse (c, h0) d = (x, ss_stored (sq_db u'))"
proof -
  let ?U = "sqlalchemy_uow (reference_session refuse)"
  obtain u'' where leave: "phase_step ?U c (AtLeave x, h', u') = (AtDone x, h', u'')"
    "ss_stored (sq_db u'') = ss_stored (sq_db u')"
    by (cases x) (auto simp: phase_step_apply sql_exit_def sql_rollback_def thenP_apply on_db_apply returnP_apply)
  have "run_phases ?U c (Suc (Suc n)) (ph, s) = (AtDone x, h', u'')" for n
    by (simp add: assms(3) leave)
  then have "run_phases ?U c (k + (Suc (Suc 9))) (AtLoadSender m, h0, sql_start d) = (AtDone x, h', u'')"
    unfolding run_phases_add assms(2) .
  moreover have "phase_step ?U c (AtEnter m, h0, sql_start d) = (AtLoadSender m, h0, sql_start d)"
    by (simp add: phase_step_apply sql_enter_def thenP_apply on_db_apply modifyP_apply returnP_apply sql_start_def)
  ultimately have "run_phases ?U c (Suc (k + (Suc (Suc 9)))) (AtEnter m, h0, sql_start d) = (AtDone x, h', u'')"
    by (simp only: run_phases.simps(2))
  moreover have "9 \<le> Suc (k + (Suc (Suc 9)))" by simp
  note phases_exact [OF this, of ?U c m "(h0, sql_start d)"]
  ultimately show ?thesis
    using assms(1) leave(2) by (auto simp: serial_transfer_def split: prod.splits)
qed

section \<open>Every moment is a serial one\<close>

text \<open>What the log says of a transfer at phase \<open>ph\<close>: a logged answer is its answer, a success is logged.\<close>

definition logged :: "(nat \<times> transfer_result) list \<Rightarrow> nat \<Rightarrow> phase \<Rightarrow> bool" where
  "logged es i ph \<longleftrightarrow> (\<forall>x. (i, x) \<in> set es \<longrightarrow> ph \<in> {AtLeave x, AtDone x}) \<and>
     (\<forall>y. ph \<in> {AtLeave (Inr y), AtDone (Inr y)} \<longrightarrow> (i, Inr y) \<in> set es)"

definition seat :: "(db \<Rightarrow> exn) \<Rightarrow> db \<Rightarrow> (nat \<times> transfer_result) list \<Rightarrow> heap \<Rightarrow> nat \<Rightarrow> session xfer \<Rightarrow> bool" where
  "seat refuse d es h0 i p \<longleftrightarrow> place refuse d h0 p \<and> logged es i (xf_phase p) \<and>
     (i \<notin> fst ` set es \<longrightarrow> find_tx (xc_tx_id (xf_call p)) d = None)"

definition disjoint_rows :: "'d xfer list \<Rightarrow> bool" where
  "disjoint_rows ps \<longleftrightarrow> (\<forall>i < length ps. \<forall>j < length ps. i \<noteq> j \<longrightarrow> xf_rows (ps ! i) \<inter> xf_rows (ps ! j) = {})"

definition log_calls :: "'d conc \<Rightarrow> (nat \<times> transfer_result) list \<Rightarrow> (transfer_call \<times> heap) list" where
  "log_calls c0 es = map (\<lambda>(i, _). (xf_call (cc_xfers c0 ! i), xf_heap (cc_xfers c0 ! i))) es"

text \<open>What holds whatever has been committed besides the logged transfers.\<close>

definition conc_core :: "(db \<Rightarrow> exn) \<Rightarrow> session conc \<Rightarrow> session conc \<Rightarrow> bool" where
  "conc_core refuse c0 c \<longleftrightarrow>
     map xf_call (cc_xfers c) = map xf_call (cc_xfers c0) \<and> db_valid (cc_db c) \<and>
     (\<forall>i < length (cc_xfers c0). seat refuse (cc_db c) (cc_log c) (xf_heap (cc_xfers c0 ! i)) i (cc_xfers c ! i)) \<and>
     disjoint_rows (cc_xfers c) \<and>
     (\<forall>i \<in> fst ` set (cc_log c). i < length (cc_xfers c0)) \<and> distinct (map fst (cc_log c))"

definition conc_inv :: "(db \<Rightarrow> exn) \<Rightarrow> db \<Rightarrow> session conc \<Rightarrow> session conc \<Rightarrow> bool" where
  "conc_inv refuse d0 c0 c \<longleftrightarrow> conc_core refuse c0 c \<and>
     serial_transfers refuse (log_calls c0 (cc_log c)) d0 = (map snd (cc_log c), cc_db c)"

text \<open>The database-generated part of the ids: each transfer draws a transaction id of its own that is new.\<close>

definition fresh_ids :: "db \<Rightarrow> 'd conc \<Rightarrow> bool" where
  "fresh_ids d c \<longleftrightarrow> distinct (map (\<lambda>p. xc_tx_id (xf_call p)) (cc_xfers c)) \<and>
     (\<forall>p \<in> set (cc_xfers c). find_tx (xc_tx_id (xf_call p)) d = None)"

lemma conc_inv_start:
  assumes "conc_start (reference_server refuse) d c" and "db_valid d" and "fresh_ids d c"
  shows "conc_inv refuse d c c"
  using assms
  by (auto simp: conc_inv_def conc_core_def conc_start_def fresh_ids_def place_def reference_server_def seat_def logged_def
      disjoint_rows_def log_calls_def)

lemma conc_coreD:
  assumes "conc_core refuse c0 c" and "i < length (cc_xfers c0)"
  shows "length (cc_xfers c) = length (cc_xfers c0)" "xf_call (cc_xfers c ! i) = xf_call (cc_xfers c0 ! i)"
    "seat refuse (cc_db c) (cc_log c) (xf_heap (cc_xfers c0 ! i)) i (cc_xfers c ! i)"
proof -
  have m: "map xf_call (cc_xfers c) = map xf_call (cc_xfers c0)" using assms(1) by (simp add: conc_core_def)
  then show l: "length (cc_xfers c) = length (cc_xfers c0)" by (rule map_eq_imp_length_eq)
  with m assms(2) show "xf_call (cc_xfers c ! i) = xf_call (cc_xfers c0 ! i)" by (metis nth_map)
  from assms show "seat refuse (cc_db c) (cc_log c) (xf_heap (cc_xfers c0 ! i)) i (cc_xfers c ! i)"
    by (simp add: conc_core_def)
qed

lemma conc_core_length: "conc_core refuse c0 c \<Longrightarrow> length (cc_xfers c) = length (cc_xfers c0)"
  by (auto simp: conc_core_def dest: map_eq_imp_length_eq)

lemma conc_inv_core: "conc_inv refuse d0 c0 c \<Longrightarrow> conc_core refuse c0 c"
  by (simp add: conc_inv_def)

lemmas conc_invD = conc_coreD [OF conc_inv_core]

lemma seat_body:
  assumes "seat refuse d es h0 i p" and "in_body (xf_phase p)"
  shows "i \<notin> fst ` set es" and "find_tx (xc_tx_id (xf_call p)) d = None"
proof -
  show "i \<notin> fst ` set es" using assms by (auto simp: seat_def logged_def)
  with assms(1) show "find_tx (xc_tx_id (xf_call p)) d = None" by (simp add: seat_def)
qed

text \<open>A step that commits nothing changes the one transfer.\<close>

lemma disjoint_rows_update:
  assumes "disjoint_rows ps" and "i < length ps"
    and "\<And>j. j < length ps \<Longrightarrow> j \<noteq> i \<Longrightarrow> xf_rows p' \<inter> xf_rows (ps ! j) = {}"
  shows "disjoint_rows (ps[i := p'])"
  using assms unfolding disjoint_rows_def by (auto simp: nth_list_update)

lemma conc_core_local:
  assumes inv: "conc_core refuse c0 c" and i: "i < length (cc_xfers c0)"
    and p': "xf_call p' = xf_call (cc_xfers c ! i)" "seat refuse (cc_db c) (cc_log c) (xf_heap (cc_xfers c0 ! i)) i p'"
    and rows: "\<And>j. j < length (cc_xfers c) \<Longrightarrow> j \<noteq> i \<Longrightarrow> xf_rows p' \<inter> xf_rows (cc_xfers c ! j) = {}"
  shows "conc_core refuse c0 (c\<lparr>cc_xfers := (cc_xfers c)[i := p']\<rparr>)"
proof -
  have len: "length (cc_xfers c) = length (cc_xfers c0)" using conc_coreD(1) [OF inv i] .
  have "map xf_call ((cc_xfers c)[i := p']) = map xf_call (cc_xfers c0)"
    using inv p'(1) i len by (metis conc_core_def list_update_id map_update)
  moreover have "disjoint_rows ((cc_xfers c)[i := p'])"
    using inv i len rows by (intro disjoint_rows_update) (auto simp: conc_core_def)
  ultimately show ?thesis
    using inv p'(2) i len by (simp add: conc_core_def nth_list_update)
qed

text \<open>The rows of a step: those it had and one that nobody else holds.\<close>

lemma rows_after_free:
  assumes "can_turn i c" and "disjoint_rows (cc_xfers c)" and "j < length (cc_xfers c)" and "j \<noteq> i"
  shows "rows_after (cc_db c) (cc_xfers c ! i) \<inter> xf_rows (cc_xfers c ! j) = {}"
proof -
  have i: "i < length (cc_xfers c)" "\<not> blocked i c" using assms(1) by (simp_all add: can_turn_def)
  then have "xf_rows (cc_xfers c ! i) \<inter> xf_rows (cc_xfers c ! j) = {}"
    using assms(2-4) by (auto simp: disjoint_rows_def)
  moreover have "row \<notin> xf_rows (cc_xfers c ! j)" if "xf_wanted (cc_xfers c ! i) = Some row" for row
    using i(2) that assms(3,4) by (auto simp: blocked_def list_ex_iff)
  ultimately show ?thesis by (auto simp: rows_after_def split: option.splits if_splits)
qed

lemma xfer_step_simps [simp]:
  "xf_call (xfer_step V d p) = xf_call p" "xf_rows (xfer_step V d p) = rows_after d p"
  by (simp_all add: xfer_step_def split: prod.splits)

lemma seat_step:
  assumes seat: "seat refuse d es h0 i p" and nc: "xfer_commit (reference_server refuse) p = None"
  shows "seat refuse d es h0 i (xfer_step (reference_server refuse) d p)"
proof (cases "in_body (xf_phase p)")
  case True
  note facts = seat_body [OF seat True]
  have pl: "place refuse d h0 p" using seat by (simp add: seat_def)
  have "(i, x) \<notin> set es" for x using facts(1) by (metis fst_conv image_eqI)
  with place_step_body [OF pl True facts(2) nc] facts show ?thesis
    by (auto simp: seat_def logged_def)
next
  case False
  have pl: "place refuse d h0 p" using seat by (simp add: seat_def)
  have "logged es i (xf_phase (xfer_step (reference_server refuse) d p))"
    unfolding logged_def
  proof (intro conjI allI impI)
    fix x
    assume "(i, x) \<in> set es"
    then have "xf_phase p \<in> {AtLeave x, AtDone x}" using seat by (simp add: seat_def logged_def)
    then show "xf_phase (xfer_step (reference_server refuse) d p) \<in> {AtLeave x, AtDone x}"
      by (rule place_step_rest(3) [OF pl False])
  next
    fix y
    assume "xf_phase (xfer_step (reference_server refuse) d p) \<in> {AtLeave (Inr y), AtDone (Inr y)}"
    then have "xf_phase p \<in> {AtLeave (Inr y), AtDone (Inr y)}" using place_step_rest(2) [OF pl False] by blast
    then show "(i, Inr y) \<in> set es" using seat unfolding seat_def logged_def by blast
  qed
  with place_step_rest(1) [OF pl False] seat show ?thesis by (simp add: seat_def)
qed

lemma conc_core_turn_local:
  assumes "conc_core refuse c0 c" and "can_turn i c" and "xfer_commit (reference_server refuse) (cc_xfers c ! i) = None"
  shows "conc_core refuse c0 (conc_turn (reference_server refuse) i c)"
proof -
  have i: "i < length (cc_xfers c)" using assms(2) by (simp add: can_turn_def)
  then have i0: "i < length (cc_xfers c0)" by (simp add: conc_core_length [OF assms(1)])
  have "disjoint_rows (cc_xfers c)" using assms(1) by (simp add: conc_core_def)
  with conc_core_local [OF assms(1) i0 _ seat_step [OF conc_coreD(3) [OF assms(1) i0] assms(3)]] rows_after_free [OF assms(2)]
  show ?thesis by (simp add: conc_turn_def assms(3) Let_def)
qed

lemma conc_core_cancel:
  assumes inv: "conc_core refuse c0 c" and i: "i < length (cc_xfers c)" and "blocked i c"
  shows "conc_core refuse c0 (conc_cancel i e c)"
proof -
  from i have i0: "i < length (cc_xfers c0)" by (simp add: conc_core_length [OF inv])
  have body: "in_body (xf_phase (cc_xfers c ! i))"
    using assms(3) by (cases "xf_phase (cc_xfers c ! i)") (auto simp: blocked_def xf_wanted_def)
  note seat = conc_coreD(3) [OF inv i0]
  have "(i, x) \<notin> set (cc_log c)" for x using seat_body(1) [OF seat body] by (metis fst_conv image_eqI)
  then have "seat refuse (cc_db c) (cc_log c) (xf_heap (cc_xfers c0 ! i)) i
      ((cc_xfers c ! i)\<lparr>xf_phase := AtLeave (Inl e), xf_rows := {}\<rparr>)"
    using seat by (auto simp: seat_def logged_def place_def)
  from conc_core_local [OF inv i0 _ this] show ?thesis
    by (simp add: conc_cancel_def)
qed

text \<open>A commit: the others' locked rows are not among those it changed.\<close>

lemma conc_core_turn_commit:
  assumes inv: "conc_core refuse c0 c" and turn: "can_turn i c"
    and distinct: "distinct (map (\<lambda>p. xc_tx_id (xf_call p)) (cc_xfers c0))"
    and commit: "xfer_commit (reference_server refuse) (cc_xfers c ! i) = Some (x, d')"
  shows "conc_core refuse c0 (conc_turn (reference_server refuse) i c)"
    and "serial_transfer refuse (xf_call (cc_xfers c0 ! i), xf_heap (cc_xfers c0 ! i)) (cc_db c) = (x, d')"
proof -
  let ?p = "cc_xfers c ! i" and ?d = "cc_db c"
  let ?ps = "map (note_xfer (reference_server refuse) d') (cc_xfers c)"
  let ?p' = "xfer_step (reference_server refuse) ?d ?p"
  note len = conc_core_length [OF inv]
  have i: "i < length (cc_xfers c)" "i < length (cc_xfers c0)" using turn len by (simp_all add: can_turn_def)
  note seat = conc_coreD(3) [OF inv i(2)] and call = conc_coreD(2) [OF inv i(2)]
  have body: "in_body (xf_phase ?p)"
    using commit by (cases "xf_phase ?p") (auto simp: xfer_commit_def)
  have pl: "place refuse ?d (xf_heap (cc_xfers c0 ! i)) ?p" using seat by (simp add: seat_def)
  note new = seat_body [OF seat body]
  have valid: "db_valid ?d" and dis: "disjoint_rows (cc_xfers c)" using inv by (simp_all add: conc_core_def)
  from commit_effect [OF place_form [OF pl body new(2)] valid refl commit] obtain h' u' where
    d': "db_valid d'" "\<And>j. j \<notin> held_rows (xf_call ?p) (xf_phase ?p) \<Longrightarrow> find_account j d' = find_account j ?d"
      "\<And>j. j \<noteq> xc_tx_id (xf_call ?p) \<Longrightarrow> find_tx j d' = find_tx j ?d"
    and st: "alone refuse (xf_call ?p) (xf_phase ?p, xf_heap ?p, xf_uow ?p) = (AtLeave x, h', u')" "ss_stored (sq_db u') = d'"
    by blast
  obtain m k where run: "transfer_amount (xc_cmd (xf_call ?p)) = Inr m"
    "alone_run refuse (xf_call ?p) m (xf_heap (cc_xfers c0 ! i)) k ?d = (xf_phase ?p, xf_heap ?p, xf_uow ?p)"
    and rows: "xf_rows ?p = held_rows (xf_call ?p) (xf_phase ?p)"
    using pl body by (auto simp: place_def working_place_def)
  show ser: "serial_transfer refuse (xf_call (cc_xfers c0 ! i), xf_heap (cc_xfers c0 ! i)) ?d = (x, d')"
    using commit_serial [OF run st(1)] st(2) call by simp
  have p': "?p' = ?p\<lparr>xf_phase := AtLeave x, xf_heap := h', xf_uow := u', xf_rows := rows_after ?d ?p\<rparr>"
    using st(1) by (simp add: xfer_step_def reference_server_def)
  have seat': "seat refuse d' (cc_log c @ [(i, x)]) (xf_heap (cc_xfers c0 ! i)) i ?p'"
    using new(1) st(2) rows_after_two [OF place_form [OF pl body new(2)] rows]
    by (auto simp: seat_def logged_def place_def p' image_iff)
  have others: "seat refuse d' (cc_log c @ [(i, x)]) (xf_heap (cc_xfers c0 ! j)) j
      (note_xfer (reference_server refuse) d' (cc_xfers c ! j))" if j: "j < length (cc_xfers c0)" "j \<noteq> i" for j
  proof -
    let ?q = "cc_xfers c ! j"
    note sj = conc_coreD(3) [OF inv j(1)]
    have "xc_tx_id (xf_call ?q) \<noteq> xc_tx_id (xf_call ?p)"
      using distinct j i(2) call conc_coreD(2) [OF inv j(1)] by (auto simp: distinct_conv_nth)
    then have tx: "find_tx (xc_tx_id (xf_call ?q)) d' = find_tx (xc_tx_id (xf_call ?q)) ?d" by (rule d'(3))
    have "xf_rows ?p \<inter> xf_rows ?q = {}" using dis i j len by (simp add: disjoint_rows_def)
    then have "passes (xf_call ?q) (xf_rows ?q) ?d d'" if "in_body (xf_phase ?q)"
      using d'(1,2) tx seat_body(2) [OF sj that] rows by (auto simp: passes_def db_valid_def)
    with place_note [of refuse ?d _ ?q d'] sj seat_body(2) [OF sj]
    have "place refuse d' (xf_heap (cc_xfers c0 ! j)) (note_xfer (reference_server refuse) d' ?q)"
      by (simp add: seat_def)
    with sj tx j(2) show ?thesis by (auto simp: seat_def logged_def note_xfer_def)
  qed
  have nth: "?ps[i := ?p'] ! j = (if j = i then ?p' else note_xfer (reference_server refuse) d' (cc_xfers c ! j))"
    if "j < length (cc_xfers c0)" for j
    using that i len by (simp add: nth_list_update)
  have calls: "map xf_call (?ps[i := ?p']) = map xf_call (cc_xfers c0)"
  proof -
    have "xf_call \<circ> note_xfer (reference_server refuse) d' = xf_call" by (auto simp: note_xfer_def)
    moreover have "map xf_call (cc_xfers c) = map xf_call (cc_xfers c0)" using inv by (simp add: conc_core_def)
    ultimately show ?thesis using i call by (simp add: map_update list_update_same_conv)
  qed
  have "disjoint_rows ?ps" using dis by (simp add: disjoint_rows_def note_xfer_def)
  then have rows': "disjoint_rows (?ps[i := ?p'])"
    using i rows_after_free [OF turn dis] by (intro disjoint_rows_update) (simp_all add: note_xfer_def)
  show "conc_core refuse c0 (conc_turn (reference_server refuse) i c)"
    using inv calls rows' d'(1) seat' others nth i new(1)
    by (simp add: conc_turn_def commit Let_def conc_core_def)
qed

text \<open>So at every moment the stored rows are those of the committed transfers, run one after the other.\<close>

theorem conc_reachable:
  assumes "(conc_step (reference_server refuse))\<^sup>*\<^sup>* c0 c" and "conc_start (reference_server refuse) d c0"
    and "db_valid d" and "fresh_ids d c0"
  shows "conc_inv refuse d c0 c"
  using assms(1)
proof induction
  case base
  show ?case by (rule conc_inv_start [OF assms(2-4)])
next
  case (step c c')
  then have core: "conc_core refuse c0 c"
    and ser: "serial_transfers refuse (log_calls c0 (cc_log c)) d = (map snd (cc_log c), cc_db c)"
    by (simp_all add: conc_inv_def)
  from step.hyps(2) show ?case
  proof cases
    case (turn i)
    show ?thesis
    proof (cases "xfer_commit (reference_server refuse) (cc_xfers c ! i)")
      case None
      with turn conc_core_turn_local [OF core turn(2)] ser show ?thesis
        by (simp add: conc_inv_def) (simp add: conc_turn_def Let_def)
    next
      case (Some r)
      obtain x d' where r: "r = (x, d')" by (cases r)
      have ids: "distinct (map (\<lambda>p. xc_tx_id (xf_call p)) (cc_xfers c0))" using assms(4) by (simp add: fresh_ids_def)
      from conc_core_turn_commit [OF core turn(2) ids Some [unfolded r]] turn ser Some r show ?thesis
        by (simp add: conc_inv_def) (simp add: conc_turn_def Let_def log_calls_def serial_transfers_snoc)
    qed
  next
    case (cancelled i e)
    with conc_core_cancel [OF core] ser show ?thesis by (simp add: conc_inv_def) (simp add: conc_cancel_def)
  qed
qed

end
