(* ===== verification/Concurrent_Bank.thy ===== *)
theory Concurrent_Bank
  imports Concurrent_Transfers
begin

text \<open>
  What interleaved transfers do to the bank, and how they end.

  \<^item> \<open>committed_bank\<close>: each accepted commit is one step of the transactional bank of theory Transfer_Run;
    \<open>conc_bank\<close>: so the stored rows are the bank after the logged transfers, in commit order.
  \<^item> \<open>blocked_on\<close>: a statement waits only for a row that another transfer of the same account holds, so
    transfers on disjoint accounts never wait; \<open>no_cycle_finished\<close>: when the directions of the transfers form no
    cycle, somebody can go on until all have been answered.
  \<^item> \<open>conc_steps_bounded\<close> and \<open>stuck_finished\<close>: every run ends, and where a waiting statement can be cancelled,
    it ends with all transfers answered.
\<close>

section \<open>A serial transfer is a call of the service\<close>

definition alone_world :: "heap \<Rightarrow> db \<Rightarrow> sql_world" where
  "alone_world h d = \<lparr>w_heap = h, w_uow = sql_start d, w_lock = {}, w_bus = []\<rparr>"

lemma alone_world_simps [simp]:
  "w_heap (alone_world h d) = h" "sql_stored (alone_world h d) = d" "w_lock (alone_world h d) = {}"
  "abs_sql (alone_world h d) = abs_sql_bank d {}"
  by (simp_all add: alone_world_def sql_stored_def sql_start_def abs_sql_def)

lemma transfer_amount_arg: "transfer_amount cmd = Inr amt \<longleftrightarrow> sql_arg cmd amt"
  by (auto simp: transfer_amount_def sql_arg_def bindR_Inr_iff)

lemma publish_reply:
  "\<exists>y v'. thenP (transfer_publish in_memory_bus s r tx) (bindP (in_uow (read_tx tx)) (\<lambda>t. returnP (transaction_dto_of t))) v =
      (Inr y, v') \<and> w_uow v' = w_uow (v :: sql_world) \<and> w_lock v' = w_lock v"
  by (cases v) (simp add: thenP_apply transfer_publish_def bindP_apply in_uow_def in_bus_def object_defs collect_events_def
      Let_def in_memory_bus_def getP_apply returnP_apply modifyP_apply)

lemma serial_is_call:
  assumes amt: "transfer_amount (xc_cmd c) = Inr amt" and key: "find_tx_by_key (xc_key c) d = None"
    and "xc_from c \<noteq> xc_to c" and ser: "serial_transfer refuse (c, h) d = (x, d')"
  shows "\<exists>y w'. transfer_initiate (sqlalchemy_uow (reference_session refuse)) in_memory_lock in_memory_bus
      (xc_cmd c) (xc_reads c) (alone_world h d) = (y, w') \<and> sql_stored w' = d' \<and> w_lock w' = {} \<and>
      (case x of Inl e \<Rightarrow> y = Inl e | Inr _ \<Rightarrow> \<not> isl y)"
proof -
  let ?U = "sqlalchemy_uow (reference_session refuse)"
  obtain z h' u' where body: "transfer_in_uow ?U (xc_from c) (xc_to c) amt (xc_key c) (xc_reads c) (h, sql_start d) = (z, (h', u'))"
    by (rule prod_cases3)
  have start: "\<lparr>sq_db = fresh_session (ss_stored (sq_db (sql_start d))), sq_accounts_seen = [], sq_txs_seen = []\<rparr> = sql_start d"
    by (simp add: sql_start_def)
  have x: "x = z" "d' = ss_stored (sq_db u')"
    using ser amt body unfolding serial_transfer_def by (simp_all add: with_uow_reference start)
  have free: "locks_free (xc_from c) (xc_to c) (alone_world h d)" using assms(3) by (simp add: locks_free_def)
  have arg: "sql_arg (xc_cmd c) amt" using amt by (simp add: transfer_amount_arg)
  obtain v where v: "sql_stored v = ss_stored (sq_db u')" "w_lock v = {}"
    "transfer_initiate ?U in_memory_lock in_memory_bus (xc_cmd c) (xc_reads c) (alone_world h d) =
      (case z of Inl e \<Rightarrow> (Inl e, v)
       | Inr (s, r, tx) \<Rightarrow> thenP (transfer_publish in_memory_bus s r tx)
           (bindP (in_uow (read_tx tx)) (\<lambda>t. returnP (transaction_dto_of t))) v)"
    using sql_call [of "xc_cmd c" "alone_world h d" amt refuse "xc_reads c" z h' u' in_memory_bus] key arg free body by auto
  show ?thesis
  proof (cases z)
    case (Inl e)
    with v x show ?thesis by auto
  next
    case (Inr r)
    obtain s t tx where "r = (s, t, tx)" by (rule prod_cases3)
    with Inr v x publish_reply [of s t tx v] show ?thesis by (auto simp: sql_stored_def)
  qed
qed

definition bank_step :: "transfer_command \<Rightarrow> bank \<Rightarrow> (bank_failure + transfer_entry) \<times> bank" where
  "bank_step cmd b = (case transfer_amount cmd of
     Inl e \<Rightarrow> (Inl (abs_failure e), b)
   | Inr amt \<Rightarrow> bank_transfer False (tc_from_account_id cmd) (tc_to_account_id cmd) (money_cents amt)
       (money_currency amt) (tc_idempotency_key cmd) b)"

text \<open>An accepted commit is one step of the bank, with the bank's answer.\<close>

lemma committed_bank:
  assumes ok: "sql_ok d" and amt: "transfer_amount (xc_cmd c) = Inr amt" and "find_tx (xc_tx_id c) d = None"
    and key: "find_tx_by_key (xc_key c) d = None" and ne: "xc_from c \<noteq> xc_to c"
    and ser: "serial_transfer refuse (c, h) d = (x, d')" and new: "find_tx_by_key (xc_key c) d' \<noteq> None"
  shows "sql_ok d' \<and> abs_sql_bank d' {} = snd (bank_step (xc_cmd c) (abs_sql_bank d {})) \<and>
    map_sum abs_failure (\<lambda>_. ()) x = map_sum id (\<lambda>_. ()) (fst (bank_step (xc_cmd c) (abs_sql_bank d {})))"
proof -
  obtain y w' where w: "transfer_initiate (sqlalchemy_uow (reference_session refuse)) in_memory_lock in_memory_bus
      (xc_cmd c) (xc_reads c) (alone_world h d) = (y, w')" "sql_stored w' = d'" "w_lock w' = {}"
      "case x of Inl e \<Rightarrow> y = Inl e | Inr _ \<Rightarrow> \<not> isl y"
    using serial_is_call [OF amt key ne ser] by blast
  have call: "sql_call_ok (xc_cmd c) (xc_reads c) (alone_world h d) amt"
    using ok amt assms(3) by (simp add: sql_call_ok_def transfer_amount_arg)
  have free: "locks_free (xc_from c) (xc_to c) (alone_world h d)" using ne by (simp add: locks_free_def)
  have "sql_outcome refuse (xc_cmd c) amt (alone_world h d) y w'"
    using sql_free_outcome [OF call _ free w(1)] key by simp
  moreover have "sql_stored w' \<noteq> d" using key new w(2) by auto
  moreover have "abs_sql w' = abs_sql_bank d' {}" using w(2,3) by (simp add: abs_sql_def)
  ultimately have "(map_sum abs_failure abs_dto y, abs_sql_bank d' {}) = bank_step (xc_cmd c) (abs_sql_bank d {})" "sql_ok d'"
    using w(2) amt by (auto simp: sql_outcome_def sql_bank_call_def bank_step_def)
  moreover from this(1) have "fst (bank_step (xc_cmd c) (abs_sql_bank d {})) = map_sum abs_failure abs_dto y"
    "snd (bank_step (xc_cmd c) (abs_sql_bank d {})) = abs_sql_bank d' {}" by (metis fst_conv, metis snd_conv)
  moreover have "map_sum abs_failure (\<lambda>_. ()) x = map_sum abs_failure (\<lambda>_. ()) y"
    using w(4) by (cases x; cases y) auto
  ultimately show ?thesis by (simp add: sum.map_comp comp_def)
qed

section \<open>The bank after any interleaving\<close>

definition bank_after :: "transfer_command list \<Rightarrow> bank \<Rightarrow> bank" where
  "bank_after cmds b = fold (\<lambda>cmd b. snd (bank_step cmd b)) cmds b"

lemma bank_after_snoc: "bank_after (cmds @ [cmd]) b = snd (bank_step cmd (bank_after cmds b))"
  by (simp add: bank_after_def)

definition committed_cmds :: "'d conc \<Rightarrow> (nat \<times> transfer_result) list \<Rightarrow> transfer_command list" where
  "committed_cmds c0 es = map (\<lambda>(i, _). xc_cmd (xf_call (cc_xfers c0 ! i))) es"

lemma committed_turn:
  assumes inv: "conc_core refuse c0 c" and turn: "can_turn i c" and ok: "sql_ok (cc_db c)"
    and commit: "xfer_commit (reference_server refuse) (cc_xfers c ! i) = Some (x, d')"
  shows "find_tx_by_key (xc_key (xf_call (cc_xfers c0 ! i))) (cc_db c) = None" (is "?new = None")
    and "find_tx_by_key (xc_key (xf_call (cc_xfers c0 ! i))) d' \<noteq> None" and "sql_ok d'"
    and "abs_sql_bank d' {} = snd (bank_step (xc_cmd (xf_call (cc_xfers c0 ! i))) (abs_sql_bank (cc_db c) {}))"
proof -
  let ?p = "cc_xfers c ! i" and ?d = "cc_db c"
  have i: "i < length (cc_xfers c0)"
    using turn by (simp add: can_turn_def conc_core_length [OF inv])
  note seat = conc_coreD(3) [OF inv i] and call = conc_coreD(2) [OF inv i]
  have body: "in_body (xf_phase ?p)" using commit by (cases "xf_phase ?p") (auto simp: xfer_commit_def)
  have pl: "place refuse ?d (xf_heap (cc_xfers c0 ! i)) ?p" using seat by (simp add: seat_def)
  note new = seat_body(2) [OF seat body]
  from commit_effect [OF place_form [OF pl body new] _ refl commit] ok obtain h' u' where
    k: "find_tx_by_key (xc_key (xf_call ?p)) ?d = None" "find_tx_by_key (xc_key (xf_call ?p)) d' \<noteq> None"
      "xc_from (xf_call ?p) \<noteq> xc_to (xf_call ?p)"
    and st: "alone refuse (xf_call ?p) (xf_phase ?p, xf_heap ?p, xf_uow ?p) = (AtLeave x, h', u')" "ss_stored (sq_db u') = d'"
    by (auto simp: sql_ok_def)
  obtain m k where run: "transfer_amount (xc_cmd (xf_call ?p)) = Inr m"
    "alone_run refuse (xf_call ?p) m (xf_heap (cc_xfers c0 ! i)) k ?d = (xf_phase ?p, xf_heap ?p, xf_uow ?p)"
    using pl body by (auto simp: place_def working_place_def)
  from committed_bank [OF ok run(1) new k(1,3) commit_serial [OF run st(1)], unfolded st(2), OF k(2)] k
  show "?new = None" "find_tx_by_key (xc_key (xf_call (cc_xfers c0 ! i))) d' \<noteq> None" "sql_ok d'"
    "abs_sql_bank d' {} = snd (bank_step (xc_cmd (xf_call (cc_xfers c0 ! i))) (abs_sql_bank ?d {}))"
    by (simp_all add: call)
qed

text \<open>A stored transfer stays, and a key is committed once.\<close>

definition keys_stored :: "db \<Rightarrow> transfer_command list \<Rightarrow> bool" where
  "keys_stored d cmds \<longleftrightarrow> distinct (map tc_idempotency_key cmds) \<and>
     (\<forall>cmd \<in> set cmds. bk_transfers (abs_sql_bank d {}) (tc_idempotency_key cmd) \<noteq> None)"

lemma bank_step_keeps:
  "bk_transfers b k \<noteq> None \<Longrightarrow> bk_transfers (snd (bank_step cmd b)) k \<noteq> None"
  using bank_transfer_keeps by (auto simp: bank_step_def split: sum.splits)

lemma stored_key:
  assumes "sql_ok d"
  shows "bk_transfers (abs_sql_bank d held) k \<noteq> None \<longleftrightarrow> find_tx_by_key k d \<noteq> None"
  using sql_ok_found(2) [OF assms, of k]
  by (cases "find_tx_by_key k d") (auto simp: abs_sql_bank_def tx_row_ok_def row_entry_def split: sum.splits)

lemma conc_bank:
  assumes "(conc_step (reference_server refuse))\<^sup>*\<^sup>* c0 c" and start: "conc_start (reference_server refuse) d c0"
    and ok: "sql_ok d" and fresh: "fresh_ids d c0"
  shows "sql_ok (cc_db c) \<and> abs_sql_bank (cc_db c) {} = bank_after (committed_cmds c0 (cc_log c)) (abs_sql_bank d {}) \<and>
    keys_stored (cc_db c) (committed_cmds c0 (cc_log c))"
  using assms(1)
proof induction
  case base
  show ?case using start ok by (simp add: conc_start_def committed_cmds_def bank_after_def keys_stored_def)
next
  case (step c c')
  have "db_valid d" using ok by (simp add: sql_ok_def)
  note inv = conc_reachable [OF step.hyps(1) start this fresh]
  from step.hyps(2) show ?case
  proof cases
    case (cancelled i e)
    with step.IH show ?thesis by (simp add: conc_cancel_def)
  next
    case (turn i)
    show ?thesis
    proof (cases "xfer_commit (reference_server refuse) (cc_xfers c ! i)")
      case None
      with turn step.IH show ?thesis by (simp add: conc_turn_def Let_def)
    next
      case (Some r)
      obtain x d' where r: "r = (x, d')" by (cases r)
      let ?cmd = "xc_cmd (xf_call (cc_xfers c0 ! i))" and ?cmds = "committed_cmds c0 (cc_log c)"
      note commit = committed_turn [OF conc_inv_core [OF inv] turn(2) _ Some [unfolded r]]
      have ok: "sql_ok (cc_db c)" and bank: "abs_sql_bank (cc_db c) {} = bank_after ?cmds (abs_sql_bank d {})"
        and keys: "keys_stored (cc_db c) ?cmds" using step.IH by simp_all
      have old: "bk_transfers (abs_sql_bank d' {}) k \<noteq> None" if "bk_transfers (abs_sql_bank (cc_db c) {}) k \<noteq> None" for k
        unfolding commit(4) [OF ok] using that by (rule bank_step_keeps)
      have "bk_transfers (abs_sql_bank d' {}) (tc_idempotency_key ?cmd) \<noteq> None"
        "bk_transfers (abs_sql_bank (cc_db c) {}) (tc_idempotency_key ?cmd) = None"
        using commit(1,2) [OF ok] stored_key [OF ok] stored_key [OF commit(3) [OF ok]] by metis+
      with keys old have "keys_stored d' (?cmds @ [?cmd])"
        unfolding keys_stored_def by (auto simp: image_iff)
      with commit(3,4) [OF ok] bank show ?thesis
        by (simp add: turn conc_turn_def Some r Let_def committed_cmds_def bank_after_snoc)
    qed
  qed
qed

text \<open>Money is neither made nor lost.\<close>

lemma bank_step_total:
  assumes "finite A" and "tc_from_account_id cmd \<in> A" and "tc_to_account_id cmd \<in> A"
  shows "bank_total A (snd (bank_step cmd b)) = bank_total A b"
  using assms by (simp add: bank_step_def bank_transfer_total split: sum.splits)

lemma bank_after_total:
  assumes "finite A" and "\<forall>cmd \<in> set cmds. tc_from_account_id cmd \<in> A \<and> tc_to_account_id cmd \<in> A"
  shows "bank_total A (bank_after cmds b) = bank_total A b"
  using assms by (induction cmds arbitrary: b) (simp_all add: bank_after_def bank_step_total)

section \<open>Waiting\<close>

text \<open>From \<open>__aenter__\<close> to \<open>__aexit__\<close>: where the code also holds its Redis locks.\<close>

fun in_transaction :: "phase \<Rightarrow> bool" where
  "in_transaction (AtLeave x) = True"
| "in_transaction ph = in_body ph"

abbreviation xf_accounts :: "'d xfer \<Rightarrow> account_id set" where
  "xf_accounts p \<equiv> {xc_from (xf_call p), xc_to (xf_call p)}"

lemma seat_rows:
  assumes "seat refuse d es h0 i p"
  shows "xf_rows p \<subseteq> xf_accounts p" and "xf_rows p \<noteq> {} \<Longrightarrow> in_transaction (xf_phase p)"
    and "xf_wanted p = Some row \<Longrightarrow> row \<in> xf_accounts p \<and> in_transaction (xf_phase p)"
proof -
  have held: "held_rows c ph \<subseteq> {xc_from c, xc_to c}" for c ph by (cases ph) auto
  show "xf_rows p \<subseteq> xf_accounts p"
    using assms held by (cases "xf_phase p") (auto simp: seat_def place_def working_place_def)
  show "in_transaction (xf_phase p)" if "xf_rows p \<noteq> {}"
    using assms that by (cases "xf_phase p") (auto simp: seat_def place_def)
  show "row \<in> xf_accounts p \<and> in_transaction (xf_phase p)" if w: "xf_wanted p = Some row"
  proof -
    from w have b: "in_body (xf_phase p)" by (cases "xf_phase p") (auto simp: xf_wanted_def)
    moreover have "place refuse d h0 p" using assms by (simp add: seat_def)
    from wanted_row [OF place_form [OF this b seat_body(2) [OF assms b]]] w
    have "row \<in> xf_accounts p" by (simp add: xf_wanted_def)
    ultimately show ?thesis by (cases "xf_phase p") auto
  qed
qed

text \<open>Who waits, waits for a transfer of one of its own accounts.\<close>

lemma blocked_on:
  assumes inv: "conc_inv refuse d c0 c" and "blocked i c" and "i < length (cc_xfers c)"
  shows "\<exists>j < length (cc_xfers c). j \<noteq> i \<and> in_transaction (xf_phase (cc_xfers c ! i)) \<and>
    in_transaction (xf_phase (cc_xfers c ! j)) \<and> xf_accounts (cc_xfers c ! i) \<inter> xf_accounts (cc_xfers c ! j) \<noteq> {}"
proof -
  have len: "length (cc_xfers c) = length (cc_xfers c0)"
    using inv by (auto simp: conc_inv_def conc_core_def dest: map_eq_imp_length_eq)
  obtain row j where row: "xf_wanted (cc_xfers c ! i) = Some row" "j < length (cc_xfers c)" "j \<noteq> i"
    "row \<in> xf_rows (cc_xfers c ! j)"
    using assms(2) by (auto simp: blocked_def list_ex_iff split: option.splits)
  note si = conc_invD(3) [OF inv, of i] and sj = conc_invD(3) [OF inv, of j]
  have "row \<in> xf_accounts (cc_xfers c ! i)" "in_transaction (xf_phase (cc_xfers c ! i))"
    using seat_rows(3) [OF si row(1)] assms(3) len by simp_all
  moreover have "row \<in> xf_accounts (cc_xfers c ! j)" "in_transaction (xf_phase (cc_xfers c ! j))"
    using seat_rows(1,2) [OF sj] row(2,4) len by auto
  ultimately show ?thesis using row(2,3) by blast
qed

text \<open>A transfer waits for a row it does not hold: for its sender's, holding none, or for its receiver's, holding its
  sender's.\<close>

lemma seat_waiting:
  assumes "seat refuse d es h0 i p" and w: "xf_wanted p = Some row" and "row \<notin> xf_rows p"
  shows "xf_rows p = {} \<or> xf_rows p = {xc_from (xf_call p)} \<and> row = xc_to (xf_call p)"
proof -
  have b: "in_body (xf_phase p)" using w by (cases "xf_phase p") (auto simp: xf_wanted_def)
  have pl: "place refuse d h0 p" using assms(1) by (simp add: seat_def)
  have rows: "xf_rows p = held_rows (xf_call p) (xf_phase p)" using pl b by (simp add: place_def working_place_def)
  have form: "form (xf_call p) d (xf_phase p, xf_heap p, xf_uow p)" by (rule place_form [OF pl b seat_body(2) [OF assms(1) b]])
  from w assms(3) form show ?thesis unfolding rows by (cases "xf_phase p") (auto simp: xf_wanted_def pair_loaded_def)
qed

lemma blocked_holder:
  assumes inv: "conc_core refuse c0 c" and "blocked i c" and "i < length (cc_xfers c)"
  obtains j row where "j < length (cc_xfers c)" and "j \<noteq> i" and "xf_wanted (cc_xfers c ! i) = Some row"
    and "row \<in> xf_rows (cc_xfers c ! j)" and "row \<notin> xf_rows (cc_xfers c ! i)"
    and "\<not> finished_phase (xf_phase (cc_xfers c ! j))"
proof -
  obtain row j where row: "xf_wanted (cc_xfers c ! i) = Some row" "j < length (cc_xfers c)" "j \<noteq> i"
    "row \<in> xf_rows (cc_xfers c ! j)"
    using assms(2) by (auto simp: blocked_def list_ex_iff split: option.splits)
  moreover have "row \<notin> xf_rows (cc_xfers c ! i)"
    using inv row assms(3) by (auto simp: conc_core_def disjoint_rows_def)
  moreover have "in_transaction (xf_phase (cc_xfers c ! j))"
    using seat_rows(2) [OF conc_coreD(3) [OF inv]] row conc_core_length [OF inv] by (metis empty_iff)
  then have "\<not> finished_phase (xf_phase (cc_xfers c ! j))" by (cases "xf_phase (cc_xfers c ! j)") auto
  ultimately show thesis using that by blast
qed

text \<open>The directions in which transfers go: when they form no cycle, somebody can always go on.\<close>

definition directions :: "'d conc \<Rightarrow> (account_id \<times> account_id) set" where
  "directions c = set (filter (\<lambda>(f, t). f \<noteq> t) (map (\<lambda>p. (xc_from (xf_call p), xc_to (xf_call p))) (cc_xfers c)))"

lemma nobody_waits:
  assumes inv: "conc_core refuse c0 c" and stuck: "\<forall>i. \<not> can_turn i c" and acyclic: "acyclic (directions c0)"
    and i: "i < length (cc_xfers c)" "xf_wanted (cc_xfers c ! i) = Some row" "row \<notin> xf_rows (cc_xfers c ! i)"
  shows False
proof -
  have "wf ((directions c0)\<inverse>)" using acyclic by (intro finite_acyclic_wf_converse) (simp_all add: directions_def)
  then show ?thesis using i
  proof (induction row arbitrary: i rule: wf_induct_rule)
    case (less row)
    let ?p = "\<lambda>i. cc_xfers c ! i"
    have "\<not> finished_phase (xf_phase (?p i))" using less.prems(2) by (cases "xf_phase (?p i)") (auto simp: xf_wanted_def)
    then have "blocked i c" using stuck less.prems(1) by (auto simp: can_turn_def)
    from blocked_holder [OF inv this less.prems(1)] obtain j where
      j: "j < length (cc_xfers c)" "j \<noteq> i" "row \<in> xf_rows (?p j)" "\<not> finished_phase (xf_phase (?p j))"
      using less.prems(2) by (metis option.inject)
    then have "blocked j c" using stuck by (auto simp: can_turn_def)
    from blocked_holder [OF inv this j(1)] obtain k row' where
      row': "k < length (cc_xfers c)" "k \<noteq> j" "xf_wanted (?p j) = Some row'" "row' \<in> xf_rows (?p k)" "row' \<notin> xf_rows (?p j)"
      by metis
    have j0: "j < length (cc_xfers c0)" using j(1) conc_core_length [OF inv] by simp
    from seat_waiting [OF conc_coreD(3) [OF inv j0] row'(3,5)] j(3)
    have dir: "row = xc_from (xf_call (?p j))" "row' = xc_to (xf_call (?p j))" by auto
    moreover have "row \<noteq> row'" using j(3) row'(5) by blast
    ultimately have "(row, row') \<in> directions c0"
      using conc_coreD(2) [OF inv j0] j0 by (auto simp: directions_def intro!: image_eqI [of _ _ "cc_xfers c0 ! j"])
    then have "(row', row) \<in> (directions c0)\<inverse>" by simp
    from less.IH [OF this j(1) row'(3,5)] show False .
  qed
qed

lemma no_cycle_finished:
  assumes inv: "conc_core refuse c0 c" and stuck: "\<forall>i. \<not> can_turn i c" and acyclic: "acyclic (directions c0)"
    and "p \<in> set (cc_xfers c)"
  shows "finished_phase (xf_phase p)"
proof (rule ccontr)
  assume p: "\<not> finished_phase (xf_phase p)"
  obtain i where i: "i < length (cc_xfers c)" "cc_xfers c ! i = p" using assms(4) by (auto simp: in_set_conv_nth)
  with p stuck have "blocked i c" by (auto simp: can_turn_def)
  from blocked_holder [OF inv this i(1)] nobody_waits [OF inv stuck acyclic i(1)] show False by metis
qed

section \<open>Every run ends\<close>

fun phase_rank :: "phase \<Rightarrow> nat" where
  "phase_rank AtCheck = 10"
| "phase_rank (AtKnown r) = 0"
| "phase_rank (AtEnter m) = 9"
| "phase_rank (AtLoadSender m) = 8"
| "phase_rank (AtLoadReceiver m s) = 7"
| "phase_rank (AtApply m s r) = 6"
| "phase_rank (AtUpdateSender s r tx) = 5"
| "phase_rank (AtUpdateReceiver s r tx) = 4"
| "phase_rank (AtSaveTx s r tx) = 3"
| "phase_rank (AtCommit s r tx) = 2"
| "phase_rank (AtSaveFailed tx e) = 3"
| "phase_rank (AtCommitFailed tx e) = 2"
| "phase_rank (AtLeave x) = 1"
| "phase_rank (AtDone x) = 0"

definition conc_rank :: "'d conc \<Rightarrow> nat" where
  "conc_rank c = sum_list (map (\<lambda>p. phase_rank (xf_phase p)) (cc_xfers c))"

lemma phase_step_rank:
  assumes "phase_step U c (ph, s) = (ph', s')" and "\<not> finished_phase ph"
  shows "phase_rank ph' < phase_rank ph"
proof -
  obtain x t where st: "transfer_phase U c ph s = (x, t)" by (rule prod.exhaust)
  show ?thesis
  proof (cases x)
    case (Inl e)
    with assms st show ?thesis by (cases ph) (auto simp: phase_step_apply raised_phase_def)
  next
    case (Inr ph1)
    with assms st have "ph1 = ph'" by (simp add: phase_step_apply)
    with Inr st assms(2) show ?thesis
      by (cases ph) (auto simp: apply_phase_def bindP_apply thenP_apply tryP_apply returnP_apply liftP_apply
          split: sum.splits prod.splits option.splits)
  qed
qed

lemma sum_list_less:
  "i < length xs \<Longrightarrow> f y < f (xs ! i) \<Longrightarrow> sum_list (map f (xs[i := y])) < sum_list (map (f :: 'a \<Rightarrow> nat) xs)"
  by (induction xs arbitrary: i) (auto split: nat.splits simp: nth_Cons)

lemma conc_step_rank:
  assumes "conc_step V c c'"
  shows "conc_rank c' < conc_rank c \<and> length (cc_xfers c') = length (cc_xfers c)"
  using assms
proof cases
  case (cancelled i e)
  then have "1 < phase_rank (xf_phase (cc_xfers c ! i))"
    by (cases "xf_phase (cc_xfers c ! i)") (auto simp: blocked_def xf_wanted_def)
  with cancelled show ?thesis
    by (simp add: conc_cancel_def conc_rank_def sum_list_less)
next
  case (turn i)
  let ?p = "cc_xfers c ! i" and ?p' = "xfer_step V (cc_db c) (cc_xfers c ! i)"
  have less: "phase_rank (xf_phase ?p') < phase_rank (xf_phase ?p)"
    using turn(2) phase_step_rank [of "server_uow V" "xf_call ?p" "xf_phase ?p" "(xf_heap ?p, xf_uow ?p)"]
    by (auto simp: xfer_step_def can_turn_def split: prod.splits)
  have others: "map (\<lambda>p. phase_rank (xf_phase p)) (map (note_xfer V d) ps) = map (\<lambda>p. phase_rank (xf_phase p)) ps" for d ps
    by (simp add: note_xfer_def)
  have "i < length (cc_xfers c)" using turn(2) by (simp add: can_turn_def)
  with turn(1) less show ?thesis
    using sum_list_less [of i "cc_xfers c" "\<lambda>p. phase_rank (xf_phase p)" ?p']
    by (auto simp: conc_turn_def conc_rank_def Let_def map_update others simp del: map_map split: option.splits)
qed

lemma conc_steps_bounded:
  assumes "(conc_step V ^^ n) c0 c"
  shows "n + conc_rank c \<le> conc_rank c0 \<and> length (cc_xfers c) = length (cc_xfers c0)"
  using assms
proof (induction n arbitrary: c)
  case (Suc n)
  then obtain c1 where "(conc_step V ^^ n) c0 c1" "conc_step V c1 c" by auto
  with Suc.IH [of c1] conc_step_rank [of V c1 c] show ?case by simp
qed simp

lemma stuck_finished:
  assumes "\<nexists>c'. conc_step V c c'" and "p \<in> set (cc_xfers c)"
  shows "finished_phase (xf_phase p)"
proof -
  obtain i where i: "i < length (cc_xfers c)" "cc_xfers c ! i = p" using assms(2) by (auto simp: in_set_conv_nth)
  with assms(1) have "\<not> can_turn i c" "\<not> blocked i c" using conc_step.intros by metis+
  with i show ?thesis by (simp add: can_turn_def)
qed

text \<open>Turn by turn, without a cancellation, a run comes to rest.\<close>

lemma run_to_rest: "\<exists>is c'. conc_run V is c = Some c' \<and> (\<forall>i. \<not> can_turn i c')"
proof (induction "conc_rank c" arbitrary: c rule: less_induct)
  case less
  show ?case
  proof (cases "\<exists>i. can_turn i c")
    case True
    then obtain i where i: "can_turn i c" by blast
    from conc_step_rank [OF conc_step.turn [OF i, of V]] less [of "conc_turn V i c"]
    obtain "is" c' where "conc_run V is (conc_turn V i c) = Some c'" "\<forall>i. \<not> can_turn i c'" by auto
    with i show ?thesis by (intro exI [of _ "i # is"] exI [of _ c']) simp
  next
    case False
    then show ?thesis by (intro exI [of _ "[]"] exI [of _ c]) simp
  qed
qed

text \<open>A transfer that nobody keeps from its rows runs to its end, as in one piece.\<close>

lemma turn_free:
  assumes "i < length (cc_xfers c)" and "\<not> finished_phase (xf_phase (cc_xfers c ! i))"
    and "\<forall>j < length (cc_xfers c). j \<noteq> i \<longrightarrow> xf_rows (cc_xfers c ! j) = {}"
  shows "can_turn i c" and "length (cc_xfers (conc_turn V i c)) = length (cc_xfers c)"
    and "cc_xfers (conc_turn V i c) ! i = xfer_step V (cc_db c) (cc_xfers c ! i)"
    and "\<forall>j < length (cc_xfers c). j \<noteq> i \<longrightarrow> xf_rows (cc_xfers (conc_turn V i c) ! j) = {}"
  using assms
  by (auto simp: can_turn_def blocked_def list_ex_iff conc_turn_def Let_def note_xfer_def split: option.splits)

lemma run_free:
  assumes "i < length (cc_xfers c)" and "\<forall>j < length (cc_xfers c). j \<noteq> i \<longrightarrow> xf_rows (cc_xfers c ! j) = {}"
  shows "\<exists>n c'. conc_run V (replicate n i) c = Some c' \<and> finished_phase (xf_phase (cc_xfers c' ! i)) \<and>
    length (cc_xfers c') = length (cc_xfers c) \<and>
    (xf_phase (cc_xfers c' ! i), xf_heap (cc_xfers c' ! i), xf_uow (cc_xfers c' ! i)) =
      run_phases (server_uow V) (xf_call (cc_xfers c ! i)) n
        (xf_phase (cc_xfers c ! i), xf_heap (cc_xfers c ! i), xf_uow (cc_xfers c ! i))"
  using assms
proof (induction "phase_rank (xf_phase (cc_xfers c ! i))" arbitrary: c rule: less_induct)
  case less
  let ?p = "cc_xfers c ! i"
  show ?case
  proof (cases "finished_phase (xf_phase ?p)")
    case True
    then show ?thesis by (intro exI [of _ 0] exI [of _ c]) simp
  next
    case False
    let ?c = "conc_turn V i c"
    note t = turn_free(1) [OF less.prems(1) False less.prems(2)]
      turn_free(2-) [OF less.prems(1) False less.prems(2), where V = V]
    obtain ph h u where st: "phase_step (server_uow V) (xf_call ?p) (xf_phase ?p, xf_heap ?p, xf_uow ?p) = (ph, h, u)"
      by (rule prod_cases3)
    then have p': "cc_xfers ?c ! i = ?p\<lparr>xf_phase := ph, xf_heap := h, xf_uow := u, xf_rows := rows_after (cc_db c) ?p\<rparr>"
      using t(3) by (simp add: xfer_step_def)
    from phase_step_rank [OF st False] less.hyps [of ?c] less.prems(1) t(2,4)
    obtain n c' where "conc_run V (replicate n i) ?c = Some c'" "finished_phase (xf_phase (cc_xfers c' ! i))"
      "length (cc_xfers c') = length (cc_xfers c)"
      "(xf_phase (cc_xfers c' ! i), xf_heap (cc_xfers c' ! i), xf_uow (cc_xfers c' ! i)) =
        run_phases (server_uow V) (xf_call ?p) n (ph, h, u)" by (auto simp: p')
    with t(1) st show ?thesis by (intro exI [of _ "Suc n"] exI [of _ c']) simp
  qed
qed

lemma finished_run: "finished_phase ph \<Longrightarrow> run_phases U c n (ph, s) = (ph, s)"
  by (induction n) (cases ph; simp add: phase_step_apply returnP_apply)+

lemma finished_any:
  assumes "run_phases U c n p = (ph, s)" and "finished_phase ph" and "run_phases U c m p = (ph', s')" and "finished_phase ph'"
  shows "ph' = ph"
  using assms by (metis add.commute finished_run prod.inject run_phases_add)

lemma run_free_result:
  assumes laws: "server_laws refuse V" and p: "cc_xfers c ! i = p" "i < length (cc_xfers c)"
    and free: "\<forall>j < length (cc_xfers c). j \<noteq> i \<longrightarrow> xf_rows (cc_xfers c ! j) = {}"
    and check: "xf_phase p = AtCheck" and key: "find_tx_by_key (xc_key (xf_call p)) d = None"
    and amt: "transfer_amount (xc_cmd (xf_call p)) = Inr m" and d: "ss_stored (sv_view V (sq_db (xf_uow p))) = d"
  shows "\<exists>c'. (conc_step V)\<^sup>*\<^sup>* c c' \<and>
    xf_phase (cc_xfers c' ! i) = AtDone (fst (serial_transfer refuse (xf_call p, xf_heap p) d))"
proof -
  let ?U = "server_uow V" and ?R = "sqlalchemy_uow (reference_session refuse)" and ?f = "abs_session_uow (sv_view V)"
  let ?c = "xf_call p" and ?h = "xf_heap p" and ?u = "xf_uow p"
  have sim: "uow_simulates ?f ?U ?R" using laws sql_simulates by (auto simp: server_laws_def)
  obtain x where check1: "phase_step ?U ?c (AtCheck, ?h, ?u) = (AtEnter m, ?h, x)"
    and "ss_stored (sq_db (?f x)) = d"
  proof -
    obtain ph1 h1 u1 where st: "phase_step ?U ?c (AtCheck, ?h, ?u) = (ph1, h1, u1)" by (rule prod_cases3)
    have "phase_step ?R ?c (AtCheck, ?h, ?f ?u) = (AtEnter m, ?h, sql_start d)"
      using key amt d by (simp add: phase_step_apply with_uow_reference sql_tx_get_by_idempotency_key_def bindP_apply
          liftP_apply on_db_apply returnP_apply sql_start_def abs_session_uow_def)
    with phase_step_simulates [OF sim st] have r: "ph1 = AtEnter m" "h1 = ?h" "?f u1 = sql_start d" by simp_all
    then have "ss_stored (sq_db (?f u1)) = d" by (simp add: sql_start_def)
    with st r(1,2) that show thesis by blast
  qed
  obtain y s' where serial: "with_uow ?U (transfer_in_uow ?U (xc_from ?c) (xc_to ?c) m (xc_key ?c) (xc_reads ?c)) (?h, x) = (y, s')"
    by (rule prod.exhaust)
  have "run_phases ?U ?c (Suc 9) (AtCheck, ?h, ?u) = (AtDone y, s')"
    using phases_exact [of 9 ?U ?c m "(?h, x)"] serial by (simp only: run_phases.simps(2) check1) simp
  moreover obtain n c' where n: "conc_run V (replicate n i) c = Some c'" "finished_phase (xf_phase (cc_xfers c' ! i))"
    "run_phases ?U ?c n (AtCheck, ?h, ?u) = (xf_phase (cc_xfers c' ! i), xf_heap (cc_xfers c' ! i), xf_uow (cc_xfers c' ! i))"
    using run_free [OF p(2) free, of V] p(1) check by auto
  ultimately have "xf_phase (cc_xfers c' ! i) = AtDone y"
    using finished_any [of ?U ?c "Suc 9" _ "AtDone y" s' n] by simp
  moreover have "y = fst (serial_transfer refuse (?c, ?h) d)"
  proof -
    have "simulates (abs_uow_state ?f)
        (with_uow ?U (transfer_in_uow ?U (xc_from ?c) (xc_to ?c) m (xc_key ?c) (xc_reads ?c)))
        (with_uow ?R (transfer_in_uow ?R (xc_from ?c) (xc_to ?c) m (xc_key ?c) (xc_reads ?c)))"
      using sim by (intro with_uow_simulates transfer_in_uow_simulates)
    from simulatesD [OF this, of "(?h, x)"] serial
    have "fst (with_uow ?R (transfer_in_uow ?R (xc_from ?c) (xc_to ?c) m (xc_key ?c) (xc_reads ?c)) (?h, ?f x)) = y"
      by (simp add: abs_uow_state_def)
    moreover have "with_uow ?R b (?h, ?f x) = with_uow ?R b (?h, sql_start d)" for b :: "(session sql_uow, nat \<times> nat \<times> nat) uow_prog"
      using \<open>ss_stored (sq_db (?f x)) = d\<close> by (simp add: with_uow_reference sql_start_def)
    ultimately show ?thesis using amt by (auto simp: serial_transfer_def split: prod.splits)
  qed
  ultimately show ?thesis using conc_run_sound [OF n(1)] by blast
qed

end
