(* ===== verification/Row_Deadlock.thy ===== *)
theory Row_Deadlock
  imports Concurrent_Bank
begin

text \<open>
  Two transfers in opposite directions between the same accounts whose Redis locks do not keep them apart
  (expired, or a Redis that lost them): each locks its sender's row first, as \<open>transfer.py\<close> does, and waits
  for the other's. Only a cancellation by the server goes on from there.
\<close>

lemma abs_conc_run:
  assumes "server_laws refuse V"
  shows "conc_run (reference_server refuse) is (abs_conc V c) = map_option (abs_conc V) (conc_run V is c)"
proof (induction "is" arbitrary: c)
  case (Cons i "is")
  then show ?case
    using abs_conc_turn [OF assms, of i c, symmetric]
    by (auto simp: abs_can_turn simp del: abs_conc_simps) (simp add: can_turn_def)
qed simp

text \<open>A transfer up to the load of the receiver, alone.\<close>

definition ready_to_load :: "db \<Rightarrow> session xfer \<Rightarrow> bool" where
  "ready_to_load d p \<longleftrightarrow> xf_phase p = AtCheck \<and> xf_rows p = {} \<and> ss_stored (sq_db (xf_uow p)) = d \<and>
     find_tx_by_key (xc_key (xf_call p)) d = None \<and> (\<exists>m. transfer_amount (xc_cmd (xf_call p)) = Inr m) \<and>
     (\<exists>row a. find_account (xc_from (xf_call p)) d = Some row \<and> account_to_domain row = Inr a)"

lemma first_steps:
  fixes refuse :: "db \<Rightarrow> exn"
  assumes "ready_to_load d p"
  defines "step \<equiv> xfer_step (reference_server refuse) d"
  shows "xf_wanted (step p) = None" "\<not> finished_phase (xf_phase (step p))"
    "xf_wanted (step (step p)) = Some (xc_from (xf_call p))" "\<not> finished_phase (xf_phase (step (step p)))"
    "xf_rows (step p) = {}" "xf_rows (step (step p)) = {}" "xf_rows (step (step (step p))) = {xc_from (xf_call p)}"
    "xf_wanted (step (step (step p))) = Some (xc_to (xf_call p))"
    "xfer_commit (reference_server refuse) p = None" "xfer_commit (reference_server refuse) (step p) = None"
    "xfer_commit (reference_server refuse) (step (step p)) = None"
    "\<exists>m. xf_phase (step p) = AtEnter m" "\<exists>m. xf_phase (step (step p)) = AtLoadSender m"
proof -
  obtain m row a where p: "xf_phase p = AtCheck" "xf_rows p = {}" "ss_stored (sq_db (xf_uow p)) = d"
    "find_tx_by_key (xc_key (xf_call p)) d = None" "transfer_amount (xc_cmd (xf_call p)) = Inr m"
    "find_account (xc_from (xf_call p)) d = Some row" "account_to_domain row = Inr a"
    using assms(1) by (auto simp: ready_to_load_def)
  note steps = step_def xfer_step_def phase_step_apply reference_server_def rows_after_def xf_wanted_def xfer_commit_def
  have s1: "step p = p\<lparr>xf_phase := AtEnter m, xf_uow := sql_start d, xf_rows := {}\<rparr>"
    using p by (simp add: steps with_uow_reference sql_tx_get_by_idempotency_key_def bindP_apply liftP_apply
        on_db_apply returnP_apply sql_start_def)
  have s2: "step (step p) = p\<lparr>xf_phase := AtLoadSender m, xf_uow := sql_start d, xf_rows := {}\<rparr>"
    using s1 p(2) by (simp add: steps sql_enter_def thenP_apply on_db_apply modifyP_apply returnP_apply sql_start_def)
  have "load_account (sqlalchemy_uow (reference_session refuse)) (xc_from (xf_call p)) (xf_heap p, sql_start d) =
      (Inr (next_ref (xf_heap p)), (snd (alloc_account a (xf_heap p)), working d [next_ref (xf_heap p)] d []))"
    using p(6,7) by (simp add: start_working load_working)
  then have s3: "step (step (step p)) = p\<lparr>xf_phase := AtLoadReceiver m (next_ref (xf_heap p)),
      xf_heap := snd (alloc_account a (xf_heap p)), xf_uow := working d [next_ref (xf_heap p)] d [],
      xf_rows := {xc_from (xf_call p)}\<rparr>"
    unfolding s2 using p(2,6) by (simp add: steps bindP_apply returnP_apply)
  show "xf_wanted (step p) = None" "\<not> finished_phase (xf_phase (step p))"
    "xf_wanted (step (step p)) = Some (xc_from (xf_call p))" "\<not> finished_phase (xf_phase (step (step p)))"
    "xf_rows (step p) = {}" "xf_rows (step (step p)) = {}" "xf_rows (step (step (step p))) = {xc_from (xf_call p)}"
    "xf_wanted (step (step (step p))) = Some (xc_to (xf_call p))"
    "xfer_commit (reference_server refuse) p = None" "xfer_commit (reference_server refuse) (step p) = None"
    "xfer_commit (reference_server refuse) (step (step p)) = None"
    "\<exists>m. xf_phase (step p) = AtEnter m" "\<exists>m. xf_phase (step (step p)) = AtLoadSender m"
    unfolding s2 s3 [unfolded s2] using s1 p by (simp_all add: xf_wanted_def xfer_commit_def)
qed

lemma turn_first:
  assumes "cc_xfers c = [p, q]"
  shows "can_turn 0 c \<longleftrightarrow> \<not> finished_phase (xf_phase p) \<and> (\<forall>row. xf_wanted p = Some row \<longrightarrow> row \<notin> xf_rows q)"
    and "can_turn (Suc 0) c \<longleftrightarrow> \<not> finished_phase (xf_phase q) \<and> (\<forall>row. xf_wanted q = Some row \<longrightarrow> row \<notin> xf_rows p)"
    and "xfer_commit V p = None \<Longrightarrow> conc_turn V 0 c = c\<lparr>cc_xfers := [xfer_step V (cc_db c) p, q]\<rparr>"
    and "xfer_commit V q = None \<Longrightarrow> conc_turn V (Suc 0) c = c\<lparr>cc_xfers := [p, xfer_step V (cc_db c) q]\<rparr>"
  using assms by (auto simp: can_turn_def blocked_def upt_rec conc_turn_def Let_def split: option.splits)

lemma crossing_stuck:
  assumes c: "cc_xfers c = [p, q]" "cc_db c = d" and p: "ready_to_load d p" and q: "ready_to_load d q"
    and cross: "xc_to (xf_call p) = xc_from (xf_call q)" "xc_to (xf_call q) = xc_from (xf_call p)"
    and ne: "xc_from (xf_call p) \<noteq> xc_from (xf_call q)"
  shows "\<exists>c'. conc_run (reference_server refuse) [0, 0, 0, 1, 1, 1] c = Some c' \<and> cc_db c' = d \<and>
    length (cc_xfers c') = 2 \<and> blocked 0 c' \<and> blocked 1 c'"
proof -
  let ?s = "xfer_step (reference_server refuse) d"
  have ph: "xf_wanted p = None" "xf_wanted q = None" "\<not> finished_phase (xf_phase p)" "\<not> finished_phase (xf_phase q)" "xf_rows q = {}"
    using p q by (auto simp: ready_to_load_def xf_wanted_def)
  have "conc_run (reference_server refuse) [0, 0, 0, 1, 1, 1] c = Some (c\<lparr>cc_xfers := [?s (?s (?s p)), ?s (?s (?s q))]\<rparr>)"
    using c(2) ph first_steps [OF p, of refuse] first_steps [OF q, of refuse] ne
    by (simp add: turn_first [OF c(1)] turn_first [where p = "?s p" and q = "q"] turn_first [where p = "?s (?s p)" and q = "q"]
        turn_first [where p = "?s (?s (?s p))" and q = "q"] turn_first [where p = "?s (?s (?s p))" and q = "?s q"]
        turn_first [where p = "?s (?s (?s p))" and q = "?s (?s q)"])
  moreover have "blocked 0 (c\<lparr>cc_xfers := [?s (?s (?s p)), ?s (?s (?s q))]\<rparr>)"
    "blocked 1 (c\<lparr>cc_xfers := [?s (?s (?s p)), ?s (?s (?s q))]\<rparr>)"
    using first_steps [OF p, of refuse] first_steps [OF q, of refuse] cross
    by (simp_all add: blocked_def upt_rec)
  ultimately show ?thesis using c(2) by auto
qed

end
