(* ===== verification/Concurrent_Properties.thy ===== *)
theory Concurrent_Properties
  imports Sql_Properties Row_Deadlock
begin

text \<open>
  The properties of transfers that run at the same time over one database, for every lawful server, with
  witnesses on the database of theory Sql_Properties behind a server whose sessions count their statements.
\<close>

section \<open>A server and two transfers\<close>

definition counting_server :: "(nat \<times> session) server" where
  "counting_server = \<lparr>sv_session = counting_session sample_refuse, sv_view = snd,
     sv_note = (\<lambda>d (n, s). (n, foreign_commit d s))\<rparr>"

lemma counting_server_lawful: "server_laws sample_refuse counting_server"
  by (simp add: server_laws_def counting_server_def counting_session_lawful split: prod.splits)

definition sample_heap :: heap where
  "sample_heap = \<lparr>accounts_at = (\<lambda>_. sample_account 1 500 ACTIVE), txs_at = (\<lambda>_. sample_tx), next_ref = 0\<rparr>"

definition sample_xfer :: "nat \<Rightarrow> transfer_command \<Rightarrow> (nat \<times> session) xfer" where
  "sample_xfer k cmd = \<lparr>xf_call = \<lparr>xc_cmd = cmd, xc_reads = (\<lambda>n. reads (n + k))\<rparr>, xf_phase = AtCheck, xf_heap = sample_heap,
     xf_uow = \<lparr>sq_db = (0, fresh_session sample_db), sq_accounts_seen = [], sq_txs_seen = []\<rparr>, xf_rows = {}\<rparr>"

text \<open>2.00 EUR from account 1 to account 2 and at the same time another transfer: 0.50 EUR back, or the
  same order again.\<close>

definition beside :: "transfer_command \<Rightarrow> (nat \<times> session) conc" where
  "beside cmd = \<lparr>cc_db = sample_db, cc_xfers = [sample_xfer 0 (sample_order 1 2 200 ''a''), sample_xfer 5 cmd], cc_log = []\<rparr>"

abbreviation crossing :: "(nat \<times> session) conc" where
  "crossing \<equiv> beside (sample_order 2 1 50 ''b'')"

abbreviation retried :: "(nat \<times> session) conc" where
  "retried \<equiv> beside (sample_order 1 2 200 ''a'')"

lemma sample_xfer_simps [simp]:
  "xf_call (sample_xfer k cmd) = \<lparr>xc_cmd = cmd, xc_reads = (\<lambda>n. reads (n + k))\<rparr>" "xf_phase (sample_xfer k cmd) = AtCheck"
  "xf_rows (sample_xfer k cmd) = {}" "xf_heap (sample_xfer k cmd) = sample_heap"
  "sv_view counting_server (sq_db (xf_uow (sample_xfer k cmd))) = fresh_session sample_db"
  by (simp_all add: sample_xfer_def counting_server_def)

lemma beside_simps [simp]:
  "cc_xfers (beside cmd) = [sample_xfer 0 (sample_order 1 2 200 ''a''), sample_xfer 5 cmd]" "cc_db (beside cmd) = sample_db"
  by (simp_all add: beside_def)

lemma beside_start: "conc_start counting_server sample_db (beside cmd)"
  by (simp add: conc_start_def beside_def)

lemma beside_ids: "fresh_ids sample_db (beside cmd)"
  by (simp add: fresh_ids_def uid_inject)

lemma sample_amount: "n < max_cents \<Longrightarrow> transfer_amount (sample_order f t n k) = Inr (eur n)"
  using parse_value_simps(1) [of EUR] by (simp add: transfer_amount_def money_new_eur)

lemma sample_domain:
  assumes "n < max_cents" and "st \<noteq> CLOSED"
  shows "\<exists>a. account_to_domain (sample_row i n st) = Inr a \<and> account_ok a \<and> abs_account a = abs_account (sample_account i n st)"
  using sample_row_domain(1,2) [OF assms(1), of st i] assms(2)
  by (auto simp: account_row_ok_def row_ledger_def split: sum.splits)

text \<open>The first transfer goes through: alone it succeeds, over any rows that hold its two accounts.\<close>

lemma first_succeeds:
  assumes ok: "sql_ok d" and rows: "find_account (uid 1) d = Some (sample_row 1 500 ACTIVE)"
      "find_account (uid 2) d = Some (sample_row 2 100 ACTIVE)" and txs: "db_txs d = []"
  shows "\<exists>y. fst (serial_transfer sample_refuse (xf_call (sample_xfer 0 (sample_order 1 2 200 ''a'')), sample_heap) d) = Inr y"
proof -
  let ?c = "\<lparr>xc_cmd = sample_order 1 2 200 ''a'', xc_reads = (\<lambda>n. reads (n + 0))\<rparr>"
  obtain x d' where ser: "serial_transfer sample_refuse (?c, sample_heap) d = (x, d')" by (rule prod.exhaust)
  have amt: "transfer_amount (xc_cmd ?c) = Inr (eur 200)" by (simp add: sample_amount)
  have ne: "xc_from ?c \<noteq> xc_to ?c" by (simp add: uid_inject)
  have none: "find_tx_by_key k d = None" "find_tx i d = None" for k i using txs by (simp_all add: find_tx_by_key_def find_tx_def)
  from serial_is_call [OF amt none(1) ne ser] obtain y w' where
    w: "transfer_initiate (sqlalchemy_uow (reference_session sample_refuse)) in_memory_lock in_memory_bus
        (xc_cmd ?c) (xc_reads ?c) (alone_world sample_heap d) = (y, w')"
      "case x of Inl e \<Rightarrow> y = Inl e | Inr _ \<Rightarrow> \<not> isl y" by auto
  have "sql_call_ok (xc_cmd ?c) (xc_reads ?c) (alone_world sample_heap d) (eur 200)"
    using amt ok none by (simp add: sql_call_ok_def transfer_amount_arg)
  from sql_transfer_outcome [OF this w(1)]
  have "(map_sum abs_failure abs_dto y, abs_sql w') = sql_bank_call (sample_order 1 2 200 ''a'') (eur 200) (abs_sql_bank d {})
      \<or> \<not> sql_room (sample_order 1 2 200 ''a'') (eur 200) d"
    by (auto simp: sql_outcome_def)
  moreover have "sql_room (sample_order 1 2 200 ''a'') (eur 200) d"
    using rows by (simp add: sql_room_def sample_row_domain abs_account_def column_cents_def)
  moreover have "\<not> isl (fst (sql_bank_call (sample_order 1 2 200 ''a'') (eur 200) (abs_sql_bank d {})))"
    using rows none by (simp add: sql_bank_call_def bank_transfer_def abs_sql_bank_def uid_inject sample_row_domain
        account_currency_def abs_account_def max_cents_def)
  ultimately have "\<not> isl y" by (metis fst_conv isl_map_sum)
  with w(2) have "\<not> isl x" by (cases x) auto
  then show ?thesis using ser by (cases x) auto
qed

lemma sample_rows:
  "find_account (uid 1) sample_db = Some (sample_row 1 500 ACTIVE)" "find_account (uid 2) sample_db = Some (sample_row 2 100 ACTIVE)"
  "db_txs sample_db = []"
  by (simp_all add: find_account_def sample_db_def sample_row_domain uid_inject)

text \<open>So there is a moment at which it has been answered and the other has not begun.\<close>

lemma beside_moment:
  "\<exists>c y. (conc_step counting_server)\<^sup>*\<^sup>* (beside cmd) c \<and> xf_phase (cc_xfers c ! 0) = AtDone (Inr y)"
proof -
  let ?p = "sample_xfer 0 (sample_order 1 2 200 ''a'')"
  have at: "cc_xfers (beside cmd) ! 0 = ?p" "0 < length (cc_xfers (beside cmd))"
    "\<forall>j < length (cc_xfers (beside cmd)). j \<noteq> 0 \<longrightarrow> xf_rows (cc_xfers (beside cmd) ! j) = {}"
    by (auto simp: less_Suc_eq)
  have "find_tx_by_key (xc_key (xf_call ?p)) sample_db = None" "transfer_amount (xc_cmd (xf_call ?p)) = Inr (eur 200)"
    "ss_stored (sv_view counting_server (sq_db (xf_uow ?p))) = sample_db"
    by (simp_all add: sample_amount)
  from run_free_result [OF counting_server_lawful at _ this] first_succeeds [OF sample_sql_ok sample_rows] show ?thesis by auto
qed

section \<open>Any lawful server\<close>

lemma lawful_inv:
  assumes "server_laws refuse V" and "conc_start V d c0" and "db_valid d" and "fresh_ids d c0" and "(conc_step V)\<^sup>*\<^sup>* c0 c"
  shows "conc_inv refuse d (abs_conc V c0) (abs_conc V c)"
  using conc_reachable [OF abs_conc_reachable [OF assms(1,5)] abs_conc_start [OF assms(2)] assms(3)] assms(4)
  by (simp add: fresh_ids_def comp_def)

lemma lawful_facts:
  assumes "server_laws refuse V" and "conc_start V d c0" and "db_valid d" and "fresh_ids d c0" and "(conc_step V)\<^sup>*\<^sup>* c0 c"
  shows "length (cc_xfers c) = length (cc_xfers c0)" and "(i, x) \<in> set (cc_log c) \<Longrightarrow> i < length (cc_xfers c0)"
    and "i < length (cc_xfers c0) \<Longrightarrow> logged (cc_log c) i (xf_phase (cc_xfers c ! i))"
proof -
  note inv = lawful_inv [OF assms]
  show len: "length (cc_xfers c) = length (cc_xfers c0)"
    using inv by (auto simp: conc_inv_def conc_core_def dest: map_eq_imp_length_eq)
  show "i < length (cc_xfers c0)" if "(i, x) \<in> set (cc_log c)"
    using inv that by (fastforce simp: conc_inv_def conc_core_def)
  show "logged (cc_log c) i (xf_phase (cc_xfers c ! i))" if "i < length (cc_xfers c0)"
    using conc_invD(3) [OF inv, of i] that len by (simp add: seat_def)
qed

lemma lawful_log:
  assumes "\<forall>(i, x) \<in> set es. i < length (cc_xfers c0)"
  shows "log_calls (abs_conc V c0) es = log_calls c0 es" and "committed_cmds (abs_conc V c0) es = committed_cmds c0 es"
  using assms by (auto simp: log_calls_def committed_cmds_def)

lemma lawful_bank:
  assumes "server_laws refuse V" and "conc_start V d c0" and "sql_ok d" and "fresh_ids d c0" and "(conc_step V)\<^sup>*\<^sup>* c0 c"
  shows "sql_ok (cc_db c)" and "abs_sql_bank (cc_db c) {} = bank_after (committed_cmds c0 (cc_log c)) (abs_sql_bank d {})"
    and "keys_stored (cc_db c) (committed_cmds c0 (cc_log c))"
proof -
  have valid: "db_valid d" using assms(3) by (simp add: sql_ok_def)
  have fresh: "fresh_ids d (abs_conc V c0)" using assms(4) by (simp add: fresh_ids_def comp_def)
  have "committed_cmds (abs_conc V c0) (cc_log c) = committed_cmds c0 (cc_log c)"
    by (rule lawful_log) (use lawful_facts(2) [OF assms(1,2) valid assms(4,5)] in auto)
  with conc_bank [OF abs_conc_reachable [OF assms(1,5)] abs_conc_start [OF assms(2)] assms(3) fresh]
  show "sql_ok (cc_db c)" "abs_sql_bank (cc_db c) {} = bank_after (committed_cmds c0 (cc_log c)) (abs_sql_bank d {})"
    "keys_stored (cc_db c) (committed_cmds c0 (cc_log c))" by simp_all
qed

lemma sample_valid: "db_valid sample_db"
  using sample_sql_ok by (simp add: sql_ok_def)

lemma sample_moment:
  obtains c y where "(conc_step counting_server)\<^sup>*\<^sup>* (beside cmd) c" and "(0, Inr y) \<in> set (cc_log c)"
proof -
  obtain c y where c: "(conc_step counting_server)\<^sup>*\<^sup>* (beside cmd) c" "xf_phase (cc_xfers c ! 0) = AtDone (Inr y)"
    using beside_moment by blast
  from lawful_facts(3) [OF counting_server_lawful beside_start sample_valid beside_ids c(1), of 0] c(2)
  have "(0, Inr y) \<in> set (cc_log c)" by (simp add: logged_def)
  with c(1) that show thesis by blast
qed

section \<open>Properties\<close>

text \<open>Transfers that run at the same time are serializable, with no help from the Redis locks: at every moment
  of every interleaving over a lawful server the stored rows are exactly those of running the transfers with
  an accepted commit one after the other, each in one piece, in the order of their commits; each of them tells
  its caller what it tells in that serial run, and a transfer that reports success is one of them.\<close>

theorem concurrent_transfers_serializable:
  assumes "server_laws refuse V" and "conc_start V d c0" and "db_valid d" and "fresh_ids d c0"
    and "(conc_step V)\<^sup>*\<^sup>* c0 c"
  shows "serial_transfers refuse (log_calls c0 (cc_log c)) d = (map snd (cc_log c), cc_db c) \<and>
    distinct (map fst (cc_log c)) \<and>
    (\<forall>(i, x) \<in> set (cc_log c). i < length (cc_xfers c) \<and> xf_phase (cc_xfers c ! i) \<in> {AtLeave x, AtDone x}) \<and>
    (\<forall>i < length (cc_xfers c). \<forall>y. xf_phase (cc_xfers c ! i) = AtDone (Inr y) \<longrightarrow> (i, Inr y) \<in> set (cc_log c))"
proof -
  note facts = lawful_facts [OF assms]
  have "log_calls (abs_conc V c0) (cc_log c) = log_calls c0 (cc_log c)"
    by (rule lawful_log) (use facts(2) in auto)
  with lawful_inv [OF assms] facts show ?thesis by (auto simp: conc_inv_def conc_core_def logged_def)
qed

lemma concurrent_transfers_serializable_witness:
  "\<exists>c y. (conc_step counting_server)\<^sup>*\<^sup>* crossing c \<and> (0, Inr y) \<in> set (cc_log c) \<and>
    serial_transfers sample_refuse (log_calls crossing (cc_log c)) sample_db = (map snd (cc_log c), cc_db c)"
proof -
  obtain c y where "(conc_step counting_server)\<^sup>*\<^sup>* crossing c" "(0, Inr y) \<in> set (cc_log c)" by (rule sample_moment)
  with concurrent_transfers_serializable [OF counting_server_lawful beside_start sample_valid beside_ids]
  show ?thesis by blast
qed

text \<open>The stored bank under interleaving: at every moment the stored accounts and transfers are those of the
  transactional bank after the committed transfers, in commit order, and every stored row is the row of a valid
  account or transaction: no balance is negative and no update is lost, even with the Redis locks gone.\<close>

theorem concurrent_transfers_refine_bank:
  assumes "server_laws refuse V" and "conc_start V d c0" and "sql_ok d" and "fresh_ids d c0"
    and "(conc_step V)\<^sup>*\<^sup>* c0 c"
  shows "abs_sql_bank (cc_db c) {} = bank_after (committed_cmds c0 (cc_log c)) (abs_sql_bank d {}) \<and> sql_ok (cc_db c)"
  using lawful_bank [OF assms] by simp

lemma concurrent_transfers_refine_bank_witness:
  "\<exists>c y. (conc_step counting_server)\<^sup>*\<^sup>* crossing c \<and> (0, Inr y) \<in> set (cc_log c) \<and> sql_ok (cc_db c)"
proof -
  obtain c y where "(conc_step counting_server)\<^sup>*\<^sup>* crossing c" "(0, Inr y) \<in> set (cc_log c)" by (rule sample_moment)
  with concurrent_transfers_refine_bank [OF counting_server_lawful beside_start sample_sql_ok beside_ids]
  show ?thesis by blast
qed

text \<open>Interleaved transfers neither make nor lose money: at every moment the stored balances of any set of
  accounts that contains those of the transfers add up to what they were at the start.\<close>

theorem concurrent_money_conserved:
  assumes "server_laws refuse V" and "conc_start V d c0" and "sql_ok d" and "fresh_ids d c0"
    and "(conc_step V)\<^sup>*\<^sup>* c0 c" and "finite A" and "\<forall>p \<in> set (cc_xfers c0). xf_accounts p \<subseteq> A"
  shows "bank_total A (abs_sql_bank (cc_db c) {}) = bank_total A (abs_sql_bank d {})"
proof -
  have "db_valid d" using assms(3) by (simp add: sql_ok_def)
  note facts = lawful_facts [OF assms(1,2) this assms(4,5)]
  have "\<forall>cmd \<in> set (committed_cmds c0 (cc_log c)). tc_from_account_id cmd \<in> A \<and> tc_to_account_id cmd \<in> A"
    using facts(2) assms(7) by (fastforce simp: committed_cmds_def)
  with bank_after_total [OF assms(6)] lawful_bank [OF assms(1-5)] show ?thesis by simp
qed

lemma concurrent_money_conserved_witness:
  "\<exists>c y. (conc_step counting_server)\<^sup>*\<^sup>* crossing c \<and> (0, Inr y) \<in> set (cc_log c) \<and>
    bank_total {uid 1, uid 2} (abs_sql_bank (cc_db c) {}) = 600"
proof -
  obtain c y where c: "(conc_step counting_server)\<^sup>*\<^sup>* crossing c" "(0, Inr y) \<in> set (cc_log c)" by (rule sample_moment)
  have "\<forall>p \<in> set (cc_xfers crossing). xf_accounts p \<subseteq> {uid 1, uid 2}" by simp
  from concurrent_money_conserved [OF counting_server_lawful beside_start sample_sql_ok beside_ids c(1) _ this]
  have "bank_total {uid 1, uid 2} (abs_sql_bank (cc_db c) {}) = bank_total {uid 1, uid 2} (abs_sql_bank sample_db {})" by simp
  also have "\<dots> = 600"
    by (simp add: bank_total_def abs_sql_bank_def uid_inject sample_row_domain abs_account_def)
  finally show ?thesis using c by blast
qed

text \<open>However often a transfer is submitted at the same time, it is executed at most once: no two transfers
  with one idempotency key have their commits accepted, and every committed key leads to a stored transfer,
  although each of them may have found the key unknown and the Redis locks may have kept nobody out.\<close>

theorem concurrent_key_once:
  assumes "server_laws refuse V" and "conc_start V d c0" and "sql_ok d" and "fresh_ids d c0"
    and "(conc_step V)\<^sup>*\<^sup>* c0 c"
  shows "distinct (map tc_idempotency_key (committed_cmds c0 (cc_log c))) \<and>
    (\<forall>cmd \<in> set (committed_cmds c0 (cc_log c)). find_tx_by_key (tc_idempotency_key cmd) (cc_db c) \<noteq> None)"
  using lawful_bank(3) [OF assms] stored_key [OF lawful_bank(1) [OF assms]] by (simp add: keys_stored_def)

lemma concurrent_key_once_witness:
  "\<exists>c y. (conc_step counting_server)\<^sup>*\<^sup>* retried c \<and> (0, Inr y) \<in> set (cc_log c) \<and> (\<forall>x. (1, x) \<notin> set (cc_log c))"
proof -
  obtain c y where c: "(conc_step counting_server)\<^sup>*\<^sup>* retried c" "(0, Inr y) \<in> set (cc_log c)" by (rule sample_moment)
  have keys: "distinct (map tc_idempotency_key (committed_cmds retried (cc_log c)))"
    using concurrent_key_once [OF counting_server_lawful beside_start sample_sql_ok beside_ids c(1)] by blast
  have "(1, x) \<notin> set (cc_log c)" for x
  proof
    assume "(1, x) \<in> set (cc_log c)"
    with c(2) obtain m n where mn: "m < length (cc_log c)" "n < length (cc_log c)" "cc_log c ! m = (0, Inr y)" "cc_log c ! n = (1, x)"
      by (auto simp: in_set_conv_nth)
    then have "map tc_idempotency_key (committed_cmds retried (cc_log c)) ! m =
        map tc_idempotency_key (committed_cmds retried (cc_log c)) ! n"
      by (simp add: committed_cmds_def)
    with nth_eq_iff_index_eq [OF keys, of m n] mn(1,2) have "m = n" by (simp only: length_map committed_cmds_def)
    with mn(3,4) show False by simp
  qed
  with c show ?thesis by blast
qed

text \<open>C22: Every run of transfers over one database ends, and ends with answers: among \<open>n\<close> transfers there are at
  most \<open>10 n\<close> steps, whatever the order. At every moment a transfer that cannot go on waits for a row that another
  transfer holds which has not been answered, never for one that has: commit, rollback and close give the rows back.
  When the directions of the transfers (the pairs of sender and receiver) form no cycle, a state in which nobody can go
  on has every transfer answered, with no help from cancellations: crossing directions are the only cause of a deadlock.
  When they do form one, the server's cancellation of a waiting statement goes on, until every transfer has been
  answered.\<close>

theorem concurrent_transfers_end:
  assumes "server_laws refuse V" and "conc_start V d c0" and "db_valid d" and "fresh_ids d c0"
    and "(conc_step V ^^ n) c0 c"
  shows "n \<le> 10 * length (cc_xfers c0) \<and>
    (\<forall>i < length (cc_xfers c). \<not> finished_phase (xf_phase (cc_xfers c ! i)) \<and> \<not> can_turn i c \<longrightarrow>
      (\<exists>j < length (cc_xfers c). \<exists>row. j \<noteq> i \<and> xf_wanted (cc_xfers c ! i) = Some row \<and>
        row \<in> xf_rows (cc_xfers c ! j) \<and> \<not> finished_phase (xf_phase (cc_xfers c ! j)))) \<and>
    (acyclic (directions c0) \<and> (\<forall>i. \<not> can_turn i c) \<longrightarrow> (\<forall>p \<in> set (cc_xfers c). finished_phase (xf_phase p))) \<and>
    ((\<nexists>c'. conc_step V c c') \<longrightarrow> (\<forall>p \<in> set (cc_xfers c). finished_phase (xf_phase p)))"
proof (intro conjI allI impI ballI)
  have "sum_list (map (\<lambda>p. phase_rank (xf_phase p)) ps) = 10 * length ps" if "\<forall>p \<in> set ps. xf_phase p = AtCheck" for ps :: "'a xfer list"
    using that by (induction ps) auto
  then have "conc_rank c0 = 10 * length (cc_xfers c0)"
    using assms(2) by (simp add: conc_start_def conc_rank_def)
  with conc_steps_bounded [OF assms(5)] show "n \<le> 10 * length (cc_xfers c0)" by simp
  have "(conc_step V)\<^sup>*\<^sup>* c0 c" using assms(5) by (rule relpowp_imp_rtranclp)
  from lawful_inv [OF assms(1-4) this] have core: "conc_core refuse (abs_conc V c0) (abs_conc V c)" by (rule conc_inv_core)
  show "\<exists>j < length (cc_xfers c). \<exists>row. j \<noteq> i \<and> xf_wanted (cc_xfers c ! i) = Some row \<and>
      row \<in> xf_rows (cc_xfers c ! j) \<and> \<not> finished_phase (xf_phase (cc_xfers c ! j))"
    if i: "i < length (cc_xfers c)" and "\<not> finished_phase (xf_phase (cc_xfers c ! i)) \<and> \<not> can_turn i c" for i
  proof -
    from that have "blocked i (abs_conc V c)" by (auto simp: can_turn_def abs_blocked)
    moreover have "i < length (cc_xfers (abs_conc V c))" using i by simp
    ultimately show ?thesis
    proof (rule blocked_holder [OF core])
      fix j row
      assume "j < length (cc_xfers (abs_conc V c))" "j \<noteq> i" "xf_wanted (cc_xfers (abs_conc V c) ! i) = Some row"
        "row \<in> xf_rows (cc_xfers (abs_conc V c) ! j)" "\<not> finished_phase (xf_phase (cc_xfers (abs_conc V c) ! j))"
      with i show ?thesis by auto
    qed
  qed
  show "finished_phase (xf_phase p)" if "\<nexists>c'. conc_step V c c'" and "p \<in> set (cc_xfers c)" for p
    using that by (rule stuck_finished)
  show "finished_phase (xf_phase p)"
    if rest: "acyclic (directions c0) \<and> (\<forall>i. \<not> can_turn i c)" and p: "p \<in> set (cc_xfers c)" for p
  proof -
    have "directions (abs_conc V c0) = directions c0" by (simp add: directions_def comp_def)
    with no_cycle_finished [OF core, of "abs_xfer V p"] rest p show ?thesis by (simp add: abs_can_turn)
  qed
qed

text \<open>The same order twice: without any cancellation the run ends with both answered.\<close>

lemma concurrent_transfers_end_witness:
  "\<exists>is c. conc_run counting_server is retried = Some c \<and> is \<noteq> [] \<and> (\<forall>p \<in> set (cc_xfers c). finished_phase (xf_phase p))"
proof -
  obtain "is" c where r: "conc_run counting_server is retried = Some c" "\<forall>i. \<not> can_turn i c" using run_to_rest by blast
  obtain n where n: "(conc_step counting_server ^^ n) retried c"
    using conc_run_sound [OF r(1)] by (auto simp: rtranclp_power)
  have "directions retried = {(uid 1, uid 2)}" by (simp add: directions_def uid_inject)
  then have "acyclic (directions retried)" by (simp add: acyclic_def trancl_insert uid_inject)
  with concurrent_transfers_end [OF counting_server_lawful beside_start sample_valid beside_ids n] r(2)
  have "\<forall>p \<in> set (cc_xfers c). finished_phase (xf_phase p)" by blast
  moreover have "can_turn 0 retried" by (simp add: can_turn_def blocked_def xf_wanted_def)
  then have "is \<noteq> []" using r by auto
  ultimately show ?thesis using r(1) by blast
qed

text \<open>Transfers on different accounts never wait for each other: while every other transfer inside its
  transaction has other accounts, which the Redis locks see to as long as they hold, the next step of a
  transfer that is not finished is possible at once.\<close>

theorem disjoint_transfers_never_wait:
  assumes "server_laws refuse V" and "conc_start V d c0" and "db_valid d" and "fresh_ids d c0"
    and "(conc_step V)\<^sup>*\<^sup>* c0 c" and "i < length (cc_xfers c)" and "\<not> finished_phase (xf_phase (cc_xfers c ! i))"
    and "\<forall>j < length (cc_xfers c). j \<noteq> i \<longrightarrow> in_transaction (xf_phase (cc_xfers c ! j)) \<longrightarrow>
      xf_accounts (cc_xfers c ! i) \<inter> xf_accounts (cc_xfers c ! j) = {}"
  shows "can_turn i c"
proof -
  have "\<not> blocked i (abs_conc V c)"
    using blocked_on [OF lawful_inv [OF assms(1-5)], of i] assms(6,8) by fastforce
  then show ?thesis using assms(6,7) by (simp add: can_turn_def abs_blocked)
qed

lemma disjoint_transfers_never_wait_witness: "can_turn 1 (conc_turn counting_server 0 (beside (sample_order 3 3 50 ''b'')))"
proof -
  let ?start = "beside (sample_order 3 3 50 ''b'')"
  let ?c = "conc_turn counting_server 0 ?start"
  have t: "can_turn 0 ?start" by (simp add: can_turn_def blocked_def xf_wanted_def)
  have "cc_xfers ?c = [xfer_step counting_server sample_db (sample_xfer 0 (sample_order 1 2 200 ''a'')),
      sample_xfer 5 (sample_order 3 3 50 ''b'')]"
    by (simp add: conc_turn_def xfer_commit_def)
  moreover have "(conc_step counting_server)\<^sup>*\<^sup>* ?start ?c"
    by (rule r_into_rtranclp) (rule conc_step.turn [OF t])
  ultimately show ?thesis
    by (intro disjoint_transfers_never_wait [OF counting_server_lawful beside_start sample_valid beside_ids])
      (simp_all add: uid_inject less_Suc_eq)
qed

text \<open>C23: With their Redis locks lost two transfers in opposite directions can deadlock in the database, because
  the rows are locked in the order sender, receiver and not in a fixed one: there is an interleaving after which
  neither can go on, and every step from there cancels one of them.\<close>

theorem crossing_transfers_deadlock:
  assumes laws: "server_laws refuse V" and start: "conc_start V d c0" and ok: "sql_ok d" and two: "cc_xfers c0 = [p, q]"
    and cross: "xc_to (xf_call p) = xc_from (xf_call q)" "xc_to (xf_call q) = xc_from (xf_call p)"
    and ne: "xc_from (xf_call p) \<noteq> xc_from (xf_call q)"
    and ready: "\<forall>r \<in> {p, q}. find_tx_by_key (xc_key (xf_call r)) d = None \<and>
      find_account (xc_from (xf_call r)) d \<noteq> None \<and> \<not> isl (transfer_amount (xc_cmd (xf_call r)))"
  shows "\<exists>c. conc_run V [0, 0, 0, 1, 1, 1] c0 = Some c \<and> cc_db c = d \<and> (\<forall>i. \<not> can_turn i c) \<and>
    (\<forall>c'. conc_step V c c' \<longrightarrow> (\<exists>i e. c' = conc_cancel i e c))"
proof -
  have load: "ready_to_load d (abs_xfer V r)" if "r \<in> {p, q}" for r
  proof -
    have r: "xf_phase r = AtCheck" "xf_rows r = {}" "ss_stored (sv_view V (sq_db (xf_uow r))) = d"
      using start two that by (auto simp: conc_start_def)
    note hyps = bspec [OF ready that]
    obtain row where row: "find_account (xc_from (xf_call r)) d = Some row" using hyps by auto
    obtain a where "account_to_domain row = Inr a" using sql_ok_found(1) [OF ok row] row_ok_cases by blast
    moreover obtain m where "transfer_amount (xc_cmd (xf_call r)) = Inr m"
      using hyps by (cases "transfer_amount (xc_cmd (xf_call r))") auto
    ultimately show ?thesis using r row hyps by (auto simp: ready_to_load_def abs_session_uow_def)
  qed
  have "cc_db (abs_conc V c0) = d" using start by (simp add: conc_start_def)
  from crossing_stuck [OF _ this load load, of p q refuse] two cross ne
  obtain c1 where c1: "conc_run (reference_server refuse) [0, 0, 0, 1, 1, 1] (abs_conc V c0) = Some c1" "cc_db c1 = d"
    "length (cc_xfers c1) = 2" "blocked 0 c1" "blocked 1 c1" by auto
  have "map_option (abs_conc V) (conc_run V [0, 0, 0, 1, 1, 1] c0) = Some c1"
    using abs_conc_run [OF laws, of "[0, 0, 0, 1, 1, 1]" c0] c1(1) by (simp only:)
  then obtain c where c: "conc_run V [0, 0, 0, 1, 1, 1] c0 = Some c" "c1 = abs_conc V c"
    by (auto simp del: conc_run.simps)
  have "blocked i c" if "i < length (cc_xfers c)" for i
    using that c1(3-5) abs_blocked [of i c V] unfolding c(2) by (auto simp: less_Suc_eq numeral_2_eq_2)
  then have stuck: "\<not> can_turn i c" for i by (auto simp: can_turn_def)
  have "\<exists>i e. c' = conc_cancel i e c" if "conc_step V c c'" for c' using that stuck by cases auto
  with c c1(2) stuck show ?thesis by auto
qed

lemma crossing_transfers_deadlock_witness:
  "\<exists>c. conc_run counting_server [0, 0, 0, 1, 1, 1] crossing = Some c \<and> (\<forall>i. \<not> can_turn i c)"
proof -
  have two: "cc_xfers crossing = [sample_xfer 0 (sample_order 1 2 200 ''a''), sample_xfer 5 (sample_order 2 1 50 ''b'')]" by simp
  note stuck = crossing_transfers_deadlock [OF counting_server_lawful beside_start sample_sql_ok two]
  have "\<exists>c. conc_run counting_server [0, 0, 0, 1, 1, 1] crossing = Some c \<and> cc_db c = sample_db \<and> (\<forall>i. \<not> can_turn i c) \<and>
      (\<forall>c'. conc_step counting_server c c' \<longrightarrow> (\<exists>i e. c' = conc_cancel i e c))"
    by (rule stuck) (simp_all add: sample_amount uid_inject)
  then show ?thesis by blast
qed

text \<open>The phases that are interleaved are the code: run without interference from \<open>__aenter__\<close> on they end,
  within nine steps, with exactly the result and the state of \<open>async with self._uow\<close> around the body of
  \<open>TransferService.initiate\<close>, on every branch and over any unit of work.\<close>

theorem transfer_phases_exact:
  assumes "9 \<le> n"
  shows "run_phases U c n (AtEnter amt, h, u) =
    (case with_uow U (transfer_in_uow U (xc_from c) (xc_to c) amt (xc_key c) (xc_reads c)) (h, u) of
       (x, h', u') \<Rightarrow> (AtDone x, h', u'))"
  using phases_exact [OF assms, of U c amt "(h, u)"] by (simp split: prod.splits)

lemma transfer_phases_exact_witness:
  "\<exists>x s. run_phases counting_uow \<lparr>xc_cmd = sample_order 1 2 200 ''a'', xc_reads = reads\<rparr> 9 (AtEnter (eur 200), w_heap counting_world, w_uow counting_world)
     = (AtDone x, s)"
  using transfer_phases_exact [of 9 counting_uow "\<lparr>xc_cmd = sample_order 1 2 200 ''a'', xc_reads = reads\<rparr>" "eur 200"
    "w_heap counting_world" "w_uow counting_world"] by (simp split: prod.splits)

end
