(* ===== verification/Bank_System.thy ===== *)
theory Bank_System
  imports Concurrent_Bank Api
begin

text \<open>
  The whole system over one database: any number of transfers in any interleaving, while accounts are opened
  and accounts and transfers are read in between.

  \<^item> \<open>AccountService.create\<close>, \<open>AccountService.get\<close> and \<open>TransferService.get\<close> send at most one statement before
    they commit or end, which selects a row by its id; so each is one step of the system, taken at any moment in a
    session of its own. A new account has an id that is not stored yet.
  \<^item> \<open>conc_core_admit\<close>: no opening moves a transfer that is under way; \<open>system_reachable\<close>: at every moment the
    stored rows and all answers are those of the history, run one entry after the other.
  \<^item> \<open>system_bank\<close>: the stored rows are the abstract bank after the history.
\<close>

section \<open>Requests besides transfers\<close>

datatype service_request = OpenAccount create_account_command readings | ReadAccount uuid | ReadTransfer uuid

datatype service_reply = AccountReply account_dto | TransferReply transaction_dto

fun run_request ::
  "'u uow_port \<Rightarrow> service_request \<Rightarrow> (('u, 'l, 'b) world, exn, service_reply) prog" where
  "run_request U (OpenAccount cmd r) = bindP (account_service_create U cmd r) (\<lambda>a. returnP (AccountReply a))"
| "run_request U (ReadAccount i) = bindP (account_service_get U i) (\<lambda>a. returnP (AccountReply a))"
| "run_request U (ReadTransfer i) = bindP (transfer_get U i) (\<lambda>t. returnP (TransferReply t))"

definition request_world :: "heap \<Rightarrow> 'u \<Rightarrow> ('u, string set, domain_event list) world" where
  "request_world h u = \<lparr>w_heap = h, w_uow = u, w_lock = {}, w_bus = []\<rparr>"

text \<open>The answer of a request and the rows that are stored after it.\<close>

definition answer_request ::
  "'d server \<Rightarrow> service_request \<Rightarrow> heap \<Rightarrow> 'd sql_uow \<Rightarrow> (exn + service_reply) \<times> db" where
  "answer_request V q h u = (case run_request (server_uow V) q (request_world h u) of
     (x, w) \<Rightarrow> (x, ss_stored (sv_view V (sq_db (w_uow w)))))"

fun fresh_request :: "service_request \<Rightarrow> db \<Rightarrow> bool" where
  "fresh_request (OpenAccount cmd r) d = (find_account (rd_uuid r 0) d = None)"
| "fresh_request q d = True"

section \<open>The system\<close>

text \<open>What has been done to the database or answered from it, in this order.\<close>

datatype entry = Transferred nat transfer_result | Requested service_request heap "exn + service_reply"

record 'd bank_system =
  bs_conc :: "'d conc"
  bs_history :: "entry list"

definition admit :: "'d server \<Rightarrow> db \<Rightarrow> 'd conc \<Rightarrow> 'd conc" where
  "admit V d c = (if d = cc_db c then c else c\<lparr>cc_db := d, cc_xfers := map (note_xfer V d) (cc_xfers c)\<rparr>)"

definition new_entries :: "'d conc \<Rightarrow> 'd conc \<Rightarrow> entry list" where
  "new_entries c c' = map (\<lambda>(i, x). Transferred i x) (drop (length (cc_log c)) (cc_log c'))"

inductive system_step :: "'d server \<Rightarrow> 'd bank_system \<Rightarrow> 'd bank_system \<Rightarrow> bool" for V where
  transfers: "conc_step V c c' \<Longrightarrow>
    system_step V \<lparr>bs_conc = c, bs_history = es\<rparr> \<lparr>bs_conc = c', bs_history = es @ new_entries c c'\<rparr>"
| request: "ss_stored (sv_view V (sq_db u)) = cc_db c \<Longrightarrow> fresh_request q (cc_db c) \<Longrightarrow>
    answer_request V q h u = (x, d) \<Longrightarrow>
    system_step V \<lparr>bs_conc = c, bs_history = es\<rparr> \<lparr>bs_conc = admit V d c, bs_history = es @ [Requested q h x]\<rparr>"

abbreviation system_start :: "'d conc \<Rightarrow> 'd bank_system" where
  "system_start c \<equiv> \<lparr>bs_conc = c, bs_history = []\<rparr>"

text \<open>The history once more, one entry after the other, each in one piece.\<close>

definition serial_request :: "(db \<Rightarrow> exn) \<Rightarrow> service_request \<times> heap \<Rightarrow> db \<Rightarrow> (exn + service_reply) \<times> db" where
  "serial_request refuse = (\<lambda>(q, h) d. answer_request (reference_server refuse) q h (sql_start d))"

fun serial_entry :: "(db \<Rightarrow> exn) \<Rightarrow> 'd conc \<Rightarrow> entry \<Rightarrow> db \<Rightarrow> entry \<times> db" where
  "serial_entry refuse c0 (Transferred i x) d =
     apfst (Transferred i) (serial_transfer refuse (xf_call (cc_xfers c0 ! i), xf_heap (cc_xfers c0 ! i)) d)"
| "serial_entry refuse c0 (Requested q h x) d = apfst (Requested q h) (serial_request refuse (q, h) d)"

fun serial_run :: "(db \<Rightarrow> exn) \<Rightarrow> 'd conc \<Rightarrow> entry list \<Rightarrow> db \<Rightarrow> entry list \<times> db" where
  "serial_run refuse c0 [] d = ([], d)"
| "serial_run refuse c0 (e # es) d = (case serial_entry refuse c0 e d of
     (e', d') \<Rightarrow> apfst ((#) e') (serial_run refuse c0 es d'))"

lemma serial_run_snoc:
  assumes "serial_run refuse c0 es d = (es', d')"
  shows "serial_run refuse c0 (es @ [e]) d = (case serial_entry refuse c0 e d' of (e', d'') \<Rightarrow> (es' @ [e'], d''))"
  using assms
proof (induction es arbitrary: d es')
  case (Cons f es)
  obtain f' d1 where f: "serial_entry refuse c0 f d = (f', d1)" by fastforce
  obtain es1 d2 where "serial_run refuse c0 es d1 = (es1, d2)" by fastforce
  with Cons.IH [of d1 es1] Cons.prems f show ?case by (auto split: prod.splits)
qed (auto split: prod.splits)

section \<open>What a request does\<close>

lemma answer_lawful:
  assumes "server_laws refuse V"
  shows "answer_request V q h u = answer_request (reference_server refuse) q h (abs_session_uow (sv_view V) u)"
proof -
  have sim: "uow_simulates (abs_session_uow (sv_view V)) (server_uow V) (server_uow (reference_server refuse))"
    using assms sql_simulates by (auto simp: server_laws_def reference_server_def)
  have "simulates (abs_world (abs_session_uow (sv_view V))) (run_request (server_uow V) q)
      (run_request (server_uow (reference_server refuse)) q)"
    by (cases q) (simp only: run_request.simps, intro simulates_intros account_service_simulates
        transfer_service_simulates sim)+
  from simulatesD [OF this, of "request_world h u"] show ?thesis
    by (auto simp: answer_request_def request_world_def abs_world_def abs_session_uow_def reference_server_def
        split: prod.splits)
qed

text \<open>The session's earlier life does not matter.\<close>

lemma answer_fresh:
  "answer_request (reference_server refuse) q h u = serial_request refuse (q, h) (ss_stored (sq_db u))"
proof (cases q)
  case (OpenAccount cmd r)
  then show ?thesis
    by (auto simp: serial_request_def answer_request_def request_world_def reference_server_def account_service_create_def
        bindP_apply liftP_apply thenP_apply in_uow_def object_defs with_uow_reference sql_start_def getP_apply returnP_apply
        split: sum.splits prod.splits)
qed (auto simp: serial_request_def answer_request_def request_world_def reference_server_def account_service_get_def
    transfer_get_def bindP_apply in_uow_def with_uow_reference sql_start_def returnP_apply split: sum.splits prod.splits)

text \<open>The account that an answered request has opened, and with what.\<close>

definition opening_balance :: "create_account_command \<Rightarrow> exn + money" where
  "opening_balance cmd = bindR (parse_currency (cac_currency cmd)) (\<lambda>cur. money_new (cac_initial_balance cmd) cur)"

fun opens :: "entry \<Rightarrow> (account_id \<times> money) option" where
  "opens (Requested (OpenAccount cmd r) h (Inr y)) = (case opening_balance cmd of
     Inl e \<Rightarrow> None | Inr m \<Rightarrow> Some (rd_uuid r 0, m))"
| "opens e = None"

lemma request_effect:
  assumes "serial_request refuse (q, h) d = (x, d')" and "fresh_request q d"
  shows "(opens (Requested q h x) = None \<and> d' = d) \<or>
    (\<exists>a. opens (Requested q h x) = Some (entity_id a, balance a) \<and> account_ok a \<and> account_status a = ACTIVE \<and>
       find_account (entity_id a) d = None \<and> d' = sql_opened a d \<and> db_valid d')"
proof -
  let ?w = "request_world h (sql_start d)" and ?U = "sqlalchemy_uow (reference_session refuse)"
  have start: "sql_stored ?w = d" by (simp add: sql_stored_def request_world_def sql_start_def)
  note run = assms(1) [unfolded serial_request_def answer_request_def, simplified reference_server_def, simplified]
  show ?thesis
  proof (cases q)
    case (OpenAccount cmd r)
    obtain y v where made: "account_service_create ?U cmd r ?w = (y, v)" by fastforce
    have new: "find_account (rd_uuid r 0) (sql_stored ?w) = None" using assms(2) OpenAccount start by simp
    from sql_account_create_runs [OF made new] show ?thesis
    proof (elim disjE exE conjE)
      fix e
      assume "y = Inl e" "sql_stored v = sql_stored ?w"
      with run made OpenAccount start show ?thesis by (auto simp: bindP_apply sql_stored_def)
    next
      fix a m
      assume a: "y = Inr (account_dto_of a)" "account_ok a" "entity_id a = rd_uuid r 0" "account_status a = ACTIVE"
        "parse_currency (cac_currency cmd) = Inr (money_currency m)" "balance a = m"
        "money_new (cac_initial_balance cmd) (money_currency m) = Inr m"
        "sql_stored v = sql_opened a (sql_stored ?w)" "db_valid (sql_opened a (sql_stored ?w))"
      with run made OpenAccount start have "opens (Requested q h x) = Some (entity_id a, balance a)" "d' = sql_opened a d"
        by (auto simp: bindP_apply returnP_apply sql_stored_def opening_balance_def)
      with a new start show ?thesis by (intro disjI2 exI [of _ a]) simp
    qed
  next
    case (ReadAccount i)
    obtain y v where got: "account_service_get ?U i ?w = (y, v)" by fastforce
    with sql_account_get [of refuse i ?w] run ReadAccount start show ?thesis
      by (auto simp: bindP_apply returnP_apply sql_stored_def split: sum.splits)
  next
    case (ReadTransfer i)
    obtain y v where got: "transfer_get ?U i ?w = (y, v)" by fastforce
    with sql_transfer_get [of refuse i ?w] run ReadTransfer start show ?thesis
      by (auto simp: bindP_apply returnP_apply sql_stored_def split: sum.splits)
  qed
qed

section \<open>Transfers under way while others open accounts\<close>

lemma opened_db:
  assumes "db_valid d"
  shows "db_txs (sql_opened a d) = db_txs d"
    and "find_account i (sql_opened a d) = (case find_account i d of
      None \<Rightarrow> if i = entity_id a then Some (column_account (account_to_new_orm a)) else None | Some r \<Rightarrow> Some r)"
proof -
  have "map column_account (db_accounts d) = db_accounts d"
    using assms by (auto simp: db_valid_def list_all_iff fits_column intro!: map_idI)
  then have acc: "db_accounts (sql_opened a d) = db_accounts d @ [column_account (account_to_new_orm a)]"
    by (simp add: sql_opened_def db_columns_def)
  show "db_txs (sql_opened a d) = db_txs d"
    using valid_columns(2) [OF assms] by (simp add: sql_opened_def db_columns_def)
  have "ao_id (column_account (account_to_new_orm a)) = entity_id a"
    by (simp add: column_account_def account_to_new_orm_def)
  with acc show "find_account i (sql_opened a d) = (case find_account i d of
      None \<Rightarrow> if i = entity_id a then Some (column_account (account_to_new_orm a)) else None | Some r \<Rightarrow> Some r)"
    by (auto simp: find_account_def find_append split: option.splits)
qed

text \<open>The rows a transfer holds exist, so a row that is new is none of them.\<close>

lemma conc_core_admit:
  assumes inv: "conc_core refuse c0 c" and valid: "db_valid d'" and txs: "\<And>i. find_tx i d' = find_tx i (cc_db c)"
    and kept: "\<And>i r. find_account i (cc_db c) = Some r \<Longrightarrow> find_account i d' = Some r"
  shows "conc_core refuse c0 (admit (reference_server refuse) d' c)"
proof (cases "d' = cc_db c")
  case True
  with inv show ?thesis by (simp add: admit_def)
next
  case False
  let ?V = "reference_server refuse"
  have seat: "seat refuse d' (cc_log c) (xf_heap (cc_xfers c0 ! j)) j (note_xfer ?V d' (cc_xfers c ! j))"
    if j: "j < length (cc_xfers c0)" for j
  proof -
    let ?q = "cc_xfers c ! j"
    note sj = conc_coreD(3) [OF inv j]
    have pl: "place refuse (cc_db c) (xf_heap (cc_xfers c0 ! j)) ?q" using sj by (simp add: seat_def)
    have "passes (xf_call ?q) (xf_rows ?q) (cc_db c) d'" if b: "in_body (xf_phase ?q)"
    proof -
      note new = seat_body(2) [OF sj b]
      have rows: "xf_rows ?q = held_rows (xf_call ?q) (xf_phase ?q)"
        using pl b by (simp add: place_def working_place_def)
      have "find_account i d' = find_account i (cc_db c)" if "i \<in> xf_rows ?q" for i
        using held_rows_found [OF place_form [OF pl b new], of i] kept that rows by auto
      with new txs valid show ?thesis by (simp add: passes_def db_valid_def)
    qed
    from place_note [OF pl seat_body(2) [OF sj] this] sj txs show ?thesis
      by (auto simp: seat_def logged_def note_xfer_def)
  qed
  have "xf_call \<circ> note_xfer ?V d' = xf_call" by (auto simp: note_xfer_def)
  moreover have "disjoint_rows (map (note_xfer ?V d') (cc_xfers c))"
    using inv by (simp add: conc_core_def disjoint_rows_def note_xfer_def)
  ultimately show ?thesis
    using inv valid seat False conc_core_length [OF inv] by (simp add: conc_core_def admit_def)
qed

lemma conc_core_request:
  assumes "conc_core refuse c0 c" and "serial_request refuse (q, h) (cc_db c) = (x, d')" and "fresh_request q (cc_db c)"
  shows "conc_core refuse c0 (admit (reference_server refuse) d' c)"
proof -
  have valid: "db_valid (cc_db c)" using assms(1) by (simp add: conc_core_def)
  from request_effect [OF assms(2,3)] show ?thesis
  proof (elim disjE exE conjE)
    assume "d' = cc_db c"
    with assms(1) show ?thesis by (simp add: admit_def)
  next
    fix a
    assume "find_account (entity_id a) (cc_db c) = None" "d' = sql_opened a (cc_db c)" "db_valid d'"
    with opened_db [OF valid] show ?thesis
      by (intro conc_core_admit [OF assms(1)]) (auto simp: find_tx_def)
  qed
qed

section \<open>Every moment of the system is a serial one\<close>

definition entry_log :: "entry list \<Rightarrow> (nat \<times> transfer_result) list" where
  "entry_log es = concat (map (\<lambda>e. case e of Transferred i x \<Rightarrow> [(i, x)] | Requested q h x \<Rightarrow> []) es)"

lemma entry_log_simps [simp]:
  "entry_log [] = []" "entry_log (es @ fs) = entry_log es @ entry_log fs"
  "entry_log [Requested q h x] = []" "entry_log [Transferred i y] = [(i, y)]"
  by (simp_all add: entry_log_def)

definition system_inv :: "(db \<Rightarrow> exn) \<Rightarrow> db \<Rightarrow> session conc \<Rightarrow> session bank_system \<Rightarrow> bool" where
  "system_inv refuse d c0 s \<longleftrightarrow> conc_core refuse c0 (bs_conc s) \<and> entry_log (bs_history s) = cc_log (bs_conc s) \<and>
     serial_run refuse c0 (bs_history s) d = (bs_history s, cc_db (bs_conc s))"

lemma new_entries_same [simp]: "cc_log c' = cc_log c \<Longrightarrow> new_entries c c' = []"
  by (simp add: new_entries_def)

text \<open>A step of a transfer either logs nothing and stores nothing, or commits.\<close>

lemma conc_step_cases:
  assumes step: "conc_step (reference_server refuse) c c'" and core: "conc_core refuse c0 c"
    and ids: "distinct (map (\<lambda>p. xc_tx_id (xf_call p)) (cc_xfers c0))"
  obtains (quiet) "conc_core refuse c0 c'" and "cc_db c' = cc_db c" and "cc_log c' = cc_log c"
  | (commit) i x where "conc_core refuse c0 c'" and "can_turn i c" and "cc_log c' = cc_log c @ [(i, x)]"
      and "xfer_commit (reference_server refuse) (cc_xfers c ! i) = Some (x, cc_db c')"
      and "serial_transfer refuse (xf_call (cc_xfers c0 ! i), xf_heap (cc_xfers c0 ! i)) (cc_db c) = (x, cc_db c')"
  using step
proof cases
  case (turn i)
  show thesis
  proof (cases "xfer_commit (reference_server refuse) (cc_xfers c ! i)")
    case None
    with turn conc_core_turn_local [OF core turn(2)] show thesis
      by (intro quiet) (simp_all add: conc_turn_def Let_def)
  next
    case (Some r)
    obtain x d' where r: "r = (x, d')" by (cases r)
    have c': "cc_db c' = d'" "cc_log c' = cc_log c @ [(i, x)]" using turn Some r by (simp_all add: conc_turn_def Let_def)
    from conc_core_turn_commit [OF core turn(2) ids Some [unfolded r]] turn c' Some r show thesis
      by (intro commit [of i x]) simp_all
  qed
next
  case (cancelled i e)
  with conc_core_cancel [OF core] show thesis by (intro quiet) (simp_all add: conc_cancel_def)
qed

text \<open>A step of the system adds at most one entry to its history.\<close>

lemma system_step_cases:
  assumes "system_step (reference_server refuse) s s'" and core: "conc_core refuse c0 (bs_conc s)"
    and ids: "distinct (map (\<lambda>p. xc_tx_id (xf_call p)) (cc_xfers c0))"
  obtains (quiet) "conc_core refuse c0 (bs_conc s')" and "cc_db (bs_conc s') = cc_db (bs_conc s)"
      and "cc_log (bs_conc s') = cc_log (bs_conc s)" and "bs_history s' = bs_history s"
  | (commit) i x where "conc_core refuse c0 (bs_conc s')" and "can_turn i (bs_conc s)"
      and "cc_log (bs_conc s') = cc_log (bs_conc s) @ [(i, x)]" and "bs_history s' = bs_history s @ [Transferred i x]"
      and "xfer_commit (reference_server refuse) (cc_xfers (bs_conc s) ! i) = Some (x, cc_db (bs_conc s'))"
      and "serial_transfer refuse (xf_call (cc_xfers c0 ! i), xf_heap (cc_xfers c0 ! i)) (cc_db (bs_conc s)) = (x, cc_db (bs_conc s'))"
  | (answered) q h x where "conc_core refuse c0 (bs_conc s')" and "fresh_request q (cc_db (bs_conc s))"
      and "cc_log (bs_conc s') = cc_log (bs_conc s)" and "bs_history s' = bs_history s @ [Requested q h x]"
      and "serial_request refuse (q, h) (cc_db (bs_conc s)) = (x, cc_db (bs_conc s'))"
  using assms(1)
proof cases
  case (transfers c c' es)
  from transfers(3) core [unfolded transfers(1), simplified] ids show thesis
  proof (cases rule: conc_step_cases)
    case quiet
    with transfers that(1) show thesis by simp
  next
    case (commit i x)
    then have "new_entries c c' = [Transferred i x]" by (simp add: new_entries_def)
    with transfers commit that(2) [of i x] show thesis by simp
  qed
next
  case (request u c q h x d' es)
  have ans: "serial_request refuse (q, h) (cc_db c) = (x, d')"
    using request(3,5) unfolding answer_fresh by (simp add: reference_server_def)
  have "cc_db (admit (reference_server refuse) d' c) = d'" "cc_log (admit (reference_server refuse) d' c) = cc_log c"
    by (simp_all add: admit_def)
  with conc_core_request [OF _ ans request(4), of c0] core request that(3) [of q h x] ans show thesis by simp
qed

theorem system_reachable:
  assumes "(system_step (reference_server refuse))\<^sup>*\<^sup>* (system_start c0) s" and "conc_start (reference_server refuse) d c0"
    and "db_valid d" and "fresh_ids d c0"
  shows "system_inv refuse d c0 s"
  using assms(1)
proof induction
  case base
  have "conc_core refuse c0 c0" using conc_inv_start [OF assms(2-4)] by (rule conc_inv_core)
  with assms(2) show ?case by (simp add: system_inv_def conc_start_def)
next
  case (step s s')
  have ids: "distinct (map (\<lambda>p. xc_tx_id (xf_call p)) (cc_xfers c0))" using assms(4) by (simp add: fresh_ids_def)
  have core: "conc_core refuse c0 (bs_conc s)" and log: "entry_log (bs_history s) = cc_log (bs_conc s)"
    and ser: "serial_run refuse c0 (bs_history s) d = (bs_history s, cc_db (bs_conc s))"
    using step.IH by (simp_all add: system_inv_def)
  from step.hyps(2) core ids show ?case
  proof (cases rule: system_step_cases)
    case quiet
    with log ser show ?thesis by (simp add: system_inv_def)
  next
    case (commit i x)
    with log serial_run_snoc [OF ser, of "Transferred i x"] show ?thesis by (simp add: system_inv_def)
  next
    case (answered q h x)
    with log serial_run_snoc [OF ser, of "Requested q h x"] show ?thesis by (simp add: system_inv_def)
  qed
qed

section \<open>The bank after the history\<close>

definition bank_open :: "account_id \<Rightarrow> money \<Rightarrow> bank \<Rightarrow> bank" where
  "bank_open i m b = bank_set i \<lparr>l_cents = money_cents m, l_currency = money_currency m, l_status = ACTIVE\<rparr> b"

definition bank_entry_step :: "'d conc \<Rightarrow> entry \<Rightarrow> bank \<Rightarrow> bank" where
  "bank_entry_step c0 e b = (case e of
     Transferred i x \<Rightarrow> snd (bank_step (xc_cmd (xf_call (cc_xfers c0 ! i))) b)
   | Requested q h x \<Rightarrow> (case opens e of None \<Rightarrow> b | Some (i, m) \<Rightarrow> bank_open i m b))"

definition bank_history :: "'d conc \<Rightarrow> entry list \<Rightarrow> bank \<Rightarrow> bank" where
  "bank_history c0 es b = fold (bank_entry_step c0) es b"

text \<open>What the openings have added to the balances of the accounts in \<open>A\<close>.\<close>

definition opened_cents :: "account_id set \<Rightarrow> entry list \<Rightarrow> int" where
  "opened_cents A es = sum_list (map (\<lambda>e. case opens e of None \<Rightarrow> 0 | Some (i, m) \<Rightarrow> if i \<in> A then money_cents m else 0) es)"

lemma bank_history_snoc:
  "bank_history c0 (es @ [e]) b = bank_entry_step c0 e (bank_history c0 es b)"
  "opened_cents A (es @ [e]) = opened_cents A es + opened_cents A [e]" "opened_cents A [] = 0" "bank_history c0 [] b = b"
  by (simp_all add: bank_history_def opened_cents_def)

lemma bank_of_opened:
  assumes "db_valid d" and "account_ok a" and "account_status a = ACTIVE" and "find_account (entity_id a) d = None"
  shows "abs_sql_bank (sql_opened a d) {} = bank_open (entity_id a) (balance a) (abs_sql_bank d {})"
proof -
  have "row_ledger (column_account (account_to_new_orm a)) = Some (abs_account a)"
    using stored_account_row(1) [OF assms(2), of "account_to_new_orm a"] by (simp add: account_to_new_orm_def)
  moreover have "find_tx_by_key k (sql_opened a d) = find_tx_by_key k d" for k
    using opened_db(1) [OF assms(1), of a] by (simp add: find_tx_by_key_def)
  ultimately show ?thesis
    using assms opened_db(2) [OF assms(1), of _ a]
    by (auto simp: abs_sql_bank_def bank_open_def bank_set_def fun_eq_iff abs_account_def account_currency_def split: option.splits)
qed

lemma bank_open_total:
  assumes "finite A" and "bk_accounts b i = None"
  shows "bank_total A (bank_open i m b) = bank_total A b + (if i \<in> A then money_cents m else 0)"
  using assms by (simp add: bank_open_def bank_total_def sum.remove [of A i]) (auto intro!: sum.cong)

definition covers :: "account_id set \<Rightarrow> 'd conc \<Rightarrow> bool" where
  "covers A c0 \<longleftrightarrow> finite A \<and> (\<forall>p \<in> set (cc_xfers c0). xf_accounts p \<subseteq> A)"

definition system_bank_inv :: "db \<Rightarrow> session conc \<Rightarrow> session bank_system \<Rightarrow> bool" where
  "system_bank_inv d c0 s \<longleftrightarrow> sql_ok (cc_db (bs_conc s)) \<and>
     abs_sql_bank (cc_db (bs_conc s)) {} = bank_history c0 (bs_history s) (abs_sql_bank d {}) \<and>
     keys_stored (cc_db (bs_conc s)) (committed_cmds c0 (cc_log (bs_conc s))) \<and>
     (\<forall>A. covers A c0 \<longrightarrow>
        bank_total A (bank_history c0 (bs_history s) (abs_sql_bank d {})) = bank_total A (abs_sql_bank d {}) + opened_cents A (bs_history s))"

lemma bank_inv_commit:
  assumes inv: "system_bank_inv d c0 s" and core: "conc_core refuse c0 (bs_conc s)" and turn: "can_turn i (bs_conc s)"
    and log: "cc_log (bs_conc s') = cc_log (bs_conc s) @ [(i, x)]" "bs_history s' = bs_history s @ [Transferred i x]"
    and commit: "xfer_commit (reference_server refuse) (cc_xfers (bs_conc s) ! i) = Some (x, cc_db (bs_conc s'))"
  shows "system_bank_inv d c0 s'"
proof -
  let ?cmd = "xc_cmd (xf_call (cc_xfers c0 ! i))" and ?cmds = "committed_cmds c0 (cc_log (bs_conc s))"
  let ?d = "cc_db (bs_conc s)" and ?d' = "cc_db (bs_conc s')"
  have ok: "sql_ok ?d" and keys: "keys_stored ?d ?cmds" using inv by (simp_all add: system_bank_inv_def)
  note c = committed_turn [OF core turn ok commit]
  have old: "bk_transfers (abs_sql_bank ?d' {}) k \<noteq> None" if "bk_transfers (abs_sql_bank ?d {}) k \<noteq> None" for k
    unfolding c(4) using that by (rule bank_step_keeps)
  have none: "opened_cents A [Transferred i x] = 0" for A by (simp add: opened_cents_def)
  have "bk_transfers (abs_sql_bank ?d' {}) (tc_idempotency_key ?cmd) \<noteq> None"
    "bk_transfers (abs_sql_bank ?d {}) (tc_idempotency_key ?cmd) = None"
    using c(1,2) stored_key [OF ok] stored_key [OF c(3)] by metis+
  with keys old have "keys_stored ?d' (?cmds @ [?cmd])"
    unfolding keys_stored_def by (auto simp: image_iff)
  moreover have "bank_total A (abs_sql_bank ?d' {}) = bank_total A (abs_sql_bank ?d {})" if "covers A c0" for A
  proof -
    have "i < length (cc_xfers c0)" using turn conc_core_length [OF core] by (simp add: can_turn_def)
    then have "cc_xfers c0 ! i \<in> set (cc_xfers c0)" by simp
    with that have "finite A" "tc_from_account_id ?cmd \<in> A" "tc_to_account_id ?cmd \<in> A" by (auto simp: covers_def)
    then show ?thesis unfolding c(4) by (rule bank_step_total)
  qed
  ultimately show ?thesis
    using inv c(3,4) log none
    by (simp add: system_bank_inv_def bank_history_snoc bank_entry_step_def committed_cmds_def)
qed

lemma bank_inv_answer:
  assumes inv: "system_bank_inv d c0 s" and fresh: "fresh_request q (cc_db (bs_conc s))"
    and log: "cc_log (bs_conc s') = cc_log (bs_conc s)" "bs_history s' = bs_history s @ [Requested q h x]"
    and ans: "serial_request refuse (q, h) (cc_db (bs_conc s)) = (x, cc_db (bs_conc s'))"
  shows "system_bank_inv d c0 s'"
proof -
  let ?d = "cc_db (bs_conc s)" and ?d' = "cc_db (bs_conc s')"
  have ok: "sql_ok ?d" using inv by (simp add: system_bank_inv_def)
  then have valid: "db_valid ?d" by (simp add: sql_ok_def)
  from request_effect [OF ans fresh] show ?thesis
  proof (elim disjE exE conjE)
    assume none: "opens (Requested q h x) = None" "?d' = ?d"
    then have "opened_cents A [Requested q h x] = 0" for A by (simp add: opened_cents_def)
    with inv log none show ?thesis
      by (simp add: system_bank_inv_def bank_history_snoc bank_entry_step_def)
  next
    fix a
    assume a: "opens (Requested q h x) = Some (entity_id a, balance a)" "account_ok a" "account_status a = ACTIVE"
      "find_account (entity_id a) ?d = None" "?d' = sql_opened a ?d" "db_valid ?d'"
    note bank = bank_of_opened [OF valid a(2-4)]
    have "bk_transfers (abs_sql_bank ?d' {}) = bk_transfers (abs_sql_bank ?d {})" unfolding a(5) bank by (simp add: bank_open_def)
    then have "keys_stored ?d' cmds = keys_stored ?d cmds" for cmds by (simp add: keys_stored_def)
    moreover have "sql_ok ?d'" using sql_opened_ok [OF ok a(2)] a(5,6) by simp
    moreover have "bk_accounts (abs_sql_bank ?d {}) (entity_id a) = None" using a(4) by (simp add: abs_sql_bank_def)
    moreover have "opened_cents A [Requested q h x] = (if entity_id a \<in> A then money_cents (balance a) else 0)" for A
      using a(1) by (simp add: opened_cents_def)
    moreover have "finite A" if "covers A c0" for A using that by (simp add: covers_def)
    ultimately show ?thesis
      using inv log a(1) bank unfolding system_bank_inv_def a(5)
      by (simp add: bank_history_snoc bank_entry_step_def bank_open_total)
  qed
qed

theorem system_bank:
  assumes "(system_step (reference_server refuse))\<^sup>*\<^sup>* (system_start c0) s" and start: "conc_start (reference_server refuse) d c0"
    and ok: "sql_ok d" and fresh: "fresh_ids d c0"
  shows "system_bank_inv d c0 s"
  using assms(1)
proof induction
  case base
  show ?case using start ok
    by (simp add: system_bank_inv_def conc_start_def committed_cmds_def keys_stored_def bank_history_snoc)
next
  case (step s s')
  have "db_valid d" using ok by (simp add: sql_ok_def)
  from system_reachable [OF step.hyps(1) start this fresh] have core: "conc_core refuse c0 (bs_conc s)"
    by (simp add: system_inv_def)
  have ids: "distinct (map (\<lambda>p. xc_tx_id (xf_call p)) (cc_xfers c0))" using fresh by (simp add: fresh_ids_def)
  from step.hyps(2) core ids show ?case
  proof (cases rule: system_step_cases)
    case quiet
    with step.IH show ?thesis by (simp add: system_bank_inv_def)
  next
    case (commit i x)
    with bank_inv_commit [OF step.IH core] show ?thesis by blast
  next
    case (answered q h x)
    with bank_inv_answer [OF step.IH] show ?thesis by blast
  qed
qed

section \<open>Any lawful server\<close>

definition abs_system :: "'d server \<Rightarrow> 'd bank_system \<Rightarrow> session bank_system" where
  "abs_system V s = \<lparr>bs_conc = abs_conc V (bs_conc s), bs_history = bs_history s\<rparr>"

lemma abs_admit:
  assumes "server_laws refuse V"
  shows "abs_conc V (admit V d c) = admit (reference_server refuse) d (abs_conc V c)"
proof -
  have "abs_xfer V \<circ> note_xfer V d = note_xfer (reference_server refuse) d \<circ> abs_xfer V"
    by (simp add: fun_eq_iff abs_note_xfer [OF assms])
  then show ?thesis by (simp add: admit_def abs_conc_def)
qed

lemma abs_system_step:
  assumes laws: "server_laws refuse V" and "system_step V s s'"
  shows "system_step (reference_server refuse) (abs_system V s) (abs_system V s')"
  using assms(2)
proof cases
  case (transfers c c' es)
  have "new_entries (abs_conc V c) (abs_conc V c') = new_entries c c'" by (simp add: new_entries_def)
  with system_step.transfers [OF abs_conc_step [OF laws transfers(3)], of es] transfers(1,2) show ?thesis
    by (simp add: abs_system_def)
next
  case (request u c q h x d es)
  let ?u = "abs_session_uow (sv_view V) u" and ?R = "reference_server refuse"
  have "ss_stored (sv_view ?R (sq_db ?u)) = cc_db (abs_conc V c)"
    using request(3) by (simp add: reference_server_def abs_session_uow_def)
  moreover have "fresh_request q (cc_db (abs_conc V c))" using request(4) by simp
  moreover have "answer_request ?R q h ?u = (x, d)" using request(5) by (simp add: answer_lawful [OF laws])
  ultimately have "system_step ?R \<lparr>bs_conc = abs_conc V c, bs_history = es\<rparr>
      \<lparr>bs_conc = admit ?R d (abs_conc V c), bs_history = es @ [Requested q h x]\<rparr>"
    by (rule system_step.request)
  then show ?thesis using request(1,2) by (simp add: abs_system_def abs_admit [OF laws])
qed

lemma abs_system_reachable:
  assumes "server_laws refuse V" and "(system_step V)\<^sup>*\<^sup>* (system_start c0) s"
  shows "(system_step (reference_server refuse))\<^sup>*\<^sup>* (system_start (abs_conc V c0)) (abs_system V s)"
  using assms(2)
proof induction
  case base
  show ?case by (simp add: abs_system_def)
next
  case (step s s')
  from step.IH abs_system_step [OF assms(1) step.hyps(2)] show ?case by (rule rtranclp.rtrancl_into_rtrancl)
qed

text \<open>Transfers alone are runs of the system.\<close>

lemma conc_in_system:
  assumes "(conc_step V)\<^sup>*\<^sup>* c c'"
  shows "\<exists>fs. (system_step V)\<^sup>*\<^sup>* \<lparr>bs_conc = c, bs_history = es\<rparr> \<lparr>bs_conc = c', bs_history = es @ fs\<rparr> \<and>
    (\<forall>e \<in> set fs. opens e = None)"
  using assms
proof induction
  case base
  show ?case by (rule exI [of _ "[]"]) simp
next
  case (step c1 c2)
  then obtain fs where fs: "(system_step V)\<^sup>*\<^sup>* \<lparr>bs_conc = c, bs_history = es\<rparr> \<lparr>bs_conc = c1, bs_history = es @ fs\<rparr>"
    "\<forall>e \<in> set fs. opens e = None" by blast
  have "\<forall>e \<in> set (new_entries c1 c2). opens e = None" by (auto simp: new_entries_def)
  with fs(2) rtranclp.rtrancl_into_rtrancl [OF fs(1) system_step.transfers [OF step.hyps(2)]] show ?case
    by (intro exI [of _ "fs @ new_entries c1 c2"]) auto
qed

end
