(* ===== verification/System_Properties.thy ===== *)
theory System_Properties
  imports Concurrent_Properties Bank_System
begin

text \<open>
  The properties of the whole system over one database: transfers in any interleaving while accounts are opened
  and read, for every lawful server, with witnesses in which an account is opened while two transfers wait to begin.
\<close>

section \<open>Any lawful server\<close>

lemma entry_log_set: "(i, x) \<in> set (entry_log es) \<longleftrightarrow> Transferred i x \<in> set es"
  by (force simp: entry_log_def split: entry.splits)

lemma lawful_entries:
  assumes "\<forall>(i, x) \<in> set (entry_log es). i < length (cc_xfers c0)"
  shows "serial_run refuse (abs_conc V c0) es d = serial_run refuse c0 es d"
    and "bank_history (abs_conc V c0) es b = bank_history c0 es b"
proof -
  have at: "i < length (cc_xfers c0)" if "Transferred i x \<in> set es" for i x
    using assms that by (auto simp: entry_log_set [symmetric])
  have "serial_entry refuse (abs_conc V c0) e = serial_entry refuse c0 e" if "e \<in> set es" for e
    by (cases e) (use that at in \<open>auto simp: fun_eq_iff\<close>)
  then show "serial_run refuse (abs_conc V c0) es d = serial_run refuse c0 es d"
    by (induction es arbitrary: d) (auto split: prod.splits)
  have "bank_entry_step (abs_conc V c0) e = bank_entry_step c0 e" if "e \<in> set es" for e
    by (cases e) (use that at in \<open>simp_all add: fun_eq_iff bank_entry_step_def\<close>)
  then show "bank_history (abs_conc V c0) es b = bank_history c0 es b"
    unfolding bank_history_def by (intro fold_cong) auto
qed

lemma lawful_system:
  assumes "server_laws refuse V" and "conc_start V d c0" and "db_valid d" and "fresh_ids d c0"
    and "(system_step V)\<^sup>*\<^sup>* (system_start c0) s"
  shows "serial_run refuse c0 (bs_history s) d = (bs_history s, cc_db (bs_conc s))"
    and "entry_log (bs_history s) = cc_log (bs_conc s)" and "distinct (map fst (cc_log (bs_conc s)))"
    and "length (cc_xfers (bs_conc s)) = length (cc_xfers c0)"
    and "(i, x) \<in> set (cc_log (bs_conc s)) \<Longrightarrow> i < length (cc_xfers c0)"
    and "i < length (cc_xfers c0) \<Longrightarrow> logged (cc_log (bs_conc s)) i (xf_phase (cc_xfers (bs_conc s) ! i))"
proof -
  let ?start = "abs_conc V c0" and ?c = "abs_conc V (bs_conc s)"
  have "fresh_ids d ?start" using assms(4) by (simp add: fresh_ids_def comp_def)
  from system_reachable [OF abs_system_reachable [OF assms(1,5)] abs_conc_start [OF assms(2)] assms(3) this]
  have inv: "conc_core refuse ?start ?c" "entry_log (bs_history s) = cc_log (bs_conc s)"
    "serial_run refuse ?start (bs_history s) d = (bs_history s, cc_db (bs_conc s))"
    by (simp_all add: system_inv_def abs_system_def)
  show log: "entry_log (bs_history s) = cc_log (bs_conc s)" by (rule inv(2))
  show "distinct (map fst (cc_log (bs_conc s)))" using inv(1) by (simp add: conc_core_def)
  show len: "length (cc_xfers (bs_conc s)) = length (cc_xfers c0)" using conc_core_length [OF inv(1)] by simp
  show below: "i < length (cc_xfers c0)" if "(i, x) \<in> set (cc_log (bs_conc s))" for i x
    using inv(1) that by (force simp: conc_core_def)
  show "logged (cc_log (bs_conc s)) i (xf_phase (cc_xfers (bs_conc s) ! i))" if "i < length (cc_xfers c0)"
    using conc_coreD(3) [OF inv(1), of i] that len by (simp add: seat_def)
  have "\<forall>(i, x) \<in> set (entry_log (bs_history s)). i < length (cc_xfers c0)" using below log by auto
  from lawful_entries(1) [OF this, of refuse V d] inv(3)
  show "serial_run refuse c0 (bs_history s) d = (bs_history s, cc_db (bs_conc s))" by simp
qed

lemma lawful_system_bank:
  assumes "server_laws refuse V" and "conc_start V d c0" and "sql_ok d" and "fresh_ids d c0"
    and "(system_step V)\<^sup>*\<^sup>* (system_start c0) s"
  shows "sql_ok (cc_db (bs_conc s))"
    and "abs_sql_bank (cc_db (bs_conc s)) {} = bank_history c0 (bs_history s) (abs_sql_bank d {})"
    and "keys_stored (cc_db (bs_conc s)) (committed_cmds c0 (entry_log (bs_history s)))"
    and "covers A c0 \<Longrightarrow> bank_total A (abs_sql_bank (cc_db (bs_conc s)) {}) =
      bank_total A (abs_sql_bank d {}) + opened_cents A (bs_history s)"
proof -
  let ?start = "abs_conc V c0"
  have valid: "db_valid d" using assms(3) by (simp add: sql_ok_def)
  note facts = lawful_system [OF assms(1,2) valid assms(4,5)]
  have fresh: "fresh_ids d ?start" using assms(4) by (simp add: fresh_ids_def comp_def)
  have below: "\<forall>(i, x) \<in> set (entry_log (bs_history s)). i < length (cc_xfers c0)" using facts(2,5) by auto
  note same = lawful_entries(2) [OF below, of V] and cmds = lawful_log(2) [OF below, of V, unfolded facts(2)]
  have "system_bank_inv d ?start (abs_system V s)"
    by (rule system_bank [OF abs_system_reachable [OF assms(1,5)] abs_conc_start [OF assms(2)] assms(3) fresh])
  then have inv: "sql_ok (cc_db (bs_conc s))"
      "abs_sql_bank (cc_db (bs_conc s)) {} = bank_history c0 (bs_history s) (abs_sql_bank d {})"
      "keys_stored (cc_db (bs_conc s)) (committed_cmds c0 (entry_log (bs_history s)))"
      "covers A ?start \<Longrightarrow> bank_total A (bank_history c0 (bs_history s) (abs_sql_bank d {})) =
        bank_total A (abs_sql_bank d {}) + opened_cents A (bs_history s)"
    by (simp_all add: system_bank_inv_def abs_system_def same cmds facts(2))
  show "sql_ok (cc_db (bs_conc s))"
    "abs_sql_bank (cc_db (bs_conc s)) {} = bank_history c0 (bs_history s) (abs_sql_bank d {})"
    "keys_stored (cc_db (bs_conc s)) (committed_cmds c0 (entry_log (bs_history s)))" by (rule inv)+
  show "bank_total A (abs_sql_bank (cc_db (bs_conc s)) {}) = bank_total A (abs_sql_bank d {}) + opened_cents A (bs_history s)"
    if "covers A c0"
    using inv(2,4) that by (simp add: covers_def)
qed

section \<open>An account is opened while two transfers are called\<close>

abbreviation sample_opening_request :: service_request where
  "sample_opening_request \<equiv>
     OpenAccount \<lparr>cac_owner_id = uid 9, cac_currency = ''EUR'', cac_initial_balance = Fin False 1000 (-2)\<rparr> (reads 1)"

lemma sample_system:
  obtains s y where "(system_step counting_server)\<^sup>*\<^sup>* (system_start (beside cmd)) s"
    and "Transferred 0 (Inr y) \<in> set (bs_history s)" and "opened_cents {uid 1, uid 2, uid 100} (bs_history s) = 1000"
proof -
  let ?cmd = "\<lparr>cac_owner_id = uid 9, cac_currency = ''EUR'', cac_initial_balance = Fin False 1000 (-2)\<rparr>"
  obtain a where a: "account_create (uid 9) EUR (Some (eur 1000)) (reads 1) = Inr a" "entity_id a = uid 100"
    and new: "find_account (uid 100) sample_db = None" and ok: "sql_ok (sql_opened a sample_db)"
    by (rule sample_opening)
  let ?u = "xf_uow (sample_xfer 0 cmd)" and ?d = "sql_opened a sample_db" and ?V = counting_server
  have arg: "parse_currency (cac_currency ?cmd) = Inr EUR" "money_new (cac_initial_balance ?cmd) EUR = Inr (eur 1000)"
    "account_create (cac_owner_id ?cmd) EUR (Some (eur 1000)) (reads 1) = Inr a"
    using parse_value_simps(1) [of EUR] a by (simp_all add: money_new_eur)
  have ans: "answer_request ?V sample_opening_request sample_heap ?u = (Inr (AccountReply (account_dto_of a)), ?d)"
  proof -
    let ?w = "request_world sample_heap (sql_start sample_db)"
    have w: "sql_stored ?w = sample_db" by (simp add: sql_stored_def request_world_def sql_start_def)
    with new a(2) have "find_account (entity_id a) (sql_stored ?w) = None" by simp
    from sql_account_create [OF arg this, of sample_refuse] ok
    have "serial_request sample_refuse (sample_opening_request, sample_heap) sample_db =
        (Inr (AccountReply (account_dto_of a)), ?d)"
      unfolding w by (auto simp: sql_ok_def serial_request_def answer_request_def reference_server_def bindP_apply returnP_apply
          sql_stored_def split: prod.splits)
    then show ?thesis unfolding answer_lawful [OF counting_server_lawful] answer_fresh by (simp add: abs_session_uow_def)
  qed
  let ?e = "Requested sample_opening_request sample_heap (Inr (AccountReply (account_dto_of a)))"
  let ?c = "admit ?V ?d (beside cmd)" and ?p = "note_xfer ?V ?d (sample_xfer 0 (sample_order 1 2 200 ''a''))"
  have "system_step ?V (system_start (beside cmd)) \<lparr>bs_conc = ?c, bs_history = [] @ [?e]\<rparr>"
    by (rule system_step.request [OF _ _ ans]) (use new in simp_all)
  then have first: "(system_step ?V)\<^sup>*\<^sup>* (system_start (beside cmd)) \<lparr>bs_conc = ?c, bs_history = [?e]\<rparr>" by auto
  have "find_account (uid 100) ?d \<noteq> None" using a(2) opened_db(2) [OF sample_valid] new by simp
  with new have "?d \<noteq> sample_db" by auto
  then have xs: "cc_xfers ?c = [?p, note_xfer ?V ?d (sample_xfer 5 cmd)]" by (simp add: admit_def)
  have at: "cc_xfers ?c ! 0 = ?p" "0 < length (cc_xfers ?c)"
    "\<forall>j < length (cc_xfers ?c). j \<noteq> 0 \<longrightarrow> xf_rows (cc_xfers ?c ! j) = {}"
    by (auto simp: xs less_Suc_eq note_xfer_def)
  have rows: "find_account (uid 1) ?d = Some (sample_row 1 500 ACTIVE)" "find_account (uid 2) ?d = Some (sample_row 2 100 ACTIVE)"
    "db_txs ?d = []"
    using sample_rows opened_db [OF sample_valid] by simp_all
  have p: "xf_phase ?p = AtCheck" "find_tx_by_key (xc_key (xf_call ?p)) ?d = None" "transfer_amount (xc_cmd (xf_call ?p)) = Inr (eur 200)"
    "ss_stored (sv_view ?V (sq_db (xf_uow ?p))) = ?d"
    using rows(3) by (simp_all add: note_xfer_def sample_amount find_tx_by_key_def counting_server_def sample_xfer_def foreign_commit_def)
  have "xf_call ?p = xf_call (sample_xfer 0 (sample_order 1 2 200 ''a''))" "xf_heap ?p = sample_heap" by (simp_all add: note_xfer_def)
  with run_free_result [OF counting_server_lawful at p] first_succeeds [OF ok rows] obtain c' y where
    c': "(conc_step ?V)\<^sup>*\<^sup>* ?c c'" "xf_phase (cc_xfers c' ! 0) = AtDone (Inr y)" by auto
  from conc_in_system [OF c'(1), of "[?e]"] obtain fs where
    fs: "(system_step ?V)\<^sup>*\<^sup>* \<lparr>bs_conc = ?c, bs_history = [?e]\<rparr> \<lparr>bs_conc = c', bs_history = [?e] @ fs\<rparr>" "\<forall>e \<in> set fs. opens e = None"
    by blast
  let ?s = "\<lparr>bs_conc = c', bs_history = [?e] @ fs\<rparr>"
  have run: "(system_step ?V)\<^sup>*\<^sup>* (system_start (beside cmd)) ?s" using first fs(1) by simp
  note facts = lawful_system [OF counting_server_lawful beside_start sample_valid beside_ids run]
  have "(0, Inr y) \<in> set (cc_log c')" using facts(6) [of 0] c'(2) by (simp add: logged_def)
  with facts(2) have "(0, Inr y) \<in> set (entry_log (bs_history ?s))" by simp
  then have "Transferred 0 (Inr y) \<in> set (bs_history ?s)" unfolding entry_log_set .
  moreover have "opens ?e = Some (uid 100, eur 1000)" using arg by (simp add: opening_balance_def)
  moreover have "opened_cents A fs = 0" for A
    using fs(2) by (induction fs) (auto simp: opened_cents_def)
  ultimately show thesis
    using run that [of ?s y] by (simp add: opened_cents_def)
qed

section \<open>Properties\<close>

text \<open>C2: The system is serializable, with no help from the Redis locks: while any number of transfers run in any
  interleaving over a lawful server and accounts are opened and read in between, at every moment the stored rows
  and all answers given are exactly those of the history run one entry after the other, each call in one piece:
  a committed transfer, an opening or a read tells its caller what it tells in that serial run. A transfer
  enters the history once, and a transfer that reports success is in it.\<close>

theorem system_serializable:
  assumes "server_laws refuse V" and "conc_start V d c0" and "db_valid d" and "fresh_ids d c0"
    and "(system_step V)\<^sup>*\<^sup>* (system_start c0) s"
  shows "serial_run refuse c0 (bs_history s) d = (bs_history s, cc_db (bs_conc s)) \<and>
    distinct (map fst (entry_log (bs_history s))) \<and>
    (\<forall>i x. Transferred i x \<in> set (bs_history s) \<longrightarrow>
       i < length (cc_xfers c0) \<and> xf_phase (cc_xfers (bs_conc s) ! i) \<in> {AtLeave x, AtDone x}) \<and>
    (\<forall>i < length (cc_xfers c0). \<forall>y. xf_phase (cc_xfers (bs_conc s) ! i) = AtDone (Inr y) \<longrightarrow>
       Transferred i (Inr y) \<in> set (bs_history s))"
proof -
  note facts = lawful_system [OF assms]
  have set: "Transferred i x \<in> set (bs_history s) \<longleftrightarrow> (i, x) \<in> set (cc_log (bs_conc s))" for i x
    using facts(2) by (simp add: entry_log_set [symmetric])
  show ?thesis
    unfolding set using facts(1-3,5,6) by (auto simp: logged_def)
qed

lemma system_serializable_witness:
  "\<exists>s y. (system_step counting_server)\<^sup>*\<^sup>* (system_start crossing) s \<and> Transferred 0 (Inr y) \<in> set (bs_history s) \<and>
    opened_cents {uid 1, uid 2, uid 100} (bs_history s) = 1000 \<and>
    serial_run sample_refuse crossing (bs_history s) sample_db = (bs_history s, cc_db (bs_conc s))"
proof -
  obtain s y where "(system_step counting_server)\<^sup>*\<^sup>* (system_start crossing) s" "Transferred 0 (Inr y) \<in> set (bs_history s)"
    "opened_cents {uid 1, uid 2, uid 100} (bs_history s) = 1000" by (rule sample_system)
  with system_serializable [OF counting_server_lawful beside_start sample_valid beside_ids] show ?thesis by blast
qed

text \<open>C3: Money: whatever is interleaved, only the opening of accounts adds money. At every moment the stored balances
  of any set of accounts that contains those of the transfers add up to what they were at the start plus the
  opening balances of the accounts of the set that have been opened since, rounded to cents.\<close>

theorem system_money_exact:
  assumes "server_laws refuse V" and "conc_start V d c0" and "sql_ok d" and "fresh_ids d c0"
    and "(system_step V)\<^sup>*\<^sup>* (system_start c0) s" and "finite A" and "\<forall>p \<in> set (cc_xfers c0). xf_accounts p \<subseteq> A"
  shows "bank_total A (abs_sql_bank (cc_db (bs_conc s)) {}) =
    bank_total A (abs_sql_bank d {}) + opened_cents A (bs_history s)"
  using lawful_system_bank(4) [OF assms(1-5), of A] assms(6,7) by (simp add: covers_def)

lemma system_money_exact_witness:
  "\<exists>s y. (system_step counting_server)\<^sup>*\<^sup>* (system_start crossing) s \<and> Transferred 0 (Inr y) \<in> set (bs_history s) \<and>
    bank_total {uid 1, uid 2, uid 100} (abs_sql_bank (cc_db (bs_conc s)) {}) = 1600"
proof -
  obtain s y where s: "(system_step counting_server)\<^sup>*\<^sup>* (system_start crossing) s" "Transferred 0 (Inr y) \<in> set (bs_history s)"
    "opened_cents {uid 1, uid 2, uid 100} (bs_history s) = 1000" by (rule sample_system)
  have "\<forall>p \<in> set (cc_xfers crossing). xf_accounts p \<subseteq> {uid 1, uid 2, uid 100}" by simp
  from system_money_exact [OF counting_server_lawful beside_start sample_sql_ok beside_ids s(1) _ this] s(3)
  have "bank_total {uid 1, uid 2, uid 100} (abs_sql_bank (cc_db (bs_conc s)) {}) =
      bank_total {uid 1, uid 2, uid 100} (abs_sql_bank sample_db {}) + 1000" by simp
  moreover have "find_account (uid 100) sample_db = None"
    by (simp add: find_account_def sample_db_def sample_row_domain uid_inject)
  then have "bank_total {uid 1, uid 2, uid 100} (abs_sql_bank sample_db {}) = 600"
    by (simp add: bank_total_def abs_sql_bank_def uid_inject sample_row_domain abs_account_def)
  ultimately have "bank_total {uid 1, uid 2, uid 100} (abs_sql_bank (cc_db (bs_conc s)) {}) = 1600" by simp
  with s(1,2) show ?thesis by blast
qed

text \<open>C5: The stored bank under interleaving: at every moment the stored accounts and transfers are those of the
  transactional bank after the committed transfers and the accepted openings, in the order of their commits, and
  every stored row is the row of a valid account or transaction: no balance is negative and no update is lost,
  even with the Redis locks gone.\<close>

theorem system_refines_bank:
  assumes "server_laws refuse V" and "conc_start V d c0" and "sql_ok d" and "fresh_ids d c0"
    and "(system_step V)\<^sup>*\<^sup>* (system_start c0) s"
  shows "abs_sql_bank (cc_db (bs_conc s)) {} = bank_history c0 (bs_history s) (abs_sql_bank d {}) \<and>
    sql_ok (cc_db (bs_conc s))"
  using lawful_system_bank(1,2) [OF assms] by simp

lemma system_refines_bank_witness:
  "\<exists>s y. (system_step counting_server)\<^sup>*\<^sup>* (system_start crossing) s \<and> Transferred 0 (Inr y) \<in> set (bs_history s) \<and>
    sql_ok (cc_db (bs_conc s))"
proof -
  obtain s y where "(system_step counting_server)\<^sup>*\<^sup>* (system_start crossing) s" "Transferred 0 (Inr y) \<in> set (bs_history s)"
    "opened_cents {uid 1, uid 2, uid 100} (bs_history s) = 1000" by (rule sample_system)
  with system_refines_bank [OF counting_server_lawful beside_start sample_sql_ok beside_ids] show ?thesis by blast
qed

text \<open>C6: However often a transfer is submitted at the same time, it is executed at most once: no two transfers
  with one idempotency key have their commits accepted, and every committed key leads to a stored transfer,
  although each of them may have found the key unknown and the Redis locks may have kept nobody out.\<close>

theorem system_key_once:
  assumes "server_laws refuse V" and "conc_start V d c0" and "sql_ok d" and "fresh_ids d c0"
    and "(system_step V)\<^sup>*\<^sup>* (system_start c0) s"
  shows "distinct (map tc_idempotency_key (committed_cmds c0 (entry_log (bs_history s)))) \<and>
    (\<forall>cmd \<in> set (committed_cmds c0 (entry_log (bs_history s))). find_tx_by_key (tc_idempotency_key cmd) (cc_db (bs_conc s)) \<noteq> None)"
  using lawful_system_bank(3) [OF assms] stored_key [OF lawful_system_bank(1) [OF assms]] by (simp add: keys_stored_def)

lemma system_key_once_witness:
  "\<exists>s y. (system_step counting_server)\<^sup>*\<^sup>* (system_start retried) s \<and> Transferred 0 (Inr y) \<in> set (bs_history s) \<and>
    (\<forall>x. Transferred 1 x \<notin> set (bs_history s))"
proof -
  obtain s y where s: "(system_step counting_server)\<^sup>*\<^sup>* (system_start retried) s" "Transferred 0 (Inr y) \<in> set (bs_history s)"
    "opened_cents {uid 1, uid 2, uid 100} (bs_history s) = 1000" by (rule sample_system)
  let ?es = "entry_log (bs_history s)"
  have keys: "distinct (map tc_idempotency_key (committed_cmds retried ?es))"
    using system_key_once [OF counting_server_lawful beside_start sample_sql_ok beside_ids s(1)] by blast
  have "(1, x) \<notin> set ?es" for x
  proof
    assume "(1, x) \<in> set ?es"
    moreover have "(0, Inr y) \<in> set ?es" using s(2) by (simp add: entry_log_set)
    ultimately obtain m n where mn: "m < length ?es" "n < length ?es" "?es ! m = (0, Inr y)" "?es ! n = (1, x)"
      by (auto simp: in_set_conv_nth)
    then have "map tc_idempotency_key (committed_cmds retried ?es) ! m = map tc_idempotency_key (committed_cmds retried ?es) ! n"
      by (simp add: committed_cmds_def)
    with nth_eq_iff_index_eq [OF keys, of m n] mn(1,2) have "m = n" by (simp only: length_map committed_cmds_def)
    with mn(3,4) show False by simp
  qed
  then have "\<forall>x. Transferred 1 x \<notin> set (bs_history s)" by (simp add: entry_log_set)
  with s(1,2) show ?thesis by blast
qed

end
