(* ===== verification/Two_Layers.thy ===== *)
theory Two_Layers
  imports Lock_System Row_Deadlock
begin

text \<open>
  The two layers of locks together, as \<open>TransferService.initiate\<close> nests them: each transfer takes its Redis locks
  (theory Lock_System) between the idempotency check and the unit of work, and its rows (theory Row_Locks)
  inside it; the clock of the Redis server runs all the time.

  \<^item> \<open>layer_step\<close> is a step of one transfer at the lock manager or at the database, where the code allows it: to the
    database with the locks held, back to the lock manager when the unit of work is left.
  \<^item> \<open>layers_free\<close>: while no lock outlives its time to live, no statement ever waits for a row.
\<close>

section \<open>The joint system\<close>

record 'd layers =
  ly_locks :: lock_system
  ly_conc :: "'d conc"

fun inside :: "proc \<Rightarrow> bool" where
  "inside (Inside acq) = True"
| "inside p = False"

text \<open>The body of \<open>async with self._lock.acquire\<close> is the unit of work, from \<open>__aenter__\<close> to the end of \<open>__aexit__\<close>.\<close>

fun may_lock :: "phase \<Rightarrow> proc \<Rightarrow> bool" where
  "may_lock (AtEnter m) p = (\<not> inside p)"
| "may_lock (AtDone x) (Inside acq) = True"
| "may_lock (AtDone x) (Releasing acq ok) = ok"
| "may_lock ph p = False"

definition may_query :: "phase \<Rightarrow> proc \<Rightarrow> bool" where
  "may_query ph p = (ph = AtCheck \<or> inside p)"

inductive layer_step :: "int \<Rightarrow> nat \<Rightarrow> 'd server \<Rightarrow> 'd layers \<Rightarrow> 'd layers \<Rightarrow> bool" for wait ttl V where
  locking: "i < length (ls_procs (ly_locks s)) \<Longrightarrow> may_lock (xf_phase (cc_xfers (ly_conc s) ! i)) (ls_procs (ly_locks s) ! i) \<Longrightarrow>
    proc_step wait ttl (ls_server (ly_locks s)) (ls_procs (ly_locks s) ! i) = Some (srv, p) \<Longrightarrow>
    layer_step wait ttl V s (s\<lparr>ly_locks := \<lparr>ls_server = srv, ls_procs = (ls_procs (ly_locks s))[i := p]\<rparr>\<rparr>)"
| querying: "can_turn i (ly_conc s) \<Longrightarrow> may_query (xf_phase (cc_xfers (ly_conc s) ! i)) (ls_procs (ly_locks s) ! i) \<Longrightarrow>
    layer_step wait ttl V s (s\<lparr>ly_conc := conc_turn V i (ly_conc s)\<rparr>)"
| aborted: "i < length (cc_xfers (ly_conc s)) \<Longrightarrow> blocked i (ly_conc s) \<Longrightarrow>
    layer_step wait ttl V s (s\<lparr>ly_conc := conc_cancel i e (ly_conc s)\<rparr>)"
| clock: "0 < d \<Longrightarrow> layer_step wait ttl V s (s\<lparr>ly_locks := run_tick d (ly_locks s)\<rparr>)"

text \<open>Every transfer has been called, none has asked for a lock.\<close>

definition xf_lock_keys :: "'d xfer \<Rightarrow> string list" where
  "xf_lock_keys p = lock_keys (xc_from (xf_call p)) (xc_to (xf_call p))"

definition layers_start :: "int \<Rightarrow> 'd conc \<Rightarrow> 'd layers" where
  "layers_start now c = \<lparr>ly_locks = lock_start now (map xf_lock_keys (cc_xfers c)), ly_conc = c\<rparr>"

definition timely_layer_step :: "int \<Rightarrow> nat \<Rightarrow> 'd server \<Rightarrow> 'd layers \<Rightarrow> 'd layers \<Rightarrow> bool" where
  "timely_layer_step wait ttl V s s' \<longleftrightarrow> layer_step wait ttl V s s' \<and> timely (ly_locks s')"

text \<open>A run of the joint system is a run of each layer.\<close>

lemma layer_step_locks:
  "layer_step wait ttl V s s' \<Longrightarrow> (lock_step wait ttl)\<^sup>=\<^sup>= (ly_locks s) (ly_locks s')"
  by (induction rule: layer_step.induct) (auto simp: run_tick_def intro: lock_step.intros)

lemma layer_step_conc:
  "layer_step wait ttl V s s' \<Longrightarrow> (conc_step V)\<^sup>=\<^sup>= (ly_conc s) (ly_conc s')"
  by (induction rule: layer_step.induct) (auto intro: conc_step.intros)

lemma timely_locks:
  "(timely_layer_step wait ttl V)\<^sup>*\<^sup>* s s' \<Longrightarrow> (timely_step wait ttl)\<^sup>*\<^sup>* (ly_locks s) (ly_locks s')"
proof (induction rule: rtranclp_induct)
  case (step y z)
  then show ?case
    using layer_step_locks [of wait ttl V y z] by (auto simp: timely_layer_step_def timely_step_def intro: rtranclp.rtrancl_into_rtrancl)
qed simp

lemma layers_locks:
  "(layer_step wait ttl V)\<^sup>*\<^sup>* s s' \<Longrightarrow> (lock_step wait ttl)\<^sup>*\<^sup>* (ly_locks s) (ly_locks s')"
proof (induction rule: rtranclp_induct)
  case (step y z)
  then show ?case
    using layer_step_locks [of wait ttl V y z] by (auto intro: rtranclp.rtrancl_into_rtrancl)
qed simp

lemma layers_conc:
  "(layer_step wait ttl V)\<^sup>*\<^sup>* s s' \<Longrightarrow> (conc_step V)\<^sup>*\<^sup>* (ly_conc s) (ly_conc s')"
proof (induction rule: rtranclp_induct)
  case (step y z)
  then show ?case
    using layer_step_conc [of wait ttl V y z] by (auto intro: rtranclp.rtrancl_into_rtrancl)
qed simp

lemma timely_layers: "(timely_layer_step wait ttl V)\<^sup>*\<^sup>* s s' \<Longrightarrow> (layer_step wait ttl V)\<^sup>*\<^sup>* s s'"
  by (erule rtranclp_mono [THEN predicate2D, rotated]) (simp add: timely_layer_step_def le_fun_def)

section \<open>Inside the unit of work the locks are held\<close>

text \<open>A transfer on its way to the locks has the keys it has taken, in order; inside it has all of them.\<close>

fun on_course :: "string list \<Rightarrow> proc \<Rightarrow> bool" where
  "on_course keys (Next ks acq) = (map fst acq @ ks = keys)"
| "on_course keys (Polling k ks acq deadline wake) = (map fst acq @ k # ks = keys)"
| "on_course keys (Inside acq) = (map fst acq = keys)"
| "on_course keys (Releasing acq ok) = True"
| "on_course keys (Finished ok) = True"

lemma on_course_step: "proc_step wait ttl srv p = Some (srv', p') \<Longrightarrow> on_course keys p \<Longrightarrow> on_course keys p'"
  by (induction wait ttl srv p rule: proc_step.induct)
    (auto split: if_splits prod.splits after_poll.splits)

text \<open>Where a transfer stands in the code, and where at the lock manager.\<close>

fun seated :: "string list \<Rightarrow> phase \<Rightarrow> proc \<Rightarrow> bool" where
  "seated keys AtCheck p = (p = Next keys [])"
| "seated keys (AtKnown r) p = (p = Next keys [])"
| "seated keys (AtEnter m) p = (on_course keys p \<and> p \<noteq> Finished True \<and> (\<forall>acq. p \<noteq> Releasing acq True))"
| "seated keys (AtDone x) p = (p = Next keys [] \<or> p = Finished True \<or> (inside p \<or> (\<exists>acq. p = Releasing acq True)) \<and> on_course keys p)"
| "seated keys ph p = (inside p \<and> on_course keys p)"

lemma seated_transaction: "seated keys ph p \<Longrightarrow> in_transaction ph \<Longrightarrow> inside p \<and> held p = set keys"
  by (cases p; cases ph) (force simp del: in_transaction.simps(1))+

lemma seated_course: "seated keys ph p \<Longrightarrow> on_course keys p"
  by (cases ph) auto

lemma seated_inside: "inside p \<Longrightarrow> on_course keys p \<Longrightarrow> ph \<noteq> AtCheck \<Longrightarrow> \<forall>r. ph \<noteq> AtKnown r \<Longrightarrow> seated keys ph p"
  by (cases p; cases ph) auto

lemma seated_lock:
  assumes "seated keys ph p" and "may_lock ph p" and "proc_step wait ttl srv p = Some (srv', p')"
  shows "seated keys ph p'"
proof -
  have "on_course keys p'" by (rule on_course_step [OF assms(3) seated_course [OF assms(1)]])
  with assms show ?thesis
    by (cases "(ph, p)" rule: may_lock.cases; induction wait ttl srv p rule: proc_step.induct)
      (auto split: if_splits prod.splits after_poll.splits)
qed

definition layers_inv :: "'d layers \<Rightarrow> bool" where
  "layers_inv s \<longleftrightarrow> length (ls_procs (ly_locks s)) = length (cc_xfers (ly_conc s)) \<and>
     (\<forall>i < length (cc_xfers (ly_conc s)). seated (map redis_key (xf_lock_keys (cc_xfers (ly_conc s) ! i)))
        (xf_phase (cc_xfers (ly_conc s) ! i)) (ls_procs (ly_locks s) ! i))"

lemma layers_inv_start:
  "conc_start V d c \<Longrightarrow> layers_inv (layers_start now c)"
  by (auto simp: layers_inv_def layers_start_def lock_start_def start_proc_def conc_start_def)

text \<open>A turn changes one transfer, and only its place in the code matters here.\<close>

lemma turn_at:
  assumes "i < length (cc_xfers c)" and "j < length (cc_xfers c)"
  shows "length (cc_xfers (conc_turn V i c)) = length (cc_xfers c)"
    and "xf_call (cc_xfers (conc_turn V i c) ! j) = xf_call (cc_xfers c ! j)"
    and "j \<noteq> i \<Longrightarrow> xf_phase (cc_xfers (conc_turn V i c) ! j) = xf_phase (cc_xfers c ! j)"
  using assms
  by (auto simp: conc_turn_def Let_def nth_list_update note_xfer_def xfer_step_def split: option.splits prod.splits)

lemma turn_phase:
  assumes "i < length (cc_xfers c)"
  shows "xf_phase (cc_xfers c ! i) = AtCheck \<Longrightarrow>
      (\<exists>m. xf_phase (cc_xfers (conc_turn V i c) ! i) = AtEnter m) \<or> finished_phase (xf_phase (cc_xfers (conc_turn V i c) ! i))"
    and "xf_phase (cc_xfers c ! i) \<noteq> AtCheck \<Longrightarrow> \<not> finished_phase (xf_phase (cc_xfers c ! i)) \<Longrightarrow>
      xf_phase (cc_xfers (conc_turn V i c) ! i) \<noteq> AtCheck \<and> xf_phase (cc_xfers (conc_turn V i c) ! i) \<noteq> AtKnown r"
proof -
  let ?p = "cc_xfers c ! i"
  have at: "xf_phase (cc_xfers (conc_turn V i c) ! i) =
      fst (phase_step (server_uow V) (xf_call ?p) (xf_phase ?p, xf_heap ?p, xf_uow ?p))"
    using assms by (auto simp: conc_turn_def Let_def xfer_step_def split: option.splits prod.splits)
  show "(\<exists>m. xf_phase (cc_xfers (conc_turn V i c) ! i) = AtEnter m) \<or> finished_phase (xf_phase (cc_xfers (conc_turn V i c) ! i))"
    if "xf_phase ?p = AtCheck" unfolding at that
    by (auto simp: phase_step_apply bindP_apply returnP_apply liftP_apply raised_phase_def split: option.splits prod.splits sum.splits)
  show "xf_phase (cc_xfers (conc_turn V i c) ! i) \<noteq> AtCheck \<and> xf_phase (cc_xfers (conc_turn V i c) ! i) \<noteq> AtKnown r"
    if "xf_phase ?p \<noteq> AtCheck" "\<not> finished_phase (xf_phase ?p)" unfolding at using that
    by (cases "xf_phase ?p") (auto simp: phase_step_apply apply_phase_def bindP_apply thenP_apply tryP_apply returnP_apply
        liftP_apply raised_phase_def split: option.splits prod.splits sum.splits)
qed

lemma layers_inv_step:
  assumes "layer_step wait ttl V s s'" and inv: "layers_inv s"
  shows "layers_inv s'"
  using assms(1)
proof cases
  case (locking i srv p)
  have len: "length (ls_procs (ly_locks s)) = length (cc_xfers (ly_conc s))" using inv by (simp add: layers_inv_def)
  have "seated (map redis_key (xf_lock_keys (cc_xfers (ly_conc s) ! i))) (xf_phase (cc_xfers (ly_conc s) ! i)) p"
    by (rule seated_lock [OF _ locking(3,4)]) (use inv locking(2) len in \<open>simp add: layers_inv_def\<close>)
  with inv locking(1,2) len show ?thesis by (simp add: layers_inv_def nth_list_update)
next
  case (querying i)
  let ?c = "ly_conc s" and ?c' = "conc_turn V i (ly_conc s)"
  have i: "i < length (cc_xfers ?c)" "\<not> finished_phase (xf_phase (cc_xfers ?c ! i))" using querying(2) by (simp_all add: can_turn_def)
  have "seated (map redis_key (xf_lock_keys (cc_xfers ?c' ! j))) (xf_phase (cc_xfers ?c' ! j)) (ls_procs (ly_locks s) ! j)"
    if j: "j < length (cc_xfers ?c)" for j
  proof -
    have old: "seated (map redis_key (xf_lock_keys (cc_xfers ?c ! j))) (xf_phase (cc_xfers ?c ! j)) (ls_procs (ly_locks s) ! j)"
      using inv j by (simp add: layers_inv_def)
    have keys: "xf_lock_keys (cc_xfers ?c' ! j) = xf_lock_keys (cc_xfers ?c ! j)"
      by (simp add: xf_lock_keys_def turn_at(2) [OF i(1) j])
    consider "j \<noteq> i" | "j = i" "xf_phase (cc_xfers ?c ! i) = AtCheck" | "j = i" "xf_phase (cc_xfers ?c ! i) \<noteq> AtCheck" by blast
    then show ?thesis
    proof cases
      case 1
      with old keys turn_at(3) [OF i(1) j] show ?thesis by simp
    next
      case 2
      with old turn_phase(1) [OF i(1), of V] have "ls_procs (ly_locks s) ! j = Next (map redis_key (xf_lock_keys (cc_xfers ?c ! j))) []"
        by simp
      with 2 turn_phase(1) [OF i(1), of V] keys show ?thesis
        by (cases "xf_phase (cc_xfers ?c' ! j)") auto
    next
      case 3
      then have "inside (ls_procs (ly_locks s) ! j)" using querying(3) by (simp add: may_query_def)
      from seated_inside [OF this seated_course [OF old]] 3 turn_phase(2) [OF i(1) _ i(2), of V] keys show ?thesis by simp
    qed
  qed
  with inv querying(1) turn_at(1) [OF i(1) i(1), of V] show ?thesis by (simp add: layers_inv_def)
next
  case (aborted i e)
  let ?p = "ls_procs (ly_locks s) ! i"
  have seat: "seated (map redis_key (xf_lock_keys (cc_xfers (ly_conc s) ! i))) (xf_phase (cc_xfers (ly_conc s) ! i)) ?p"
    using inv aborted(2) by (simp add: layers_inv_def)
  have "in_transaction (xf_phase (cc_xfers (ly_conc s) ! i))"
    using aborted(3) by (cases "xf_phase (cc_xfers (ly_conc s) ! i)") (auto simp: blocked_def xf_wanted_def)
  with seated_transaction [OF seat] seated_course [OF seat] inv aborted(1,2) show ?thesis
    by (auto simp: layers_inv_def conc_cancel_def nth_list_update xf_lock_keys_def)
next
  case (clock d)
  with inv show ?thesis by (simp add: layers_inv_def run_tick_def)
qed

lemma layers_inv_reachable: "(layer_step wait ttl V)\<^sup>*\<^sup>* s s' \<Longrightarrow> layers_inv s \<Longrightarrow> layers_inv s'"
  by (induction rule: rtranclp_induct) (auto intro: layers_inv_step)

text \<open>So two transfers inside their units of work, with Redis locks that exclude each other, have no account in common.\<close>

lemma layers_disjoint:
  assumes "layers_inv s" and "exclusive (ly_locks s)"
    and i: "i < length (cc_xfers (ly_conc s))" "in_transaction (xf_phase (cc_xfers (ly_conc s) ! i))"
    and j: "j < length (cc_xfers (ly_conc s))" "in_transaction (xf_phase (cc_xfers (ly_conc s) ! j))" and "i \<noteq> j"
  shows "xf_accounts (cc_xfers (ly_conc s) ! i) \<inter> xf_accounts (cc_xfers (ly_conc s) ! j) = {}"
proof -
  have seat: "seated (map redis_key (xf_lock_keys (cc_xfers (ly_conc s) ! k))) (xf_phase (cc_xfers (ly_conc s) ! k))
      (ls_procs (ly_locks s) ! k)" if "k < length (cc_xfers (ly_conc s))" for k
    using assms(1) that by (simp add: layers_inv_def)
  have "held (ls_procs (ly_locks s) ! i) \<inter> held (ls_procs (ly_locks s) ! j) = {}"
    using assms(1,2) i(1) j(1) \<open>i \<noteq> j\<close> by (simp add: exclusive_def layers_inv_def)
  with seated_transaction [OF seat [OF i(1)] i(2)] seated_transaction [OF seat [OF j(1)] j(2)] show ?thesis
    by (auto simp: xf_lock_keys_def)
qed

section \<open>Nobody is stuck\<close>

text \<open>A transfer has answered when it has given its locks back or given up, or when the idempotency check or a
  malformed request ended it before it asked for them.\<close>

definition answered :: "phase \<Rightarrow> proc \<Rightarrow> bool" where
  "answered ph p \<longleftrightarrow> finished p \<or> finished_phase ph \<and> (\<exists>ks. p = Next ks [])"

definition layer_work :: "'d layers \<Rightarrow> nat" where
  "layer_work s = conc_rank (ly_conc s) + sum_list (map work (ls_procs (ly_locks s)))"

definition all_awake :: "'d layers \<Rightarrow> bool" where
  "all_awake s \<longleftrightarrow> (\<forall>p \<in> set (ls_procs (ly_locks s)). wakes_by (rs_now (ls_server (ly_locks s))) p)"

text \<open>While a transfer has not answered somebody can act at once: a transfer whose next key is free, or one inside,
  whose statement is possible or is aborted.\<close>

lemma someone_acts:
  assumes inv: "layers_inv s" and linv: "lock_inv (ly_locks s)" and awake: "all_awake s"
    and left: "\<exists>i < length (cc_xfers (ly_conc s)). \<not> answered (xf_phase (cc_xfers (ly_conc s) ! i)) (ls_procs (ly_locks s) ! i)"
  shows "\<exists>i < length (cc_xfers (ly_conc s)). \<not> answered (xf_phase (cc_xfers (ly_conc s) ! i)) (ls_procs (ly_locks s) ! i) \<and>
    (\<forall>k ks acq d w. ls_procs (ly_locks s) ! i = Polling k ks acq d w \<longrightarrow> \<not> active (ls_server (ly_locks s)) k)"
proof -
  let ?n = "length (cc_xfers (ly_conc s))" and ?ps = "ls_procs (ly_locks s)"
  let ?open = "\<lambda>i. \<not> answered (xf_phase (cc_xfers (ly_conc s) ! i)) (?ps ! i)"
  define us where "us = map ((!) ?ps) (filter ?open [0..<?n])"
  have len: "length ?ps = ?n" using inv by (simp add: layers_inv_def)
  have sub: "set us \<subseteq> set ?ps" using len by (auto simp: us_def)
  have "\<forall>p \<in> set us. in_order p" using linv sub by (auto simp: lock_inv_def)
  moreover have "\<exists>p \<in> set us. \<not> finished p" using left by (auto simp: us_def answered_def)
  ultimately obtain p where p: "p \<in> set us" "\<not> waits_for p us" using someone_free [of us] by blast
  then obtain i where i: "i < ?n" "?open i" "p = ?ps ! i" by (auto simp: us_def)
  have "\<not> active (ls_server (ly_locks s)) k" if "p = Polling k ks acq d w" for k ks acq d w
  proof
    assume "active (ls_server (ly_locks s)) k"
    then obtain q where "q \<in> set ?ps" "k \<in> held q" using linv unfolding lock_inv_def by blast
    then obtain j where j: "j < ?n" "k \<in> held (?ps ! j)" using len by (metis in_set_conv_nth)
    have "?open j" using j(2) by (cases "?ps ! j") (auto simp: answered_def)
    with j have "?ps ! j \<in> set us" by (simp add: us_def)
    with p(2) j(2) that show False by (auto simp: waits_for_def)
  qed
  with i show ?thesis by blast
qed

lemma layer_progress:
  assumes inv: "layers_inv s" and linv: "lock_inv (ly_locks s)" and awake: "all_awake s"
    and left: "\<exists>i < length (cc_xfers (ly_conc s)). \<not> answered (xf_phase (cc_xfers (ly_conc s) ! i)) (ls_procs (ly_locks s) ! i)"
  shows "\<exists>s'. layer_step wait ttl V s s' \<and> layer_work s' < layer_work s \<and> all_awake s' \<and>
    rs_now (ls_server (ly_locks s')) = rs_now (ls_server (ly_locks s)) \<and>
    (\<forall>i < length (ls_procs (ly_locks s)). gave_up (ls_procs (ly_locks s') ! i) \<longrightarrow> gave_up (ls_procs (ly_locks s) ! i))"
proof -
  obtain i where i: "i < length (cc_xfers (ly_conc s))"
    "\<not> answered (xf_phase (cc_xfers (ly_conc s) ! i)) (ls_procs (ly_locks s) ! i)"
    and free: "\<And>k ks acq d w. ls_procs (ly_locks s) ! i = Polling k ks acq d w \<Longrightarrow> \<not> active (ls_server (ly_locks s)) k"
    using someone_acts [OF assms] by blast
  let ?ph = "xf_phase (cc_xfers (ly_conc s) ! i)" and ?p = "ls_procs (ly_locks s) ! i"
  have len: "i < length (ls_procs (ly_locks s))" using inv i(1) by (simp add: layers_inv_def)
  have seat: "seated (map redis_key (xf_lock_keys (cc_xfers (ly_conc s) ! i))) ?ph ?p"
    using inv i(1) by (simp add: layers_inv_def)
  consider "may_lock ?ph ?p" | "may_query ?ph ?p" "\<not> finished_phase ?ph"
    using seat i(2) by (cases ?ph; cases ?p) (auto simp: may_query_def answered_def)
  then show ?thesis
  proof cases
    case 1
    have "wakes_by (rs_now (ls_server (ly_locks s))) ?p" using awake len by (simp add: all_awake_def)
    moreover have "\<not> finished ?p" using i(2) by (simp add: answered_def)
    ultimately obtain srv p where st: "proc_step wait ttl (ls_server (ly_locks s)) ?p = Some (srv, p)" "work p < work ?p"
      "wakes_by (rs_now (ls_server (ly_locks s))) p" "gave_up p \<longrightarrow> gave_up ?p"
      using free_step [of ?p "ls_server (ly_locks s)" wait ttl] free by blast
    have now: "rs_now srv = rs_now (ls_server (ly_locks s))" by (rule wakes_by_step(1) [OF st(1)])
    let ?s = "s\<lparr>ly_locks := \<lparr>ls_server = srv, ls_procs = (ls_procs (ly_locks s))[i := p]\<rparr>\<rparr>"
    have "all_awake ?s" using awake st(3) now by (auto simp: all_awake_def dest!: set_update_subset_insert [THEN subsetD])
    moreover have "gave_up ((ls_procs (ly_locks s))[i := p] ! j) \<longrightarrow> gave_up (ls_procs (ly_locks s) ! j)"
      if "j < length (ls_procs (ly_locks s))" for j
      using st(4) that by (cases "j = i") auto
    ultimately show ?thesis
      using layer_step.locking [OF len 1 st(1), of V] work_decreases [OF len st(2)] now
      by (intro exI [of _ ?s]) (simp add: layer_work_def)
  next
    case 2
    define c where "c = (if blocked i (ly_conc s) then conc_cancel i (ValueErr ''cancelled'') (ly_conc s) else conc_turn V i (ly_conc s))"
    have step: "conc_step V (ly_conc s) c" "layer_step wait ttl V s (s\<lparr>ly_conc := c\<rparr>)"
      using 2 i(1) by (auto simp: c_def can_turn_def intro: conc_step.intros layer_step.querying layer_step.aborted)
    with conc_step_rank [OF step(1)] awake show ?thesis
      by (intro exI [of _ "s\<lparr>ly_conc := c\<rparr>"]) (auto simp: layer_work_def all_awake_def)
  qed
qed

lemma layers_drain:
  assumes "layers_inv s" and "lock_inv (ly_locks s)" and "all_awake s"
  shows "\<exists>s'. (layer_step wait ttl V)\<^sup>*\<^sup>* s s' \<and> rs_now (ls_server (ly_locks s')) = rs_now (ls_server (ly_locks s)) \<and>
    length (cc_xfers (ly_conc s')) = length (cc_xfers (ly_conc s)) \<and>
    (\<forall>i < length (cc_xfers (ly_conc s)). answered (xf_phase (cc_xfers (ly_conc s') ! i)) (ls_procs (ly_locks s') ! i) \<and>
      (gave_up (ls_procs (ly_locks s') ! i) \<longrightarrow> gave_up (ls_procs (ly_locks s) ! i)))"
  using assms
proof (induction "layer_work s" arbitrary: s rule: less_induct)
  case less
  let ?n = "\<lambda>s. length (cc_xfers (ly_conc s))"
  show ?case
  proof (cases "\<exists>i < ?n s. \<not> answered (xf_phase (cc_xfers (ly_conc s) ! i)) (ls_procs (ly_locks s) ! i)")
    case False
    then show ?thesis by (intro exI [of _ s]) auto
  next
    case True
    from layer_progress [OF less.prems True, of wait ttl V] obtain s1 where s1: "layer_step wait ttl V s s1"
      "layer_work s1 < layer_work s" "all_awake s1" "rs_now (ls_server (ly_locks s1)) = rs_now (ls_server (ly_locks s))"
      "\<forall>i < length (ls_procs (ly_locks s)). gave_up (ls_procs (ly_locks s1) ! i) \<longrightarrow> gave_up (ls_procs (ly_locks s) ! i)"
      by blast
    have "(lock_step wait ttl)\<^sup>*\<^sup>* (ly_locks s) (ly_locks s1)" using layer_step_locks [OF s1(1)] by auto
    then have linv: "lock_inv (ly_locks s1)" by (rule lock_inv_reachable) (rule less.prems(2))
    have n: "?n s1 = ?n s" using s1(1) by cases (auto simp: conc_cancel_def can_turn_def turn_at)
    have len: "length (ls_procs (ly_locks s)) = ?n s" using less.prems(1) by (simp add: layers_inv_def)
    from less.hyps [OF s1(2) layers_inv_step [OF s1(1) less.prems(1)] linv s1(3)] obtain s' where
      "(layer_step wait ttl V)\<^sup>*\<^sup>* s1 s'" "rs_now (ls_server (ly_locks s')) = rs_now (ls_server (ly_locks s1))" "?n s' = ?n s1"
      "\<forall>i < ?n s1. answered (xf_phase (cc_xfers (ly_conc s') ! i)) (ls_procs (ly_locks s') ! i) \<and>
        (gave_up (ls_procs (ly_locks s') ! i) \<longrightarrow> gave_up (ls_procs (ly_locks s1) ! i))" by blast
    with s1(1,4,5) n len show ?thesis
      by (intro exI [of _ s']) (auto intro: converse_rtranclp_into_rtranclp)
  qed
qed

text \<open>One retry interval wakes everybody.\<close>

lemma layers_can_finish:
  assumes "layers_inv s" and "lock_inv (ly_locks s)"
  shows "\<exists>s'. (layer_step wait ttl V)\<^sup>*\<^sup>* s s' \<and>
    rs_now (ls_server (ly_locks s')) = rs_now (ls_server (ly_locks s)) + retry_interval \<and>
    length (cc_xfers (ly_conc s')) = length (cc_xfers (ly_conc s)) \<and>
    (\<forall>i < length (cc_xfers (ly_conc s)). answered (xf_phase (cc_xfers (ly_conc s') ! i)) (ls_procs (ly_locks s') ! i) \<and>
      (gave_up (ls_procs (ly_locks s') ! i) \<longrightarrow> gave_up (ls_procs (ly_locks s) ! i)))"
proof -
  let ?s = "s\<lparr>ly_locks := run_tick retry_interval (ly_locks s)\<rparr>"
  have tick: "layer_step wait ttl V s ?s" by (rule layer_step.clock) (simp add: retry_interval_def)
  have "lock_inv (ly_locks ?s)" using lock_inv_tick [OF assms(2), of retry_interval] by (simp add: retry_interval_def)
  moreover have "all_awake ?s" using assms(2) by (simp add: all_awake_def lock_inv_def run_tick_def)
  ultimately obtain s' where s': "(layer_step wait ttl V)\<^sup>*\<^sup>* ?s s'"
    "rs_now (ls_server (ly_locks s')) = rs_now (ls_server (ly_locks ?s))" "length (cc_xfers (ly_conc s')) = length (cc_xfers (ly_conc ?s))"
    "\<forall>i < length (cc_xfers (ly_conc ?s)). answered (xf_phase (cc_xfers (ly_conc s') ! i)) (ls_procs (ly_locks s') ! i) \<and>
      (gave_up (ls_procs (ly_locks s') ! i) \<longrightarrow> gave_up (ls_procs (ly_locks ?s) ! i))"
    using layers_drain [of ?s wait ttl V, OF layers_inv_step [OF tick assms(1)]] by blast
  with converse_rtranclp_into_rtranclp [OF tick s'(1)] show ?thesis
    by (intro exI [of _ s']) (simp add: run_tick_def)
qed

end
