(* ===== verification/Layer_Properties.thy ===== *)
theory Layer_Properties
  imports Two_Layers Concurrent_Properties Lock_Properties
begin

text \<open>
  The properties of the two layers of locks together, for every lawful database and any number of transfers, with
  witnesses on the two crossing transfers of theory Concurrent_Properties.
\<close>

section \<open>The first transfer enters\<close>

abbreviation crossing_layers :: "(nat \<times> session) layers" where
  "crossing_layers \<equiv> layers_start 0 Concurrent_Properties.crossing"

text \<open>From a state in which the first of two transfers stands before its locks and the server knows no key, it takes
  both locks at once.\<close>

lemma takes_locks:
  assumes "xf_phase (cc_xfers c ! 0) = AtEnter m" and "a \<noteq> b" and "holds q = []"
  shows "(timely_layer_step (seconds 5) 30 V)\<^sup>*\<^sup>* \<lparr>ly_locks = \<lparr>ls_server = \<lparr>rs_expiry = (\<lambda>_. None), rs_now = 0\<rparr>,
      ls_procs = [Next [a, b] [], q]\<rparr>, ly_conc = c\<rparr>
    \<lparr>ly_locks = \<lparr>ls_server = \<lparr>rs_expiry = [a \<mapsto> seconds 30, b \<mapsto> seconds 30], rs_now = 0\<rparr>,
      ls_procs = [Inside [(a, seconds 30), (b, seconds 30)], q]\<rparr>, ly_conc = c\<rparr>"
proof -
  let ?at = "\<lambda>e p. \<lparr>ly_locks = \<lparr>ls_server = \<lparr>rs_expiry = e, rs_now = 0\<rparr>, ls_procs = [p, q]\<rparr>, ly_conc = c\<rparr>"
  let ?t = "seconds 30" and ?d = "seconds 5"
  have t: "0 < ?t" by (simp add: seconds_def)
  have step: "timely_layer_step ?d 30 V (?at e p) (?at e' p')" if
    "proc_step ?d 30 \<lparr>rs_expiry = e, rs_now = 0\<rparr> p = Some (\<lparr>rs_expiry = e', rs_now = 0\<rparr>, p')" "\<not> inside p"
    "\<forall>(k, u) \<in> set (holds p'). 0 < u" for e p e' p'
    using layer_step.locking [of 0 "?at e p" ?d 30 "\<lparr>rs_expiry = e', rs_now = 0\<rparr>" p' V] that assms(1,3)
    by (simp add: timely_layer_step_def timely_def)
  have "timely_layer_step ?d 30 V (?at (\<lambda>_. None) (Next [a, b] [])) (?at (\<lambda>_. None) (Polling a [b] [] ?d 0))"
    by (rule step) simp_all
  moreover have "timely_layer_step ?d 30 V (?at (\<lambda>_. None) (Polling a [b] [] ?d 0)) (?at [a \<mapsto> ?t] (Next [b] [(a, ?t)]))"
    by (rule step) (simp_all add: server_set_nx_def active_def t)
  moreover have "timely_layer_step ?d 30 V (?at [a \<mapsto> ?t] (Next [b] [(a, ?t)])) (?at [a \<mapsto> ?t] (Polling b [] [(a, ?t)] ?d 0))"
    by (rule step) (simp_all add: t)
  moreover have "timely_layer_step ?d 30 V (?at [a \<mapsto> ?t] (Polling b [] [(a, ?t)] ?d 0))
      (?at [a \<mapsto> ?t, b \<mapsto> ?t] (Next [] [(a, ?t), (b, ?t)]))"
    by (rule step) (simp_all add: server_set_nx_def active_def t assms(2) assms(2) [symmetric])
  moreover have "timely_layer_step ?d 30 V (?at [a \<mapsto> ?t, b \<mapsto> ?t] (Next [] [(a, ?t), (b, ?t)]))
      (?at [a \<mapsto> ?t, b \<mapsto> ?t] (Inside [(a, ?t), (b, ?t)]))"
    by (rule step) (simp_all add: t)
  ultimately show ?thesis by (meson converse_rtranclp_into_rtranclp rtranclp.rtrancl_refl)
qed

text \<open>So there is a moment at which it is in its transaction and the other one has not asked for a lock.\<close>

lemma first_turn:
  fixes c :: "(nat \<times> session) conc"
  assumes "i < length (cc_xfers c)" and "ready_to_load (cc_db c) (abs_xfer counting_server (cc_xfers c ! i))"
    and "\<forall>j < length (cc_xfers c). j \<noteq> i \<longrightarrow> xf_rows (cc_xfers c ! j) = {}"
  defines "c' \<equiv> conc_turn counting_server i c"
  shows "can_turn i c" and "\<exists>m. xf_phase (cc_xfers c' ! i) = AtEnter m" and "can_turn i c'"
    and "\<exists>m. xf_phase (cc_xfers (conc_turn counting_server i c') ! i) = AtLoadSender m"
proof -
  let ?p = "cc_xfers c ! i" and ?R = "reference_server sample_refuse" and ?s = "xfer_step counting_server (cc_db c)"
  note first = first_steps [OF assms(2), of sample_refuse]
  note abs = abs_xfer_step [OF counting_server_lawful, symmetric]
  note commits = abs_xfer_commit [OF counting_server_lawful, symmetric]
  have ph: "xf_phase ?p = AtCheck" using assms(2) by (simp add: ready_to_load_def)
  show "can_turn i c" using assms(1) ph by (simp add: can_turn_def blocked_def xf_wanted_def)
  have c': "c' = c\<lparr>cc_xfers := (cc_xfers c)[i := ?s ?p]\<rparr>"
    using first(9) by (simp add: c'_def conc_turn_def commits)
  have at: "cc_xfers c' ! i = ?s ?p" using assms(1) by (simp add: c')
  show "\<exists>m. xf_phase (cc_xfers c' ! i) = AtEnter m" using first(12) by (simp add: at abs) 
  then show "can_turn i c'" using assms(1) by (auto simp: can_turn_def blocked_def xf_wanted_def c' split: option.splits)
  have "conc_turn counting_server i c' = c'\<lparr>cc_xfers := (cc_xfers c')[i := ?s (?s ?p)]\<rparr>"
    using first(10) by (simp add: conc_turn_def at commits abs) (simp add: c')
  then show "\<exists>m. xf_phase (cc_xfers (conc_turn counting_server i c') ! i) = AtLoadSender m"
    using first(13) assms(1) by (simp add: c' abs)
qed

lemma crossing_ready: "ready_to_load sample_db (abs_xfer counting_server (sample_xfer 0 (sample_order 1 2 200 ''a'')))"
  using sample_domain [of 500 ACTIVE 1]
  by (auto simp: ready_to_load_def sample_amount abs_session_uow_def)

lemma layers_moment:
  obtains s m where "(timely_layer_step (seconds 5) 30 counting_server)\<^sup>*\<^sup>* crossing_layers s"
    and "xf_phase (cc_xfers (ly_conc s) ! 0) = AtLoadSender m" and "length (cc_xfers (ly_conc s)) = 2"
proof -
  obtain a b where keys: "lock_keys (uid 1) (uid 2) = [a, b]" "lock_keys (uid 2) (uid 1) = [a, b]" by (rule lock_keys_two)
  have "distinct (lock_keys (uid 1) (uid 2))" by (simp add: uid_inject)
  then have ab: "redis_key a \<noteq> redis_key b" unfolding keys by simp
  let ?c = Concurrent_Properties.crossing and ?q = "Next [redis_key a, redis_key b] []" and ?t = "seconds 30"
  let ?c1 = "conc_turn counting_server 0 ?c"
  let ?c2 = "conc_turn counting_server 0 ?c1"
  let ?at = "\<lambda>e p c. \<lparr>ly_locks = \<lparr>ls_server = \<lparr>rs_expiry = e, rs_now = 0\<rparr>, ls_procs = [p, ?q]\<rparr>, ly_conc = c\<rparr> :: (nat \<times> session) layers"
  let ?e = "[redis_key a \<mapsto> ?t, redis_key b \<mapsto> ?t]" and ?in = "Inside [(redis_key a, ?t), (redis_key b, ?t)]"
  note turn = first_turn [of 0 ?c]
  have ready: "ready_to_load (cc_db ?c) (abs_xfer counting_server (cc_xfers ?c ! 0))" using crossing_ready by simp
  have other: "\<forall>j < length (cc_xfers ?c). j \<noteq> 0 \<longrightarrow> xf_rows (cc_xfers ?c ! j) = {}" by (auto simp: less_Suc_eq)
  have t: "can_turn 0 ?c" "\<exists>m. xf_phase (cc_xfers ?c1 ! 0) = AtEnter m" "can_turn 0 ?c1"
    "\<exists>m. xf_phase (cc_xfers ?c2 ! 0) = AtLoadSender m"
    using turn [OF _ ready other] by simp_all
  have start: "crossing_layers = ?at (\<lambda>_. None) ?q ?c"
    by (simp add: layers_start_def lock_start_def start_proc_def xf_lock_keys_def keys [simplified])
  have enter: "timely_layer_step (seconds 5) 30 counting_server (?at (\<lambda>_. None) ?q ?c) (?at (\<lambda>_. None) ?q ?c1)"
    using layer_step.querying [of 0 "?at (\<lambda>_. None) ?q ?c" "seconds 5" 30 counting_server] t(1)
    by (simp add: timely_layer_step_def timely_def may_query_def)
  obtain m where "xf_phase (cc_xfers ?c1 ! 0) = AtEnter m" using t(2) by blast
  note locks = takes_locks [OF this ab, of ?q counting_server, OF holds.simps(1)]
  have go: "timely_layer_step (seconds 5) 30 counting_server (?at ?e ?in ?c1) (?at ?e ?in ?c2)"
    using layer_step.querying [of 0 "?at ?e ?in ?c1" "seconds 5" 30 counting_server] t(3)
    by (simp add: timely_layer_step_def timely_def may_query_def seconds_def)
  have "(timely_layer_step (seconds 5) 30 counting_server)\<^sup>*\<^sup>* crossing_layers (?at ?e ?in ?c2)"
    unfolding start
    by (rule converse_rtranclp_into_rtranclp [of "timely_layer_step (seconds 5) 30 counting_server", OF enter])
      (rule rtranclp.rtrancl_into_rtrancl [of "timely_layer_step (seconds 5) 30 counting_server", OF locks go])
  moreover have "length (cc_xfers ?c2) = 2" by (simp add: turn_at(1) [of 0 _ 0])
  moreover obtain m' where "xf_phase (cc_xfers ?c2 ! 0) = AtLoadSender m'" using t(4) by blast
  ultimately show thesis by (intro that [of "?at ?e ?in ?c2" m']) simp_all
qed

section \<open>Properties\<close>

text \<open>The invariants of both layers.\<close>

lemma layers_locks_inv:
  assumes "\<forall>p \<in> set (cc_xfers c0). xc_from (xf_call p) \<noteq> xc_to (xf_call p)"
  shows "exclusive_inv (ly_locks (layers_start now c0))" and "lock_inv (ly_locks (layers_start now c0))"
proof -
  have "\<forall>keys \<in> set (map xf_lock_keys (cc_xfers c0)). sorted_wrt (<) keys"
    using assms lock_keys_sorted by (auto simp: xf_lock_keys_def)
  then show "exclusive_inv (ly_locks (layers_start now c0))" "lock_inv (ly_locks (layers_start now c0))"
    unfolding layers_start_def by (simp_all add: exclusive_start lock_inv_start)
qed

text \<open>C9: With both layers, nothing ever waits in the database: while no Redis lock outlives its time to live, at no
  moment of any interleaving is a statement blocked on a row, so the database never has a reason to abort one;
  two transfers inside their units of work never share an account, and each of them can always go on at once.\<close>

theorem layers_never_wait:
  assumes "server_laws refuse V" and "conc_start V d c0" and "db_valid d" and "fresh_ids d c0"
    and "\<forall>p \<in> set (cc_xfers c0). xc_from (xf_call p) \<noteq> xc_to (xf_call p)"
    and "(timely_layer_step wait ttl V)\<^sup>*\<^sup>* (layers_start now c0) s"
  shows "(\<forall>i < length (cc_xfers (ly_conc s)). \<not> blocked i (ly_conc s) \<and>
      (in_transaction (xf_phase (cc_xfers (ly_conc s) ! i)) \<longrightarrow> can_turn i (ly_conc s))) \<and>
    (\<forall>i < length (cc_xfers (ly_conc s)). \<forall>j < length (cc_xfers (ly_conc s)). i \<noteq> j \<longrightarrow>
      in_transaction (xf_phase (cc_xfers (ly_conc s) ! i)) \<longrightarrow> in_transaction (xf_phase (cc_xfers (ly_conc s) ! j)) \<longrightarrow>
      xf_accounts (cc_xfers (ly_conc s) ! i) \<inter> xf_accounts (cc_xfers (ly_conc s) ! j) = {})"
proof -
  let ?c = "ly_conc s"
  have inv: "layers_inv s"
    by (rule layers_inv_reachable [OF timely_layers [OF assms(6)] layers_inv_start [OF assms(2)]])
  have "exclusive_inv (ly_locks s)"
    by (rule exclusive_reachable [OF timely_locks [OF assms(6)] layers_locks_inv(1) [OF assms(5)]])
  then have excl: "exclusive (ly_locks s)" by (simp add: exclusive_inv_def)
  note apart = layers_disjoint [OF inv excl]
  have "(conc_step V)\<^sup>*\<^sup>* c0 ?c" using layers_conc [OF timely_layers [OF assms(6)]] by (simp add: layers_start_def)
  note conc = lawful_inv [OF assms(1-4) this]
  have free: "\<not> blocked i ?c" if i: "i < length (cc_xfers ?c)" for i
  proof
    assume "blocked i ?c"
    then have "blocked i (abs_conc V ?c)" using i by (simp add: abs_blocked)
    from blocked_on [OF conc this] i obtain j where "j < length (cc_xfers ?c)" "j \<noteq> i"
      "in_transaction (xf_phase (cc_xfers ?c ! i))" "in_transaction (xf_phase (cc_xfers ?c ! j))"
      "xf_accounts (cc_xfers ?c ! i) \<inter> xf_accounts (cc_xfers ?c ! j) \<noteq> {}" by auto
    with apart [OF i] show False by blast
  qed
  have "\<not> finished_phase ph" if "in_transaction ph" for ph using that by (cases ph) auto
  with free apart show ?thesis by (auto simp: can_turn_def)
qed

lemma layers_never_wait_witness:
  "\<exists>s m. (timely_layer_step (seconds 5) 30 counting_server)\<^sup>*\<^sup>* crossing_layers s \<and>
    xf_phase (cc_xfers (ly_conc s) ! 0) = AtLoadSender m \<and> can_turn 0 (ly_conc s) \<and> \<not> blocked 1 (ly_conc s)"
proof -
  obtain s m where s: "(timely_layer_step (seconds 5) 30 counting_server)\<^sup>*\<^sup>* crossing_layers s"
    "xf_phase (cc_xfers (ly_conc s) ! 0) = AtLoadSender m" "length (cc_xfers (ly_conc s)) = 2" by (rule layers_moment)
  have "\<forall>p \<in> set (cc_xfers Concurrent_Properties.crossing). xc_from (xf_call p) \<noteq> xc_to (xf_call p)" by (simp add: uid_inject)
  from layers_never_wait [OF counting_server_lawful beside_start sample_valid beside_ids this s(1)] s show ?thesis by auto
qed

text \<open>C10: With both layers, nobody is stuck: from every moment of every interleaving, also after locks have expired,
  one retry interval (50 ms) is enough for every transfer to answer, aborting a waiting statement where rows
  are contended; and every transfer that has not given up its locks before gets them.\<close>

theorem layers_all_answer:
  assumes "conc_start V d c0" and "\<forall>p \<in> set (cc_xfers c0). xc_from (xf_call p) \<noteq> xc_to (xf_call p)"
    and "(layer_step wait ttl V)\<^sup>*\<^sup>* (layers_start now c0) s"
  shows "\<exists>s'. (layer_step wait ttl V)\<^sup>*\<^sup>* s s' \<and>
    rs_now (ls_server (ly_locks s')) = rs_now (ls_server (ly_locks s)) + retry_interval \<and>
    length (cc_xfers (ly_conc s')) = length (cc_xfers c0) \<and>
    (\<forall>i < length (cc_xfers c0). answered (xf_phase (cc_xfers (ly_conc s') ! i)) (ls_procs (ly_locks s') ! i) \<and>
      (gave_up (ls_procs (ly_locks s') ! i) \<longrightarrow> gave_up (ls_procs (ly_locks s) ! i)))"
proof -
  have inv: "layers_inv s" by (rule layers_inv_reachable [OF assms(3) layers_inv_start [OF assms(1)]])
  have "(lock_step wait ttl)\<^sup>*\<^sup>* (ly_locks (layers_start now c0)) (ly_locks s)" by (rule layers_locks [OF assms(3)])
  then have linv: "lock_inv (ly_locks s)" by (rule lock_inv_reachable) (rule layers_locks_inv(2) [OF assms(2)])
  have "(conc_step V)\<^sup>*\<^sup>* c0 (ly_conc s)" using layers_conc [OF assms(3)] by (simp add: layers_start_def)
  then have "length (cc_xfers (ly_conc s)) = length (cc_xfers c0)"
    by (induction rule: rtranclp_induct) (auto dest: conc_step_rank)
  with layers_can_finish [OF inv linv, of wait ttl V] show ?thesis by simp
qed

lemma layers_all_answer_witness:
  "\<exists>s s' m. (layer_step (seconds 5) 30 counting_server)\<^sup>*\<^sup>* crossing_layers s \<and>
    xf_phase (cc_xfers (ly_conc s) ! 0) = AtLoadSender m \<and> (layer_step (seconds 5) 30 counting_server)\<^sup>*\<^sup>* s s' \<and>
    answered (xf_phase (cc_xfers (ly_conc s') ! 0)) (ls_procs (ly_locks s') ! 0) \<and>
    answered (xf_phase (cc_xfers (ly_conc s') ! 1)) (ls_procs (ly_locks s') ! 1)"
proof -
  obtain s m where s: "(timely_layer_step (seconds 5) 30 counting_server)\<^sup>*\<^sup>* crossing_layers s"
    "xf_phase (cc_xfers (ly_conc s) ! 0) = AtLoadSender m" by (rule layers_moment)
  have ne: "\<forall>p \<in> set (cc_xfers Concurrent_Properties.crossing). xc_from (xf_call p) \<noteq> xc_to (xf_call p)" by (simp add: uid_inject)
  obtain s' where s': "(layer_step (seconds 5) 30 counting_server)\<^sup>*\<^sup>* s s'"
    "\<forall>i < length (cc_xfers Concurrent_Properties.crossing).
      answered (xf_phase (cc_xfers (ly_conc s') ! i)) (ls_procs (ly_locks s') ! i)"
    using layers_all_answer [OF beside_start ne timely_layers [OF s(1)]] by blast
  from s'(2) have "answered (xf_phase (cc_xfers (ly_conc s') ! i)) (ls_procs (ly_locks s') ! i)" if "i < 2" for i
    using that by simp
  with timely_layers [OF s(1)] s(2) s'(1) show ?thesis by force
qed

end
