(* ===== verification/Engine.thy ===== *)
theory Engine
  imports Settings Postgres
begin

text \<open>
  What the application hands to SQLAlchemy and Redis when it starts (\<open>src/infrastructure/database/engine.py\<close>,
  the providers of \<open>src/infrastructure/containers/container.py\<close>), and the per-request session of
  \<open>get_db_session\<close>. The engine, the session factory and the client are third-party objects: the model keeps the
  arguments the code builds them with.
\<close>

section \<open>Engine, session factory and client\<close>

record engine_options =
  eo_url :: string
  eo_pool_size :: int
  eo_max_overflow :: int
  eo_pool_pre_ping :: bool
  eo_echo :: bool

definition build_engine :: "settings \<Rightarrow> engine_options" where
  "build_engine s = \<lparr>eo_url = database_url (st_database s), eo_pool_size = db_pool_size (st_database s),
     eo_max_overflow = db_max_overflow (st_database s), eo_pool_pre_ping = True, eo_echo = st_debug s\<rparr>"

record session_options =
  so_bind :: engine_options
  so_expire_on_commit :: bool
  so_autoflush :: bool
  so_autocommit :: bool

definition build_session_factory :: "engine_options \<Rightarrow> session_options" where
  "build_session_factory engine = \<lparr>so_bind = engine, so_expire_on_commit = False, so_autoflush = False, so_autocommit = False\<rparr>"

text \<open>The container's \<open>redis_client\<close>: the URL and \<open>decode_responses\<close>.\<close>

definition redis_client_arguments :: "settings \<Rightarrow> string \<times> bool" where
  "redis_client_arguments s = (redis_url (st_redis s), True)"

section \<open>A session per request\<close>

text \<open>\<open>try: m finally: fin\<close>.\<close>

definition finallyP :: "('s, 'e, 'a) prog \<Rightarrow> ('s, 'e, unit) prog \<Rightarrow> ('s, 'e, 'a) prog" where
  "finallyP m fin = withP (returnP ()) (\<lambda>_ _. fin) (\<lambda>_. m)"

text \<open>\<open>get_db_session\<close> around the code that uses the session it yields.\<close>

definition get_db_session :: "'d session_port \<Rightarrow> ('d, exn, 'a) prog \<Rightarrow> ('d, exn, 'a) prog" where
  "get_db_session S body =
     withP (s_open S) (\<lambda>_ _. s_close S) (\<lambda>_.
       finallyP (tryP (bindP body (\<lambda>x. thenP (s_commit S) (returnP x)))
                      (\<lambda>e. thenP (s_rollback S) (raiseP e)))
                (s_close S))"

lemma session_laws_step:
  assumes "session_laws refuse S f"
  shows "\<exists>d'. s_open S d = (Inr (), d') \<and> f d' = fresh_session (ss_stored (f d))"
    and "\<exists>d'. s_close S d = (Inr (), d') \<and> f d' = fresh_session (ss_stored (f d))"
    and "\<exists>d'. s_rollback S d = (Inr (), d') \<and> f d' = fresh_session (ss_stored (f d))"
    and "\<exists>d'. s_commit S d = (if db_valid (session_result (f d)) then Inr () else Inl (refuse (session_result (f d))), d') \<and>
      f d' = (if db_valid (session_result (f d)) then fresh_session (session_result (f d)) else f d)"
proof -
  have law: "simulates f (s_open S) (s_open (reference_session refuse))" "simulates f (s_close S) (s_close (reference_session refuse))"
    "simulates f (s_rollback S) (s_rollback (reference_session refuse))" "simulates f (s_commit S) (s_commit (reference_session refuse))"
    using assms by (simp_all add: session_laws_def)
  show "\<exists>d'. s_open S d = (Inr (), d') \<and> f d' = fresh_session (ss_stored (f d))"
    using simulatesD [OF law(1), of d] by (cases "s_open S d") auto
  show "\<exists>d'. s_close S d = (Inr (), d') \<and> f d' = fresh_session (ss_stored (f d))"
    using simulatesD [OF law(2), of d] by (cases "s_close S d") auto
  show "\<exists>d'. s_rollback S d = (Inr (), d') \<and> f d' = fresh_session (ss_stored (f d))"
    using simulatesD [OF law(3), of d] by (cases "s_rollback S d") auto
  show "\<exists>d'. s_commit S d = (if db_valid (session_result (f d)) then Inr () else Inl (refuse (session_result (f d))), d') \<and>
      f d' = (if db_valid (session_result (f d)) then fresh_session (session_result (f d)) else f d)"
    using simulatesD [OF law(4), of d] by (cases "s_commit S d") (auto split: if_splits)
qed

text \<open>A request's session is all or nothing: what the request raises, or a commit the database refuses, goes on to the
  caller with nothing stored; otherwise everything the request changed is stored. Afterwards nothing is pending.\<close>

theorem get_db_session_atomic:
  assumes laws: "session_laws refuse S f" and body: "keeps (\<lambda>d. ss_stored (f d)) body"
    and opened: "s_open S d = (Inr (), d0)" and run: "body d0 = (x, d1)"
  shows "\<exists>d'. get_db_session S body d =
      ((case x of
          Inl e \<Rightarrow> Inl e
        | Inr v \<Rightarrow> if db_valid (session_result (f d1)) then Inr v else Inl (refuse (session_result (f d1)))), d') \<and>
    f d' = fresh_session (if db_valid (session_result (f d1)) \<and> (\<exists>v. x = Inr v) then session_result (f d1) else ss_stored (f d))"
proof -
  note step = session_laws_step [OF laws]
  have "f d0 = fresh_session (ss_stored (f d))" using step(1) [of d] opened by auto
  with keepsD [OF body, of d0] run have d1: "ss_stored (f d1) = ss_stored (f d)" by simp
  obtain c where commit: "s_commit S d1 = (if db_valid (session_result (f d1)) then Inr () else Inl (refuse (session_result (f d1))), c)"
    and fc: "f c = (if db_valid (session_result (f d1)) then fresh_session (session_result (f d1)) else f d1)"
    using step(4) by blast
  obtain b where undone: "s_rollback S d1 = (Inr (), b)" "f b = fresh_session (ss_stored (f d1))" using step(3) by blast
  obtain b' where undone': "s_rollback S c = (Inr (), b')" "f b' = fresh_session (ss_stored (f c))" using step(3) by blast
  have closed: "\<exists>u v. s_close S s = (Inr (), u) \<and> s_close S u = (Inr (), v) \<and> f v = fresh_session (ss_stored (f s))" for s
    using step(2) by (metis fresh_session_simps(1))
  show ?thesis
    using run opened commit undone undone' closed [of b] closed [of b'] closed [of c] d1 fc
    by (cases x) (auto simp: get_db_session_def finallyP_def withP_apply thenP_apply bindP_apply tryP_apply returnP_apply
        raiseP_apply)
qed

end
