(* ===== verification/Startup.thy ===== *)
theory Startup
  imports Logging Engine
begin

text \<open>
  Starting and stopping: \<open>create_app\<close> and \<open>lifespan\<close> of \<open>src/main.py\<close> and the Redis client of
  \<open>src/infrastructure/cache/redis.py\<close>, which the container opens when a service first needs it.

  \<^item> \<open>process\<close> is what these change: the logging configuration, the container's wiring, the client that is open, and
    the log calls made so far.
  \<^item> The generator \<open>build_redis_client\<close> is a resource of the container: the part before its \<open>yield\<close> runs on the
    first use, the part after it in \<open>shutdown_resources\<close>.
\<close>

section \<open>The application object\<close>

datatype http_method = GET | POST

record router =
  ro_prefix :: string
  ro_routes :: "(http_method \<times> string \<times> nat) list"

definition health_router :: router where
  "health_router = \<lparr>ro_prefix = [], ro_routes = [(GET, ''/health'', 200)]\<rparr>"

definition auth_router :: router where
  "auth_router = \<lparr>ro_prefix = ''/auth'', ro_routes = [(POST, ''/dev-token'', 200)]\<rparr>"

definition accounts_router :: router where
  "accounts_router = \<lparr>ro_prefix = ''/accounts'', ro_routes = [(POST, [], 201), (GET, ''/{account_id}'', 200)]\<rparr>"

definition transactions_router :: router where
  "transactions_router = \<lparr>ro_prefix = ''/transactions'',
     ro_routes = [(POST, ''/transfer'', 202), (GET, ''/{transaction_id}'', 200)]\<rparr>"

record fastapi =
  fa_title :: string
  fa_version :: string
  fa_middleware :: "string list"
  fa_routers :: "router list"
  fa_exception_handlers :: bool

definition create_app :: fastapi where
  "create_app = \<lparr>fa_title = ''Banking Transaction System'', fa_version = ''0.1.0'', fa_middleware = [''RequestIdMiddleware''],
     fa_routers = [health_router, auth_router, accounts_router, transactions_router], fa_exception_handlers = True\<rparr>"

section \<open>The process\<close>

record process =
  pr_logging :: logging
  pr_config :: "settings option"
  pr_wired :: "string list"
  pr_redis :: "(string \<times> bool) option"
  pr_logged :: "log_call list"

definition on_logging :: "(logging, exn, 'a) prog \<Rightarrow> (process, exn, 'a) prog" where
  "on_logging m = (\<lambda>p. case m (pr_logging p) of (x, g) \<Rightarrow> (x, p\<lparr>pr_logging := g\<rparr>))"

definition main_call :: "event_dict \<Rightarrow> log_call" where
  "main_call event = get_logger ''src.main'' 20 event"

definition main_log :: "event_dict \<Rightarrow> (process, exn, unit) prog" where
  "main_log event = modifyP (\<lambda>p. p\<lparr>pr_logged := pr_logged p @ [main_call event]\<rparr>)"

definition wired_modules :: "string list" where
  "wired_modules = [''src.adapters.inbound.http.routers.accounts'', ''src.adapters.inbound.http.routers.transactions'',
     ''src.adapters.inbound.http.routers.auth'']"

definition wire_container :: "settings \<Rightarrow> (process, exn, unit) prog" where
  "wire_container S = thenP (modifyP (\<lambda>p. p\<lparr>pr_config := Some S\<rparr>))
     (modifyP (\<lambda>p. p\<lparr>pr_wired := wired_modules\<rparr>))"

text \<open>\<open>build_redis_client\<close> up to its \<open>yield\<close>, once, and after it.\<close>

definition open_redis :: "settings \<Rightarrow> (process, exn, unit) prog" where
  "open_redis S = modifyP (\<lambda>p. case pr_redis p of
       None \<Rightarrow> p\<lparr>pr_redis := Some (redis_client_arguments S)\<rparr> | Some client \<Rightarrow> p)"

definition close_redis :: "(process, exn, unit) prog" where
  "close_redis = modifyP (\<lambda>p. p\<lparr>pr_redis := None\<rparr>)"

definition shutdown_resources :: "(process, exn, unit) prog" where
  "shutdown_resources = bindP (getP pr_redis) (\<lambda>client. case client of None \<Rightarrow> returnP () | Some _ \<Rightarrow> close_redis)"

text \<open>\<open>lifespan\<close> around the serving of requests, which happens at its \<open>yield\<close>; an exception there ends it.\<close>

definition lifespan :: "settings \<Rightarrow> (process, exn, 'a) prog \<Rightarrow> (process, exn, 'a) prog" where
  "lifespan S serving =
     thenP (on_logging (setup_logging (log_level_value (os_log_level (st_observability S)))
        (os_log_format (st_observability S) = JsonLogs)))
    (thenP (wire_container S)
    (thenP (main_log [''event'' \<mapsto> ''application_started'', ''version'' \<mapsto> ''0.1.0''])
    (bindP serving (\<lambda>x.
     thenP (main_log [''event'' \<mapsto> ''application_shutting_down''])
    (thenP shutdown_resources (returnP x))))))"

section \<open>What the configuration does\<close>

text \<open>The loggers the application quietens.\<close>

abbreviation quiet_loggers :: "string list" where
  "quiet_loggers \<equiv> [''sqlalchemy.engine'', ''uvicorn.access'']"

definition log_threshold :: "observability_settings \<Rightarrow> string \<Rightarrow> int" where
  "log_threshold obs name = (if \<exists>p \<in> set quiet_loggers. below p name then level_warning else level_number (os_log_level obs))"

text \<open>A logger that nobody else has configured: on it and on the loggers between it and the root there is no level but that
  of the quiet loggers, no handler, and nothing stops a record.\<close>

definition plain_logger :: "logging \<Rightarrow> string \<Rightarrow> bool" where
  "plain_logger g name \<longleftrightarrow> (\<forall>n. n \<noteq> [] \<longrightarrow> below n name \<longrightarrow>
     (n \<in> set quiet_loggers \<or> lg_levels g n = 0) \<and> lg_handlers g n = [] \<and> lg_propagate g n)"

definition logging_result :: "observability_settings \<Rightarrow> logging \<Rightarrow> logging" where
  "logging_result obs g = g\<lparr>lg_levels := (lg_levels g)([] := level_number (os_log_level obs),
       ''sqlalchemy.engine'' := level_warning, ''uvicorn.access'' := level_warning),
     lg_handlers := (lg_handlers g)([] := lg_handlers g [] @ [StdoutHandler (log_formatter (os_log_format obs = JsonLogs))]),
     lg_structlog := \<lparr>sc_processors = shared_processors @ [WrapForFormatter], sc_logger_factory = ''structlog.stdlib.LoggerFactory'',
       sc_wrapper_class = ''structlog.stdlib.BoundLogger'', sc_cache_logger_on_first_use = True\<rparr>\<rparr>"

lemma setup_logging_run:
  "setup_logging (log_level_value (os_log_level obs)) (os_log_format obs = JsonLogs) g = (Inr (), logging_result obs g)"
  by (simp add: setup_logging_def structlog_configure_def set_level_def add_handler_def check_level_value logging_result_def thenP_apply
      bindP_apply liftP_apply modifyP_apply)

text \<open>The process when the first request comes.\<close>

definition started :: "settings \<Rightarrow> process \<Rightarrow> process" where
  "started S p = p\<lparr>pr_logging := logging_result (st_observability S) (pr_logging p), pr_config := Some S, pr_wired := wired_modules,
     pr_logged := pr_logged p @ [main_call [''event'' \<mapsto> ''application_started'', ''version'' \<mapsto> ''0.1.0'']]\<rparr>"

lemma result_level:
  assumes "plain_logger g name"
  shows "effective_level (lg_levels (logging_result obs g)) name = log_threshold obs name"
proof -
  let ?levels = "lg_levels (logging_result obs g)"
  have "?levels n = (if n \<in> set quiet_loggers then level_warning else 0)" if "n \<noteq> []" "below n name" for n
  proof -
    have "n \<in> set quiet_loggers \<or> lg_levels g n = 0" using assms that unfolding plain_logger_def by blast
    with that(1) show ?thesis by (auto simp: logging_result_def)
  qed
  moreover have "?levels [] = level_number (os_log_level obs)" "level_warning \<noteq> 0" "\<forall>p \<in> set quiet_loggers. p \<noteq> []"
    by (simp_all add: logging_result_def level_warning_def)
  ultimately show ?thesis
    unfolding log_threshold_def by (intro effective_level_path) blast+
qed

lemma result_handlers:
  assumes "plain_logger g name"
  shows "reached_handlers (logging_result obs g) name =
    lg_handlers g [] @ [StdoutHandler (log_formatter (os_log_format obs = JsonLogs))]"
proof -
  have "reached_handlers (logging_result obs g) name = lg_handlers (logging_result obs g) []"
    using assms unfolding plain_logger_def by (intro reached_handlers_path) (simp add: logging_result_def)
  then show ?thesis by (simp add: logging_result_def)
qed

lemma result_quiet:
  assumes "name \<in> set quiet_loggers"
  shows "effective_level (lg_levels (logging_result obs g)) name = level_warning"
proof -
  have "lg_levels (logging_result obs g) name = level_warning" using assms by (auto simp: logging_result_def)
  then show ?thesis
    by (simp add: effective_level.simps [of "lg_levels (logging_result obs g)" name] level_warning_def)
qed

text \<open>What the chain makes of an event, the same for the program's calls and for those of libraries.\<close>

definition line_dict :: "processors \<Rightarrow> event_dict \<Rightarrow> log_call \<Rightarrow> processor \<Rightarrow> event_dict" where
  "line_dict run ctx c renderer =
     fold (run ctx c) ([AddLogLevel, AddLoggerName, TimeStamper ''iso'' True, FormatExcInfo] @
       (if lc_structlog c then [WrapForFormatter] else []) @ [RemoveProcessorsMeta, renderer]) (ctx ++ lc_event c)"

lemma run_keeps:
  assumes "processor_laws run" and "\<forall>p \<in> set ps. p \<noteq> MergeContextvars \<and> k \<notin> touched p"
  shows "fold (run ctx c) ps d k = d k"
  using assms by (induction ps arbitrary: d) (auto simp: processor_laws_def)

lemma line_dict_keys:
  assumes laws: "processor_laws run" and json: "renderer = JSONRenderer \<or> renderer = ConsoleRenderer b"
  shows "line_dict run ctx c renderer ''logger'' = Some (lc_logger c)"
    and "k \<notin> {''level'', ''logger'', ''timestamp'', ''exc_info'', ''exception'', ''_record'', ''_from_structlog''} \<Longrightarrow>
      line_dict run ctx c renderer k = (ctx ++ lc_event c) k"
proof -
  let ?rest = "[TimeStamper ''iso'' True, FormatExcInfo] @ (if lc_structlog c then [WrapForFormatter] else []) @
      [RemoveProcessorsMeta, renderer]"
  have split: "line_dict run ctx c renderer =
      fold (run ctx c) ?rest (run ctx c AddLoggerName (run ctx c AddLogLevel (ctx ++ lc_event c)))"
    by (simp add: line_dict_def)
  have "fold (run ctx c) ?rest d ''logger'' = d ''logger''" for d
    by (rule run_keeps [OF laws]) (use json in auto)
  then show "line_dict run ctx c renderer ''logger'' = Some (lc_logger c)"
    unfolding split using laws by (simp add: processor_laws_def)
  show "line_dict run ctx c renderer k = (ctx ++ lc_event c) k"
    if "k \<notin> {''level'', ''logger'', ''timestamp'', ''exc_info'', ''exception'', ''_record'', ''_from_structlog''}"
    unfolding line_dict_def by (rule run_keeps [OF laws]) (use json that in auto)
qed

lemma result_lines:
  assumes laws: "processor_laws run" and plain: "plain_logger g (lc_logger c)" and loud: "\<not> lc_level c < log_threshold obs (lc_logger c)"
  shows "\<exists>before. length before = length (lg_handlers g []) \<and> log_lines run (logging_result obs g) ctx c = before @
    [Line (log_renderer (os_log_format obs = JsonLogs)) (line_dict run ctx c (log_renderer (os_log_format obs = JsonLogs)))]"
proof -
  have "run ctx c MergeContextvars d = ctx ++ d" for d using laws by (simp add: processor_laws_def)
  then have "fold (run ctx c) (call_chain (logging_result obs g) c (log_formatter j)) (lc_event c) = line_dict run ctx c (log_renderer j)"
    "last (call_chain (logging_result obs g) c (log_formatter j)) = log_renderer j" for j
    by (auto simp: call_chain_def logging_result_def log_formatter_def shared_processors_def line_dict_def)
  then show ?thesis
    using loud result_level [OF plain] result_handlers [OF plain, of obs] by (cases "lg_handlers g []") (auto simp: log_lines_def)
qed

end
