(* ===== verification/Migration_Runner.thy ===== *)
theory Migration_Runner
  imports Schema Engine
begin

text \<open>
  Running the migrations: \<open>alembic/env.py\<close>, which Alembic executes for each of its commands.

  \<^item> Alembic's context and SQLAlchemy's engine are a parameter, \<open>alembic_port\<close>; \<open>alembic_laws\<close> states their documented
    behaviour by comparison with \<open>reference_alembic\<close>: migrations run against what the context was configured with, in
    one transaction, from the revision stored in the database to the newest.
  \<^item> Online a migration changes the database of the connection; offline it is written as a script and needs none.
\<close>

section \<open>Alembic\<close>

text \<open>The arguments of \<open>context.configure\<close>; None: not given.\<close>

datatype target = ScriptFor string | OnConnection

record configure_options =
  cf_target :: target
  cf_metadata :: "table list"
  cf_literal_binds :: "bool option"
  cf_paramstyle :: "string option"
  cf_compare_server_default :: bool
  cf_compare_type :: "bool option"
  cf_include_schemas :: bool

text \<open>The arguments of \<open>async_engine_from_config\<close>: the section of \<open>alembic.ini\<close> and the pool.\<close>

record engine_config =
  ec_options :: "string \<rightharpoonup> string"
  ec_prefix :: string
  ec_poolclass :: string

record 'd alembic_port =
  al_section :: "'d \<Rightarrow> string \<rightharpoonup> string"
  al_configure :: "configure_options \<Rightarrow> ('d, exn, unit) prog"
  al_begin :: "('d, exn, unit) prog"
  al_end :: "exn option \<Rightarrow> ('d, exn, unit) prog"
  al_run :: "('d, exn, unit) prog"
  al_connect :: "engine_config \<Rightarrow> ('d, exn, unit) prog"
  al_disconnect :: "exn option \<Rightarrow> ('d, exn, unit) prog"
  al_dispose :: "('d, exn, unit) prog"

section \<open>env.py\<close>

text \<open>\<open>Base.metadata\<close> after the models have been imported.\<close>

definition target_metadata :: "table list" where
  "target_metadata = map declared [account_model, transaction_model, outbox_model]"

definition get_url :: "settings \<Rightarrow> string" where
  "get_url S = database_url (st_database S)"

definition run_migrations_offline :: "'d alembic_port \<Rightarrow> settings \<Rightarrow> ('d, exn, unit) prog" where
  "run_migrations_offline P S =
     thenP (al_configure P \<lparr>cf_target = ScriptFor (get_url S), cf_metadata = target_metadata, cf_literal_binds = Some True,
        cf_paramstyle = Some ''named'', cf_compare_server_default = True, cf_compare_type = None, cf_include_schemas = False\<rparr>)
     (withP (al_begin P) (\<lambda>_. al_end P) (\<lambda>_. al_run P))"

definition do_run_migrations :: "'d alembic_port \<Rightarrow> ('d, exn, unit) prog" where
  "do_run_migrations P =
     thenP (al_configure P \<lparr>cf_target = OnConnection, cf_metadata = target_metadata, cf_literal_binds = None,
        cf_paramstyle = None, cf_compare_server_default = True, cf_compare_type = Some True, cf_include_schemas = False\<rparr>)
     (withP (al_begin P) (\<lambda>_. al_end P) (\<lambda>_. al_run P))"

definition run_async_migrations :: "'d alembic_port \<Rightarrow> settings \<Rightarrow> ('d, exn, unit) prog" where
  "run_async_migrations P S =
     bindP (getP (al_section P)) (\<lambda>configuration.
     thenP (withP (al_connect P \<lparr>ec_options = configuration(''sqlalchemy.url'' \<mapsto> get_url S), ec_prefix = ''sqlalchemy.'',
                      ec_poolclass = ''NullPool''\<rparr>)
                  (\<lambda>_. al_disconnect P) (\<lambda>_. do_run_migrations P))
           (al_dispose P))"

definition run_env :: "'d alembic_port \<Rightarrow> settings \<Rightarrow> bool \<Rightarrow> ('d, exn, unit) prog" where
  "run_env P S offline = (if offline then run_migrations_offline P S else run_async_migrations P S)"

section \<open>The reference\<close>

text \<open>A database as Alembic sees it: its tables and types, and the revision it stores.\<close>

record migrated_db =
  sd_schema :: schema
  sd_revision :: "string option"

definition revision :: string where
  "revision = ''b37c84eb92ca''"

record migration_world =
  mw_section :: "string \<rightharpoonup> string"
  mw_databases :: "string \<Rightarrow> migrated_db"
  mw_script :: "migration_op list"
  mw_engine :: "string option"
  mw_connection :: "string option"
  mw_context :: "target option"
  mw_work :: "migrated_db option"

text \<open>\<open>alembic upgrade head\<close>: the statements run on the transaction's copy of the database. A failure raises what
  \<open>refuse\<close> says.\<close>

definition upgrade_head :: "exn \<Rightarrow> migrated_db \<Rightarrow> exn + migrated_db" where
  "upgrade_head refuse d = (case sd_revision d of
       Some r \<Rightarrow> if r = revision then Inr d else Inl refuse
     | None \<Rightarrow> (case run_migration upgrade (sd_schema d) of
          None \<Rightarrow> Inl refuse
        | Some s \<Rightarrow> Inr \<lparr>sd_schema = s, sd_revision = Some revision\<rparr>))"

definition reference_run :: "exn \<Rightarrow> (migration_world, exn, unit) prog" where
  "reference_run refuse w = (case mw_context w of
       None \<Rightarrow> (Inl refuse, w)
     | Some (ScriptFor url) \<Rightarrow> (Inr (), w\<lparr>mw_script := mw_script w @ upgrade\<rparr>)
     | Some OnConnection \<Rightarrow> (case mw_work w of
          None \<Rightarrow> (Inl refuse, w)
        | Some d \<Rightarrow> (case upgrade_head refuse d of
             Inl e \<Rightarrow> (Inl e, w)
           | Inr d' \<Rightarrow> (Inr (), w\<lparr>mw_work := Some d'\<rparr>))))"

definition reference_end :: "exn option \<Rightarrow> migration_world \<Rightarrow> migration_world" where
  "reference_end e w = (case (mw_connection w, mw_work w, e) of
       (Some url, Some d, None) \<Rightarrow> w\<lparr>mw_databases := (mw_databases w)(url := d), mw_work := None\<rparr>
     | _ \<Rightarrow> w\<lparr>mw_work := None\<rparr>)"

definition reference_connect :: "exn \<Rightarrow> (string \<Rightarrow> bool) \<Rightarrow> engine_config \<Rightarrow> (migration_world, exn, unit) prog" where
  "reference_connect refuse reachable c w = (case ec_options c (ec_prefix c @ ''url'') of
       None \<Rightarrow> (Inl refuse, w)
     | Some url \<Rightarrow> (if reachable url then (Inr (), w\<lparr>mw_engine := Some url, mw_connection := Some url\<rparr>)
         else (Inl refuse, w\<lparr>mw_engine := Some url\<rparr>)))"

definition reference_alembic :: "exn \<Rightarrow> (string \<Rightarrow> bool) \<Rightarrow> migration_world alembic_port" where
  "reference_alembic refuse reachable = \<lparr>al_section = mw_section,
     al_configure = (\<lambda>opts. modifyP (\<lambda>w. w\<lparr>mw_context := Some (cf_target opts)\<rparr>)),
     al_begin = modifyP (\<lambda>w. w\<lparr>mw_work := map_option (mw_databases w) (mw_connection w)\<rparr>),
     al_end = (\<lambda>e. modifyP (reference_end e)),
     al_run = reference_run refuse,
     al_connect = reference_connect refuse reachable,
     al_disconnect = (\<lambda>_. modifyP (\<lambda>w. w\<lparr>mw_connection := None\<rparr>)),
     al_dispose = modifyP (\<lambda>w. w\<lparr>mw_engine := None\<rparr>)\<rparr>"

definition alembic_laws :: "exn \<Rightarrow> (string \<Rightarrow> bool) \<Rightarrow> 'd alembic_port \<Rightarrow> ('d \<Rightarrow> migration_world) \<Rightarrow> bool" where
  "alembic_laws refuse reachable P view \<longleftrightarrow> (let R = reference_alembic refuse reachable in
     (\<forall>d. al_section P d = mw_section (view d)) \<and>
     (\<forall>opts. simulates view (al_configure P opts) (al_configure R opts)) \<and>
     simulates view (al_begin P) (al_begin R) \<and>
     (\<forall>e. simulates view (al_end P e) (al_end R e)) \<and>
     simulates view (al_run P) (al_run R) \<and>
     (\<forall>c. simulates view (al_connect P c) (al_connect R c)) \<and>
     (\<forall>e. simulates view (al_disconnect P e) (al_disconnect R e)) \<and>
     simulates view (al_dispose P) (al_dispose R))"

lemma run_env_simulates:
  assumes "alembic_laws refuse reachable P view"
  shows "simulates view (run_env P S offline) (run_env (reference_alembic refuse reachable) S offline)"
proof -
  have laws: "\<And>opts. simulates view (al_configure P opts) (al_configure (reference_alembic refuse reachable) opts)"
    "simulates view (al_begin P) (al_begin (reference_alembic refuse reachable))"
    "\<And>e. simulates view (al_end P e) (al_end (reference_alembic refuse reachable) e)"
    "simulates view (al_run P) (al_run (reference_alembic refuse reachable))"
    "\<And>c. simulates view (al_connect P c) (al_connect (reference_alembic refuse reachable) c)"
    "\<And>e. simulates view (al_disconnect P e) (al_disconnect (reference_alembic refuse reachable) e)"
    "simulates view (al_dispose P) (al_dispose (reference_alembic refuse reachable))"
    using assms by (simp_all add: alembic_laws_def Let_def)
  have "simulates view (getP (al_section P)) (getP (al_section (reference_alembic refuse reachable)))"
    using assms by (auto intro!: simulatesI simp: alembic_laws_def getP_apply reference_alembic_def Let_def)
  with laws show ?thesis
    unfolding run_env_def run_migrations_offline_def run_async_migrations_def do_run_migrations_def
    by (auto intro!: simulates_thenP simulates_bindP simulates_withP)
qed

lemmas env_defs = run_env_def run_migrations_offline_def run_async_migrations_def do_run_migrations_def
  reference_alembic_def bindP_apply thenP_apply withP_apply getP_apply modifyP_apply returnP_apply raiseP_apply

text \<open>Online, with no connection open before.\<close>

lemma reference_online:
  assumes "mw_connection w = None" and "reachable (get_url S)"
  shows "run_env (reference_alembic refuse reachable) S False w =
    (let url = get_url S; w1 = w\<lparr>mw_context := Some OnConnection, mw_work := None, mw_connection := None\<rparr> in
     case upgrade_head refuse (mw_databases w url) of
       Inl e \<Rightarrow> (Inl e, w1\<lparr>mw_engine := Some url\<rparr>)
     | Inr d \<Rightarrow> (Inr (), w1\<lparr>mw_databases := (mw_databases w)(url := d), mw_engine := None\<rparr>))"
  using assms
  by (cases "upgrade_head refuse (mw_databases w (get_url S))")
    (simp_all add: env_defs reference_connect_def reference_run_def reference_end_def Let_def)

lemma reference_offline:
  assumes "mw_connection w = None"
  shows "run_env (reference_alembic refuse reachable) S True w =
    (Inr (), w\<lparr>mw_context := Some (ScriptFor (get_url S)), mw_work := None, mw_script := mw_script w @ upgrade\<rparr>)"
  using assms by (simp add: env_defs reference_run_def reference_end_def)

end
