(* ===== verification/Startup_Properties.thy ===== *)
theory Startup_Properties
  imports Startup Migration_Runner Http Samples
begin

text \<open>The properties of logging, start-up and the migration runner, with witnesses.\<close>

section \<open>Logging\<close>

text \<open>Processors as simple as the laws allow.\<close>

fun plain_processors :: processors where
  "plain_processors ctx c MergeContextvars d = ctx ++ d"
| "plain_processors ctx c AddLoggerName d = d(''logger'' \<mapsto> lc_logger c)"
| "plain_processors ctx c p d = d"

lemma plain_processors_lawful: "processor_laws plain_processors"
proof -
  have "plain_processors ctx c p d k = d k" if "p \<noteq> MergeContextvars" "k \<notin> touched p" for ctx c p d k
    using that by (cases p) auto
  then show ?thesis by (simp add: processor_laws_def)
qed

text \<open>Python's logging at the start of a process: WARNING on the root logger and no handler.\<close>

definition new_logging :: logging where
  "new_logging = \<lparr>lg_levels = (\<lambda>_. 0)([] := level_warning), lg_handlers = (\<lambda>_. []), lg_propagate = (\<lambda>_. True),
     lg_structlog = \<lparr>sc_processors = [], sc_logger_factory = [], sc_wrapper_class = [], sc_cache_logger_on_first_use = False\<rparr>\<rparr>"

text \<open>What uvicorn, which the README starts the application with, has made of it before it imports the application.\<close>

definition uvicorn_logging :: logging where
  "uvicorn_logging = new_logging\<lparr>
     lg_levels := (lg_levels new_logging)(''uvicorn'' := 20, ''uvicorn.error'' := 20, ''uvicorn.access'' := 20),
     lg_handlers := (\<lambda>_. [])(''uvicorn'' := [ForeignHandler ''default''], ''uvicorn.access'' := [ForeignHandler ''access'']),
     lg_propagate := (\<lambda>_. True)(''uvicorn'' := False, ''uvicorn.access'' := False)\<rparr>"

text \<open>C37: What a log call writes after \<open>setup_logging\<close>, which no setting makes fail. For a logger that nobody else has
  configured, as the application's own are also under uvicorn: below its threshold nothing, and otherwise one
  line for each handler the root had before and then one line more, rendered as the settings say; the threshold is the
  configured level, but WARNING for the two quiet loggers and the loggers below them. During a request the line carries
  the id that the client sent or that was drawn for the request, and nothing else of any other context. The two
  quiet loggers themselves write nothing below WARNING, whatever else has been configured on them. (That the response
  carries the same id, unless an unhandled exception ended the request, is \<open>request_id_exact\<close>.)\<close>

theorem log_lines_exact:
  assumes "processor_laws run" and "plain_logger g0 (lc_logger c)" and "lc_event c ''request_id'' = None"
    and "setup_logging (log_level_value (os_log_level obs)) (os_log_format obs = JsonLogs) g0 = (x, g)"
  shows "x = Inr () \<and>
    (if lc_level c < log_threshold obs (lc_logger c) then log_lines run g (request_context given fresh ctx) c = []
     else \<exists>before dict. log_lines run g (request_context given fresh ctx) c =
         before @ [Line (log_renderer (os_log_format obs = JsonLogs)) dict] \<and>
       length before = length (lg_handlers g0 []) \<and>
       dict ''request_id'' = Some (case given of Some i \<Rightarrow> i | None \<Rightarrow> uuid_str fresh) \<and>
       dict ''logger'' = Some (lc_logger c) \<and>
       (\<forall>k. k \<notin> {''request_id'', ''level'', ''logger'', ''timestamp'', ''exc_info'', ''exception'', ''_record'', ''_from_structlog''} \<longrightarrow>
          dict k = lc_event c k)) \<and>
    (\<forall>q. lc_logger q \<in> {''sqlalchemy.engine'', ''uvicorn.access''} \<and> lc_level q < level_warning \<longrightarrow> log_lines run g ctx' q = [])"
proof -
  let ?r = "log_renderer (os_log_format obs = JsonLogs)" and ?ctx = "request_context given fresh ctx"
  have g: "x = Inr ()" "g = logging_result obs g0" using assms(4) by (simp_all add: setup_logging_run)
  have r: "?r = JSONRenderer \<or> ?r = ConsoleRenderer True" by (simp add: log_renderer_def)
  note keys = line_dict_keys [OF assms(1) r, where ctx = ?ctx and c = c]
  have id: "line_dict run ?ctx c ?r ''request_id'' = Some (case given of Some i \<Rightarrow> i | None \<Rightarrow> uuid_str fresh)"
    using keys(2) [of "''request_id''"] assms(3) by (simp add: map_add_def request_context_def)
  have other: "line_dict run ?ctx c ?r k = lc_event c k"
    if "k \<notin> {''request_id'', ''level'', ''logger'', ''timestamp'', ''exc_info'', ''exception'', ''_record'', ''_from_structlog''}" for k
    using keys(2) [of k] that by (simp add: map_add_def request_context_def split: option.splits)
  have quiet: "log_lines run g ctx' q = []"
    if "lc_logger q \<in> {''sqlalchemy.engine'', ''uvicorn.access''}" "lc_level q < level_warning" for q
    using result_quiet [of "lc_logger q" obs g0] that g(2) by (simp add: log_lines_def)
  show ?thesis
  proof (cases "lc_level c < log_threshold obs (lc_logger c)")
    case True
    with result_level [OF assms(2), of obs] g quiet show ?thesis by (simp add: log_lines_def)
  next
    case False
    from result_lines [OF assms(1,2) False, of ?ctx] g quiet id other keys(1) False show ?thesis by auto
  qed
qed

lemma log_lines_exact_witness:
  "\<exists>dict g. setup_logging ''INFO'' True uvicorn_logging = (Inr (), g) \<and>
    log_lines plain_processors g (request_context (Some ''r1'') (uid 1) Map.empty)
      \<lparr>lc_logger = ''src.main'', lc_level = 20, lc_event = [''event'' \<mapsto> ''application_started''], lc_structlog = True\<rparr> =
      [Line JSONRenderer dict] \<and> dict ''request_id'' = Some ''r1'' \<and> dict ''event'' = Some ''application_started'' \<and>
    log_lines plain_processors g Map.empty \<lparr>lc_logger = ''uvicorn.access'', lc_level = 20, lc_event = Map.empty, lc_structlog = False\<rparr> = []"
proof -
  let ?o = "\<lparr>os_log_level = LogInfo, os_log_format = JsonLogs\<rparr>"
    and ?c = "\<lparr>lc_logger = ''src.main'', lc_level = 20, lc_event = [''event'' \<mapsto> ''application_started''], lc_structlog = True\<rparr>"
  have "\<not> below n ''src.main''" if "n \<in> {''uvicorn'', ''uvicorn.error'', ''uvicorn.access''}" for n using that by (auto simp: below_def)
  then have plain: "plain_logger uvicorn_logging (lc_logger ?c)"
    by (auto simp: plain_logger_def uvicorn_logging_def new_logging_def)
  obtain x g where run: "setup_logging ''INFO'' True uvicorn_logging = (x, g)" by (rule prod.exhaust)
  have "\<not> below p ''src.main''" if "p \<in> set quiet_loggers" for p using that by (auto simp: below_def)
  then have "\<not> lc_level ?c < log_threshold ?o (lc_logger ?c)" by (auto simp: log_threshold_def level_number_def)
  with log_lines_exact [OF plain_processors_lawful plain, of ?o x g "Some ''r1''" "uid 1" Map.empty Map.empty] run
  show ?thesis
    by (fastforce simp: log_level_value_def log_renderer_def uvicorn_logging_def new_logging_def level_warning_def)
qed

section \<open>Start and stop\<close>

text \<open>The life of the process: logging is configured and the container wired before the first request, whatever the
  settings; when serving ends normally the Redis client is closed, if a transfer has opened it, and both log lines
  are written; an exception out of serving skips the shutdown, so that a client that is open stays open.\<close>

theorem lifespan_exact:
  assumes "serving (started S p) = (x, q)"
  shows "lifespan S serving p = (x, if isl x then q else q\<lparr>pr_redis := None,
      pr_logged := pr_logged q @ [main_call [''event'' \<mapsto> ''application_shutting_down'']]\<rparr>)"
  using assms
  by (cases x; cases "pr_redis q") (simp_all add: lifespan_def thenP_apply bindP_apply on_logging_def setup_logging_run
      wire_container_def main_log_def modifyP_apply shutdown_resources_def close_redis_def getP_apply returnP_apply started_def)

definition new_process :: process where
  "new_process = \<lparr>pr_logging = new_logging, pr_config = None, pr_wired = [], pr_redis = None, pr_logged = []\<rparr>"

lemma lifespan_exact_witness:
  "\<exists>q. lifespan settings_defaults (open_redis settings_defaults) new_process = (Inr (), q) \<and> pr_redis q = None \<and> length (pr_logged q) = 2"
proof -
  have "open_redis settings_defaults (started settings_defaults new_process) =
      (Inr (), (started settings_defaults new_process)\<lparr>pr_redis := Some (redis_client_arguments settings_defaults)\<rparr>)"
    by (simp add: open_redis_def modifyP_apply new_process_def started_def)
  from lifespan_exact [where serving = "open_redis settings_defaults", OF this] show ?thesis by (simp add: new_process_def started_def)
qed

section \<open>Migrations\<close>

text \<open>C34: \<open>alembic upgrade head\<close> through \<open>env.py\<close>, with any lawful Alembic: online it changes one database, the one the
  application's engine connects to, whatever URL \<open>alembic.ini\<close> has; an empty one gets exactly the tables and types the models
  declare, one that is up to date is left alone, and where a statement fails nothing at all is changed and the
  exception comes out; the connection is closed in every case. Offline no database is touched: the script is
  written instead.\<close>

theorem migrations_exact:
  assumes "alembic_laws refuse reachable P view" and "mw_connection (view d) = None" and "reachable (eo_url (build_engine S))"
  shows "(\<exists>x d'. run_env P S False d = (x, d') \<and> mw_connection (view d') = None \<and>
      (case upgrade_head refuse (mw_databases (view d) (eo_url (build_engine S))) of
          Inl e \<Rightarrow> x = Inl e \<and> mw_databases (view d') = mw_databases (view d)
        | Inr new \<Rightarrow> x = Inr () \<and> mw_databases (view d') = (mw_databases (view d))(eo_url (build_engine S) := new) \<and>
            mw_engine (view d') = None)) \<and>
    (\<exists>ts. upgrade_head refuse \<lparr>sd_schema = empty_schema, sd_revision = None\<rparr> =
        Inr \<lparr>sd_schema = \<lparr>sch_tables = ts, sch_types = model_types\<rparr>, sd_revision = Some revision\<rparr> \<and>
      list_all2 same_table ts (map declared [account_model, outbox_model, transaction_model])) \<and>
    upgrade_head refuse \<lparr>sd_schema = old, sd_revision = Some revision\<rparr> = Inr \<lparr>sd_schema = old, sd_revision = Some revision\<rparr> \<and>
    (\<exists>d'. run_env P S True d = (Inr (), d') \<and> mw_databases (view d') = mw_databases (view d) \<and>
      mw_script (view d') = mw_script (view d) @ upgrade \<and> mw_connection (view d') = None)"
proof -
  note sim = run_env_simulates [OF assms(1), THEN simulatesD, of S _ d]
  have url: "eo_url (build_engine S) = get_url S" by (simp add: build_engine_def get_url_def)
  obtain x d1 where on: "run_env P S False d = (x, d1)" by (rule prod.exhaust)
  obtain y d2 where off: "run_env P S True d = (y, d2)" by (rule prod.exhaust)
  have online: "mw_connection (view d1) = None \<and>
      (case upgrade_head refuse (mw_databases (view d) (get_url S)) of
          Inl e \<Rightarrow> x = Inl e \<and> mw_databases (view d1) = mw_databases (view d)
        | Inr new \<Rightarrow> x = Inr () \<and> mw_databases (view d1) = (mw_databases (view d))(get_url S := new) \<and> mw_engine (view d1) = None)"
    using reference_online [OF assms(2), of reachable S refuse] sim [of False] on assms(3)
    by (auto simp: Let_def url split: sum.splits)
  have "y = Inr () \<and> mw_databases (view d2) = mw_databases (view d) \<and> mw_script (view d2) = mw_script (view d) @ upgrade \<and>
      mw_connection (view d2) = None"
    using reference_offline [OF assms(2), of refuse reachable S] sim [of True] off assms(2) by auto
  moreover obtain ts where "run_migration upgrade empty_schema = Some \<lparr>sch_tables = ts, sch_types = model_types\<rparr>"
    and models: "list_all2 same_table ts (map declared [account_model, outbox_model, transaction_model])"
    by (rule upgrade_empty)
  then have "upgrade_head refuse \<lparr>sd_schema = empty_schema, sd_revision = None\<rparr> =
      Inr \<lparr>sd_schema = \<lparr>sch_tables = ts, sch_types = model_types\<rparr>, sd_revision = Some revision\<rparr>"
    by (simp add: upgrade_head_def)
  moreover have "upgrade_head refuse \<lparr>sd_schema = old, sd_revision = Some revision\<rparr> = Inr \<lparr>sd_schema = old, sd_revision = Some revision\<rparr>"
    by (simp add: upgrade_head_def)
  ultimately show ?thesis unfolding url using online on off models by blast
qed

definition empty_databases :: migration_world where
  "empty_databases = \<lparr>mw_section = Map.empty, mw_databases = (\<lambda>_. \<lparr>sd_schema = empty_schema, sd_revision = None\<rparr>), mw_script = [],
     mw_engine = None, mw_connection = None, mw_context = None, mw_work = None\<rparr>"

lemma empty_databases_simps [simp]:
  "mw_databases empty_databases url = \<lparr>sd_schema = empty_schema, sd_revision = None\<rparr>" "mw_connection empty_databases = None"
  by (simp_all add: empty_databases_def)

lemma migrations_exact_witness:
  "\<exists>w. run_env (reference_alembic (ValueErr ''refused'') (\<lambda>_. True)) settings_defaults False empty_databases = (Inr (), w) \<and>
    list_all2 same_table (sch_tables (sd_schema (mw_databases w (eo_url (build_engine settings_defaults)))))
      (map declared [account_model, outbox_model, transaction_model])"
proof -
  let ?R = "reference_alembic (ValueErr ''refused'') (\<lambda>_. True)" and ?url = "eo_url (build_engine settings_defaults)"
  have laws: "alembic_laws (ValueErr ''refused'') (\<lambda>_. True) ?R (\<lambda>w. w)"
    by (simp add: alembic_laws_def simulates_def) (simp add: reference_alembic_def)
  note exact = migrations_exact [OF laws, of empty_databases settings_defaults empty_schema, simplified empty_databases_simps, OF refl TrueI]
  obtain ts where ts: "upgrade_head (ValueErr ''refused'') \<lparr>sd_schema = empty_schema, sd_revision = None\<rparr> =
      Inr \<lparr>sd_schema = \<lparr>sch_tables = ts, sch_types = model_types\<rparr>, sd_revision = Some revision\<rparr>"
    "list_all2 same_table ts (map declared [account_model, outbox_model, transaction_model])"
    using exact by blast
  then obtain w where "run_env ?R settings_defaults False empty_databases = (Inr (), w)"
    "mw_databases w = (mw_databases empty_databases)(?url := \<lparr>sd_schema = \<lparr>sch_tables = ts, sch_types = model_types\<rparr>, sd_revision = Some revision\<rparr>)"
    using exact by auto
  with ts(2) show ?thesis by simp
qed

end
