(* ===== verification/Spec2Isabelle.thy ===== *)
theory Spec2Isabelle
  imports Domain_Properties Service_Properties Sql_Properties Lock_Properties Http_Properties Schema
    Equality Container_Properties Api_Properties System_Properties Layer_Properties Startup_Properties
begin

text \<open>
  A model of the banking transaction system in \<open>src/\<close> and the theorems that make it correct.

  \<^bold>\<open>The program.\<close> A hexagonal application. The domain (\<open>src/domain\<close>) has two aggregates, Account and Transaction, over
  the values Money, Currency and ids; they raise domain exceptions and record events. Two application services
  (\<open>src/application/services\<close>) open accounts and transfer money through three outbound ports: a unit of work with its
  repositories, a lock manager and an event bus. The adapters (\<open>src/adapters/outbound\<close>) provide them in memory, and
  over SQLAlchemy, Postgres and Redis; the container (\<open>src/infrastructure/containers\<close>) wires the services over the
  database unit of work, the Redis lock manager and the in-memory bus. The HTTP adapter (\<open>src/adapters/inbound/http\<close>)
  authenticates requests, calls the services and turns exceptions into responses. A transfer checks the idempotency
  key, takes the locks of both accounts in sorted order, loads both accounts, debits and credits them, stores the
  transaction, also a failed one, commits, releases the locks and publishes the events.

  \<^bold>\<open>How code becomes definitions.\<close> Exceptions are the values of \<open>exn\<close> and a call returns \<open>exn + 'a\<close>; code that changes
  state is a \<open>prog\<close>, a function from the state to a result and the new state (theory Prelude, with Python's \<open>try\<close>,
  \<open>with\<close> and \<open>for\<close>). Aggregates are records and live in a heap, because services and repositories share them by
  reference. A port is a record of operations. Time, uuids and random digits are read from an argument, \<open>readings\<close>.
  Names are those of the source; a repository's method has the prefix of its adapter, \<open>im_\<close> or \<open>sql_\<close>.

  \<^bold>\<open>Theories.\<close>
  \<^item> Prelude, Py_Strings, Py_Decimal: programs, Python's strings, and \<open>decimal.Decimal\<close> under the default context.
  \<^item> Identifiers, Enums, Exceptions, Money, Events, Account, Transaction: \<open>src/domain\<close>. Account_Spec has the abstract
    ledger that an account refines.
  \<^item> Ports: the dtos, the outbound ports, the world of a service and the contracts \<open>lock_manager\<close>, \<open>event_bus\<close> and
    \<open>account_store\<close> as locales. InMemory: the in-memory adapters, with the interpretations \<open>im_locks\<close>, \<open>im_bus\<close> and
    \<open>im_store\<close>. Mappers: rows and mappers. Postgres: the SQLAlchemy unit of work and the Postgres repositories over a
    session that is a parameter.
  \<^item> Services: AccountService and TransferService over any ports. Transfer_Run: what a transfer does in memory on every
    branch, and the abstract bank. Simulation: services over two units of work of which one simulates the other.
    Sql_Transfer: what a transfer does over the database on every branch.
  \<^item> Transfer_Steps: a transfer cut at its awaits on the unit of work (\<open>phase\<close>). Row_Locks: transfers interleaved over one
    database with the rows they lock (\<open>conc_step\<close>). Isolation: what a commit in between changes for a running transfer.
    Concurrent_Transfers, Concurrent_Bank: the invariant that makes them serializable, and the bank they leave.
    Row_Deadlock: two transfers that wait for each other's rows. Bank_System: the same transfers while accounts are opened
    and read in between (\<open>system_step\<close>).
  \<^item> RedisLock: the Redis lock manager over a client and a clock that are parameters, and a reference server.
    Lock_System: any number of transfers that interleave their steps at one server (\<open>lock_step\<close>).
    Two_Layers: the same transfers with their Redis locks and their rows in one model (\<open>layer_step\<close>).
  \<^item> Container: the wired services. Its locale \<open>quiet_lock\<close>, interpreted on the Redis lock manager and a consequence of
    \<open>lock_manager\<close>, carries the theorems from free locks to the Redis locks. Redis_Faults: a Redis client any of whose
    calls may raise, and the locks a transfer leaves with it. Engine: the arguments of the engine and
    the session factory, and \<open>get_db_session\<close>.
  \<^item> Event_Payload: a reader of JSON for the payloads of the outbox. Equality: \<open>==\<close> on the domain's objects.
    Settings, Environment: the configuration, and which variable or file each setting comes from.
  \<^item> Http, Api: authentication, schemas, endpoints (with Python's binding of arguments where a call gets it wrong) and
    exception handlers; the application from the request to the response. Schema: the tables and enumeration types as
    the models declare them and as the Alembic migration creates them. Migration_Runner: \<open>alembic/env.py\<close>. Logging: what
    \<open>setup_logging\<close> configures (levels, handlers, propagation) and what a log call then writes.
    Service_Logs: the transfer service and the authentication with their log calls. Startup: \<open>create_app\<close>, \<open>lifespan\<close> and
    the Redis client.
  \<^item> Samples: the values the witnesses are evaluated on. The properties, each with a witness, are in Domain_Properties,
    Service_Properties, Sql_Properties, Concurrent_Properties, System_Properties, Lock_Properties, Layer_Properties,
    Container_Properties, Http_Properties, Api_Properties, Startup_Properties, Schema.

  \<^bold>\<open>What the lemmas show.\<close>
  \<^item> Values: amounts round half up to cents, are never negative and add exactly up to 28 digits; a subtraction is exact
    or refused; ids and decimals survive their texts; enumerations parse exactly their own texts; the payload of an event
    determines it.
  \<^item> Aggregates: an account refines a ledger of whole cents over every run of calls, refusals included, and its events
    replay to its state; the life cycle of a transaction is exactly the documented one, but that every failed transaction
    can be marked as rolled back.
  \<^item> Transfers in memory: a transfer implements the abstract bank on every branch, conserves money, is idempotent,
    stores refusals, publishes its events in order; so does every sequence of transfers.
  \<^item> Transfers over the database: for every lawful session a transfer implements the transactional bank, or its commit
    is refused and nothing is stored; no outcome makes or loses money; two lawful sessions cannot be told apart.
  \<^item> Transfers at the same time: however the awaits of any number of transfers interleave, with accounts opened and read in
    between and with no help from the Redis locks, the stored rows and all answers are those of one call after the other;
    only openings add money, a key is executed once, every run ends within ten steps per transfer, who waits waits for
    a transfer not yet answered, and without a cycle of directions nobody has to be cancelled; transfers on different
    accounts never wait; two crossing transfers can deadlock in the database, which cancels one.
  \<^item> Locks: acquiring returns although its loop has no bound; transfers cannot deadlock, from every reachable state all
    can finish within one retry interval; no two transfers hold the same lock while no lock outlives its time to live;
    a transfer leaves no lock behind but where a call of the Redis client failed, and such a lock expires within its
    time to live. Both layers together: while no lock outlives its time to live nothing ever waits for
    a row, and also when one does, one retry interval is enough for every transfer to answer.
  \<^item> The application: transfers of the wired service implement the transactional bank or store nothing; of two racing
    requests with the same key only one moves money; a request is authenticated exactly in development, which is where an unset \<open>APP_ENV\<close> puts it; over
    any sequence of requests the bank only gains accounts of authenticated users; an account is shown to its owner only;
    migration and models agree, but the downgrade leaves the enumeration types behind, and the
    migration runner changes the application's database only, completely or not at all; log lines carry the id
    of the request, and the log calls of a transfer change nothing and tell its result.
  \<^item> Where the code does not do what its comments say, a theorem shows what it does: a refused credit in memory, the
    outbox of a refused credit, events that never reach the outbox, a transfer to the same account, a lock released by
    somebody else or left after a failed \<open>DEL\<close>, the transfer endpoint, request ids, a migration that cannot be repeated.

  \<^bold>\<open>Bounds.\<close> There is no fuel; \<open>run_phases\<close> counts the steps of a transfer, and nine are proved enough. \<open>acquire_loop\<close> is a partial function and is proved to return when a sleep takes its time,
  with the remaining wait as measure. Times of the lock manager are whole nanoseconds, so the rounding of the clock's
  floats is left out. Integers of the code are unbounded; decimals have Python's 28 digits and exponent range, columns
  19 digits of which four after the point; uuids are 128-bit words.

  \<^bold>\<open>Third-party code.\<close> The SQLAlchemy session (\<open>session_laws\<close>), the database under concurrent transactions (\<open>server_laws\<close>: READ
  COMMITTED, the default; \<open>FOR UPDATE\<close> holds its row to the end of the transaction; a waiting statement may be
  cancelled), the Redis client with the event loop's clock (\<open>clock_laws\<close>), structlog's processors (\<open>processor_laws\<close>) and Alembic (\<open>alembic_laws\<close>)
  are parameters with named laws, each satisfied by a reference instance. Redis locks do not satisfy
  \<open>lock_manager\<close>: they expire, and are keys with a prefix on a server that others use too. What FastAPI and pydantic make
  of a request is an argument of the endpoints; requests they refuse never reach the modelled code.

  \<^bold>\<open>Not modelled.\<close> Serving sockets and matching paths, which is FastAPI's, and the
  building of each object once, which is the container library's; the cancellation of a request's task; the hash and the debugging texts (\<open>__repr__\<close>) of objects, which no modelled code calls. In the
  interleaved models the publishing of events is not a step, and the opening of an account is one step, because its only
  statements before the commit select and insert a row with a new id.
\<close>

end
